(* ===== verification/Prelude.thy ===== *)
theory Prelude
  imports
    Main
    "HOL-Library.Word"
    "HOL-Library.Multiset"
    "HOL-Library.Monad_Syntax"
    "HOL-Library.AList"
    "HOL-Library.Char_ord"
    "HOL-Library.List_Lexorder"
begin

text \<open>
  What every component shares: the machine integers of the source and the operations of
  the Rust standard library on them, instants and durations, hash maps as association
  lists, and the collections of facts the component proofs use.

  Conventions of the whole library:
  \<^item> \<open>u64\<close> and \<open>u32\<close> are words of that width; \<open>usize\<close> values that count elements held in
    memory are natural numbers;
  \<^item> an \<open>Instant\<close> is the number of nanoseconds since the start of the monotonic clock and a
    \<open>Duration\<close> a number of nanoseconds;
  \<^item> a call that can panic (\<open>expect\<close> on an exhausted counter, a failed \<open>assert!\<close>) returns an
    \<open>option\<close>, and \<open>None\<close> is the panic. The state a panicking call leaves behind is not
    modelled;
  \<^item> a \<open>HashMap\<close> is an association list whose keys are distinct. The iteration order of
    the list stands for the unspecified iteration order of the hash map.
\<close>

named_theorems rust_arith \<open>unfolding and bounds of the integer operations of the standard library\<close>
named_theorems slot_ops \<open>the operations of a backend slot\<close>
named_theorems live_ops \<open>the operations on the live routing view of one backend\<close>

type_synonym u32 = "32 word"
type_synonym u64 = "64 word"
type_synonym instant = nat
type_synonym duration = nat
type_synonym ('k, 'v) hashmap = "('k \<times> 'v) list"

subsection \<open>Integer operations of the standard library\<close>

definition checked_add :: "'a::len word \<Rightarrow> 'a word \<Rightarrow> 'a word option" where
  "checked_add a b = (if unat a + unat b < 2 ^ LENGTH('a) then Some (a + b) else None)"

definition saturating_add :: "'a::len word \<Rightarrow> 'a word \<Rightarrow> 'a word" where
  "saturating_add a b = (if unat a + unat b < 2 ^ LENGTH('a) then a + b else - 1)"

definition saturating_sub :: "'a::len word \<Rightarrow> 'a word \<Rightarrow> 'a word" where
  "saturating_sub a b = (if b \<le> a then a - b else 0)"

definition saturating_duration_since :: "instant \<Rightarrow> instant \<Rightarrow> duration" where
  "saturating_duration_since now earlier = now - earlier"

text \<open>\<open>Duration::from_millis\<close>, and \<open>as_millis().try_into().unwrap_or(u64::MAX)\<close>.\<close>

definition from_millis :: "u64 \<Rightarrow> duration" where
  "from_millis ms = unat ms * 1000000"

definition as_millis_u64 :: "duration \<Rightarrow> u64" where
  "as_millis_u64 d = (if d div 1000000 < 2 ^ 64 then of_nat (d div 1000000) else - 1)"

lemma checked_add_Some_unat [rust_arith]:
  "checked_add a b = Some c \<Longrightarrow> unat c = unat a + unat b"
  by (auto simp: checked_add_def unat_word_ariths split: if_splits)

lemma checked_add_eq_Some:
  fixes a b :: "'a::len word"
  shows "unat a + unat b < 2 ^ LENGTH('a) \<Longrightarrow> checked_add a b = Some (a + b)"
  by (simp add: checked_add_def)

lemma checked_add_one_less:
  fixes a :: u64
  shows "checked_add a 1 = Some b \<Longrightarrow> a < b"
  by (drule checked_add_Some_unat) (simp add: word_less_nat_alt)

lemma unat_saturating_add [rust_arith]:
  fixes a b :: "'a::len word"
  shows "unat (saturating_add a b) = min (unat a + unat b) (2 ^ LENGTH('a) - 1)"
proof (cases "unat a + unat b < 2 ^ LENGTH('a)")
  case True
  then show ?thesis by (auto simp: saturating_add_def unat_word_ariths)
next
  case False
  have "unat (- 1 :: 'a word) = 2 ^ LENGTH('a) - 1"
    by (simp add: unsigned_minus_1_eq_mask mask_eq_exp_minus_1)
  with False show ?thesis by (auto simp: saturating_add_def)
qed

lemma unat_saturating_sub [rust_arith]:
  "unat (saturating_sub a b) = unat a - unat b"
  by (auto simp: saturating_sub_def unat_sub word_le_nat_alt)

subsection \<open>Association lists as hash maps\<close>

definition hget :: "('k, 'v) hashmap \<Rightarrow> 'k \<Rightarrow> 'v option" where
  "hget m k = map_of m k"

definition hset :: "'k \<Rightarrow> 'v \<Rightarrow> ('k, 'v) hashmap \<Rightarrow> ('k, 'v) hashmap" where
  "hset k v m = AList.update k v m"

definition hdel :: "'k \<Rightarrow> ('k, 'v) hashmap \<Rightarrow> ('k, 'v) hashmap" where
  "hdel k m = AList.delete k m"

definition hcontains :: "('k, 'v) hashmap \<Rightarrow> 'k \<Rightarrow> bool" where
  "hcontains m k \<longleftrightarrow> map_of m k \<noteq> None"

abbreviation keys_of :: "('k, 'v) hashmap \<Rightarrow> 'k list" where
  "keys_of m \<equiv> map fst m"

lemma hget_Nil [simp]: "hget [] k = None"
  by (simp add: hget_def)

lemma hget_Cons [simp]: "hget ((a, b) # m) k = (if k = a then Some b else hget m k)"
  by (simp add: hget_def)

lemma hget_hset [simp]: "hget (hset k v m) k' = (if k' = k then Some v else hget m k')"
  by (simp add: hget_def hset_def update_conv')

lemma hget_hdel [simp]: "hget (hdel k m) k' = (if k' = k then None else hget m k')"
  by (simp add: hget_def hdel_def delete_conv')

lemma hcontains_iff: "hcontains m k \<longleftrightarrow> k \<in> set (keys_of m)"
  by (simp add: hcontains_def map_of_eq_None_iff)

lemma hcontains_hget: "hcontains m k \<longleftrightarrow> hget m k \<noteq> None"
  by (simp add: hcontains_def hget_def)

lemma hget_None_iff: "hget m k = None \<longleftrightarrow> k \<notin> set (keys_of m)"
  by (simp add: hget_def map_of_eq_None_iff)

lemma hget_SomeD: "hget m k = Some v \<Longrightarrow> (k, v) \<in> set m"
  by (simp add: hget_def map_of_SomeD)

lemma hget_Some_key: "hget m k = Some v \<Longrightarrow> k \<in> fst ` set m"
  by (force dest: hget_SomeD)

lemma hget_Some_iff: "distinct (keys_of m) \<Longrightarrow> hget m k = Some v \<longleftrightarrow> (k, v) \<in> set m"
  by (simp add: hget_def)

lemma hset_new: "k \<notin> set (keys_of m) \<Longrightarrow> hset k v m = m @ [(k, v)]"
  unfolding hset_def by (induction m) auto

lemma hget_append: "hget (m @ n) k = (case hget m k of Some v \<Rightarrow> Some v | None \<Rightarrow> hget n k)"
  by (induction m) auto

lemma keys_hset [simp]: "set (keys_of (hset k v m)) = insert k (set (keys_of m))"
  by (simp add: hset_def dom_map_of_conv_image_fst [symmetric] update_conv' insert_absorb)

lemma distinct_hset [simp]: "distinct (keys_of m) \<Longrightarrow> distinct (keys_of (hset k v m))"
  by (simp add: hset_def distinct_update)

lemma distinct_hdel [simp]: "distinct (keys_of m) \<Longrightarrow> distinct (keys_of (hdel k m))"
  by (simp add: hdel_def distinct_delete)

lemma hget_map_values:
  "hget (map (\<lambda>(k, v). (k, f k v)) m) k = map_option (f k) (hget m k)"
  by (induction m) auto

lemma keys_map_values [simp]: "keys_of (map (\<lambda>(k, v). (k, f k v)) m) = keys_of m"
  by (induction m) auto

lemma hget_filter_keys:
  "hget (filter (\<lambda>(k, v). P k) m) k = (if P k then hget m k else None)"
  by (induction m) auto

lemma distinct_keys_filter: "distinct (keys_of m) \<Longrightarrow> distinct (keys_of (filter P m))"
  by (simp add: distinct_map_filter)

subsection \<open>Running a list of calls that may panic\<close>

fun run_all :: "('a \<Rightarrow> 's \<Rightarrow> 's option) \<Rightarrow> 'a list \<Rightarrow> 's \<Rightarrow> 's option" where
  "run_all f [] s = Some s"
| "run_all f (x # xs) s = Option.bind (f x s) (run_all f xs)"

lemma run_all_append: "run_all f (xs @ ys) s = Option.bind (run_all f xs s) (run_all f ys)"
  by (induction xs arbitrary: s) (auto split: bind_splits)

lemma run_all_invariant:
  assumes "\<And>x s t. x \<in> set xs \<Longrightarrow> f x s = Some t \<Longrightarrow> P s \<Longrightarrow> P t"
    and "run_all f xs s = Some t" and "P s"
  shows "P t"
  using assms
proof (induction xs arbitrary: s)
  case Nil
  then show ?case by simp
next
  case (Cons x xs)
  from Cons.prems(2) obtain u where u: "f x s = Some u" and r: "run_all f xs u = Some t"
    by (auto split: bind_splits)
  have "P u" using Cons.prems(1) [OF _ u] Cons.prems(3) by simp
  show ?case
  proof (rule Cons.IH [OF _ r \<open>P u\<close>])
    fix y s t
    assume "y \<in> set xs" "f y s = Some t" "P s"
    then show "P t" using Cons.prems(1) [of y s t] by simp
  qed
qed

end
