(* ===== verification/Float64.thy ===== *)
theory Float64
  imports Complex_Main Prelude "HOL-Library.Log_Nat"
begin

text \<open>
  The \<open>f64\<close> arithmetic of the source: IEEE 754 binary64 with rounding to nearest, ties to
  even. A finite value is the rational number it denotes, so every operation is the exact
  rational operation followed by one rounding. The sign of a zero and the payload of a NaN
  are not represented: the program compares with \<open><\<close>, \<open><=\<close> and \<open>==\<close>, which do not see them,
  and applies \<open>total_cmp\<close> only to pressures, which are sums that start from a positive zero
  or more.
\<close>

subsection \<open>Rounding\<close>

definition round_half_even :: "rat \<Rightarrow> int" where
  "round_half_even x =
     (let f = \<lfloor>x\<rfloor>; r = x - of_int f in
      if r < 1/2 then f else if 1/2 < r then f + 1 else if even f then f else f + 1)"

text \<open>The binary exponent of a positive rational: \<open>2\<^sup>e \<le> x < 2\<^sup>e\<^sup>+\<^sup>1\<close>.\<close>

definition ilog2 :: "rat \<Rightarrow> int" where
  "ilog2 x =
     (let (p, q) = quotient_of x; d = bitlen p - bitlen q in
      if 2 powi d \<le> x then d else d - 1)"

definition quantum :: "rat \<Rightarrow> int" where
  "quantum x = max (- 1074) (ilog2 x - 52)"

definition rnd_pos :: "rat \<Rightarrow> rat" where
  "rnd_pos x =
     (if x = 0 then 0
      else of_int (round_half_even (x / 2 powi quantum x)) * 2 powi quantum x)"

definition rnd :: "rat \<Rightarrow> rat" where
  "rnd x = (if x < 0 then - rnd_pos (- x) else rnd_pos x)"

subsection \<open>Values and operations\<close>

datatype f64 = NaN | Infinity (negative: bool) | Finite (value_of: rat)

definition to_f64 :: "rat \<Rightarrow> f64" where
  "to_f64 x = (let y = rnd x in if 2 ^ 1024 \<le> \<bar>y\<bar> then Infinity (y < 0) else Finite y)"

fun is_finite :: "f64 \<Rightarrow> bool" where
  "is_finite (Finite x) = True"
| "is_finite _ = False"

fun f64_neg :: "f64 \<Rightarrow> f64" where
  "f64_neg NaN = NaN"
| "f64_neg (Infinity s) = Infinity (\<not> s)"
| "f64_neg (Finite x) = Finite (- x)"

fun f64_add :: "f64 \<Rightarrow> f64 \<Rightarrow> f64" where
  "f64_add (Finite x) (Finite y) = to_f64 (x + y)"
| "f64_add NaN b = NaN"
| "f64_add a NaN = NaN"
| "f64_add (Infinity s) (Infinity t) = (if s = t then Infinity s else NaN)"
| "f64_add (Infinity s) (Finite y) = Infinity s"
| "f64_add (Finite x) (Infinity t) = Infinity t"

definition f64_sub :: "f64 \<Rightarrow> f64 \<Rightarrow> f64" where
  "f64_sub a b = f64_add a (f64_neg b)"

fun f64_mul :: "f64 \<Rightarrow> f64 \<Rightarrow> f64" where
  "f64_mul (Finite x) (Finite y) = to_f64 (x * y)"
| "f64_mul NaN b = NaN"
| "f64_mul a NaN = NaN"
| "f64_mul (Infinity s) (Infinity t) = Infinity (s \<noteq> t)"
| "f64_mul (Infinity s) (Finite y) = (if y = 0 then NaN else Infinity (s \<noteq> (y < 0)))"
| "f64_mul (Finite x) (Infinity t) = (if x = 0 then NaN else Infinity (t \<noteq> (x < 0)))"

text \<open>A zero divisor is taken as the positive zero.\<close>

fun f64_div :: "f64 \<Rightarrow> f64 \<Rightarrow> f64" where
  "f64_div (Finite x) (Finite y) =
     (if y = 0 then (if x = 0 then NaN else Infinity (x < 0)) else to_f64 (x / y))"
| "f64_div NaN b = NaN"
| "f64_div a NaN = NaN"
| "f64_div (Infinity s) (Infinity t) = NaN"
| "f64_div (Infinity s) (Finite y) = Infinity (s \<noteq> (y < 0))"
| "f64_div (Finite x) (Infinity t) = Finite 0"

fun f64_lt :: "f64 \<Rightarrow> f64 \<Rightarrow> bool" where
  "f64_lt (Finite x) (Finite y) = (x < y)"
| "f64_lt NaN b = False"
| "f64_lt a NaN = False"
| "f64_lt (Infinity s) (Infinity t) = (s \<and> \<not> t)"
| "f64_lt (Infinity s) (Finite y) = s"
| "f64_lt (Finite x) (Infinity t) = (\<not> t)"

definition f64_eq :: "f64 \<Rightarrow> f64 \<Rightarrow> bool" where
  "f64_eq a b \<longleftrightarrow> a \<noteq> NaN \<and> b \<noteq> NaN \<and> a = b"

definition f64_le :: "f64 \<Rightarrow> f64 \<Rightarrow> bool" where
  "f64_le a b \<longleftrightarrow> f64_lt a b \<or> f64_eq a b"

text \<open>\<open>f64::max\<close> ignores a NaN argument; \<open>clamp\<close> compares with the bounds in turn.\<close>

definition f64_max :: "f64 \<Rightarrow> f64 \<Rightarrow> f64" where
  "f64_max a b = (if a = NaN then b else if b = NaN then a else if f64_lt a b then b else a)"

definition f64_clamp :: "f64 \<Rightarrow> f64 \<Rightarrow> f64 \<Rightarrow> f64" where
  "f64_clamp x lo hi =
     (let y = (if f64_lt x lo then lo else x) in if f64_lt hi y then hi else y)"

text \<open>The total order of \<open>total_cmp\<close>, with NaN above everything.\<close>

fun f64_total_le :: "f64 \<Rightarrow> f64 \<Rightarrow> bool" where
  "f64_total_le a NaN = True"
| "f64_total_le NaN b = False"
| "f64_total_le a b = (a = b \<or> f64_lt a b)"

definition u64_as_f64 :: "u64 \<Rightarrow> f64" where
  "u64_as_f64 w = to_f64 (of_nat (unat w))"

text \<open>The saturating cast \<open>as u64\<close>.\<close>

fun f64_as_u64 :: "f64 \<Rightarrow> u64" where
  "f64_as_u64 NaN = 0"
| "f64_as_u64 (Infinity s) = (if s then 0 else - 1)"
| "f64_as_u64 (Finite x) =
     (if x < 0 then 0 else if 2 ^ 64 \<le> x then - 1 else of_int \<lfloor>x\<rfloor>)"

text \<open>\<open>fract\<close>: the value minus its truncation towards zero.\<close>

fun f64_fract :: "f64 \<Rightarrow> f64" where
  "f64_fract (Finite x) = Finite (x - of_int (if x < 0 then \<lceil>x\<rceil> else \<lfloor>x\<rfloor>))"
| "f64_fract _ = NaN"

subsection \<open>Lemmas on rounding\<close>

lemma round_half_even_of_int [simp]: "round_half_even (of_int n) = n"
  by (simp add: round_half_even_def)

lemma round_half_even_bounds: "\<lfloor>x\<rfloor> \<le> round_half_even x \<and> round_half_even x \<le> \<lfloor>x\<rfloor> + 1"
  by (simp add: round_half_even_def Let_def)

lemma round_half_even_mono:
  assumes "x \<le> y"
  shows "round_half_even x \<le> round_half_even y"
proof (cases "\<lfloor>x\<rfloor> = \<lfloor>y\<rfloor>")
  case True
  with assms show ?thesis by (auto simp: round_half_even_def Let_def)
next
  case False
  then have "\<lfloor>x\<rfloor> + 1 \<le> \<lfloor>y\<rfloor>" using floor_mono [OF assms] by linarith
  then show ?thesis using round_half_even_bounds [of x] round_half_even_bounds [of y] by linarith
qed

lemma pow2_pos [simp]: "0 < (2 :: rat) powi k"
  by (simp add: zero_less_power_int)

lemma pow2_add: "(2 :: rat) powi (a + b) = 2 powi a * 2 powi b"
  by (simp add: power_int_add)

lemma pow2_mono: "a \<le> b \<Longrightarrow> (2 :: rat) powi a \<le> 2 powi b"
  by (rule power_int_increasing) auto

lemma pow2_less_cancel: "(2 :: rat) powi a < 2 powi b \<Longrightarrow> a < b"
  using pow2_mono [of b a] by linarith

lemma pow2_of_int: "0 \<le> k \<Longrightarrow> (2 :: rat) powi k = of_int (2 ^ nat k)"
  by (simp add: power_int_def)

lemma pow2_grid:
  assumes "q \<le> k"
  shows "(2 :: rat) powi k = of_int (2 ^ nat (k - q)) * 2 powi q"
proof -
  have "(2 :: rat) powi k = 2 powi (k - q) * 2 powi q" by (simp add: pow2_add [symmetric])
  then show ?thesis using assms pow2_of_int [of "k - q"] by simp
qed

lemma bitlen_rat_bounds:
  assumes "0 < n"
  shows "2 powi (bitlen n - 1) \<le> (of_int n :: rat) \<and> (of_int n :: rat) < 2 powi bitlen n"
proof -
  have "2 ^ nat (bitlen n - 1) \<le> n \<and> n < 2 ^ nat (bitlen n)"
    using bitlen_bounds [OF assms] .
  moreover have "0 < bitlen n" 
    using assms bitlen_nonneg [of n] bitlen_eq_zero_iff [of n] by linarith
  ultimately show ?thesis
    by (simp add: pow2_of_int del: of_int_power)
qed

lemma ilog2_bounds:
  assumes "0 < x"
  shows "2 powi ilog2 x \<le> x \<and> x < 2 powi (ilog2 x + 1)"
proof -
  obtain p q where pq: "quotient_of x = (p, q)" by fastforce
  have q: "0 < q" using quotient_of_denom_pos [OF pq] .
  have x: "x = of_int p / of_int q" using quotient_of_div [OF pq] .
  have p: "0 < p" using assms q x by (simp add: zero_less_divide_iff)
  let ?d = "bitlen p - bitlen q"
  note bp = bitlen_rat_bounds [OF p] and bq = bitlen_rat_bounds [OF q]
  have qpos: "(0 :: rat) < of_int q" using q by simp
  have "(of_int p :: rat) < 2 powi (?d + 1) * 2 powi (bitlen q - 1)"
    using bp by (simp add: pow2_add [symmetric])
  also have "\<dots> \<le> 2 powi (?d + 1) * of_int q"
    using bq by (intro mult_left_mono) (auto simp: less_imp_le)
  finally have up: "x < 2 powi (?d + 1)" using qpos by (simp add: x pos_divide_less_eq)
  have "(2 :: rat) powi (?d - 1) * of_int q \<le> 2 powi (?d - 1) * 2 powi bitlen q"
    using bq by (intro mult_left_mono) (auto simp: less_imp_le)
  also have "\<dots> = (2 :: rat) powi (bitlen p - 1)" by (simp add: pow2_add [symmetric])
  also have "\<dots> \<le> of_int p" using bp by simp
  finally have "2 powi (?d - 1) \<le> x" using qpos by (simp add: x pos_le_divide_eq)
  with up show ?thesis by (simp add: ilog2_def pq Let_def)
qed

lemma ilog2_mono:
  assumes "0 < x" and "x \<le> y"
  shows "ilog2 x \<le> ilog2 y"
proof -
  have "2 powi ilog2 x \<le> x" and "y < 2 powi (ilog2 y + 1)"
    using ilog2_bounds [OF assms(1)] ilog2_bounds [of y] assms by auto
  then have "(2 :: rat) powi ilog2 x < 2 powi (ilog2 y + 1)" using assms(2) by linarith
  then show ?thesis using pow2_less_cancel by fastforce
qed

text \<open>A power of two on the grid of \<open>x\<close> bounds the rounding of \<open>x\<close>.\<close>

lemma rnd_pos_le_pow2:
  assumes "0 < x" and "x \<le> 2 powi k" and "quantum x \<le> k"
  shows "rnd_pos x \<le> 2 powi k"
proof -
  let ?q = "quantum x"
  note grid = pow2_grid [OF assms(3)]
  have "x / 2 powi ?q \<le> of_int (2 ^ nat (k - ?q))"
    using assms(2) unfolding grid by (simp add: pos_divide_le_eq)
  then have "round_half_even (x / 2 powi ?q) \<le> 2 ^ nat (k - ?q)"
    using round_half_even_mono round_half_even_of_int by metis
  then show ?thesis
    using assms(1) unfolding grid rnd_pos_def by (simp add: mult_right_mono del: of_int_power)
qed

lemma pow2_le_rnd_pos:
  assumes "0 < x" and "2 powi k \<le> x" and "quantum x \<le> k"
  shows "2 powi k \<le> rnd_pos x"
proof -
  let ?q = "quantum x"
  note grid = pow2_grid [OF assms(3)]
  have "of_int (2 ^ nat (k - ?q)) \<le> x / 2 powi ?q"
    using assms(2) unfolding grid by (simp add: pos_le_divide_eq)
  then have "2 ^ nat (k - ?q) \<le> round_half_even (x / 2 powi ?q)"
    using round_half_even_mono round_half_even_of_int by metis
  then show ?thesis
    using assms(1) unfolding grid rnd_pos_def by (simp add: mult_right_mono del: of_int_power)
qed

lemma rnd_pos_nonneg: "0 \<le> x \<Longrightarrow> 0 \<le> rnd_pos x"
proof -
  assume "0 \<le> x"
  then have "round_half_even 0 \<le> round_half_even (x / 2 powi quantum x)"
    by (intro round_half_even_mono) (simp add: less_imp_le)
  then have "0 \<le> round_half_even (x / 2 powi quantum x)"
    using round_half_even_of_int [of 0] by simp
  then show ?thesis by (simp add: rnd_pos_def less_imp_le)
qed

lemma rnd_pos_mono:
  assumes "0 \<le> x" and "x \<le> y"
  shows "rnd_pos x \<le> rnd_pos y"
proof (cases "x = 0")
  case True
  then show ?thesis using rnd_pos_nonneg [of y] assms by (simp add: rnd_pos_def)
next
  case False
  then have x: "0 < x" and y: "0 < y" using assms by auto
  have le: "quantum x \<le> quantum y" using ilog2_mono [OF x assms(2)] by (simp add: quantum_def)
  show ?thesis
  proof (cases "quantum x = quantum y")
    case True
    have "x / 2 powi quantum y \<le> y / 2 powi quantum y"
      using assms(2) by (simp add: divide_right_mono less_imp_le)
    then show ?thesis
      using True x y by (simp add: rnd_pos_def mult_right_mono round_half_even_mono less_imp_le)
  next
    case neq: False
    then have qy: "quantum y = ilog2 y - 52" and ex: "ilog2 x + 1 \<le> ilog2 y"
      using le by (auto simp: quantum_def)
    have "x \<le> 2 powi ilog2 y"
      using ilog2_bounds [OF x] pow2_mono [OF ex] by linarith
    then have "rnd_pos x \<le> 2 powi ilog2 y" using rnd_pos_le_pow2 [OF x] le qy by simp
    also have "\<dots> \<le> rnd_pos y" using pow2_le_rnd_pos [OF y] ilog2_bounds [OF y] qy by simp
    finally show ?thesis .
  qed
qed

lemma rnd_mono: "x \<le> y \<Longrightarrow> rnd x \<le> rnd y"
  using rnd_pos_mono [of x y] rnd_pos_mono [of "- y" "- x"] rnd_pos_nonneg [of y]
    rnd_pos_nonneg [of "- x"] by (auto simp: rnd_def)


lemma rnd_0 [simp]: "rnd 0 = 0"
  by (simp add: rnd_def rnd_pos_def)

lemma rnd_of_nat:
  assumes "n \<le> 2 ^ 53"
  shows "rnd (of_nat n) = of_nat n"
proof (cases "n = 0")
  case True
  then show ?thesis by simp
next
  case False
  let ?x = "of_nat n :: rat"
  have x: "0 < ?x" using False by simp
  have top: "?x \<le> 2 powi 53" using assms of_nat_mono [of n "2 ^ 53", where 'a = rat] by simp
  then have e: "ilog2 ?x \<le> 53"
  proof -
    have "(2 :: rat) powi 53 < 2 powi 54" by (simp add: power_int_def)
    then have "(2 :: rat) powi ilog2 ?x < 2 powi 54"
      using ilog2_bounds [OF x] top by linarith
    then show ?thesis using pow2_less_cancel by fastforce
  qed
  have "\<exists>m. ?x = of_int m * 2 powi quantum ?x"
  proof (cases "ilog2 ?x = 53")
    case True
    then have "?x = 2 powi 53" using ilog2_bounds [OF x] top by simp
    moreover have "quantum ?x = 1" using True by (simp add: quantum_def)
    moreover have "(2 :: rat) powi 53 = of_int (2 ^ 52) * 2 powi 1" by (simp add: power_int_def)
    ultimately show ?thesis by metis
  next
    case False
    then have "quantum ?x \<le> 0" using e by (simp add: quantum_def)
    then have "?x = of_int (int n * 2 ^ nat (0 - quantum ?x)) * 2 powi quantum ?x"
      using pow2_grid [of "quantum ?x" 0] by simp
    then show ?thesis by blast
  qed
  then obtain m where "?x = of_int m * 2 powi quantum ?x" by blast
  then have "?x / 2 powi quantum ?x = of_int m" by (simp add: divide_eq_eq)
  then have "rnd_pos ?x = ?x"
    using x \<open>?x = of_int m * 2 powi quantum ?x\<close> by (simp add: rnd_pos_def)
  then show ?thesis by (simp add: rnd_def)
qed

lemma rnd_pos_grid:
  assumes "0 < x"
  shows "\<exists>m. rnd_pos x = of_int m * 2 powi quantum x"
  using assms by (auto simp: rnd_pos_def)

lemma rnd_pos_exact:
  assumes "0 < y" and "y = of_int m * 2 powi quantum y"
  shows "rnd_pos y = y"
proof -
  have "y / 2 powi quantum y = of_int m" using assms(2) by (simp add: divide_eq_eq)
  then show ?thesis using assms by (simp add: rnd_pos_def)
qed

text \<open>Rounding twice is rounding once: a rounded value is on its own grid.\<close>

lemma rnd_pos_idem:
  assumes "0 \<le> x"
  shows "rnd_pos (rnd_pos x) = rnd_pos x"
proof (cases "x = 0 \<or> rnd_pos x = 0")
  case True
  then show ?thesis by (auto simp: rnd_pos_def)
next
  case False
  let ?y = "rnd_pos x"
  have x: "0 < x" and y: "0 < ?y" using False assms rnd_pos_nonneg [of x] by auto
  obtain m where m: "?y = of_int m * 2 powi quantum x" using rnd_pos_grid [OF x] by blast
  show ?thesis
  proof (cases "quantum ?y \<le> quantum x")
    case True
    note m
    also have "of_int m * 2 powi quantum x =
        (of_int m * (of_int (2 ^ nat (quantum x - quantum ?y)) * 2 powi quantum ?y) :: rat)"
      using pow2_grid [OF True] by (rule arg_cong)
    also have "\<dots> = of_int (m * 2 ^ nat (quantum x - quantum ?y)) * 2 powi quantum ?y"
      by (simp only: of_int_mult mult.assoc)
    finally have "?y = of_int (m * 2 ^ nat (quantum x - quantum ?y)) * 2 powi quantum ?y" .
    then show ?thesis using rnd_pos_exact [OF y] by blast
  next
    case less: False
    then have e: "ilog2 x + 1 \<le> ilog2 ?y" and q: "quantum ?y = ilog2 ?y - 52"
      by (auto simp: quantum_def)
    define k where "k = max (ilog2 x + 1) (quantum x)"
    have "x \<le> 2 powi k" using ilog2_bounds [OF x] pow2_mono [of "ilog2 x + 1" k] by (simp add: k_def)
    then have top: "?y \<le> 2 powi k" using rnd_pos_le_pow2 [OF x] by (simp add: k_def)
    have "(2 :: rat) powi ilog2 ?y \<le> 2 powi k" using ilog2_bounds [OF y] top by linarith
    then have "ilog2 ?y \<le> k" using pow2_mono [of "k + 1" "ilog2 ?y"] pow2_add [of k 1] pow2_pos [of k]
      by (cases "ilog2 ?y \<le> k") auto
    then have "ilog2 ?y = k" using e less q by (auto simp: k_def quantum_def)
    then have "?y = 2 powi k" using ilog2_bounds [OF y] top by simp
    also have "\<dots> = of_int (2 ^ nat (k - quantum ?y)) * 2 powi quantum ?y"
      using pow2_grid [of "quantum ?y" k] q \<open>ilog2 ?y = k\<close> by simp
    finally show ?thesis using rnd_pos_exact [OF y] by blast
  qed
qed

lemma rnd_idem [simp]: "rnd (rnd x) = rnd x"
proof (cases "x < 0")
  case True
  let ?y = "rnd_pos (- x)"
  have "0 \<le> ?y" using True rnd_pos_nonneg [of "- x"] by simp
  then show ?thesis using True rnd_pos_idem [of "- x"] by (auto simp: rnd_def rnd_pos_def)
next
  case False
  then show ?thesis using rnd_pos_nonneg [of x] rnd_pos_idem [of x] by (simp add: rnd_def)
qed

lemma rnd_le_pow2:
  assumes "\<bar>x\<bar> \<le> 2 ^ k"
  shows "\<bar>rnd x\<bar> \<le> 2 ^ k"
proof -
  have pk: "(2 :: rat) powi int k = 2 ^ k" by simp
  have pos: "rnd_pos y \<le> 2 ^ k" if "0 < y" "y \<le> 2 ^ k" for y
  proof -
    have "(2 :: rat) powi ilog2 y \<le> 2 powi int k"
      using ilog2_bounds [OF that(1)] that(2) pk by linarith
    also have "\<dots> < 2 powi (int k + 1)" by (simp add: pow2_add)
    finally have "quantum y \<le> int k" using pow2_less_cancel by (fastforce simp: quantum_def)
    then show ?thesis using rnd_pos_le_pow2 [OF that(1), of "int k"] that(2) pk by simp
  qed
  then have le: "rnd_pos y \<le> 2 ^ k" if "0 \<le> y" "y \<le> 2 ^ k" for y
    using that by (cases "y = 0") (auto simp: rnd_pos_def)
  show ?thesis
  proof (cases "x < 0")
    case True
    then show ?thesis using assms le [of "- x"] rnd_pos_nonneg [of "- x"] by (simp add: rnd_def)
  next
    case False
    then show ?thesis using assms le [of x] rnd_pos_nonneg [of x] by (simp add: rnd_def)
  qed
qed

lemma to_f64_small:
  assumes "\<bar>x\<bar> \<le> 2 ^ 1000"
  shows "to_f64 x = Finite (rnd x)"
proof -
  have "\<bar>rnd x\<bar> \<le> 2 ^ 1000" using rnd_le_pow2 [OF assms] .
  also have "(2 :: rat) ^ 1000 < 2 ^ 1024" by (rule power_strict_increasing) auto
  finally show ?thesis by (simp add: to_f64_def Let_def)
qed

text \<open>A number below one is at least one unit in the last place below it.\<close>

lemma representable_below_one:
  assumes "rnd x = x" and "0 \<le> x" and "x < 1"
  shows "x \<le> 1 - 1 / 2 ^ 53"
proof (cases "x < 1 / 2")
  case True
  then show ?thesis by simp
next
  case False
  have x: "0 < x" using False by simp
  have "ilog2 x < 0"
    using ilog2_bounds [OF x] assms(3) pow2_less_cancel [of "ilog2 x" 0] by simp
  moreover have "(2 :: rat) powi (- 1) < 2 powi (ilog2 x + 1)"
    using ilog2_bounds [OF x] False by (simp add: power_int_def)
  then have "- 1 \<le> ilog2 x" using pow2_less_cancel by fastforce
  ultimately have "quantum x = - 53" by (simp add: quantum_def)
  then obtain m where m: "x = of_int m * 2 powi (- 53)"
    using rnd_pos_grid [OF x] assms(1) x by (auto simp: rnd_def)
  then have xm: "x = of_int m / 2 ^ 53" by (simp add: power_int_def field_simps)
  then have "(of_int m :: rat) < of_int (2 ^ 53)" using assms(3) by simp
  then have "m \<le> 2 ^ 53 - 1" by linarith
  then have "(of_int m :: rat) \<le> 2 ^ 53 - 1" using of_int_le_iff [where 'a = rat] by fastforce
  then show ?thesis using xm by (simp add: field_simps)
qed

subsection \<open>Rounding as an interface\<close>

text \<open>What the scoring code relies on: rounding is monotone and exact on small integers.\<close>

locale rounding =
  fixes r :: "rat \<Rightarrow> rat"
  assumes mono: "x \<le> y \<Longrightarrow> r x \<le> r y"
    and exact: "n \<le> 2 ^ 53 \<Longrightarrow> r (of_nat n) = of_nat n"
begin

lemma zero: "r 0 = 0"
  using exact [of 0] by simp

lemma one: "r 1 = 1"
  using exact [of 1] by simp

lemma nonneg: "0 \<le> x \<Longrightarrow> 0 \<le> r x"
  using mono [of 0 x] zero by simp

lemma nonpos: "x \<le> 0 \<Longrightarrow> r x \<le> 0"
  using mono [of x 0] zero by simp

lemma unit_interval: "0 \<le> x \<Longrightarrow> x \<le> 1 \<Longrightarrow> 0 \<le> r x \<and> r x \<le> 1"
  using mono [of x 1] nonneg one by simp

lemma at_least_one: "1 \<le> x \<Longrightarrow> 1 \<le> r x"
  using mono [of 1 x] one by simp

end

interpretation binary64: rounding rnd
  by unfold_locales (auto intro: rnd_mono rnd_of_nat)

end
