(* ===== verification/Rust_Strings.thy ===== *)
theory Rust_Strings
  imports Float64 "HOL-Library.Sublist"
begin

text \<open>
  The string functions of the Rust standard library that the parsers use, on the UTF-8
  bytes of the string: lines, trimming, ASCII classes and the parsers of \<open>f64\<close> and \<open>i64\<close>.
  Unicode white space is recognised by its UTF-8 encodings.
\<close>

subsection \<open>Bytes and characters\<close>

definition byte :: "char \<Rightarrow> nat" where
  "byte c = of_char c"

definition is_ascii_alphabetic :: "char \<Rightarrow> bool" where
  "is_ascii_alphabetic c \<longleftrightarrow> 65 \<le> byte c \<and> byte c \<le> 90 \<or> 97 \<le> byte c \<and> byte c \<le> 122"

definition is_ascii_digit :: "char \<Rightarrow> bool" where
  "is_ascii_digit c \<longleftrightarrow> 48 \<le> byte c \<and> byte c \<le> 57"

definition is_ascii_alphanumeric :: "char \<Rightarrow> bool" where
  "is_ascii_alphanumeric c \<longleftrightarrow> is_ascii_alphabetic c \<or> is_ascii_digit c"

text \<open>Space, tab, line feed, form feed and carriage return.\<close>

definition is_ascii_whitespace :: "char \<Rightarrow> bool" where
  "is_ascii_whitespace c \<longleftrightarrow> byte c \<in> {9, 10, 12, 13, 32}"

definition to_ascii_lowercase :: "char \<Rightarrow> char" where
  "to_ascii_lowercase c = (if 65 \<le> byte c \<and> byte c \<le> 90 then char_of (byte c + 32) else c)"

definition eq_ignore_ascii_case :: "string \<Rightarrow> string \<Rightarrow> bool" where
  "eq_ignore_ascii_case a b \<longleftrightarrow> map to_ascii_lowercase a = map to_ascii_lowercase b"

subsection \<open>Lines and white space\<close>

text \<open>The encodings of the characters with the \<open>White_Space\<close> property.\<close>

definition whitespace_encodings :: "string list" where
  "whitespace_encodings =
     [[CHR 0x09], [CHR 0x0A], [CHR 0x0B], [CHR 0x0C], [CHR 0x0D], [CHR 0x20],
      [CHR 0xC2, CHR 0x85], [CHR 0xC2, CHR 0xA0], [CHR 0xE1, CHR 0x9A, CHR 0x80],
      [CHR 0xE2, CHR 0x80, CHR 0x80], [CHR 0xE2, CHR 0x80, CHR 0x81],
      [CHR 0xE2, CHR 0x80, CHR 0x82], [CHR 0xE2, CHR 0x80, CHR 0x83],
      [CHR 0xE2, CHR 0x80, CHR 0x84], [CHR 0xE2, CHR 0x80, CHR 0x85],
      [CHR 0xE2, CHR 0x80, CHR 0x86], [CHR 0xE2, CHR 0x80, CHR 0x87],
      [CHR 0xE2, CHR 0x80, CHR 0x88], [CHR 0xE2, CHR 0x80, CHR 0x89],
      [CHR 0xE2, CHR 0x80, CHR 0x8A], [CHR 0xE2, CHR 0x80, CHR 0xA8],
      [CHR 0xE2, CHR 0x80, CHR 0xA9], [CHR 0xE2, CHR 0x80, CHR 0xAF],
      [CHR 0xE2, CHR 0x81, CHR 0x9F], [CHR 0xE3, CHR 0x80, CHR 0x80]]"

fun strip_any :: "string list \<Rightarrow> string \<Rightarrow> string option" where
  "strip_any [] s = None"
| "strip_any (e # es) s = (if prefix e s then Some (drop (length e) s) else strip_any es s)"

function trim_with :: "string list \<Rightarrow> string \<Rightarrow> string" where
  "trim_with encodings s =
     (case strip_any encodings s of
        None \<Rightarrow> s
      | Some s' \<Rightarrow> if length s' < length s then trim_with encodings s' else s)"
  by pat_completeness auto
termination
  by (relation "measure (\<lambda>(encodings, s). length s)") auto

declare trim_with.simps [simp del]

definition trim_start :: "string \<Rightarrow> string" where
  "trim_start s = trim_with whitespace_encodings s"

definition trim_end :: "string \<Rightarrow> string" where
  "trim_end s = rev (trim_with (map rev whitespace_encodings) (rev s))"

definition trim :: "string \<Rightarrow> string" where
  "trim s = trim_end (trim_start s)"

text \<open>The part before the first white-space character.\<close>

fun until_whitespace :: "string \<Rightarrow> string" where
  "until_whitespace [] = []"
| "until_whitespace (c # s) =
     (if strip_any whitespace_encodings (c # s) = None then c # until_whitespace s else [])"

text \<open>\<open>str::lines\<close>: split after each line feed, then drop the line feed and one carriage return.\<close>

definition strip_cr :: "string \<Rightarrow> string" where
  "strip_cr s = (if s \<noteq> [] \<and> last s = CHR 0x0D then butlast s else s)"

fun lines_from :: "string \<Rightarrow> string \<Rightarrow> string list" where
  "lines_from acc [] = (if acc = [] then [] else [rev acc])"
| "lines_from acc (c # s) =
     (if c = CHR 0x0A then strip_cr (rev acc) # lines_from [] s else lines_from (c # acc) s)"

definition lines :: "string \<Rightarrow> string list" where
  "lines s = lines_from [] s"

text \<open>\<open>split_ascii_whitespace\<close>: the maximal runs of other bytes.\<close>

function split_ascii_whitespace :: "string \<Rightarrow> string list" where
  "split_ascii_whitespace s =
     (let s' = dropWhile is_ascii_whitespace s in
      if s' = [] then []
      else takeWhile (\<lambda>c. \<not> is_ascii_whitespace c) s'
        # split_ascii_whitespace (dropWhile (\<lambda>c. \<not> is_ascii_whitespace c) s'))"
  by pat_completeness auto
termination
proof (relation "measure length")
  fix s s' :: string
  assume s': "s' = dropWhile is_ascii_whitespace s" and ne: "s' \<noteq> []"
  then have "\<not> is_ascii_whitespace (hd s')" using hd_dropWhile by metis
  then have "length (dropWhile (\<lambda>c. \<not> is_ascii_whitespace c) s') < length s'"
    using ne by (cases s') (auto simp: le_imp_less_Suc length_dropWhile_le)
  also have "\<dots> \<le> length s" using s' by (simp add: length_dropWhile_le)
  finally show "(dropWhile (\<lambda>c. \<not> is_ascii_whitespace c) s', s) \<in> measure length" by simp
qed simp

declare split_ascii_whitespace.simps [simp del]

subsection \<open>Numbers\<close>

definition digits_value :: "string \<Rightarrow> nat" where
  "digits_value ds = foldl (\<lambda>n c. 10 * n + (byte c - 48)) 0 ds"

definition all_digits :: "string \<Rightarrow> bool" where
  "all_digits s \<longleftrightarrow> (\<forall>c \<in> set s. is_ascii_digit c)"

text \<open>An optional sign: whether it is a minus, and the rest.\<close>

definition parse_sign :: "string \<Rightarrow> bool \<times> string" where
  "parse_sign s =
     (case s of
        [] \<Rightarrow> (False, [])
      | c # cs \<Rightarrow> if c = CHR ''-'' then (True, cs) else if c = CHR ''+'' then (False, cs)
                  else (False, s))"

text \<open>\<open>str::parse::<i64>\<close>.\<close>

definition parse_i64 :: "string \<Rightarrow> int option" where
  "parse_i64 s =
     (let (neg, ds) = parse_sign s; v = int (digits_value ds) in
      if ds = [] \<or> \<not> all_digits ds then None
      else if neg then (if v \<le> 2 ^ 63 then Some (- v) else None)
      else if v < 2 ^ 63 then Some v else None)"

text \<open>The exponent part of a decimal float: nothing, or \<open>e\<close>, an optional sign and digits.\<close>

definition parse_exponent :: "string \<Rightarrow> int option" where
  "parse_exponent s =
     (case s of
        [] \<Rightarrow> Some 0
      | c # cs \<Rightarrow>
          if c = CHR ''e'' \<or> c = CHR ''E''
          then (let (neg, ds) = parse_sign cs in
                if ds = [] \<or> \<not> all_digits ds then None
                else Some (if neg then - int (digits_value ds) else int (digits_value ds)))
          else None)"

text \<open>The value of an unsigned decimal: integer part, fraction, exponent.\<close>

definition parse_decimal :: "string \<Rightarrow> rat option" where
  "parse_decimal s =
     (let whole = takeWhile is_ascii_digit s;
          rest = dropWhile is_ascii_digit s;
          (frac, rest) = (if rest \<noteq> [] \<and> hd rest = CHR ''.''
            then (takeWhile is_ascii_digit (tl rest), dropWhile is_ascii_digit (tl rest))
            else ([], rest)) in
      if whole = [] \<and> frac = [] then None
      else do {
        e \<leftarrow> parse_exponent rest;
        Some (of_nat (digits_value (whole @ frac)) * 10 powi (e - int (length frac)))
      })"

text \<open>\<open>str::parse::<f64>\<close>: infinities and NaN by name, otherwise the decimal, rounded once.\<close>

definition parse_f64 :: "string \<Rightarrow> f64 option" where
  "parse_f64 s =
     (let (neg, body) = parse_sign s in
      if eq_ignore_ascii_case body ''inf'' \<or> eq_ignore_ascii_case body ''infinity''
        then Some (Infinity neg)
      else if eq_ignore_ascii_case body ''nan'' then Some NaN
      else map_option (\<lambda>x. to_f64 (if neg then - x else x)) (parse_decimal body))"

text \<open>The decimal digits of a number, as \<open>Display\<close> writes them.\<close>

fun show_nat :: "nat \<Rightarrow> string" where
  "show_nat n =
     (if n < 10 then [char_of (48 + n)] else show_nat (n div 10) @ [char_of (48 + n mod 10)])"

declare show_nat.simps [simp del]

subsection \<open>UTF-8\<close>

text \<open>\<open>String::from_utf8\<close> accepts a byte string exactly when it is well formed UTF-8.\<close>

definition continuation :: "nat \<Rightarrow> bool" where
  "continuation b \<longleftrightarrow> 128 \<le> b \<and> b < 192"

fun utf8_valid :: "nat list \<Rightarrow> bool" where
  "utf8_valid [] = True"
| "utf8_valid (b # bs) =
     (if b < 128 then utf8_valid bs
      else if 194 \<le> b \<and> b < 224 then
        (case bs of c # cs \<Rightarrow> continuation c \<and> utf8_valid cs | _ \<Rightarrow> False)
      else if 224 \<le> b \<and> b < 240 then
        (case bs of
           c # d # ds \<Rightarrow> continuation c \<and> continuation d \<and> (b = 224 \<longrightarrow> 160 \<le> c) \<and>
             (b = 237 \<longrightarrow> c < 160) \<and> utf8_valid ds
         | _ \<Rightarrow> False)
      else if 240 \<le> b \<and> b < 245 then
        (case bs of
           c # d # e # es \<Rightarrow> continuation c \<and> continuation d \<and> continuation e \<and>
             (b = 240 \<longrightarrow> 144 \<le> c) \<and> (b = 244 \<longrightarrow> c < 144) \<and> utf8_valid es
         | _ \<Rightarrow> False)
      else False)"

definition from_utf8 :: "string \<Rightarrow> string option" where
  "from_utf8 s = (if utf8_valid (map byte s) then Some s else None)"

subsection \<open>Lemmas\<close>

lemma trim_with_length: "length (trim_with encodings s) \<le> length s"
proof (induction encodings s rule: trim_with.induct)
  case (1 encodings s)
  show ?case
  proof (cases "strip_any encodings s")
    case None
    then show ?thesis by (simp add: trim_with.simps [of encodings s])
  next
    case (Some s')
    show ?thesis
    proof (cases "length s' < length s")
      case True
      with 1 [OF Some] Some show ?thesis by (simp add: trim_with.simps [of encodings s])
    next
      case False
      with Some show ?thesis by (simp add: trim_with.simps [of encodings s])
    qed
  qed
qed

lemma trim_length: "length (trim s) \<le> length s"
  using trim_with_length [of "map rev whitespace_encodings" "rev (trim_start s)"]
    trim_with_length [of whitespace_encodings s]
  by (simp add: trim_def trim_end_def trim_start_def)

text \<open>A string whose first byte starts no white-space character is not shortened.\<close>

lemma trim_with_keep: "strip_any encodings s = None \<Longrightarrow> trim_with encodings s = s"
  by (simp add: trim_with.simps)

end
