(* ===== verification/Telemetry.thy ===== *)
theory Telemetry
  imports Rust_Strings
begin

text \<open>
  Backend telemetry (\<open>src/src/telemetry.rs\<close>): the parser of the Prometheus text that a
  backend exposes, and the \<open>least-pressure-v1\<close> score. The parser keeps one accumulator per
  recognised metric; routing gauges are strict, counters are best effort.
\<close>

subsection \<open>Data\<close>

definition SEQUENCES_RUNNING_METRIC :: string where
  "SEQUENCES_RUNNING_METRIC = ''mistralrs_sequences_running''"
definition SEQUENCES_WAITING_METRIC :: string where
  "SEQUENCES_WAITING_METRIC = ''mistralrs_sequences_waiting''"
definition SEQUENCES_CAPACITY_METRIC :: string where
  "SEQUENCES_CAPACITY_METRIC = ''mistralrs_sequences_capacity''"
definition KV_CACHE_BLOCKS_USED_METRIC :: string where
  "KV_CACHE_BLOCKS_USED_METRIC = ''mistralrs_kv_cache_blocks_used''"
definition KV_CACHE_BLOCKS_TOTAL_METRIC :: string where
  "KV_CACHE_BLOCKS_TOTAL_METRIC = ''mistralrs_kv_cache_blocks_total''"
definition TOKENS_PROCESSED_TOTAL_METRIC :: string where
  "TOKENS_PROCESSED_TOTAL_METRIC = ''mistralrs_tokens_processed_total''"
definition PREFILL_TOKENS_PROCESSED_TOTAL_METRIC :: string where
  "PREFILL_TOKENS_PROCESSED_TOTAL_METRIC = ''mistralrs_prefill_tokens_processed_total''"
definition DECODE_TOKENS_PROCESSED_TOTAL_METRIC :: string where
  "DECODE_TOKENS_PROCESSED_TOTAL_METRIC = ''mistralrs_decode_tokens_processed_total''"
definition SEQUENCES_COMPLETED_TOTAL_METRIC :: string where
  "SEQUENCES_COMPLETED_TOTAL_METRIC = ''mistralrs_sequences_completed_total''"

lemmas metric_names =
  SEQUENCES_RUNNING_METRIC_def SEQUENCES_WAITING_METRIC_def SEQUENCES_CAPACITY_METRIC_def
  KV_CACHE_BLOCKS_USED_METRIC_def KV_CACHE_BLOCKS_TOTAL_METRIC_def
  TOKENS_PROCESSED_TOTAL_METRIC_def PREFILL_TOKENS_PROCESSED_TOTAL_METRIC_def
  DECODE_TOKENS_PROCESSED_TOTAL_METRIC_def SEQUENCES_COMPLETED_TOTAL_METRIC_def

definition KV_PENALTY_START :: f64 where
  "KV_PENALTY_START = to_f64 (85 / 100)"

definition MAX_EXACT_F64_INTEGER :: f64 where
  "MAX_EXACT_F64_INTEGER = Finite 9007199254740991"

record KvCacheMetrics =
  kv_used :: u64
  kv_total :: u64

definition kv_ratio_of :: "KvCacheMetrics \<Rightarrow> f64" where
  "kv_ratio_of m =
     f64_clamp (f64_div (u64_as_f64 (kv_used m)) (u64_as_f64 (kv_total m))) (Finite 0) (Finite 1)"

definition is_overcommitted :: "KvCacheMetrics \<Rightarrow> bool" where
  "is_overcommitted m \<longleftrightarrow> kv_total m < kv_used m"

record MistralRsMetrics =
  sequences_running :: u64
  sequences_waiting :: u64
  sequences_capacity :: "u64 option"
  kv_cache :: "KvCacheMetrics option"
  tokens_processed_total :: "f64 option"
  prefill_tokens_processed_total :: "f64 option"
  decode_tokens_processed_total :: "f64 option"
  sequences_completed_total :: "f64 option"

definition kv_cache_ratio :: "MistralRsMetrics \<Rightarrow> f64 option" where
  "kv_cache_ratio m = map_option kv_ratio_of (kv_cache m)"

record LeastPressureV1Inputs =
  in_running :: u64
  in_waiting :: u64
  in_capacity :: u64
  in_new_sequences :: u64
  in_kv_ratio :: "f64 option"

record LeastPressureV1Score =
  occupancy :: f64
  kv_penalty :: f64
  pressure :: f64

datatype PressureInputError = ZeroCapacity | NonFiniteKvRatio | KvRatioOutOfRange

definition pressure_inputs :: "MistralRsMetrics \<Rightarrow> u64 \<Rightarrow> u64 \<Rightarrow> LeastPressureV1Inputs" where
  "pressure_inputs m new_sequences effective_capacity =
     \<lparr>in_running = sequences_running m, in_waiting = sequences_waiting m,
      in_capacity = effective_capacity, in_new_sequences = new_sequences,
      in_kv_ratio = kv_cache_ratio m\<rparr>"

definition reported_capacity_inputs ::
  "MistralRsMetrics \<Rightarrow> u64 \<Rightarrow> LeastPressureV1Inputs option" where
  "reported_capacity_inputs m new_sequences =
     map_option (pressure_inputs m new_sequences) (sequences_capacity m)"

subsection \<open>The score\<close>

definition least_pressure_v1_with_soft_limit ::
  "LeastPressureV1Inputs \<Rightarrow> f64 \<Rightarrow> PressureInputError + LeastPressureV1Score" where
  "least_pressure_v1_with_soft_limit inputs kv_soft_limit =
     (if in_capacity inputs = 0 then Inl ZeroCapacity
      else
        (let penalty = (case in_kv_ratio inputs of
            Some ratio \<Rightarrow>
              if \<not> is_finite ratio then Inl NonFiniteKvRatio
              else if \<not> (f64_le (Finite 0) ratio \<and> f64_le ratio (Finite 1)) then Inl KvRatioOutOfRange
              else Inr (f64_max
                (f64_div (f64_sub ratio kv_soft_limit) (f64_sub (Finite 1) kv_soft_limit)) (Finite 0))
          | None \<Rightarrow> Inr (Finite 0)) in
         case penalty of
           Inl e \<Rightarrow> Inl e
         | Inr penalty \<Rightarrow>
             (let occ = f64_div
                (f64_add (f64_add (u64_as_f64 (in_running inputs)) (u64_as_f64 (in_waiting inputs)))
                  (u64_as_f64 (in_new_sequences inputs)))
                (u64_as_f64 (in_capacity inputs)) in
              Inr \<lparr>occupancy = occ, kv_penalty = penalty, pressure = f64_add occ penalty\<rparr>)))"

definition least_pressure_v1 ::
  "LeastPressureV1Inputs \<Rightarrow> PressureInputError + LeastPressureV1Score" where
  "least_pressure_v1 inputs = least_pressure_v1_with_soft_limit inputs KV_PENALTY_START"

subsection \<open>The parser\<close>

datatype MetricsParseError =
    MissingRequiredMetric string
  | DuplicateRequiredMetric string nat nat
  | MalformedRequiredMetric string nat string
  | IncompleteKvCacheMetrics string

record ParsedSample =
  sample_name :: string
  sample_labels :: "string option"
  sample_value :: string

record RequiredGauge =
  gauge_metric :: string
  gauge_value :: "u64 option"
  gauge_line :: "nat option"
  gauge_positive :: bool

record OptionalSingleCounter =
  single_value :: "f64 option"
  single_invalid :: bool

record OptionalCounterFamily =
  family_total :: f64
  family_seen :: bool
  family_invalid :: bool
  family_series :: "string list"

definition parse_gauge_count :: "string \<Rightarrow> bool \<Rightarrow> string + u64" where
  "parse_gauge_count s positive =
     (case parse_f64 s of
        None \<Rightarrow> Inl ''value is not a number''
      | Some v \<Rightarrow>
          if \<not> is_finite v then Inl ''value must be finite''
          else if f64_lt v (Finite 0) then Inl ''value must be non-negative''
          else if positive \<and> f64_eq v (Finite 0) then Inl ''value must be positive''
          else if \<not> f64_eq (f64_fract v) (Finite 0) then Inl ''value must be an integer''
          else if f64_lt MAX_EXACT_F64_INTEGER v
            then Inl ''value is too large to represent exactly''
          else Inr (f64_as_u64 v))"

definition parse_counter :: "string \<Rightarrow> f64 option" where
  "parse_counter s =
     (case parse_f64 s of
        None \<Rightarrow> None
      | Some v \<Rightarrow> if is_finite v \<and> f64_le (Finite 0) v then Some v else None)"

definition new_gauge :: "string \<Rightarrow> bool \<Rightarrow> RequiredGauge" where
  "new_gauge metric positive =
     \<lparr>gauge_metric = metric, gauge_value = None, gauge_line = None, gauge_positive = positive\<rparr>"

definition gauge_observe ::
  "RequiredGauge \<Rightarrow> ParsedSample \<Rightarrow> nat \<Rightarrow> MetricsParseError + RequiredGauge" where
  "gauge_observe g sample line =
     (case gauge_line g of
        Some first_line \<Rightarrow> Inl (DuplicateRequiredMetric (gauge_metric g) first_line line)
      | None \<Rightarrow>
          if sample_labels sample \<noteq> None
          then Inl (MalformedRequiredMetric (gauge_metric g) line ''labels are not allowed'')
          else
            (case parse_gauge_count (sample_value sample) (gauge_positive g) of
               Inl reason \<Rightarrow> Inl (MalformedRequiredMetric (gauge_metric g) line reason)
             | Inr v \<Rightarrow> Inr (g\<lparr>gauge_value := Some v, gauge_line := Some line\<rparr>)))"

definition gauge_required :: "RequiredGauge \<Rightarrow> MetricsParseError + u64" where
  "gauge_required g =
     (case gauge_value g of
        None \<Rightarrow> Inl (MissingRequiredMetric (gauge_metric g)) | Some v \<Rightarrow> Inr v)"

definition new_single :: OptionalSingleCounter where
  "new_single = \<lparr>single_value = None, single_invalid = False\<rparr>"

definition single_observe :: "OptionalSingleCounter \<Rightarrow> ParsedSample \<Rightarrow> OptionalSingleCounter" where
  "single_observe c sample =
     (if single_value c \<noteq> None \<or> sample_labels sample \<noteq> None
      then c\<lparr>single_invalid := True, single_value := None\<rparr>
      else (case parse_counter (sample_value sample) of
              Some v \<Rightarrow> c\<lparr>single_value := Some v\<rparr>
            | None \<Rightarrow> c\<lparr>single_invalid := True\<rparr>))"

definition single_invalidate :: "OptionalSingleCounter \<Rightarrow> OptionalSingleCounter" where
  "single_invalidate c = c\<lparr>single_invalid := True, single_value := None\<rparr>"

definition single_finish :: "OptionalSingleCounter \<Rightarrow> f64 option" where
  "single_finish c = (if single_invalid c then None else single_value c)"

definition new_family :: OptionalCounterFamily where
  "new_family =
     \<lparr>family_total = Finite 0, family_seen = False, family_invalid = False, family_series = []\<rparr>"

definition family_observe :: "OptionalCounterFamily \<Rightarrow> ParsedSample \<Rightarrow> OptionalCounterFamily" where
  "family_observe c sample =
     (let series = (case sample_labels sample of None \<Rightarrow> [] | Some l \<Rightarrow> l) in
      case parse_counter (sample_value sample) of
        None \<Rightarrow> c\<lparr>family_invalid := True\<rparr>
      | Some v \<Rightarrow>
          if series \<in> set (family_series c) then c\<lparr>family_invalid := True\<rparr>
          else
            (let sum = f64_add (family_total c) v in
             c\<lparr>family_series := series # family_series c, family_total := sum,
               family_seen := True,
               family_invalid := family_invalid c \<or> \<not> is_finite sum\<rparr>))"

definition family_invalidate :: "OptionalCounterFamily \<Rightarrow> OptionalCounterFamily" where
  "family_invalidate c = c\<lparr>family_invalid := True\<rparr>"

definition family_finish :: "OptionalCounterFamily \<Rightarrow> f64 option" where
  "family_finish c = (if family_seen c \<and> \<not> family_invalid c then Some (family_total c) else None)"

definition is_metric_name_start :: "char \<Rightarrow> bool" where
  "is_metric_name_start c \<longleftrightarrow> is_ascii_alphabetic c \<or> c = CHR ''_'' \<or> c = CHR '':''"

definition is_metric_name_continue :: "char \<Rightarrow> bool" where
  "is_metric_name_continue c \<longleftrightarrow> is_metric_name_start c \<or> is_ascii_digit c"

text \<open>
  \<open>find_label_set_end\<close>, from the byte after the opening brace: the labels up to and with
  the closing brace, and what follows it.
\<close>

fun find_label_set_end :: "bool \<Rightarrow> bool \<Rightarrow> string \<Rightarrow> (string \<times> string) option" where
  "find_label_set_end quoted escaped [] = None"
| "find_label_set_end quoted escaped (b # bs) =
     (let more = (\<lambda>q e. map_option (\<lambda>(l, r). (b # l, r)) (find_label_set_end q e bs)) in
      if quoted then
        (if escaped then more True False
         else if b = CHR 0x5C then more True True
         else if b = CHR 0x22 then more False False
         else more True False)
      else if b = CHR 0x22 then more True escaped
      else if b = CHR ''}'' then Some ([b], bs)
      else more False escaped)"

definition metric_name_prefix :: "string \<Rightarrow> string" where
  "metric_name_prefix line =
     (case line of
        [] \<Rightarrow> []
      | c # _ \<Rightarrow> if is_metric_name_start c then takeWhile is_metric_name_continue line else [])"

text \<open>What may follow the value: nothing, a comment, or a timestamp and then either.\<close>

definition parse_sample_tail :: "string \<Rightarrow> string option" where
  "parse_sample_tail rest =
     (let remainder = trim_start rest in
      if remainder = [] \<or> hd remainder = CHR ''#'' then None
      else
        (let stamp = until_whitespace remainder in
         if parse_i64 stamp = None then Some ''unexpected content after sample value''
         else
           (let after = trim_start (drop (length stamp) remainder) in
            if after = [] \<or> hd after = CHR ''#'' then None
            else Some ''unexpected content after sample timestamp'')))"

definition parse_sample_value ::
  "string \<Rightarrow> string option \<Rightarrow> string \<Rightarrow> string + ParsedSample" where
  "parse_sample_value name labels rest =
     (if rest = [] \<or> \<not> is_ascii_whitespace (hd rest)
      then Inl ''expected whitespace before sample value''
      else
        (let text = dropWhile is_ascii_whitespace rest in
         if text = [] then Inl ''sample value is missing''
         else
           (let v = takeWhile (\<lambda>c. \<not> is_ascii_whitespace c) text in
            case parse_sample_tail (dropWhile (\<lambda>c. \<not> is_ascii_whitespace c) text) of
              Some reason \<Rightarrow> Inl reason
            | None \<Rightarrow> Inr \<lparr>sample_name = name, sample_labels = labels, sample_value = v\<rparr>)))"

definition parse_sample_line :: "string \<Rightarrow> string + ParsedSample" where
  "parse_sample_line line =
     (let name = takeWhile is_metric_name_continue line;
          rest = dropWhile is_metric_name_continue line in
      if name = [] \<or> \<not> is_metric_name_start (hd name) then Inl ''invalid metric name''
      else if rest \<noteq> [] \<and> hd rest = CHR ''{''
      then (case find_label_set_end False False (tl rest) of
              None \<Rightarrow> Inl ''unterminated label set''
            | Some (labels, rest') \<Rightarrow> parse_sample_value name (Some (CHR ''{'' # labels)) rest')
      else parse_sample_value name None rest)"

definition is_recognized_metric :: "string \<Rightarrow> bool" where
  "is_recognized_metric metric \<longleftrightarrow>
     metric \<in> {SEQUENCES_RUNNING_METRIC, SEQUENCES_WAITING_METRIC, SEQUENCES_CAPACITY_METRIC,
       KV_CACHE_BLOCKS_USED_METRIC, KV_CACHE_BLOCKS_TOTAL_METRIC, TOKENS_PROCESSED_TOTAL_METRIC,
       PREFILL_TOKENS_PROCESSED_TOTAL_METRIC, DECODE_TOKENS_PROCESSED_TOTAL_METRIC,
       SEQUENCES_COMPLETED_TOTAL_METRIC}"

text \<open>The accumulators of \<open>parse_mistralrs_metrics\<close>.\<close>

record parse_state =
  ps_running :: RequiredGauge
  ps_waiting :: RequiredGauge
  ps_capacity :: RequiredGauge
  ps_kv_used :: RequiredGauge
  ps_kv_total :: RequiredGauge
  ps_tokens :: OptionalSingleCounter
  ps_prefill_tokens :: OptionalSingleCounter
  ps_decode_tokens :: OptionalSingleCounter
  ps_completions :: OptionalCounterFamily

definition initial_parse_state :: parse_state where
  "initial_parse_state =
     \<lparr>ps_running = new_gauge SEQUENCES_RUNNING_METRIC False,
      ps_waiting = new_gauge SEQUENCES_WAITING_METRIC False,
      ps_capacity = new_gauge SEQUENCES_CAPACITY_METRIC True,
      ps_kv_used = new_gauge KV_CACHE_BLOCKS_USED_METRIC False,
      ps_kv_total = new_gauge KV_CACHE_BLOCKS_TOTAL_METRIC True,
      ps_tokens = new_single, ps_prefill_tokens = new_single, ps_decode_tokens = new_single,
      ps_completions = new_family\<rparr>"

text \<open>A line whose sample does not parse: a counter is invalidated, a gauge is an error.\<close>

definition reject_line :: "string \<Rightarrow> nat \<Rightarrow> string \<Rightarrow> parse_state \<Rightarrow> MetricsParseError + parse_state" where
  "reject_line metric line_number reason p =
     (if metric = TOKENS_PROCESSED_TOTAL_METRIC
        then Inr (p\<lparr>ps_tokens := single_invalidate (ps_tokens p)\<rparr>)
      else if metric = PREFILL_TOKENS_PROCESSED_TOTAL_METRIC
        then Inr (p\<lparr>ps_prefill_tokens := single_invalidate (ps_prefill_tokens p)\<rparr>)
      else if metric = DECODE_TOKENS_PROCESSED_TOTAL_METRIC
        then Inr (p\<lparr>ps_decode_tokens := single_invalidate (ps_decode_tokens p)\<rparr>)
      else if metric = SEQUENCES_COMPLETED_TOTAL_METRIC
        then Inr (p\<lparr>ps_completions := family_invalidate (ps_completions p)\<rparr>)
      else Inl (MalformedRequiredMetric metric line_number reason))"

text \<open>
  The dispatch on the name of a sample. A sample's name is the recognised prefix of its line
  (lemma \<open>parse_sample_line_name\<close>), so the last branch is the completion counter and the
  \<open>unreachable!\<close> arm of the source is not reached.
\<close>

definition map_right :: "('a \<Rightarrow> 'b) \<Rightarrow> 'e + 'a \<Rightarrow> 'e + 'b" where
  "map_right f r = (case r of Inl e \<Rightarrow> Inl e | Inr a \<Rightarrow> Inr (f a))"

definition observe_sample :: "ParsedSample \<Rightarrow> nat \<Rightarrow> parse_state \<Rightarrow> MetricsParseError + parse_state" where
  "observe_sample sample n p =
     (let name = sample_name sample in
      if name = SEQUENCES_RUNNING_METRIC
        then map_right (\<lambda>g. p\<lparr>ps_running := g\<rparr>) (gauge_observe (ps_running p) sample n)
      else if name = SEQUENCES_WAITING_METRIC
        then map_right (\<lambda>g. p\<lparr>ps_waiting := g\<rparr>) (gauge_observe (ps_waiting p) sample n)
      else if name = SEQUENCES_CAPACITY_METRIC
        then map_right (\<lambda>g. p\<lparr>ps_capacity := g\<rparr>) (gauge_observe (ps_capacity p) sample n)
      else if name = KV_CACHE_BLOCKS_USED_METRIC
        then map_right (\<lambda>g. p\<lparr>ps_kv_used := g\<rparr>) (gauge_observe (ps_kv_used p) sample n)
      else if name = KV_CACHE_BLOCKS_TOTAL_METRIC
        then map_right (\<lambda>g. p\<lparr>ps_kv_total := g\<rparr>) (gauge_observe (ps_kv_total p) sample n)
      else if name = TOKENS_PROCESSED_TOTAL_METRIC
        then Inr (p\<lparr>ps_tokens := single_observe (ps_tokens p) sample\<rparr>)
      else if name = PREFILL_TOKENS_PROCESSED_TOTAL_METRIC
        then Inr (p\<lparr>ps_prefill_tokens := single_observe (ps_prefill_tokens p) sample\<rparr>)
      else if name = DECODE_TOKENS_PROCESSED_TOTAL_METRIC
        then Inr (p\<lparr>ps_decode_tokens := single_observe (ps_decode_tokens p) sample\<rparr>)
      else Inr (p\<lparr>ps_completions := family_observe (ps_completions p) sample\<rparr>))"

definition parse_line :: "nat \<Rightarrow> string \<Rightarrow> parse_state \<Rightarrow> MetricsParseError + parse_state" where
  "parse_line line_number raw_line p =
     (let line = trim raw_line in
      if line = [] \<or> hd line = CHR ''#'' then Inr p
      else
        (let metric = metric_name_prefix line in
         if \<not> is_recognized_metric metric then Inr p
         else
           (case parse_sample_line line of
              Inl reason \<Rightarrow> reject_line metric line_number reason p
            | Inr sample \<Rightarrow> observe_sample sample line_number p)))"

fun parse_lines :: "nat \<Rightarrow> string list \<Rightarrow> parse_state \<Rightarrow> MetricsParseError + parse_state" where
  "parse_lines n [] p = Inr p"
| "parse_lines n (l # ls) p =
     (case parse_line n l p of Inl e \<Rightarrow> Inl e | Inr p' \<Rightarrow> parse_lines (n + 1) ls p')"

definition finish_parse :: "parse_state \<Rightarrow> MetricsParseError + MistralRsMetrics" where
  "finish_parse p =
     (case gauge_required (ps_running p) of
        Inl e \<Rightarrow> Inl e
      | Inr running \<Rightarrow>
          (case gauge_required (ps_waiting p) of
             Inl e \<Rightarrow> Inl e
           | Inr waiting \<Rightarrow>
               (let result = (\<lambda>kv. Inr
                  \<lparr>sequences_running = running, sequences_waiting = waiting,
                   sequences_capacity = gauge_value (ps_capacity p), kv_cache = kv,
                   tokens_processed_total = single_finish (ps_tokens p),
                   prefill_tokens_processed_total = single_finish (ps_prefill_tokens p),
                   decode_tokens_processed_total = single_finish (ps_decode_tokens p),
                   sequences_completed_total = family_finish (ps_completions p)\<rparr>) in
                case (gauge_value (ps_kv_used p), gauge_value (ps_kv_total p)) of
                  (None, None) \<Rightarrow> result None
                | (Some used, Some blocks) \<Rightarrow> result (Some \<lparr>kv_used = used, kv_total = blocks\<rparr>)
                | (None, Some _) \<Rightarrow> Inl (IncompleteKvCacheMetrics KV_CACHE_BLOCKS_USED_METRIC)
                | (Some _, None) \<Rightarrow> Inl (IncompleteKvCacheMetrics KV_CACHE_BLOCKS_TOTAL_METRIC))))"

definition parse_mistralrs_metrics :: "string \<Rightarrow> MetricsParseError + MistralRsMetrics" where
  "parse_mistralrs_metrics input =
     (case parse_lines 1 (lines input) initial_parse_state of
        Inl e \<Rightarrow> Inl e
      | Inr p \<Rightarrow> finish_parse p)"


subsection \<open>Lemmas on the parser\<close>

lemma parse_sample_line_name:
  assumes "parse_sample_line line = Inr sample"
  shows "sample_name sample = metric_name_prefix line"
proof -
  have value_name: "parse_sample_value name labels rest = Inr sample \<Longrightarrow> sample_name sample = name"
    for name labels rest
    by (auto simp: parse_sample_value_def Let_def split: if_splits option.splits)
  have "sample_name sample = takeWhile is_metric_name_continue line \<and>
      takeWhile is_metric_name_continue line \<noteq> [] \<and>
      is_metric_name_start (hd (takeWhile is_metric_name_continue line))"
    using assms value_name
    by (auto simp: parse_sample_line_def Let_def split: if_splits option.splits)
  then show ?thesis by (cases line) (auto simp: metric_name_prefix_def split: if_splits)
qed

text \<open>A routing gauge: each accepted value is the exact integer the text denotes.\<close>

lemma parse_gauge_count_Inr:
  assumes "parse_gauge_count s positive = Inr n"
  shows "parse_f64 s = Some (Finite (of_nat (unat n))) \<and> unat n \<le> 2 ^ 53 - 1 \<and>
    (positive \<longrightarrow> 0 < n)"
proof -
  obtain v where v: "parse_f64 s = Some v" and "is_finite v"
    using assms by (auto simp: parse_gauge_count_def split: option.splits if_splits)
  then obtain x where vx: "v = Finite x" by (cases v) auto
  have x: "parse_f64 s = Some (Finite x)" using v vx by simp
  have nn: "\<not> x < 0" and pos: "\<not> (positive \<and> x = 0)" and fr: "x - of_int \<lfloor>x\<rfloor> = 0"
    and mx: "\<not> 9007199254740991 < x" and n: "n = f64_as_u64 (Finite x)"
    using assms x
    by (simp_all add: parse_gauge_count_def f64_eq_def MAX_EXACT_F64_INTEGER_def split: if_splits)
  obtain k where k: "\<lfloor>x\<rfloor> = int k" using nn zero_le_floor [of x] by (metis linorder_not_le nonneg_int_cases)
  have xk: "x = of_nat k" using fr k by simp
  have kb: "k \<le> 9007199254740991" using mx xk by (metis linorder_not_le of_nat_less_iff of_nat_numeral)
  have "n = of_nat k"
    using n xk kb by simp
  then have "unat n = k" using kb by (simp add: unat_of_nat take_bit_nat_eq_self)
  then show ?thesis using x xk kb pos by (auto simp: word_gt_0)
qed

subsection \<open>Lemmas on the score\<close>

text \<open>The score as rational arithmetic with the roundings written out.\<close>

definition occupancy_value :: "nat \<Rightarrow> nat \<Rightarrow> nat \<Rightarrow> nat \<Rightarrow> rat" where
  "occupancy_value running waiting new capacity =
     rnd (rnd (rnd (rnd (of_nat running) + rnd (of_nat waiting)) + rnd (of_nat new))
       / rnd (of_nat capacity))"

definition penalty_value :: "rat option \<Rightarrow> rat \<Rightarrow> rat" where
  "penalty_value ratio limit =
     (case ratio of None \<Rightarrow> 0 | Some x \<Rightarrow> max (rnd (rnd (x - limit) / rnd (1 - limit))) 0)"

definition valid_ratio :: "f64 option \<Rightarrow> rat option \<Rightarrow> bool" where
  "valid_ratio ratio x \<longleftrightarrow> ratio = map_option Finite x \<and> (\<forall>v. x = Some v \<longrightarrow> 0 \<le> v \<and> v \<le> 1)"

definition valid_limit :: "rat \<Rightarrow> bool" where
  "valid_limit limit \<longleftrightarrow> rnd limit = limit \<and> 0 \<le> limit \<and> limit < 1"

lemma u64_as_f64_Finite: "u64_as_f64 w = Finite (rnd (of_nat (unat w)))"
proof -
  have "(of_nat (unat w) :: rat) \<le> of_nat (2 ^ 64)"
  proof (rule of_nat_mono)
    have "unat w < 2 ^ LENGTH(64)" by (rule unsigned_less)
    then show "unat w \<le> 2 ^ 64" by simp
  qed
  also have "\<dots> \<le> (2 :: rat) ^ 1000"
    using power_increasing [of 64 1000 "2 :: rat"] by simp
  finally show ?thesis 
    unfolding u64_as_f64_def by (intro to_f64_small) (simp only: abs_of_nat)
qed

lemma rnd_nat_bounds:
  assumes "n < 2 ^ 64"
  shows "0 \<le> rnd (of_nat n) \<and> rnd (of_nat n) \<le> 2 ^ 64"
  using rnd_le_pow2 [of "of_nat n" 64] binary64.nonneg [of "of_nat n"] assms
    of_nat_mono [of n "2 ^ 64", where 'a = rat]
  by simp

lemma limit_gap:
  assumes "valid_limit limit"
  shows "1 / 2 ^ 53 \<le> rnd (1 - limit) \<and> rnd (1 - limit) \<le> 1"
proof -
  have gap: "1 / 2 ^ 53 \<le> 1 - limit"
    using representable_below_one [of limit] assms by (simp add: valid_limit_def)
  have "rnd (1 / 2 ^ 53) = (1 / 2 ^ 53 :: rat)" by code_simp
  then show ?thesis
    using rnd_mono [OF gap] binary64.unit_interval [of "1 - limit"] assms
    by (simp add: valid_limit_def)
qed

lemma penalty_bounds:
  assumes "valid_limit limit" and "valid_ratio ratio x"
  shows "0 \<le> penalty_value x limit \<and> penalty_value x limit \<le> 1"
proof (cases x)
  case None
  then show ?thesis by (simp add: penalty_value_def)
next
  case (Some v)
  have "rnd (v - limit) \<le> rnd (1 - limit)"
    using assms Some by (intro rnd_mono) (simp add: valid_ratio_def)
  moreover have "0 < rnd (1 - limit)"
  proof -
    have "(0 :: rat) < 1 / 2 ^ 53" by simp
    then show ?thesis using limit_gap [OF assms(1)] by linarith
  qed
  ultimately have "rnd (v - limit) / rnd (1 - limit) \<le> 1" by simp
  then have "rnd (rnd (v - limit) / rnd (1 - limit)) \<le> 1"
    using rnd_mono [of _ 1] binary64.one by metis
  then show ?thesis using Some by (simp add: penalty_value_def)
qed

lemma penalty_f64:
  assumes "valid_limit limit" and "0 \<le> v" and "v \<le> 1"
  shows "f64_max (f64_div (f64_sub (Finite v) (Finite limit)) (f64_sub (Finite 1) (Finite limit)))
    (Finite 0) = Finite (penalty_value (Some v) limit)"
proof -
  have big: "(1 :: rat) \<le> 2 ^ 1000" "(2 :: rat) ^ 53 \<le> 2 ^ 1000"
    using power_increasing [of 0 1000 "2 :: rat"] power_increasing [of 53 1000 "2 :: rat"] by auto
  have lim: "0 \<le> limit" "limit < 1" using assms(1) by (auto simp: valid_limit_def)
  have a: "f64_sub (Finite v) (Finite limit) = Finite (rnd (v - limit))"
    unfolding f64_sub_def using lim assms big(1) to_f64_small [of "v - limit"] by simp
  have b: "f64_sub (Finite 1) (Finite limit) = Finite (rnd (1 - limit))"
    unfolding f64_sub_def using lim big(1) to_f64_small [of "1 - limit"] by simp
  note gap = limit_gap [OF assms(1)]
  have pos: "0 < rnd (1 - limit)"
  proof -
    have "(0 :: rat) < 1 / 2 ^ 53" by simp
    then show ?thesis using gap by linarith
  qed
  have "\<bar>rnd (v - limit)\<bar> \<le> 1"
    using rnd_le_pow2 [of "v - limit" 0] lim assms by (simp add: abs_le_iff)
  then have "\<bar>rnd (v - limit)\<bar> \<le> 2 ^ 53 * rnd (1 - limit)"
    using gap by (simp add: field_simps)
  then have "\<bar>rnd (v - limit) / rnd (1 - limit)\<bar> \<le> 2 ^ 53"
    using pos by (simp add: abs_divide pos_divide_le_eq)
  then have "\<bar>rnd (v - limit) / rnd (1 - limit)\<bar> \<le> 2 ^ 1000" using big(2) by linarith
  then have "f64_div (Finite (rnd (v - limit))) (Finite (rnd (1 - limit)))
      = Finite (rnd (rnd (v - limit) / rnd (1 - limit)))"
    using pos to_f64_small by simp
  then show ?thesis unfolding a b by (simp add: f64_max_def penalty_value_def max_def)
qed

lemma occupancy_f64:
  assumes "0 < capacity"
  shows "f64_div (f64_add (f64_add (u64_as_f64 running) (u64_as_f64 waiting)) (u64_as_f64 new))
      (u64_as_f64 capacity)
    = Finite (occupancy_value (unat running) (unat waiting) (unat new) (unat capacity)) \<and>
    0 \<le> occupancy_value (unat running) (unat waiting) (unat new) (unat capacity) \<and>
    occupancy_value (unat running) (unat waiting) (unat new) (unat capacity) \<le> 2 ^ 66"
proof -
  let ?n = "\<lambda>w :: u64. rnd (of_nat (unat w))"
  have lt: "unat w < 2 ^ 64" for w :: u64
  proof -
    have "unat w < 2 ^ LENGTH(64)" by (rule unsigned_less)
    then show ?thesis by simp
  qed
  have b: "0 \<le> ?n w \<and> ?n w \<le> 2 ^ 64" for w
    using rnd_nat_bounds [OF lt [of w]] by blast
  have big: "(2 :: rat) ^ 65 \<le> 2 ^ 1000" "(2 :: rat) ^ 66 \<le> 2 ^ 1000"
    by (auto intro: power_increasing)
  let ?s = "rnd (?n running + ?n waiting)"
  have s_sum: "0 \<le> ?n running + ?n waiting" "?n running + ?n waiting \<le> 2 ^ 65"
    using b [of running] b [of waiting] by auto
  then have s: "0 \<le> ?s" "?s \<le> 2 ^ 65"
    using binary64.nonneg rnd_le_pow2 [of "?n running + ?n waiting" 65] by auto
  let ?t = "rnd (?s + ?n new)"
  have t_sum: "0 \<le> ?s + ?n new" "?s + ?n new \<le> 2 ^ 66" using s b [of new] by auto
  then have t: "0 \<le> ?t" "?t \<le> 2 ^ 66"
    using binary64.nonneg rnd_le_pow2 [of "?s + ?n new" 66] by auto
  have c: "1 \<le> ?n capacity"
  proof -
    have "1 \<le> unat capacity" using assms by (simp add: word_less_nat_alt)
    then have "(1 :: rat) \<le> of_nat (unat capacity)"
      using of_nat_mono [of 1 "unat capacity", where 'a = rat] by (simp only: of_nat_1)
    then show ?thesis by (rule binary64.at_least_one)
  qed
  have "?t / ?n capacity \<le> ?t / 1" using c t(1) by (intro divide_left_mono) auto
  then have q: "0 \<le> ?t / ?n capacity" "?t / ?n capacity \<le> 2 ^ 66" using t c by auto
  then have r: "0 \<le> rnd (?t / ?n capacity)" "rnd (?t / ?n capacity) \<le> 2 ^ 66"
    using binary64.nonneg rnd_le_pow2 [of "?t / ?n capacity" 66] by auto
  have 1: "f64_add (u64_as_f64 running) (u64_as_f64 waiting) = Finite ?s"
    unfolding u64_as_f64_Finite f64_add.simps
    by (rule to_f64_small) (use s_sum big(1) in linarith)
  have 2: "f64_add (Finite ?s) (u64_as_f64 new) = Finite ?t"
    unfolding u64_as_f64_Finite f64_add.simps
    by (rule to_f64_small) (use t_sum big(2) in linarith)
  have "to_f64 (?t / ?n capacity) = Finite (rnd (?t / ?n capacity))"
    by (rule to_f64_small) (use q big(2) in linarith)
  then have 3: "f64_div (Finite ?t) (u64_as_f64 capacity) = Finite (rnd (?t / ?n capacity))"
    unfolding u64_as_f64_Finite f64_div.simps using c by auto
  show ?thesis using r unfolding 1 2 3 occupancy_value_def by blast
qed

lemma least_pressure_value:
  assumes "0 < in_capacity inputs" and "valid_ratio (in_kv_ratio inputs) x" and "valid_limit limit"
  shows "least_pressure_v1_with_soft_limit inputs (Finite limit) = Inr
    (let occ = occupancy_value (unat (in_running inputs)) (unat (in_waiting inputs))
           (unat (in_new_sequences inputs)) (unat (in_capacity inputs));
         pen = penalty_value x limit in
     \<lparr>occupancy = Finite occ, kv_penalty = Finite pen, pressure = Finite (rnd (occ + pen))\<rparr>)"
proof -
  note occ = occupancy_f64 [OF assms(1), of "in_running inputs" "in_waiting inputs"
      "in_new_sequences inputs"]
  let ?o = "occupancy_value (unat (in_running inputs)) (unat (in_waiting inputs))
      (unat (in_new_sequences inputs)) (unat (in_capacity inputs))"
  note pen = penalty_bounds [OF assms(3,2)]
  have "(2 :: rat) ^ 66 + 1 \<le> 2 ^ 67" by simp
  also have "\<dots> \<le> 2 ^ 1000" by (rule power_increasing) auto
  finally have sum: "f64_add (Finite ?o) (Finite (penalty_value x limit))
      = Finite (rnd (?o + penalty_value x limit))"
    using occ pen unfolding f64_add.simps by (intro to_f64_small) linarith
  show ?thesis
  proof (cases x)
    case None
    then have "in_kv_ratio inputs = None" using assms(2) by (simp add: valid_ratio_def)
    then show ?thesis
      using assms(1) occ sum None
      by (simp add: least_pressure_v1_with_soft_limit_def Let_def penalty_value_def)
  next
    case (Some v)
    then have r: "in_kv_ratio inputs = Some (Finite v)" "0 \<le> v" "v \<le> 1"
      using assms(2) by (auto simp: valid_ratio_def)
    then show ?thesis
      using assms(1) occ sum Some penalty_f64 [OF assms(3) r(2,3)]
      by (simp add: least_pressure_v1_with_soft_limit_def Let_def f64_le_def f64_eq_def)
  qed
qed

lemma occupancy_mono:
  assumes "r \<le> r'" and "w \<le> w'" and "n \<le> n'" and "0 < c'" and "c' \<le> c"
  shows "occupancy_value r w n c \<le> occupancy_value r' w' n' c'"
proof -
  let ?t = "\<lambda>r w n. rnd (rnd (rnd (of_nat r) + rnd (of_nat w)) + rnd (of_nat n))"
  have nat: "rnd (of_nat a) \<le> rnd (of_nat b)" if "a \<le> b" for a b
    using that by (intro rnd_mono of_nat_mono)
  have le: "?t r w n \<le> ?t r' w' n'"
    by (intro rnd_mono add_mono nat assms)
  have nn: "0 \<le> ?t r' w' n'" by (intro binary64.nonneg add_nonneg_nonneg) auto
  have "1 \<le> c'" using assms(4) by simp
  then have one: "1 \<le> rnd (of_nat c')" using nat [of 1 c'] binary64.one by simp
  have "?t r w n / rnd (of_nat c) \<le> ?t r' w' n' / rnd (of_nat c)"
    using le one nat [OF assms(5)] by (intro divide_right_mono) auto
  also have "\<dots> \<le> ?t r' w' n' / rnd (of_nat c')"
    using nn one nat [OF assms(5)] by (intro divide_left_mono) auto
  finally show ?thesis unfolding occupancy_value_def by (rule rnd_mono)
qed

lemma penalty_mono:
  assumes "valid_limit limit" and "v \<le> w"
  shows "penalty_value (Some v) limit \<le> penalty_value (Some w) limit"
proof -
  have "(0 :: rat) < 1 / 2 ^ 53" by simp
  then have pos: "0 < rnd (1 - limit)" using limit_gap [OF assms(1)] by linarith
  have "rnd (v - limit) / rnd (1 - limit) \<le> rnd (w - limit) / rnd (1 - limit)"
    using pos assms(2) by (intro divide_right_mono rnd_mono) auto
  from rnd_mono [OF this] show ?thesis unfolding penalty_value_def by simp
qed

lemma rnd_penalty: "rnd (penalty_value x limit) = penalty_value x limit"
  by (auto simp: penalty_value_def max_def split: option.splits)

lemma rnd_occupancy: "rnd (occupancy_value r w n c) = occupancy_value r w n c"
  by (simp add: occupancy_value_def)

subsection \<open>Properties of the score\<close>

text \<open>
  C6. The score is well defined and bounded on every input the router builds: with a
  positive capacity, a KV ratio between zero and one and a binary64 soft limit from zero up
  to but not including one, no step of the computation overflows or yields a NaN. The
  occupancy is not negative, the penalty lies between zero and one, the pressure is at
  least each of them, and up to the soft limit the penalty is zero and the pressure is the
  occupancy. All roundings of the floating-point evaluation are accounted for.
\<close>

theorem least_pressure_bounds:
  assumes "0 < in_capacity inputs" and "valid_ratio (in_kv_ratio inputs) x" and "valid_limit limit"
  shows "\<exists>occ pen p. least_pressure_v1_with_soft_limit inputs (Finite limit) =
      Inr \<lparr>occupancy = Finite occ, kv_penalty = Finite pen, pressure = Finite p\<rparr> \<and>
    0 \<le> occ \<and> 0 \<le> pen \<and> pen \<le> 1 \<and> occ \<le> p \<and> pen \<le> p \<and>
    ((\<forall>v. x = Some v \<longrightarrow> v \<le> limit) \<longrightarrow> pen = 0 \<and> p = occ)"
proof -
  let ?o = "occupancy_value (unat (in_running inputs)) (unat (in_waiting inputs))
      (unat (in_new_sequences inputs)) (unat (in_capacity inputs))"
  let ?p = "penalty_value x limit"
  have o: "0 \<le> ?o" using occupancy_f64 [OF assms(1)] by blast
  have p: "0 \<le> ?p" "?p \<le> 1" using penalty_bounds [OF assms(3,2)] by auto
  have "?o \<le> rnd (?o + ?p)" using rnd_mono [of ?o "?o + ?p"] p rnd_occupancy by simp
  moreover have "?p \<le> rnd (?o + ?p)" using rnd_mono [of ?p "?o + ?p"] o rnd_penalty by simp
  moreover have "?p = 0 \<and> rnd (?o + ?p) = ?o" if "\<forall>v. x = Some v \<longrightarrow> v \<le> limit"
  proof -
    have "rnd (rnd (v - limit) / rnd (1 - limit)) \<le> 0" if "v \<le> limit" for v
    proof -
      have "rnd (v - limit) \<le> 0" using that by (intro binary64.nonpos) simp
      moreover have "0 \<le> rnd (1 - limit)"
        using assms(3) by (intro binary64.nonneg) (simp add: valid_limit_def)
      ultimately show ?thesis by (intro binary64.nonpos) (rule divide_nonpos_nonneg)
    qed
    then have "?p = 0" using that by (auto simp: penalty_value_def max_def split: option.splits)
    then show ?thesis by (simp add: rnd_occupancy)
  qed
  ultimately show ?thesis
    using least_pressure_value [OF assms] o p by (simp add: Let_def rnd_occupancy)
qed

definition demo_inputs :: "u64 \<Rightarrow> LeastPressureV1Inputs" where
  "demo_inputs running = \<lparr>in_running = running, in_waiting = 2, in_capacity = 32,
     in_new_sequences = 1, in_kv_ratio = Some (Finite (3/4))\<rparr>"

lemma demo_inputs_valid:
  "0 < in_capacity (demo_inputs r)" "valid_ratio (in_kv_ratio (demo_inputs r)) (Some (3/4))"
  by (simp_all add: demo_inputs_def valid_ratio_def word_less_nat_alt)

lemma demo_limit_valid: "valid_limit (1/2)"
proof -
  have "rnd (1/2) = 1/2" by code_simp
  then show ?thesis by (simp add: valid_limit_def)
qed

theorem least_pressure_bounds_witness:
  "\<exists>occ pen p. least_pressure_v1_with_soft_limit (demo_inputs 4) (Finite (1/2)) =
      Inr \<lparr>occupancy = Finite occ, kv_penalty = Finite pen, pressure = Finite p\<rparr> \<and> pen \<le> 1 \<and> occ \<le> p"
  using least_pressure_bounds [OF demo_inputs_valid demo_limit_valid, of 4] by blast

text \<open>
  More load never looks better. If one backend has at least as many running, waiting
  and newly assigned sequences, no more capacity and no lower KV ratio than another, its
  pressure is not below the other's in the order \<open>total_cmp\<close> sorts by, in spite of rounding.
\<close>

theorem least_pressure_monotone:
  assumes "valid_limit limit"
    and "0 < in_capacity a" and "valid_ratio (in_kv_ratio a) x"
    and "0 < in_capacity b" and "valid_ratio (in_kv_ratio b) y"
    and "in_running a \<le> in_running b" and "in_waiting a \<le> in_waiting b"
    and "in_new_sequences a \<le> in_new_sequences b" and "in_capacity b \<le> in_capacity a"
    and "x = None \<or> (\<exists>v w. x = Some v \<and> y = Some w \<and> v \<le> w)"
    and "least_pressure_v1_with_soft_limit a (Finite limit) = Inr score_a"
    and "least_pressure_v1_with_soft_limit b (Finite limit) = Inr score_b"
  shows "f64_total_le (pressure score_a) (pressure score_b)"
proof -
  let ?o = "\<lambda>i. occupancy_value (unat (in_running i)) (unat (in_waiting i))
      (unat (in_new_sequences i)) (unat (in_capacity i))"
  have "?o a \<le> ?o b"
    using assms(4,6-9) by (intro occupancy_mono) (auto simp: word_le_nat_alt word_less_nat_alt)
  moreover have "penalty_value x limit \<le> penalty_value y limit"
  proof (cases x)
    case None
    then show ?thesis using penalty_bounds [OF assms(1,5)] by (simp add: penalty_value_def)
  next
    case (Some v)
    then show ?thesis using assms(10) penalty_mono [OF assms(1)] by auto
  qed
  ultimately have "rnd (?o a + penalty_value x limit) \<le> rnd (?o b + penalty_value y limit)"
    by (intro rnd_mono add_mono)
  then show ?thesis
    using least_pressure_value [OF assms(2,3,1)] least_pressure_value [OF assms(4,5,1)] assms(11,12)
    by (auto simp: Let_def)
qed

theorem least_pressure_monotone_witness:
  "\<exists>sa sb. least_pressure_v1_with_soft_limit (demo_inputs 4) (Finite (1/2)) = Inr sa \<and>
     least_pressure_v1_with_soft_limit (demo_inputs 9) (Finite (1/2)) = Inr sb \<and>
     f64_total_le (pressure sa) (pressure sb)"
proof -
  obtain sa sb where run: "least_pressure_v1_with_soft_limit (demo_inputs 4) (Finite (1/2)) = Inr sa"
    "least_pressure_v1_with_soft_limit (demo_inputs 9) (Finite (1/2)) = Inr sb"
    using least_pressure_value [OF demo_inputs_valid demo_limit_valid, of 4]
      least_pressure_value [OF demo_inputs_valid demo_limit_valid, of 9] by blast
  have "f64_total_le (pressure sa) (pressure sb)"
    by (rule least_pressure_monotone [OF demo_limit_valid demo_inputs_valid demo_inputs_valid
          _ _ _ _ _ run]) (simp_all add: demo_inputs_def, auto intro!: exI [of _ "3/4"])
  with run show ?thesis by blast
qed

subsection \<open>Which lines a snapshot comes from\<close>

definition names_metric :: "string \<Rightarrow> string \<Rightarrow> bool" where
  "names_metric m raw_line \<longleftrightarrow>
     (let line = trim raw_line in line \<noteq> [] \<and> hd line \<noteq> CHR ''#'' \<and> metric_name_prefix line = m)"

definition metric_lines :: "string \<Rightarrow> string list \<Rightarrow> string list" where
  "metric_lines m ls = filter (names_metric m) ls"

definition gauge_of :: "string \<Rightarrow> parse_state \<Rightarrow> RequiredGauge" where
  "gauge_of m p =
     (if m = SEQUENCES_RUNNING_METRIC then ps_running p
      else if m = SEQUENCES_WAITING_METRIC then ps_waiting p
      else if m = SEQUENCES_CAPACITY_METRIC then ps_capacity p
      else if m = KV_CACHE_BLOCKS_USED_METRIC then ps_kv_used p
      else ps_kv_total p)"

definition gauge_metrics :: "string set" where
  "gauge_metrics = {SEQUENCES_RUNNING_METRIC, SEQUENCES_WAITING_METRIC, SEQUENCES_CAPACITY_METRIC,
     KV_CACHE_BLOCKS_USED_METRIC, KV_CACHE_BLOCKS_TOTAL_METRIC}"

text \<open>The only line that names the metric is an unlabelled sample of this exact value.\<close>

definition reports :: "string \<Rightarrow> string list \<Rightarrow> u64 \<Rightarrow> bool" where
  "reports m ls v \<longleftrightarrow> (\<exists>l sample. metric_lines m ls = [l] \<and>
     parse_sample_line (trim l) = Inr sample \<and> sample_labels sample = None \<and>
     parse_f64 (sample_value sample) = Some (Finite (of_nat (unat v))) \<and> unat v < 2 ^ 53)"

lemma metric_names_distinct:
  "distinct [SEQUENCES_RUNNING_METRIC, SEQUENCES_WAITING_METRIC, SEQUENCES_CAPACITY_METRIC,
     KV_CACHE_BLOCKS_USED_METRIC, KV_CACHE_BLOCKS_TOTAL_METRIC, TOKENS_PROCESSED_TOTAL_METRIC,
     PREFILL_TOKENS_PROCESSED_TOTAL_METRIC, DECODE_TOKENS_PROCESSED_TOTAL_METRIC,
     SEQUENCES_COMPLETED_TOTAL_METRIC]"
  by (simp add: metric_names)

lemma observe_sample_gauge:
  assumes "observe_sample sample n p = Inr p'" and "m \<in> gauge_metrics"
    and "is_recognized_metric (sample_name sample)"
  shows "if sample_name sample = m then gauge_observe (gauge_of m p) sample n = Inr (gauge_of m p')
    else gauge_of m p' = gauge_of m p"
  using assms metric_names_distinct
  by (auto simp: observe_sample_def Let_def map_right_def gauge_of_def gauge_metrics_def
      split: sum.splits if_splits)

lemma reject_line_gauge:
  assumes "reject_line m' n reason p = Inr p'" and "m \<in> gauge_metrics"
  shows "m' \<noteq> m \<and> gauge_of m p' = gauge_of m p"
  using assms metric_names_distinct
  by (auto simp: reject_line_def gauge_of_def gauge_metrics_def split: if_splits)

lemma gauge_recognized: "m \<in> gauge_metrics \<Longrightarrow> is_recognized_metric m"
  by (auto simp: gauge_metrics_def is_recognized_metric_def)

lemma parse_line_gauge:
  assumes "parse_line n l p = Inr p'" and "m \<in> gauge_metrics"
  shows "if names_metric m l
    then \<exists>sample. parse_sample_line (trim l) = Inr sample \<and>
      gauge_observe (gauge_of m p) sample n = Inr (gauge_of m p')
    else gauge_of m p' = gauge_of m p"
proof (cases "trim l = [] \<or> hd (trim l) = CHR ''#'' \<or>
    \<not> is_recognized_metric (metric_name_prefix (trim l))")
  case True
  then show ?thesis
    using assms gauge_recognized [OF assms(2)]
    by (auto simp: parse_line_def names_metric_def Let_def split: if_splits)
next
  case False
  show ?thesis
  proof (cases "parse_sample_line (trim l)")
    case (Inl reason)
    then show ?thesis
      using False assms reject_line_gauge [of "metric_name_prefix (trim l)" n reason p p' m]
      by (auto simp: parse_line_def names_metric_def Let_def)
  next
    case (Inr sample)
    then show ?thesis
      using False assms observe_sample_gauge [of sample n p p' m] parse_sample_line_name [OF Inr]
      by (auto simp: parse_line_def names_metric_def Let_def)
  qed
qed

lemma gauge_observe_Inr:
  assumes "gauge_observe g sample n = Inr g'"
  shows "gauge_line g = None \<and> sample_labels sample = None \<and> gauge_line g' = Some n \<and>
    gauge_positive g' = gauge_positive g \<and>
    (\<exists>v. parse_gauge_count (sample_value sample) (gauge_positive g) = Inr v \<and> gauge_value g' = Some v)"
  using assms by (auto simp: gauge_observe_def split: option.splits if_splits sum.splits)

lemma parse_lines_gauge:
  assumes "parse_lines n ls p = Inr p'" and "m \<in> gauge_metrics"
  shows "(metric_lines m ls = [] \<and> gauge_of m p' = gauge_of m p) \<or>
    (\<exists>l sample v. metric_lines m ls = [l] \<and> gauge_line (gauge_of m p) = None \<and>
       parse_sample_line (trim l) = Inr sample \<and> sample_labels sample = None \<and>
       parse_gauge_count (sample_value sample) (gauge_positive (gauge_of m p)) = Inr v \<and>
       gauge_value (gauge_of m p') = Some v)"
  using assms(1)
proof (induction ls arbitrary: n p)
  case Nil
  then show ?case by (simp add: metric_lines_def)
next
  case (Cons l ls)
  then obtain q where q: "parse_line n l p = Inr q" and rest: "parse_lines (n + 1) ls q = Inr p'"
    by (auto split: sum.splits)
  note line = parse_line_gauge [OF q assms(2)] and IH = Cons.IH [OF rest]
  show ?case
  proof (cases "names_metric m l")
    case False
    then have "metric_lines m (l # ls) = metric_lines m ls" by (simp add: metric_lines_def)
    moreover have "gauge_of m q = gauge_of m p" using line False by simp
    ultimately show ?thesis using IH by simp
  next
    case True
    then obtain sample where s: "parse_sample_line (trim l) = Inr sample"
      and "gauge_observe (gauge_of m p) sample n = Inr (gauge_of m q)"
      using line by auto
    note g = gauge_observe_Inr [OF this(2)]
    then have "metric_lines m ls = [] \<and> gauge_of m p' = gauge_of m q" using IH by auto
    then have "metric_lines m (l # ls) = [l]" and "gauge_of m p' = gauge_of m q"
      using True by (simp_all add: metric_lines_def)
    then show ?thesis using s g by auto
  qed
qed

lemma initial_gauge:
  assumes "m \<in> gauge_metrics"
  shows "gauge_line (gauge_of m initial_parse_state) = None \<and>
    gauge_value (gauge_of m initial_parse_state) = None \<and>
    gauge_positive (gauge_of m initial_parse_state) =
      (m = SEQUENCES_CAPACITY_METRIC \<or> m = KV_CACHE_BLOCKS_TOTAL_METRIC)"
  using assms metric_names_distinct
  by (auto simp: gauge_of_def gauge_metrics_def initial_parse_state_def new_gauge_def)

lemma parsed_gauge:
  assumes "parse_lines 1 ls initial_parse_state = Inr p" and "m \<in> gauge_metrics"
  shows "case gauge_value (gauge_of m p) of
      None \<Rightarrow> metric_lines m ls = []
    | Some v \<Rightarrow> reports m ls v \<and>
        (m = SEQUENCES_CAPACITY_METRIC \<or> m = KV_CACHE_BLOCKS_TOTAL_METRIC \<longrightarrow> 0 < v)"
  using parse_lines_gauge [OF assms] initial_gauge [OF assms(2)]
  by (auto simp: reports_def dest!: parse_gauge_count_Inr split: option.splits)

lemma finish_parse_Inr:
  assumes "finish_parse p = Inr m"
  shows "gauge_value (ps_running p) = Some (sequences_running m) \<and>
    gauge_value (ps_waiting p) = Some (sequences_waiting m) \<and>
    gauge_value (ps_capacity p) = sequences_capacity m \<and>
    gauge_value (ps_kv_used p) = map_option kv_used (kv_cache m) \<and>
    gauge_value (ps_kv_total p) = map_option kv_total (kv_cache m)"
  using assms
  by (auto simp: finish_parse_def gauge_required_def Let_def split: option.splits)

text \<open>
  C7. A snapshot that parses is exactly what the backend reported. The running and waiting
  gauges each come from the only line that names them, an unlabelled sample whose text
  denotes precisely that integer, below two to the fifty-third. A capacity is reported by
  one such line with a positive value or by none. The two KV gauges are both reported so,
  with a positive total, or neither is. An incomplete or repeated gauge can therefore never
  pass for an idle backend.
\<close>

theorem parse_metrics_exact:
  assumes "parse_mistralrs_metrics input = Inr m"
  shows "reports SEQUENCES_RUNNING_METRIC (lines input) (sequences_running m) \<and>
    reports SEQUENCES_WAITING_METRIC (lines input) (sequences_waiting m) \<and>
    (case sequences_capacity m of
       None \<Rightarrow> metric_lines SEQUENCES_CAPACITY_METRIC (lines input) = []
     | Some c \<Rightarrow> reports SEQUENCES_CAPACITY_METRIC (lines input) c \<and> 0 < c) \<and>
    (case kv_cache m of
       None \<Rightarrow> metric_lines KV_CACHE_BLOCKS_USED_METRIC (lines input) = [] \<and>
         metric_lines KV_CACHE_BLOCKS_TOTAL_METRIC (lines input) = []
     | Some kv \<Rightarrow> reports KV_CACHE_BLOCKS_USED_METRIC (lines input) (kv_used kv) \<and>
         reports KV_CACHE_BLOCKS_TOTAL_METRIC (lines input) (kv_total kv) \<and> 0 < kv_total kv)"
proof -
  obtain p where p: "parse_lines 1 (lines input) initial_parse_state = Inr p"
    and f: "finish_parse p = Inr m"
    using assms by (auto simp: parse_mistralrs_metrics_def split: sum.splits)
  note g = parsed_gauge [OF p]
  have mem: "SEQUENCES_RUNNING_METRIC \<in> gauge_metrics" "SEQUENCES_WAITING_METRIC \<in> gauge_metrics"
    "SEQUENCES_CAPACITY_METRIC \<in> gauge_metrics" "KV_CACHE_BLOCKS_USED_METRIC \<in> gauge_metrics"
    "KV_CACHE_BLOCKS_TOTAL_METRIC \<in> gauge_metrics"
    by (simp_all add: gauge_metrics_def)
  have of: "gauge_of SEQUENCES_RUNNING_METRIC p = ps_running p"
    "gauge_of SEQUENCES_WAITING_METRIC p = ps_waiting p"
    "gauge_of SEQUENCES_CAPACITY_METRIC p = ps_capacity p"
    "gauge_of KV_CACHE_BLOCKS_USED_METRIC p = ps_kv_used p"
    "gauge_of KV_CACHE_BLOCKS_TOTAL_METRIC p = ps_kv_total p"
    using metric_names_distinct by (auto simp: gauge_of_def)
  note fin = finish_parse_Inr [OF f]
  have "reports SEQUENCES_RUNNING_METRIC (lines input) (sequences_running m)"
    using g [OF mem(1)] fin unfolding of by simp
  moreover have "reports SEQUENCES_WAITING_METRIC (lines input) (sequences_waiting m)"
    using g [OF mem(2)] fin unfolding of by simp
  moreover have "case sequences_capacity m of
       None \<Rightarrow> metric_lines SEQUENCES_CAPACITY_METRIC (lines input) = []
     | Some c \<Rightarrow> reports SEQUENCES_CAPACITY_METRIC (lines input) c \<and> 0 < c"
    using g [OF mem(3)] fin unfolding of by (simp split: option.splits)
  moreover have "case kv_cache m of
       None \<Rightarrow> metric_lines KV_CACHE_BLOCKS_USED_METRIC (lines input) = [] \<and>
         metric_lines KV_CACHE_BLOCKS_TOTAL_METRIC (lines input) = []
     | Some kv \<Rightarrow> reports KV_CACHE_BLOCKS_USED_METRIC (lines input) (kv_used kv) \<and>
         reports KV_CACHE_BLOCKS_TOTAL_METRIC (lines input) (kv_total kv) \<and> 0 < kv_total kv"
    using g [OF mem(4)] g [OF mem(5)] fin unfolding of by (cases "kv_cache m") simp_all
  ultimately show ?thesis by blast
qed

definition demo_text :: string where
  "demo_text = ''mistralrs_sequences_running 4'' @ [CHR 0x0A] @
     ''mistralrs_sequences_waiting 2'' @ [CHR 0x0A]"

lemma demo_text_piece1: "lines demo_text = [''mistralrs_sequences_running 4'', ''mistralrs_sequences_waiting 2'']"
  by code_simp

lemma demo_text_piece2: "trim ''mistralrs_sequences_running 4'' = ''mistralrs_sequences_running 4''"
  by code_simp

lemma demo_text_piece3: "trim ''mistralrs_sequences_waiting 2'' = ''mistralrs_sequences_waiting 2''"
  by code_simp

lemma demo_text_piece4: "metric_name_prefix ''mistralrs_sequences_running 4'' = SEQUENCES_RUNNING_METRIC"
  by code_simp

lemma demo_text_piece5: "metric_name_prefix ''mistralrs_sequences_waiting 2'' = SEQUENCES_WAITING_METRIC"
  by code_simp

lemma demo_text_piece6: "parse_sample_line ''mistralrs_sequences_running 4'' =
     Inr \<lparr>sample_name = SEQUENCES_RUNNING_METRIC, sample_labels = None, sample_value = ''4''\<rparr>"
  by code_simp

lemma demo_text_piece7: "parse_sample_line ''mistralrs_sequences_waiting 2'' =
     Inr \<lparr>sample_name = SEQUENCES_WAITING_METRIC, sample_labels = None, sample_value = ''2''\<rparr>"
  by code_simp

lemma demo_text_piece8: "parse_gauge_count ''4'' False = Inr 4"
  by code_simp

lemma demo_text_piece9: "parse_gauge_count ''2'' False = Inr 2"
  by code_simp

lemmas demo_text_pieces = demo_text_piece1 demo_text_piece2 demo_text_piece3 demo_text_piece4 demo_text_piece5
  demo_text_piece6 demo_text_piece7 demo_text_piece8 demo_text_piece9

lemma demo_text_parses:
  "\<exists>m. parse_mistralrs_metrics demo_text = Inr m \<and> sequences_running m = 4 \<and>
     sequences_waiting m = 2"
proof -
  have neq: "SEQUENCES_WAITING_METRIC \<noteq> SEQUENCES_RUNNING_METRIC"
    using metric_names_distinct by auto
  show ?thesis
    by (simp add: parse_mistralrs_metrics_def demo_text_pieces parse_line_def Let_def
        is_recognized_metric_def observe_sample_def map_right_def gauge_observe_def neq
        initial_parse_state_def new_gauge_def finish_parse_def gauge_required_def)
qed

theorem parse_metrics_exact_witness:
  "\<exists>m. parse_mistralrs_metrics demo_text = Inr m \<and>
     reports SEQUENCES_RUNNING_METRIC (lines demo_text) 4 \<and>
     reports SEQUENCES_WAITING_METRIC (lines demo_text) 2"
proof -
  obtain m where m: "parse_mistralrs_metrics demo_text = Inr m" "sequences_running m = 4"
    "sequences_waiting m = 2"
    using demo_text_parses by blast
  then show ?thesis using parse_metrics_exact [OF m(1)] by auto
qed

end
