(* ===== verification/Backend_Slot.thy ===== *)
theory Backend_Slot
  imports Prelude
begin

text \<open>
  The lease gate of one backend (\<open>src/src/backend.rs\<close>, \<open>BackendSlot\<close>): its state, the
  atomic operations that run under the slot's mutex, the lease a request holds and the
  loop that waits for a drain. One call is one step; threads interleave at call
  boundaries, so a history of the slot is a list of calls.
\<close>

subsection \<open>Data\<close>

type_synonym BackendId = string

record BackendSpec =
  spec_id :: BackendId
  spec_endpoint :: string

datatype BackendMode = Active | Draining | Disabled

record BackendSnapshot =
  snap_spec :: BackendSpec
  snap_registered :: bool
  snap_mode :: BackendMode
  snap_mode_epoch :: u64
  snap_sequence :: u64
  snap_spec_revision :: u64
  snap_total_acquired :: u64
  snap_local_active :: nat
  snap_oldest_active_age :: "duration option"

definition snapshot_id :: "BackendSnapshot \<Rightarrow> BackendId" where
  "snapshot_id s = spec_id (snap_spec s)"

definition locally_drained :: "BackendSnapshot \<Rightarrow> bool" where
  "locally_drained s \<longleftrightarrow> snap_mode s = Draining \<and> snap_local_active s = 0"

record DrainToken =
  token_backend_id :: BackendId
  token_mode_epoch :: u64

datatype AcquireError =
    Retired BackendId
  | NotActive BackendId BackendMode

datatype ModeChangeError = ModeChangeRetired BackendId

datatype DrainWaitError =
    WrongBackend BackendId BackendId
  | Superseded BackendId u64 u64 BackendMode

text \<open>
  \<open>LeaseKey\<close> derives \<open>Ord\<close>: the start instant first, then the serial number.
\<close>

datatype LeaseKey = LeaseKey (started_at: instant) (serial: u64)

definition lease_key_le :: "LeaseKey \<Rightarrow> LeaseKey \<Rightarrow> bool" where
  "lease_key_le a b \<longleftrightarrow>
     started_at a < started_at b \<or> (started_at a = started_at b \<and> serial a \<le> serial b)"

instantiation LeaseKey :: linorder
begin

definition less_eq_LeaseKey :: "LeaseKey \<Rightarrow> LeaseKey \<Rightarrow> bool" where
  "less_eq_LeaseKey a b \<longleftrightarrow> lease_key_le a b"

definition less_LeaseKey :: "LeaseKey \<Rightarrow> LeaseKey \<Rightarrow> bool" where
  "less_LeaseKey a b \<longleftrightarrow> lease_key_le a b \<and> \<not> lease_key_le b a"

instance
  by standard
    (auto simp: less_eq_LeaseKey_def less_LeaseKey_def lease_key_le_def LeaseKey.expand)

end

text \<open>
  \<open>SlotState\<close>. The \<open>BTreeMap<LeaseKey, ()>\<close> is the list of its keys in ascending order.
\<close>

record SlotState =
  st_spec :: BackendSpec
  st_registered :: bool
  st_mode :: BackendMode
  st_mode_epoch :: u64
  st_sequence :: u64
  st_spec_revision :: u64
  st_next_lease_serial :: u64
  st_total_acquired :: u64
  st_leases :: "LeaseKey list"

text \<open>\<open>BackendSlot\<close>: the protected state and the value last sent on the watch channel.\<close>

record BackendSlot =
  slot_state :: SlotState
  slot_changed :: u64

text \<open>
  \<open>BackendLease\<close>. The \<open>Arc\<close> to the slot is the backend id of the captured
  specification; the key is taken by the first drop.
\<close>

record BackendLease =
  lease_key :: "LeaseKey option"
  lease_spec :: BackendSpec

subsection \<open>Operations\<close>

definition state_snapshot :: "SlotState \<Rightarrow> instant \<Rightarrow> BackendSnapshot" where
  "state_snapshot s now =
     \<lparr>snap_spec = st_spec s,
      snap_registered = st_registered s,
      snap_mode = st_mode s,
      snap_mode_epoch = st_mode_epoch s,
      snap_sequence = st_sequence s,
      snap_spec_revision = st_spec_revision s,
      snap_total_acquired = st_total_acquired s,
      snap_local_active = length (st_leases s),
      snap_oldest_active_age =
        (case st_leases s of [] \<Rightarrow> None
         | key # _ \<Rightarrow> Some (saturating_duration_since now (started_at key)))\<rparr>"

definition next_sequence :: "SlotState \<Rightarrow> SlotState option" where
  "next_sequence s =
     do { n \<leftarrow> checked_add (st_sequence s) 1; Some (s\<lparr>st_sequence := n\<rparr>) }"

definition next_mode_epoch :: "SlotState \<Rightarrow> SlotState option" where
  "next_mode_epoch s =
     do { n \<leftarrow> checked_add (st_mode_epoch s) 1; Some (s\<lparr>st_mode_epoch := n\<rparr>) }"

definition slot_new :: "BackendSpec \<Rightarrow> BackendMode \<Rightarrow> BackendSlot" where
  "slot_new spec mode =
     \<lparr>slot_state =
        \<lparr>st_spec = spec, st_registered = True, st_mode = mode, st_mode_epoch = 0,
         st_sequence = 0, st_spec_revision = 0, st_next_lease_serial = 0,
         st_total_acquired = 0, st_leases = []\<rparr>,
      slot_changed = 0\<rparr>"

definition slot_id :: "BackendSlot \<Rightarrow> BackendId" where
  "slot_id slot = spec_id (st_spec (slot_state slot))"

definition slot_snapshot :: "BackendSlot \<Rightarrow> instant \<Rightarrow> BackendSnapshot" where
  "slot_snapshot slot now = state_snapshot (slot_state slot) now"

text \<open>\<open>publish_locked\<close>: advance the sequence and send it on the watch channel.\<close>

definition publish_locked :: "SlotState \<Rightarrow> BackendSlot option" where
  "publish_locked s =
     do { s' \<leftarrow> next_sequence s;
          Some \<lparr>slot_state = s', slot_changed = st_sequence s'\<rparr> }"

definition try_acquire ::
  "instant \<Rightarrow> BackendSlot \<Rightarrow> ((AcquireError + BackendLease) \<times> BackendSlot) option" where
  "try_acquire now slot =
     (let s = slot_state slot in
      if \<not> st_registered s then Some (Inl (Retired (spec_id (st_spec s))), slot)
      else if st_mode s \<noteq> Active
        then Some (Inl (NotActive (spec_id (st_spec s)) (st_mode s)), slot)
      else do {
        next_serial \<leftarrow> checked_add (st_next_lease_serial s) 1;
        total \<leftarrow> checked_add (st_total_acquired s) 1;
        let key = LeaseKey now (st_next_lease_serial s);
        slot' \<leftarrow> publish_locked
          (s\<lparr>st_next_lease_serial := next_serial, st_total_acquired := total,
             st_leases := insort_insert key (st_leases s)\<rparr>);
        Some (Inr \<lparr>lease_key = Some key, lease_spec = st_spec s\<rparr>, slot')
      })"

definition set_mode ::
  "instant \<Rightarrow> BackendMode \<Rightarrow> bool \<Rightarrow> BackendSlot
    \<Rightarrow> ((ModeChangeError + BackendSnapshot) \<times> BackendSlot) option" where
  "set_mode now mode require_registered slot =
     (let s = slot_state slot in
      if require_registered \<and> \<not> st_registered s
        then Some (Inl (ModeChangeRetired (spec_id (st_spec s))), slot)
      else do {
        slot' \<leftarrow> (if st_mode s \<noteq> mode
          then do { s' \<leftarrow> next_mode_epoch (s\<lparr>st_mode := mode\<rparr>); publish_locked s' }
          else Some slot);
        Some (Inr (slot_snapshot slot' now), slot')
      })"

definition activate ::
  "instant \<Rightarrow> BackendSlot \<Rightarrow> ((ModeChangeError + BackendSnapshot) \<times> BackendSlot) option" where
  "activate now slot = set_mode now Active True slot"

text \<open>\<open>disable\<close>: the \<open>expect\<close> on the result is the panic of the \<open>Inl\<close> branch.\<close>

definition disable :: "instant \<Rightarrow> BackendSlot \<Rightarrow> (BackendSnapshot \<times> BackendSlot) option" where
  "disable now slot =
     do { (r, slot') \<leftarrow> set_mode now Disabled False slot;
          case r of Inl e \<Rightarrow> None | Inr snap \<Rightarrow> Some (snap, slot') }"

definition begin_drain :: "BackendSlot \<Rightarrow> (DrainToken \<times> BackendSlot) option" where
  "begin_drain slot =
     do {
       slot' \<leftarrow> (let s = slot_state slot in
         if st_mode s \<noteq> Draining
         then do { s' \<leftarrow> next_mode_epoch (s\<lparr>st_mode := Draining\<rparr>); publish_locked s' }
         else Some slot);
       Some (\<lparr>token_backend_id = slot_id slot',
              token_mode_epoch = st_mode_epoch (slot_state slot')\<rparr>, slot')
     }"

record ReconciledSlot =
  revived :: bool
  updated :: bool

definition reconcile_present ::
  "BackendSpec \<Rightarrow> BackendSlot \<Rightarrow> (ReconciledSlot \<times> BackendSlot) option" where
  "reconcile_present spec slot =
     (let s = slot_state slot;
          was_registered = st_registered s;
          changed_spec = (st_spec s \<noteq> spec) in
      do {
        s1 \<leftarrow> (if changed_spec
          then do { rev \<leftarrow> checked_add (st_spec_revision s) 1;
                    Some (s\<lparr>st_registered := True, st_spec := spec, st_spec_revision := rev\<rparr>) }
          else Some (s\<lparr>st_registered := True\<rparr>));
        slot' \<leftarrow> (if \<not> was_registered \<or> changed_spec then publish_locked s1
          else Some (slot\<lparr>slot_state := s1\<rparr>));
        Some (\<lparr>revived = (\<not> was_registered), updated = changed_spec\<rparr>, slot')
      })"

definition reconcile_absent :: "BackendSlot \<Rightarrow> (bool \<times> BackendSlot) option" where
  "reconcile_absent slot =
     (let s = slot_state slot in
      if \<not> st_registered s then Some (False, slot)
      else do {
        s1 \<leftarrow> (let r = s\<lparr>st_registered := False\<rparr> in
          if st_mode r = Active then next_mode_epoch (r\<lparr>st_mode := Disabled\<rparr>) else Some r);
        slot' \<leftarrow> publish_locked s1;
        Some (True, slot')
      })"

definition releasable_tombstone :: "BackendSlot \<Rightarrow> bool" where
  "releasable_tombstone slot \<longleftrightarrow>
     (let s = slot_state slot in
      \<not> st_registered s \<and> st_leases s = [] \<and> st_mode s \<noteq> Draining)"

text \<open>\<open>release\<close>: removing a key that is not held fails the assertion.\<close>

definition release :: "LeaseKey \<Rightarrow> BackendSlot \<Rightarrow> BackendSlot option" where
  "release key slot =
     (let s = slot_state slot in
      if key \<in> set (st_leases s)
      then publish_locked (s\<lparr>st_leases := removeAll key (st_leases s)\<rparr>)
      else None)"

text \<open>\<open>Drop for BackendLease\<close>: the first drop takes the key and releases it.\<close>

definition drop_lease :: "BackendLease \<Rightarrow> BackendSlot \<Rightarrow> (BackendLease \<times> BackendSlot) option" where
  "drop_lease lease slot =
     (case lease_key lease of
        None \<Rightarrow> Some (lease, slot)
      | Some key \<Rightarrow> do { slot' \<leftarrow> release key slot; Some (lease\<lparr>lease_key := None\<rparr>, slot') })"

text \<open>
  One turn of the loop of \<open>wait_for_local_zero\<close>: an answer, or \<open>None\<close> to sleep until the
  watch value changes. The loop itself sees the slot at the instants it wakes up.
\<close>

definition wait_check ::
  "DrainToken \<Rightarrow> BackendSnapshot \<Rightarrow> (DrainWaitError + BackendSnapshot) option" where
  "wait_check token snap =
     (if snap_mode snap \<noteq> Draining \<or> snap_mode_epoch snap \<noteq> token_mode_epoch token
      then Some (Inl (Superseded (snapshot_id snap) (token_mode_epoch token)
                        (snap_mode_epoch snap) (snap_mode snap)))
      else if snap_local_active snap = 0 then Some (Inr snap)
      else None)"

fun wait_loop ::
  "DrainToken \<Rightarrow> (instant \<times> BackendSlot) list \<Rightarrow> (DrainWaitError + BackendSnapshot) option" where
  "wait_loop token [] = None"
| "wait_loop token ((now, slot) # later) =
     (case wait_check token (slot_snapshot slot now) of
        Some answer \<Rightarrow> Some answer
      | None \<Rightarrow> wait_loop token later)"

definition wait_for_local_zero ::
  "DrainToken \<Rightarrow> BackendSlot \<Rightarrow> (instant \<times> BackendSlot) list
    \<Rightarrow> (DrainWaitError + BackendSnapshot) option" where
  "wait_for_local_zero token slot wakeups =
     (if token_backend_id token \<noteq> slot_id slot
      then Some (Inl (WrongBackend (token_backend_id token) (slot_id slot)))
      else wait_loop token wakeups)"

subsection \<open>Calls on a slot and their histories\<close>

datatype slot_op =
    OpAcquire instant
  | OpActivate instant
  | OpDisable instant
  | OpBeginDrain
  | OpReconcilePresent BackendSpec
  | OpReconcileAbsent
  | OpRelease LeaseKey

fun slot_step :: "slot_op \<Rightarrow> BackendSlot \<Rightarrow> BackendSlot option" where
  "slot_step (OpAcquire now) slot = map_option snd (try_acquire now slot)"
| "slot_step (OpActivate now) slot = map_option snd (activate now slot)"
| "slot_step (OpDisable now) slot = map_option snd (disable now slot)"
| "slot_step OpBeginDrain slot = map_option snd (begin_drain slot)"
| "slot_step (OpReconcilePresent spec) slot = map_option snd (reconcile_present spec slot)"
| "slot_step OpReconcileAbsent slot = map_option snd (reconcile_absent slot)"
| "slot_step (OpRelease key) slot = release key slot"

abbreviation slot_run :: "slot_op list \<Rightarrow> BackendSlot \<Rightarrow> BackendSlot option" where
  "slot_run ops slot \<equiv> run_all slot_step ops slot"

text \<open>What a slot keeps true between calls.\<close>

definition slot_inv :: "BackendSlot \<Rightarrow> bool" where
  "slot_inv slot \<longleftrightarrow>
     (let s = slot_state slot in
      sorted (st_leases s) \<and> distinct (map serial (st_leases s)) \<and>
      (\<forall>k \<in> set (st_leases s). serial k < st_next_lease_serial s) \<and>
      st_total_acquired s = st_next_lease_serial s \<and>
      slot_changed slot = st_sequence s \<and>
      (st_mode s = Active \<longrightarrow> st_registered s))"

subsection \<open>Lemmas: one call\<close>

lemmas slot_defs [slot_ops] =
  next_sequence_def next_mode_epoch_def publish_locked_def try_acquire_def set_mode_def
  activate_def disable_def begin_drain_def reconcile_present_def reconcile_absent_def
  release_def Let_def

lemma publish_locked_Some:
  "publish_locked s = Some slot \<longleftrightarrow>
     (\<exists>n. checked_add (st_sequence s) 1 = Some n \<and>
          slot = \<lparr>slot_state = s\<lparr>st_sequence := n\<rparr>, slot_changed = n\<rparr>)"
  by (auto simp: publish_locked_def next_sequence_def split: bind_splits)

lemma next_mode_epoch_Some:
  "next_mode_epoch s = Some s' \<longleftrightarrow>
     (\<exists>n. checked_add (st_mode_epoch s) 1 = Some n \<and> s' = s\<lparr>st_mode_epoch := n\<rparr>)"
  by (auto simp: next_mode_epoch_def split: bind_splits)

text \<open>The two shapes of a call's effect: how an accepted acquisition and a mode change act.\<close>

lemma try_acquire_Inr:
  "try_acquire now slot = Some (Inr lease, slot') \<longleftrightarrow>
     st_registered (slot_state slot) \<and> st_mode (slot_state slot) = Active \<and>
     (\<exists>n m q. checked_add (st_next_lease_serial (slot_state slot)) 1 = Some n \<and>
        checked_add (st_total_acquired (slot_state slot)) 1 = Some m \<and>
        checked_add (st_sequence (slot_state slot)) 1 = Some q \<and>
        lease = \<lparr>lease_key = Some (LeaseKey now (st_next_lease_serial (slot_state slot))),
                 lease_spec = st_spec (slot_state slot)\<rparr> \<and>
        slot' = \<lparr>slot_state = (slot_state slot)
                  \<lparr>st_next_lease_serial := n, st_total_acquired := m,
                   st_leases := insort_insert
                     (LeaseKey now (st_next_lease_serial (slot_state slot)))
                     (st_leases (slot_state slot)),
                   st_sequence := q\<rparr>,
                 slot_changed = q\<rparr>)"
  by (auto simp: try_acquire_def Let_def publish_locked_def next_sequence_def split: bind_splits)

lemma try_acquire_Inl:
  "try_acquire now slot = Some (Inl e, slot') \<Longrightarrow>
     slot' = slot \<and> (\<not> st_registered (slot_state slot) \<or> st_mode (slot_state slot) \<noteq> Active)"
  by (auto simp: try_acquire_def Let_def split: bind_splits if_splits)

definition mode_changed :: "BackendMode \<Rightarrow> BackendSlot \<Rightarrow> BackendSlot \<Rightarrow> bool" where
  "mode_changed mode slot slot' \<longleftrightarrow>
     (if st_mode (slot_state slot) = mode then slot' = slot
      else \<exists>e q. checked_add (st_mode_epoch (slot_state slot)) 1 = Some e \<and>
             checked_add (st_sequence (slot_state slot)) 1 = Some q \<and>
             slot' = \<lparr>slot_state = (slot_state slot)
                       \<lparr>st_mode := mode, st_mode_epoch := e, st_sequence := q\<rparr>,
                      slot_changed = q\<rparr>)"

lemma set_mode_Inr:
  "set_mode now mode req slot = Some (Inr snap, slot') \<longleftrightarrow>
     (req \<longrightarrow> st_registered (slot_state slot)) \<and> mode_changed mode slot slot' \<and>
     snap = slot_snapshot slot' now"
  by (auto simp: set_mode_def mode_changed_def Let_def publish_locked_def next_sequence_def
      next_mode_epoch_def split: bind_splits if_splits)

lemma set_mode_Inl:
  "set_mode now mode req slot = Some (Inl e, slot') \<longleftrightarrow>
     req \<and> \<not> st_registered (slot_state slot) \<and> slot' = slot \<and>
     e = ModeChangeRetired (slot_id slot)"
  by (auto simp: set_mode_def slot_id_def Let_def split: bind_splits if_splits)

lemma disable_Some:
  "disable now slot = Some (snap, slot') \<longleftrightarrow>
     mode_changed Disabled slot slot' \<and> snap = slot_snapshot slot' now"
  by (auto simp: disable_def set_mode_def mode_changed_def Let_def publish_locked_def
      next_sequence_def next_mode_epoch_def split: bind_splits if_splits)

lemma begin_drain_Some:
  "begin_drain slot = Some (token, slot') \<longleftrightarrow>
     mode_changed Draining slot slot' \<and>
     token = \<lparr>token_backend_id = slot_id slot',
              token_mode_epoch = st_mode_epoch (slot_state slot')\<rparr>"
  by (auto simp: begin_drain_def mode_changed_def Let_def publish_locked_def next_sequence_def
      next_mode_epoch_def split: bind_splits if_splits)

text \<open>The effect of each call on the slot, one equation per call.\<close>

named_theorems slot_effect \<open>the effect of one call on a slot\<close>

lemma slot_step_activate [slot_effect]:
  "slot_step (OpActivate now) slot = Some t \<longleftrightarrow>
     (if st_registered (slot_state slot) then mode_changed Active slot t else t = slot)"
proof -
  have "slot_step (OpActivate now) slot = Some t \<longleftrightarrow>
      (\<exists>r. set_mode now Active True slot = Some (r, t))"
    by (auto simp: activate_def)
  also have "\<dots> \<longleftrightarrow> (\<exists>snap. set_mode now Active True slot = Some (Inr snap, t)) \<or>
      (\<exists>e. set_mode now Active True slot = Some (Inl e, t))"
    by (metis sum.exhaust)
  finally show ?thesis by (auto simp: set_mode_Inr set_mode_Inl)
qed

lemma slot_step_disable [slot_effect]:
  "slot_step (OpDisable now) slot = Some t \<longleftrightarrow> mode_changed Disabled slot t"
  by (auto simp: disable_Some)

lemma slot_step_begin_drain [slot_effect]:
  "slot_step OpBeginDrain slot = Some t \<longleftrightarrow> mode_changed Draining slot t"
  by (auto simp: begin_drain_Some)

lemma slot_step_acquire [slot_effect]:
  "slot_step (OpAcquire now) slot = Some t \<longleftrightarrow>
     (if st_registered (slot_state slot) \<and> st_mode (slot_state slot) = Active
      then \<exists>lease. try_acquire now slot = Some (Inr lease, t) else t = slot)"
  by (auto simp: try_acquire_def Let_def split: bind_splits)

lemma slot_step_reconcile_present [slot_effect]:
  "slot_step (OpReconcilePresent spec) slot = Some t \<longleftrightarrow>
     (if st_registered (slot_state slot) \<and> st_spec (slot_state slot) = spec then t = slot
      else \<exists>r q. checked_add (st_sequence (slot_state slot)) 1 = Some q \<and>
        (if st_spec (slot_state slot) = spec then r = st_spec_revision (slot_state slot)
         else checked_add (st_spec_revision (slot_state slot)) 1 = Some r) \<and>
        t = \<lparr>slot_state = (slot_state slot)
               \<lparr>st_registered := True, st_spec := spec, st_spec_revision := r, st_sequence := q\<rparr>,
             slot_changed = q\<rparr>)"
  by (cases slot; cases "slot_state slot")
    (auto simp: reconcile_present_def publish_locked_def next_sequence_def Let_def
      split: bind_splits if_splits)

lemma slot_step_reconcile_absent [slot_effect]:
  "slot_step OpReconcileAbsent slot = Some t \<longleftrightarrow>
     (if \<not> st_registered (slot_state slot) then t = slot
      else \<exists>m e q. checked_add (st_sequence (slot_state slot)) 1 = Some q \<and>
        (if st_mode (slot_state slot) = Active
         then m = Disabled \<and> checked_add (st_mode_epoch (slot_state slot)) 1 = Some e
         else m = st_mode (slot_state slot) \<and> e = st_mode_epoch (slot_state slot)) \<and>
        t = \<lparr>slot_state = (slot_state slot)
               \<lparr>st_registered := False, st_mode := m, st_mode_epoch := e, st_sequence := q\<rparr>,
             slot_changed = q\<rparr>)"
  by (cases slot; cases "slot_state slot")
    (auto simp: reconcile_absent_def publish_locked_def next_sequence_def next_mode_epoch_def
      Let_def split: bind_splits if_splits)

lemma slot_step_release [slot_effect]:
  "slot_step (OpRelease key) slot = Some t \<longleftrightarrow>
     key \<in> set (st_leases (slot_state slot)) \<and>
     (\<exists>q. checked_add (st_sequence (slot_state slot)) 1 = Some q \<and>
        t = \<lparr>slot_state = (slot_state slot)
               \<lparr>st_leases := removeAll key (st_leases (slot_state slot)), st_sequence := q\<rparr>,
             slot_changed = q\<rparr>)"
  by (auto simp: release_def publish_locked_def next_sequence_def Let_def split: bind_splits)

declare slot_step.simps [simp del]

lemma mode_changed_inv:
  "mode_changed m slot t \<Longrightarrow> slot_inv slot \<Longrightarrow> (m = Active \<Longrightarrow> st_registered (slot_state slot))
     \<Longrightarrow> slot_inv t"
  by (auto simp: mode_changed_def slot_inv_def Let_def split: if_splits)

lemma try_acquire_inv:
  assumes "try_acquire now slot = Some (Inr lease, t)" and "slot_inv slot"
  shows "slot_inv t"
proof -
  let ?s = "slot_state slot"
  let ?k = "LeaseKey now (st_next_lease_serial ?s)"
  have fresh: "?k \<notin> set (st_leases ?s)"
    and old: "\<forall>k \<in> set (st_leases ?s). serial k < st_next_lease_serial ?s"
    using assms(2) by (auto simp: slot_inv_def Let_def)
  have "distinct (map serial (insort ?k (st_leases ?s)))"
  proof -
    have "mset (map serial (insort ?k (st_leases ?s))) = mset (map serial (?k # st_leases ?s))"
      by simp
    then have "distinct (map serial (insort ?k (st_leases ?s)))
        \<longleftrightarrow> distinct (map serial (?k # st_leases ?s))"
      by (rule mset_eq_imp_distinct_iff)
    with old assms(2) show ?thesis by (fastforce simp: slot_inv_def Let_def)
  qed
  moreover have "insort_insert ?k (st_leases ?s) = insort ?k (st_leases ?s)"
    using fresh by (simp add: insort_insert_key_def)
  moreover obtain n where n: "checked_add (st_next_lease_serial ?s) 1 = Some n"
    using assms(1) by (auto simp: try_acquire_Inr)
  moreover have "\<forall>k \<in> set (insort ?k (st_leases ?s)). serial k < n"
    using old checked_add_one_less [OF n] by (auto simp: set_insort_key intro: less_trans)
  ultimately show ?thesis
    using assms by (auto simp: try_acquire_Inr slot_inv_def Let_def sorted_insort)
qed

lemma slot_new_inv [simp]: "slot_inv (slot_new spec mode)"
  by (simp add: slot_inv_def slot_new_def)

lemma slot_step_inv:
  assumes "slot_step op slot = Some t" and "slot_inv slot"
  shows "slot_inv t"
proof (cases op)
  case (OpAcquire now)
  with assms show ?thesis by (auto simp: slot_effect split: if_splits dest: try_acquire_inv)
next
  case (OpRelease key)
  with assms show ?thesis
    by (auto simp: slot_effect slot_inv_def Let_def removeAll_filter_not_eq
        distinct_map_filter intro: sorted_wrt_filter)
next
  case (OpActivate now)
  with assms show ?thesis by (auto simp: slot_effect split: if_splits dest: mode_changed_inv)
next
  case (OpDisable now)
  with assms show ?thesis by (auto simp: slot_effect dest: mode_changed_inv)
next
  case OpBeginDrain
  with assms show ?thesis by (auto simp: slot_effect dest: mode_changed_inv)
next
  case (OpReconcilePresent spec)
  with assms show ?thesis by (auto simp: slot_effect slot_inv_def Let_def split: if_splits)
next
  case OpReconcileAbsent
  with assms show ?thesis by (auto simp: slot_effect slot_inv_def Let_def split: if_splits)
qed

text \<open>
  The operator epoch counts mode changes, the sequence counts published changes, and only
  an accepted acquisition advances the acquisition counter.
\<close>

lemma slot_step_epoch:
  assumes "slot_step op slot = Some t"
  shows "unat (st_mode_epoch (slot_state t)) =
     unat (st_mode_epoch (slot_state slot)) +
       (if st_mode (slot_state t) = st_mode (slot_state slot) then 0 else 1)"
  using assms
  by (cases op)
    (auto simp: slot_effect mode_changed_def try_acquire_Inr split: if_splits
      dest: checked_add_Some_unat)

lemma slot_step_published:
  assumes "slot_step op slot = Some t"
  shows "t = slot \<or> (st_sequence (slot_state slot) < st_sequence (slot_state t) \<and>
     slot_changed t = st_sequence (slot_state t))"
  using assms
  by (cases op)
    (auto simp: slot_effect mode_changed_def try_acquire_Inr split: if_splits
      dest: checked_add_one_less)

lemma slot_step_gate:
  assumes "slot_step op slot = Some t" and "st_mode (slot_state slot) \<noteq> Active"
  shows "st_total_acquired (slot_state t) = st_total_acquired (slot_state slot)"
    and "set (st_leases (slot_state t)) \<subseteq> set (st_leases (slot_state slot))"
  using assms
  by (cases op; auto simp: slot_effect mode_changed_def split: if_splits)+

lemma slot_step_acquired:
  assumes "slot_step op slot = Some t"
  shows "st_total_acquired (slot_state slot) \<le> st_total_acquired (slot_state t)"
  using assms
  by (cases op)
    (auto simp: slot_effect mode_changed_def try_acquire_Inr split: if_splits
      dest!: checked_add_one_less)

subsection \<open>The gate as an interface\<close>

text \<open>
  What a waiter relies on: an epoch that only grows and grows whenever the gate's mode
  changes, and a closed gate that admits nothing. Whoever sees the same epoch twice knows
  that the gate stayed closed in between.
\<close>

locale drain_gate =
  fixes step :: "'op \<Rightarrow> 's \<Rightarrow> 's option"
    and closed :: "'s \<Rightarrow> bool"
    and epoch :: "'s \<Rightarrow> nat"
    and admitted :: "'s \<Rightarrow> nat"
    and holders :: "'s \<Rightarrow> 'h set"
  assumes epoch_le: "step op s = Some t \<Longrightarrow> epoch s \<le> epoch t"
    and epoch_less: "step op s = Some t \<Longrightarrow> closed s \<noteq> closed t \<Longrightarrow> epoch s < epoch t"
    and closed_admits: "step op s = Some t \<Longrightarrow> closed s \<Longrightarrow> admitted t = admitted s"
    and closed_holders: "step op s = Some t \<Longrightarrow> closed s \<Longrightarrow> holders t \<subseteq> holders s"
begin

lemma run_epoch_le: "run_all step ops s = Some t \<Longrightarrow> epoch s \<le> epoch t"
proof (induction ops arbitrary: s)
  case Nil
  then show ?case by simp
next
  case (Cons op ops)
  then obtain u where "step op s = Some u" and "run_all step ops u = Some t"
    by (auto split: bind_splits)
  then show ?case using Cons.IH epoch_le order_trans by blast
qed

lemma same_epoch_stays_closed:
  assumes "run_all step ops s = Some t" and "closed s" and "epoch t = epoch s"
  shows "closed t \<and> admitted t = admitted s \<and> holders t \<subseteq> holders s"
  using assms
proof (induction ops arbitrary: s)
  case Nil
  then show ?case by simp
next
  case (Cons op ops)
  from Cons.prems(1) obtain u where u: "step op s = Some u" and r: "run_all step ops u = Some t"
    by (auto split: bind_splits)
  have "epoch s \<le> epoch u" and "epoch u \<le> epoch t"
    using epoch_le [OF u] run_epoch_le [OF r] .
  with Cons.prems(3) have same: "epoch u = epoch s" by simp
  then have "closed u" using epoch_less [OF u] Cons.prems(2) by auto
  then have "closed t \<and> admitted t = admitted u \<and> holders t \<subseteq> holders u"
    using Cons.IH [OF r] Cons.prems(3) same by simp
  then show ?case
    using closed_admits [OF u Cons.prems(2)] closed_holders [OF u Cons.prems(2)] by auto
qed

end

interpretation slot_gate: drain_gate
  slot_step
  "\<lambda>slot. st_mode (slot_state slot) = Draining"
  "\<lambda>slot. unat (st_mode_epoch (slot_state slot))"
  "\<lambda>slot. unat (st_total_acquired (slot_state slot))"
  "\<lambda>slot. set (st_leases (slot_state slot))"
proof
  fix op and s t :: BackendSlot
  assume step: "slot_step op s = Some t"
  show "unat (st_mode_epoch (slot_state s)) \<le> unat (st_mode_epoch (slot_state t))"
    using slot_step_epoch [OF step] by simp
  show "unat (st_mode_epoch (slot_state s)) < unat (st_mode_epoch (slot_state t))"
    if "(st_mode (slot_state s) = Draining) \<noteq> (st_mode (slot_state t) = Draining)"
    using slot_step_epoch [OF step] that by (auto split: if_splits)
  show "unat (st_total_acquired (slot_state t)) = unat (st_total_acquired (slot_state s))"
    if "st_mode (slot_state s) = Draining"
    using slot_step_gate(1) [OF step] that by simp
  show "set (st_leases (slot_state t)) \<subseteq> set (st_leases (slot_state s))"
    if "st_mode (slot_state s) = Draining"
    using slot_step_gate(2) [OF step] that by simp
qed

lemma slot_run_inv: "slot_run ops slot = Some t \<Longrightarrow> slot_inv slot \<Longrightarrow> slot_inv t"
  by (rule run_all_invariant [where f = slot_step and P = slot_inv]) (auto intro: slot_step_inv)

lemma wait_loop_Inr:
  "wait_loop token wakeups = Some (Inr snap) \<Longrightarrow>
     \<exists>now slot. (now, slot) \<in> set wakeups \<and> snap = slot_snapshot slot now \<and>
       st_mode (slot_state slot) = Draining \<and>
       st_mode_epoch (slot_state slot) = token_mode_epoch token \<and> st_leases (slot_state slot) = []"
proof (induction token wakeups rule: wait_loop.induct)
  case (1 token)
  then show ?case by simp
next
  case (2 token now slot later)
  show ?case
  proof (cases "wait_check token (slot_snapshot slot now)")
    case None
    with 2 show ?thesis by fastforce
  next
    case (Some answer)
    with "2.prems" have "wait_check token (slot_snapshot slot now) = Some (Inr snap)" by simp
    then have "snap = slot_snapshot slot now \<and> st_mode (slot_state slot) = Draining \<and>
        st_mode_epoch (slot_state slot) = token_mode_epoch token \<and> st_leases (slot_state slot) = []"
      by (auto simp: wait_check_def slot_snapshot_def state_snapshot_def split: if_splits)
    then show ?thesis by auto
  qed
qed

subsection \<open>Properties: drains\<close>


definition demo_spec :: BackendSpec where
  "demo_spec = \<lparr>spec_id = ''a'', spec_endpoint = ''http://a''\<rparr>"

definition demo_slot :: BackendSlot where
  "demo_slot = slot_new demo_spec Active"

lemmas demo_slot_defs = demo_slot_def demo_spec_def slot_new_def checked_add_def slot_ops
  slot_id_def slot_snapshot_def state_snapshot_def


lemma slot_run_published:
  assumes "slot_run ops slot = Some t" and "slot_inv slot"
  shows "t = slot \<or> slot_changed slot < slot_changed t"
  using assms
proof (induction ops arbitrary: slot)
  case Nil
  then show ?case by simp
next
  case (Cons op ops)
  from Cons.prems(1) obtain u where u: "slot_step op slot = Some u" and r: "slot_run ops u = Some t"
    by (auto split: bind_splits)
  have "slot_inv u" using slot_step_inv [OF u Cons.prems(2)] .
  moreover have "u = slot \<or> slot_changed slot < slot_changed u"
    using slot_step_published [OF u] Cons.prems(2) by (auto simp: slot_inv_def Let_def)
  ultimately show ?case using Cons.IH [OF r] by (auto intro: less_trans)
qed

text \<open>
  C2. No wake-up is lost. The waiter subscribes before it checks, so it sleeps only while
  the watch channel still holds the value it saw. If after any calls of other threads the
  channel holds the same value, then the slot is exactly the one the waiter checked: there
  is no missed release and no missed mode change.
\<close>

theorem no_lost_wakeup:
  assumes "slot_inv slot" and "slot_run ops slot = Some t"
    and "slot_changed t = slot_changed slot"
  shows "t = slot"
  using slot_run_published [OF assms(2,1)] assms(3) by auto

theorem no_lost_wakeup_witness:
  "\<exists>t. slot_run [OpAcquire 3, OpBeginDrain] demo_slot = Some t \<and> slot_changed t \<noteq> slot_changed demo_slot \<and>
     (\<exists>u. slot_run [OpActivate 4] demo_slot = Some u \<and> slot_changed u = slot_changed demo_slot \<and>
       u = demo_slot)"
proof -
  have i: "slot_inv demo_slot" by (simp add: demo_slot_def)
  have a: "slot_run [OpActivate 4] demo_slot = Some demo_slot"
    by (simp add: slot_step.simps demo_slot_defs)
  have "\<exists>t. slot_run [OpAcquire 3, OpBeginDrain] demo_slot = Some t \<and>
      slot_changed t \<noteq> slot_changed demo_slot"
    by (simp add: slot_step.simps demo_slot_defs insort_insert_key_def)
  with no_lost_wakeup [OF i a] a show ?thesis by blast
qed

subsection \<open>Leases and their owners\<close>

text \<open>
  Requests own leases. A lease is created by an accepted acquisition, and ownership gives
  that it is dropped once; every other call on the slot comes from operators.
\<close>

record lease_sys =
  sys_slot :: BackendSlot
  sys_held :: "BackendLease list"

definition operator_call :: "slot_op \<Rightarrow> bool" where
  "operator_call op \<longleftrightarrow> (case op of OpAcquire _ \<Rightarrow> False | OpRelease _ \<Rightarrow> False | _ \<Rightarrow> True)"

inductive lease_step :: "lease_sys \<Rightarrow> lease_sys \<Rightarrow> bool" where
  granted: "try_acquire now (sys_slot c) = Some (Inr lease, slot') \<Longrightarrow>
     lease_step c \<lparr>sys_slot = slot', sys_held = lease # sys_held c\<rparr>"
| refused: "try_acquire now (sys_slot c) = Some (Inl e, slot') \<Longrightarrow>
     lease_step c (c\<lparr>sys_slot := slot'\<rparr>)"
| dropped: "lease \<in> set (sys_held c) \<Longrightarrow> drop_lease lease (sys_slot c) = Some (lease', slot') \<Longrightarrow>
     lease_step c \<lparr>sys_slot = slot', sys_held = remove1 lease (sys_held c)\<rparr>"
| operator: "operator_call op \<Longrightarrow> slot_step op (sys_slot c) = Some slot' \<Longrightarrow>
     lease_step c (c\<lparr>sys_slot := slot'\<rparr>)"

inductive lease_reachable :: "lease_sys \<Rightarrow> bool" where
  start: "lease_reachable \<lparr>sys_slot = slot_new spec mode, sys_held = []\<rparr>"
| step: "lease_reachable c \<Longrightarrow> lease_step c d \<Longrightarrow> lease_reachable d"

definition lease_inv :: "lease_sys \<Rightarrow> bool" where
  "lease_inv c \<longleftrightarrow> slot_inv (sys_slot c) \<and>
     mset (map lease_key (sys_held c)) = mset (map Some (st_leases (slot_state (sys_slot c))))"

lemma slot_inv_distinct: "slot_inv slot \<Longrightarrow> distinct (st_leases (slot_state slot))"
  by (auto simp: slot_inv_def Let_def distinct_map)

lemma operator_call_leases:
  "operator_call op \<Longrightarrow> slot_step op slot = Some t \<Longrightarrow>
     st_leases (slot_state t) = st_leases (slot_state slot)"
  by (cases op) (auto simp: operator_call_def slot_effect mode_changed_def split: if_splits)

lemma mset_removeAll_distinct: "distinct xs \<Longrightarrow> mset (removeAll k xs) = mset xs - {#k#}"
  by (simp add: distinct_remove1_removeAll [symmetric])

lemma lease_inv_granted:
  assumes "try_acquire now (sys_slot c) = Some (Inr lease, slot')" and "lease_inv c"
  shows "lease_inv \<lparr>sys_slot = slot', sys_held = lease # sys_held c\<rparr>"
proof -
  let ?s = "slot_state (sys_slot c)"
  have "LeaseKey now (st_next_lease_serial ?s) \<notin> set (st_leases ?s)"
    using assms(2) by (auto simp: lease_inv_def slot_inv_def Let_def)
  then show ?thesis
    using assms try_acquire_inv [OF assms(1)]
    by (auto simp: lease_inv_def try_acquire_Inr insort_insert_key_def)
qed

lemma lease_inv_dropped:
  assumes "lease \<in> set (sys_held c)" and "drop_lease lease (sys_slot c) = Some (lease', slot')"
    and "lease_inv c"
  shows "lease_inv \<lparr>sys_slot = slot', sys_held = remove1 lease (sys_held c)\<rparr>"
proof -
  let ?s = "slot_state (sys_slot c)"
  have eq: "mset (map lease_key (sys_held c)) = mset (map Some (st_leases ?s))"
    using assms(3) by (simp add: lease_inv_def)
  have "lease_key lease \<in># mset (map lease_key (sys_held c))" using assms(1) by simp
  then obtain key where key: "lease_key lease = Some key" "key \<in> set (st_leases ?s)"
    unfolding eq by auto
  then have rel: "slot_step (OpRelease key) (sys_slot c) = Some slot'"
    using assms(2) by (auto simp: drop_lease_def slot_step.simps split: bind_splits)
  have "mset (map lease_key (remove1 lease (sys_held c)))
      = mset (map lease_key (sys_held c)) - {#Some key#}"
    using assms(1) key(1) by (simp add: image_mset_Diff)
  also have "\<dots> = mset (map Some (removeAll key (st_leases ?s)))"
    using slot_inv_distinct [of "sys_slot c"] assms(3) key(2) unfolding eq
    by (simp add: lease_inv_def mset_removeAll_distinct image_mset_Diff)
  finally show ?thesis
    using slot_step_inv [OF rel] rel assms(3) by (auto simp: lease_inv_def slot_effect)
qed

lemma lease_step_inv: "lease_step c d \<Longrightarrow> lease_inv c \<Longrightarrow> lease_inv d"
proof (induction rule: lease_step.induct)
  case (granted now c lease slot')
  then show ?case by (rule lease_inv_granted)
next
  case (refused now c e slot')
  then show ?case by (auto dest: try_acquire_Inl)
next
  case (dropped lease c lease' slot')
  then show ?case by (rule lease_inv_dropped)
next
  case (operator op c slot')
  then show ?case
    using slot_step_inv operator_call_leases by (auto simp: lease_inv_def)
qed

lemma lease_reachable_inv: "lease_reachable c \<Longrightarrow> lease_inv c"
proof (induction rule: lease_reachable.induct)
  case (start spec mode)
  show ?case by (simp add: lease_inv_def) (simp add: slot_new_def)
next
  case (step c d)
  then show ?case by (blast intro: lease_step_inv)
qed

text \<open>
  C3. Local accounting is exact. In every reachable state the number of leases the slot
  counts as in flight is the number of leases requests hold, each held lease has its own
  live key, and dropping any held lease does not fail the release assertion: as long as
  the change sequence is not exhausted it succeeds and takes exactly that lease away.
\<close>

theorem lease_accounting:
  assumes "lease_reachable c"
  shows "snap_local_active (slot_snapshot (sys_slot c) now) = length (sys_held c) \<and>
    distinct (map lease_key (sys_held c)) \<and>
    (\<forall>lease \<in> set (sys_held c).
       unat (st_sequence (slot_state (sys_slot c))) + 1 < 2 ^ 64 \<longrightarrow>
       (\<exists>key lease' slot'. lease_key lease = Some key \<and>
          drop_lease lease (sys_slot c) = Some (lease', slot') \<and> lease_key lease' = None \<and>
          st_leases (slot_state slot') = removeAll key (st_leases (slot_state (sys_slot c)))))"
proof -
  let ?s = "slot_state (sys_slot c)"
  have inv: "lease_inv c" using lease_reachable_inv [OF assms] .
  then have eq: "mset (map lease_key (sys_held c)) = mset (map Some (st_leases ?s))"
    by (simp add: lease_inv_def)
  then have len: "length (sys_held c) = length (st_leases ?s)"
    by (metis length_map mset_eq_length)
  have "distinct (map Some (st_leases ?s))"
    using slot_inv_distinct [of "sys_slot c"] inv by (simp add: lease_inv_def distinct_map)
  with eq have dist: "distinct (map lease_key (sys_held c))"
    by (metis mset_eq_imp_distinct_iff)
  have drops: "\<exists>key lease' slot'. lease_key lease = Some key \<and>
      drop_lease lease (sys_slot c) = Some (lease', slot') \<and> lease_key lease' = None \<and>
      st_leases (slot_state slot') = removeAll key (st_leases ?s)"
    if "lease \<in> set (sys_held c)" and seq: "unat (st_sequence ?s) + 1 < 2 ^ 64" for lease
  proof -
    have "lease_key lease \<in># mset (map lease_key (sys_held c))" using that(1) by simp
    then obtain key where "lease_key lease = Some key" "key \<in> set (st_leases ?s)"
      unfolding eq by auto
    with seq show ?thesis
      by (simp add: drop_lease_def slot_ops checked_add_def)
  qed
  show ?thesis using len dist drops by (simp add: slot_snapshot_def state_snapshot_def)
qed

theorem lease_accounting_witness:
  "\<exists>c. lease_reachable c \<and> length (sys_held c) = 1 \<and>
     snap_local_active (slot_snapshot (sys_slot c) 9) = length (sys_held c) \<and>
     (\<forall>lease \<in> set (sys_held c). \<exists>lease' slot'.
        drop_lease lease (sys_slot c) = Some (lease', slot') \<and> lease_key lease' = None)"
proof -
  let ?initial = "\<lparr>sys_slot = demo_slot, sys_held = []\<rparr>"
  obtain lease slot' where acq: "try_acquire 3 demo_slot = Some (Inr lease, slot')"
    and seq: "unat (st_sequence (slot_state slot')) + 1 < 2 ^ 64"
    by (simp add: demo_slot_defs)
  let ?c = "\<lparr>sys_slot = slot', sys_held = [lease]\<rparr>"
  have "lease_reachable ?initial" unfolding demo_slot_def by (rule lease_reachable.start)
  moreover have "lease_step ?initial ?c" using lease_step.granted [of 3 ?initial lease slot'] acq by simp
  ultimately have r: "lease_reachable ?c" by (blast intro: lease_reachable.step)
  show ?thesis
    using lease_accounting [OF r, of 9] r seq by (intro exI [of _ ?c]) auto
qed

abbreviation drop_all :: "BackendLease list \<Rightarrow> BackendSlot \<Rightarrow> BackendSlot option" where
  "drop_all \<equiv> run_all (\<lambda>lease slot. map_option snd (drop_lease lease slot))"

lemma drop_all_completes:
  assumes "mset (map lease_key leases) = mset (map Some (st_leases (slot_state slot)))"
    and "distinct (st_leases (slot_state slot))"
    and "unat (st_sequence (slot_state slot)) + length leases < 2 ^ 64"
  shows "\<exists>t. drop_all leases slot = Some t \<and> st_leases (slot_state t) = [] \<and>
    st_mode (slot_state t) = st_mode (slot_state slot) \<and>
    st_mode_epoch (slot_state t) = st_mode_epoch (slot_state slot)"
  using assms
proof (induction leases arbitrary: slot)
  case Nil
  then show ?case by simp
next
  case (Cons lease leases)
  let ?s = "slot_state slot"
  have "lease_key lease \<in># mset (map Some (st_leases ?s))"
    using Cons.prems(1) by (metis list.set_intros(1) list.simps(9) set_mset_mset)
  then obtain key where key: "lease_key lease = Some key" "key \<in> set (st_leases ?s)" by auto
  let ?u = "\<lparr>slot_state = ?s\<lparr>st_leases := removeAll key (st_leases ?s),
              st_sequence := st_sequence ?s + 1\<rparr>, slot_changed = st_sequence ?s + 1\<rparr>"
  have u: "drop_lease lease slot = Some (lease\<lparr>lease_key := None\<rparr>, ?u)"
    using Cons.prems(3) key by (simp add: drop_lease_def slot_ops checked_add_def)
  have "mset (map lease_key leases) = mset (map Some (removeAll key (st_leases ?s)))"
  proof -
    have "mset (map lease_key leases) = mset (map Some (st_leases ?s)) - {#Some key#}"
      using Cons.prems(1) key(1) by (metis add_mset_remove_trivial list.simps(9) mset.simps(2))
    then show ?thesis
      using key(2) Cons.prems(2) by (simp add: mset_removeAll_distinct image_mset_Diff)
  qed
  moreover have "unat (st_sequence ?s + 1) + length leases < 2 ^ 64"
    using Cons.prems(3) by (simp add: unat_word_ariths)
  ultimately have "\<exists>t. drop_all leases ?u = Some t \<and> st_leases (slot_state t) = [] \<and>
      st_mode (slot_state t) = st_mode (slot_state ?u) \<and>
      st_mode_epoch (slot_state t) = st_mode_epoch (slot_state ?u)"
    using Cons.prems(2) by (intro Cons.IH) (auto simp: distinct_removeAll)
  then show ?case using u by simp
qed

text \<open>
  A drain completes. Once a reachable slot is draining, dropping the leases requests
  hold, in whatever order they finish, never panics, leaves the drain epoch as it is and
  makes the waiter's next check succeed with a locally drained snapshot.
\<close>

theorem drain_completes:
  assumes "lease_reachable c" and "st_mode (slot_state (sys_slot c)) = Draining"
    and "token_mode_epoch token = st_mode_epoch (slot_state (sys_slot c))"
    and "mset finishing = mset (sys_held c)"
    and "unat (st_sequence (slot_state (sys_slot c))) + length finishing < 2 ^ 64"
  shows "\<exists>t. drop_all finishing (sys_slot c) = Some t \<and>
    wait_check token (slot_snapshot t now) = Some (Inr (slot_snapshot t now)) \<and>
    locally_drained (slot_snapshot t now)"
proof -
  have inv: "lease_inv c" using lease_reachable_inv [OF assms(1)] .
  have "mset (map lease_key finishing) = mset (map Some (st_leases (slot_state (sys_slot c))))"
    using inv assms(4) by (simp add: lease_inv_def)
  then obtain t where "drop_all finishing (sys_slot c) = Some t" "st_leases (slot_state t) = []"
    "st_mode (slot_state t) = Draining"
    "st_mode_epoch (slot_state t) = token_mode_epoch token"
    using drop_all_completes [of finishing "sys_slot c"] slot_inv_distinct inv assms
    by (auto simp: lease_inv_def)
  then show ?thesis
    by (auto simp: wait_check_def slot_snapshot_def state_snapshot_def locally_drained_def)
qed

theorem drain_completes_witness:
  "\<exists>c token t. lease_reachable c \<and> st_mode (slot_state (sys_slot c)) = Draining \<and>
     length (sys_held c) = 1 \<and> drop_all (sys_held c) (sys_slot c) = Some t \<and>
     wait_check token (slot_snapshot t 7) = Some (Inr (slot_snapshot t 7))"
proof -
  let ?initial = "\<lparr>sys_slot = demo_slot, sys_held = []\<rparr>"
  obtain lease slot1 where acq: "try_acquire 3 demo_slot = Some (Inr lease, slot1)"
    by (simp add: demo_slot_defs)
  obtain slot2 where drain: "slot_step OpBeginDrain slot1 = Some slot2"
    and m: "st_mode (slot_state slot2) = Draining"
    and q: "unat (st_sequence (slot_state slot2)) + 1 < 2 ^ 64"
    using acq by (auto simp: slot_step.simps demo_slot_defs)
  let ?holding = "\<lparr>sys_slot = slot1, sys_held = [lease]\<rparr>"
  let ?draining = "\<lparr>sys_slot = slot2, sys_held = [lease]\<rparr>"
  let ?token = "\<lparr>token_backend_id = ''a'', token_mode_epoch = st_mode_epoch (slot_state slot2)\<rparr>"
  have "lease_reachable ?initial" unfolding demo_slot_def by (rule lease_reachable.start)
  then have "lease_reachable ?holding"
    using lease_step.granted [of 3 ?initial lease slot1] acq by (auto intro: lease_reachable.step)
  then have r: "lease_reachable ?draining"
    using lease_step.operator [of OpBeginDrain ?holding slot2] drain
    by (auto simp: operator_call_def intro: lease_reachable.step)
  from drain_completes [OF r, of ?token "[lease]" 7] m q r show ?thesis by fastforce
qed

end
