(* ===== verification/Runtime_Config.thy ===== *)
theory Runtime_Config
  imports Rust_Strings Backend_Slot
begin

text \<open>
  The declarative runtime configuration (\<open>src/src/runtime.rs\<close>, first half): the policy
  records with their defaults, the deserialised file, its validation and the validated
  configuration.

  Two things come from crates and are arguments: the TOML decoder, which delivers a
  \<open>RuntimeFile\<close> with serde's defaults filled in, and the \<open>http::Uri\<close> type. The latter is
  the record \<open>uri_api\<close> of the functions the source calls on it; a scheme and an authority
  are represented by their text.
\<close>

subsection \<open>The interface of \<open>http::Uri\<close>\<close>

record 'u uri_api =
  uri_parse :: "string \<Rightarrow> string + 'u"
  uri_scheme :: "'u \<Rightarrow> string option"
  uri_authority :: "'u \<Rightarrow> string option"
  uri_path :: "'u \<Rightarrow> string"
  uri_query :: "'u \<Rightarrow> string option"
  uri_to_string :: "'u \<Rightarrow> string"
  uri_build :: "string \<Rightarrow> string \<Rightarrow> string \<Rightarrow> string + 'u"
  uri_eq :: "'u \<Rightarrow> 'u \<Rightarrow> bool"

subsection \<open>Configuration data\<close>

definition RUNTIME_SCHEMA_VERSION :: u32 where
  "RUNTIME_SCHEMA_VERSION = 1"

definition DEFAULT_METRICS_PATH :: string where
  "DEFAULT_METRICS_PATH = ''/metrics''"

definition DEFAULT_READINESS_PATH :: string where
  "DEFAULT_READINESS_PATH = ''/v1/models''"

datatype RoutingPolicy = LeastPressureV1

fun display_policy :: "RoutingPolicy \<Rightarrow> string" where
  "display_policy LeastPressureV1 = ''least-pressure-v1''"

record RoutingConfig =
  policy :: RoutingPolicy
  kv_soft_limit :: f64

definition default_routing :: RoutingConfig where
  "default_routing = \<lparr>policy = LeastPressureV1, kv_soft_limit = to_f64 (85 / 100)\<rparr>"

record TelemetryConfig =
  scrape_interval_ms :: u64
  scrape_timeout_ms :: u64
  stale_after_ms :: u64

definition default_telemetry :: TelemetryConfig where
  "default_telemetry =
     \<lparr>scrape_interval_ms = 1000, scrape_timeout_ms = 750, stale_after_ms = 5000\<rparr>"

record ReadinessConfig =
  probe_interval_ms :: u64
  probe_timeout_ms :: u64
  success_threshold :: u32
  failure_threshold :: u32

definition default_readiness :: ReadinessConfig where
  "default_readiness =
     \<lparr>probe_interval_ms = 2000, probe_timeout_ms = 1000, success_threshold = 2,
      failure_threshold = 3\<rparr>"

record RegistrationConfig =
  enabled :: bool
  max_keys :: "nat option"

definition default_registration :: RegistrationConfig where
  "default_registration = \<lparr>enabled = False, max_keys = None\<rparr>"

record OpenWebUiConfig =
  key_name :: "string option"

definition default_openwebui :: OpenWebUiConfig where
  "default_openwebui = \<lparr>key_name = None\<rparr>"

record 'u Backend =
  backend_id :: string
  url :: 'u
  metrics_url :: 'u
  readiness_url :: 'u
  capacity :: "u64 option"

record 'u RuntimeConfig =
  cfg_backends :: "'u Backend list"
  cfg_routing :: RoutingConfig
  cfg_telemetry :: TelemetryConfig
  cfg_readiness :: ReadinessConfig
  cfg_registration :: RegistrationConfig
  cfg_openwebui :: OpenWebUiConfig

definition config_new :: "'u Backend list \<Rightarrow> 'u RuntimeConfig" where
  "config_new backends =
     \<lparr>cfg_backends = backends, cfg_routing = default_routing, cfg_telemetry = default_telemetry,
      cfg_readiness = default_readiness, cfg_registration = default_registration,
      cfg_openwebui = default_openwebui\<rparr>"

record BackendFile =
  raw_id :: string
  raw_url :: string
  raw_metrics_url :: "string option"
  raw_readiness_url :: "string option"
  raw_capacity :: "u64 option"

record RuntimeFile =
  file_schema_version :: u32
  file_backends :: "BackendFile list"
  file_routing :: RoutingConfig
  file_telemetry :: TelemetryConfig
  file_readiness :: ReadinessConfig
  file_registration :: RegistrationConfig
  file_openwebui :: OpenWebUiConfig

text \<open>The reasons of a validation error stand for the texts of its message.\<close>

datatype ConfigFault =
    UnsupportedRuntimeSchema u32
  | NoBackends
  | DuplicateBackend string
  | CapacityMustBePositive string
  | SoftLimitOutOfRange
  | MustBePositive string
  | StaleBelowInterval
  | ThresholdsMustBePositive
  | BackendIdLength
  | BackendIdCharacters string

datatype UriFault =
    InvalidUri string
  | NotHttp
  | MissingHost
  | UserInformation
  | HasQuery
  | BuildFailed string
  | NoScheme
  | NoAuthority

datatype RuntimeConfigError =
    ReadFailed string string
  | ParseFailed string
  | Validation ConfigFault
  | InvalidBackendUrl string string string UriFault

subsection \<open>Validation\<close>

definition trim_end_matches :: "char \<Rightarrow> string \<Rightarrow> string" where
  "trim_end_matches c s = rev (dropWhile (\<lambda>x. x = c) (rev s))"

definition trim_start_matches :: "char \<Rightarrow> string \<Rightarrow> string" where
  "trim_start_matches c s = dropWhile (\<lambda>x. x = c) s"

definition append_path :: "'u uri_api \<Rightarrow> 'u \<Rightarrow> string \<Rightarrow> UriFault + 'u" where
  "append_path U base extra =
     (let base_path = trim_end_matches (CHR ''/'') (uri_path U base);
          extra = trim_start_matches (CHR ''/'') extra;
          path = (if base_path = [] then ''/'' @ extra else base_path @ ''/'' @ extra) in
      case uri_scheme U base of
        None \<Rightarrow> Inl NoScheme
      | Some scheme \<Rightarrow>
          (case uri_authority U base of
             None \<Rightarrow> Inl NoAuthority
           | Some authority \<Rightarrow>
               (case uri_build U scheme authority path of
                  Inl e \<Rightarrow> Inl (BuildFailed e)
                | Inr uri \<Rightarrow> Inr uri)))"

text \<open>\<open>Backend::new\<close>: the two \<open>expect\<close>s are the panics.\<close>

definition backend_new :: "'u uri_api \<Rightarrow> string \<Rightarrow> 'u \<Rightarrow> 'u Backend option" where
  "backend_new U i base =
     (case (append_path U base DEFAULT_METRICS_PATH, append_path U base DEFAULT_READINESS_PATH) of
        (Inr metrics, Inr readiness) \<Rightarrow>
          Some \<lparr>backend_id = i, url = base, metrics_url = metrics, readiness_url = readiness,
                capacity = None\<rparr>
      | _ \<Rightarrow> None)"

definition registry_spec :: "'u uri_api \<Rightarrow> 'u Backend \<Rightarrow> BackendSpec" where
  "registry_spec U backend =
     \<lparr>spec_id = backend_id backend, spec_endpoint = uri_to_string U (url backend)\<rparr>"

text \<open>The loop over the five durations: the first that is zero is reported.\<close>

fun require_positive :: "(string \<times> u64) list \<Rightarrow> ConfigFault + unit" where
  "require_positive [] = Inr ()"
| "require_positive ((name, v) # rest) =
     (if v = 0 then Inl (MustBePositive name) else require_positive rest)"

definition validate_controls :: "RuntimeFile \<Rightarrow> ConfigFault + unit" where
  "validate_controls f =
     (let limit = kv_soft_limit (file_routing f); t = file_telemetry f; r = file_readiness f in
      if \<not> (f64_le (Finite 0) limit \<and> f64_lt limit (Finite 1)) then Inl SoftLimitOutOfRange
      else case require_positive
          [(''telemetry.scrape_interval_ms'', scrape_interval_ms t),
           (''telemetry.scrape_timeout_ms'', scrape_timeout_ms t),
           (''telemetry.stale_after_ms'', stale_after_ms t),
           (''readiness.probe_interval_ms'', probe_interval_ms r),
           (''readiness.probe_timeout_ms'', probe_timeout_ms r)] of
        Inl e \<Rightarrow> Inl e
      | Inr _ \<Rightarrow>
          if stale_after_ms t < scrape_interval_ms t then Inl StaleBelowInterval
          else if success_threshold r = 0 \<or> failure_threshold r = 0
            then Inl ThresholdsMustBePositive
          else Inr ())"

definition is_id_byte :: "char \<Rightarrow> bool" where
  "is_id_byte c \<longleftrightarrow> is_ascii_alphanumeric c \<or> c \<in> {CHR ''-'', CHR ''_'', CHR ''.''}"

definition validate_backend_id :: "string \<Rightarrow> ConfigFault + unit" where
  "validate_backend_id i =
     (if i = [] \<or> 64 < length i then Inl BackendIdLength
      else if \<not> list_all is_id_byte i then Inl (BackendIdCharacters i)
      else Inr ())"

definition validate_uri :: "'u uri_api \<Rightarrow> 'u \<Rightarrow> UriFault + unit" where
  "validate_uri U uri =
     (if uri_scheme U uri \<noteq> Some ''http'' then Inl NotHttp
      else case uri_authority U uri of
        None \<Rightarrow> Inl MissingHost
      | Some authority \<Rightarrow>
          if CHR 0x40 \<in> set authority then Inl UserInformation
          else if uri_query U uri \<noteq> None then Inl HasQuery
          else Inr ())"

definition parse_backend_url ::
  "'u uri_api \<Rightarrow> string \<Rightarrow> string \<Rightarrow> string \<Rightarrow> RuntimeConfigError + 'u" where
  "parse_backend_url U i field text =
     (case uri_parse U text of
        Inl e \<Rightarrow> Inl (InvalidBackendUrl i field text (InvalidUri e))
      | Inr uri \<Rightarrow>
          (case validate_uri U uri of
             Inl reason \<Rightarrow> Inl (InvalidBackendUrl i field text reason)
           | Inr _ \<Rightarrow> Inr uri))"

text \<open>An optional endpoint: parsed when given, otherwise a path appended to the base URL.\<close>

definition endpoint_or_default ::
  "'u uri_api \<Rightarrow> string \<Rightarrow> string \<Rightarrow> string option \<Rightarrow> 'u \<Rightarrow> string
    \<Rightarrow> RuntimeConfigError + 'u" where
  "endpoint_or_default U i field given base path =
     (case given of
        Some text \<Rightarrow> parse_backend_url U i field text
      | None \<Rightarrow>
          (case append_path U base path of
             Inl reason \<Rightarrow> Inl (InvalidBackendUrl i field (uri_to_string U base) reason)
           | Inr uri \<Rightarrow> Inr uri))"

text \<open>The body of the loop over the backends of the file.\<close>

definition parse_backend ::
  "'u uri_api \<Rightarrow> string set \<Rightarrow> BackendFile \<Rightarrow> RuntimeConfigError + 'u Backend" where
  "parse_backend U ids raw =
     (case validate_backend_id (raw_id raw) of
        Inl e \<Rightarrow> Inl (Validation e)
      | Inr _ \<Rightarrow>
          if raw_id raw \<in> ids then Inl (Validation (DuplicateBackend (raw_id raw)))
          else case parse_backend_url U (raw_id raw) ''url'' (raw_url raw) of
            Inl e \<Rightarrow> Inl e
          | Inr base \<Rightarrow>
          (case endpoint_or_default U (raw_id raw) ''metrics_url'' (raw_metrics_url raw) base
                  DEFAULT_METRICS_PATH of
            Inl e \<Rightarrow> Inl e
          | Inr metrics \<Rightarrow>
          (case endpoint_or_default U (raw_id raw) ''readiness_url'' (raw_readiness_url raw) base
                  DEFAULT_READINESS_PATH of
            Inl e \<Rightarrow> Inl e
          | Inr readiness \<Rightarrow>
              if raw_capacity raw = Some 0 then Inl (Validation (CapacityMustBePositive (raw_id raw)))
              else Inr \<lparr>backend_id = raw_id raw, url = base, metrics_url = metrics,
                        readiness_url = readiness, capacity = raw_capacity raw\<rparr>)))"

fun parse_backends ::
  "'u uri_api \<Rightarrow> string set \<Rightarrow> BackendFile list \<Rightarrow> RuntimeConfigError + 'u Backend list" where
  "parse_backends U ids [] = Inr []"
| "parse_backends U ids (raw # rest) =
     (case parse_backend U ids raw of
        Inl e \<Rightarrow> Inl e
      | Inr backend \<Rightarrow>
          (case parse_backends U (insert (raw_id raw) ids) rest of
             Inl e \<Rightarrow> Inl e
           | Inr backends \<Rightarrow> Inr (backend # backends)))"

definition parse_runtime_config ::
  "(string \<Rightarrow> string + RuntimeFile) \<Rightarrow> 'u uri_api \<Rightarrow> string
    \<Rightarrow> RuntimeConfigError + 'u RuntimeConfig" where
  "parse_runtime_config toml_from_str U contents =
     (case toml_from_str contents of
        Inl e \<Rightarrow> Inl (ParseFailed e)
      | Inr f \<Rightarrow>
          if file_schema_version f \<noteq> RUNTIME_SCHEMA_VERSION
            then Inl (Validation (UnsupportedRuntimeSchema (file_schema_version f)))
          else if file_backends f = [] then Inl (Validation NoBackends)
          else case validate_controls f of
            Inl e \<Rightarrow> Inl (Validation e)
          | Inr _ \<Rightarrow>
              (case parse_backends U {} (file_backends f) of
                 Inl e \<Rightarrow> Inl e
               | Inr backends \<Rightarrow>
                   Inr \<lparr>cfg_backends = backends, cfg_routing = file_routing f,
                        cfg_telemetry = file_telemetry f, cfg_readiness = file_readiness f,
                        cfg_registration = file_registration f,
                        cfg_openwebui = file_openwebui f\<rparr>))"

text \<open>\<open>load\<close>: \<open>read\<close> is the outcome of reading the file at \<open>path\<close>.\<close>

definition load_runtime_config ::
  "(string \<Rightarrow> string + RuntimeFile) \<Rightarrow> 'u uri_api \<Rightarrow> string \<Rightarrow> string + string
    \<Rightarrow> RuntimeConfigError + 'u RuntimeConfig" where
  "load_runtime_config toml_from_str U path read =
     (case read of
        Inl e \<Rightarrow> Inl (ReadFailed path e)
      | Inr contents \<Rightarrow> parse_runtime_config toml_from_str U contents)"

subsection \<open>What a validated configuration satisfies\<close>

definition uri_ok :: "'u uri_api \<Rightarrow> 'u \<Rightarrow> bool" where
  "uri_ok U u \<longleftrightarrow> uri_scheme U u = Some ''http'' \<and> uri_query U u = None \<and>
     (case uri_authority U u of None \<Rightarrow> False | Some a \<Rightarrow> CHR 0x40 \<notin> set a)"

definition controls_ok :: "RoutingConfig \<Rightarrow> TelemetryConfig \<Rightarrow> ReadinessConfig \<Rightarrow> bool" where
  "controls_ok p t r \<longleftrightarrow>
     (\<exists>x. kv_soft_limit p = Finite x \<and> 0 \<le> x \<and> x < 1) \<and>
     0 < scrape_interval_ms t \<and> 0 < scrape_timeout_ms t \<and>
     scrape_interval_ms t \<le> stale_after_ms t \<and>
     0 < probe_interval_ms r \<and> 0 < probe_timeout_ms r \<and>
     0 < success_threshold r \<and> 0 < failure_threshold r"

definition id_ok :: "string \<Rightarrow> bool" where
  "id_ok i \<longleftrightarrow> 0 < length i \<and> length i \<le> 64 \<and> (\<forall>c \<in> set i. is_id_byte c)"

definition backend_ok :: "'u uri_api \<Rightarrow> 'u Backend \<Rightarrow> bool" where
  "backend_ok U b \<longleftrightarrow> id_ok (backend_id b) \<and> uri_ok U (url b) \<and> uri_ok U (metrics_url b) \<and>
     uri_ok U (readiness_url b) \<and> capacity b \<noteq> Some 0"

definition config_ok :: "'u uri_api \<Rightarrow> 'u RuntimeConfig \<Rightarrow> bool" where
  "config_ok U c \<longleftrightarrow> cfg_backends c \<noteq> [] \<and> distinct (map backend_id (cfg_backends c)) \<and>
     (\<forall>b \<in> set (cfg_backends c). backend_ok U b) \<and>
     controls_ok (cfg_routing c) (cfg_telemetry c) (cfg_readiness c)"

text \<open>
  What is used of the URI builder: it keeps scheme and authority, and a path without a
  question mark yields no query; the path of a URI has no question mark.
\<close>

definition uri_builder_laws :: "'u uri_api \<Rightarrow> bool" where
  "uri_builder_laws U \<longleftrightarrow>
     (\<forall>s a p u. uri_build U s a p = Inr u \<longrightarrow>
        uri_scheme U u = Some s \<and> uri_authority U u = Some a \<and>
        (CHR 0x3F \<notin> set p \<longrightarrow> uri_query U u = None)) \<and>
     (\<forall>u. CHR 0x3F \<notin> set (uri_path U u))"

subsection \<open>Lemmas\<close>

lemma f64_unit_interval:
  "f64_le (Finite 0) l \<and> f64_lt l (Finite 1) \<longleftrightarrow> (\<exists>x. l = Finite x \<and> 0 \<le> x \<and> x < 1)"
  by (cases l) (auto simp: f64_le_def f64_eq_def)

lemma require_positive_ok: "require_positive xs = Inr () \<longleftrightarrow> (\<forall>(n, v) \<in> set xs. v \<noteq> 0)"
  by (induction xs rule: require_positive.induct) auto

lemma validate_controls_ok:
  "validate_controls f = Inr () \<longleftrightarrow>
     controls_ok (file_routing f) (file_telemetry f) (file_readiness f)"
proof -
  have positive: "(w :: 'a::len word) \<noteq> 0 \<longleftrightarrow> 0 < w" for w
    by (simp add: word_neq_0_conv)
  have "validate_controls f = Inr () \<longleftrightarrow>
    (f64_le (Finite 0) (kv_soft_limit (file_routing f)) \<and>
     f64_lt (kv_soft_limit (file_routing f)) (Finite 1)) \<and>
    scrape_interval_ms (file_telemetry f) \<noteq> 0 \<and> scrape_timeout_ms (file_telemetry f) \<noteq> 0 \<and>
    stale_after_ms (file_telemetry f) \<noteq> 0 \<and> probe_interval_ms (file_readiness f) \<noteq> 0 \<and>
    probe_timeout_ms (file_readiness f) \<noteq> 0 \<and>
    \<not> stale_after_ms (file_telemetry f) < scrape_interval_ms (file_telemetry f) \<and>
    success_threshold (file_readiness f) \<noteq> 0 \<and> failure_threshold (file_readiness f) \<noteq> 0"
    by (auto simp: validate_controls_def Let_def)
  also have "\<dots> \<longleftrightarrow> controls_ok (file_routing f) (file_telemetry f) (file_readiness f)"
    unfolding f64_unit_interval controls_ok_def positive not_less
    by (auto intro: less_le_trans)
  finally show ?thesis .
qed

lemma validate_backend_id_ok: "validate_backend_id i = Inr () \<longleftrightarrow> id_ok i"
  by (auto simp: validate_backend_id_def id_ok_def list_all_iff not_less)

lemma validate_uri_ok: "validate_uri U u = Inr () \<longleftrightarrow> uri_ok U u"
  by (auto simp: validate_uri_def uri_ok_def split: option.splits)

lemma parse_backend_url_Inr:
  "parse_backend_url U i field text = Inr u \<longleftrightarrow> uri_parse U text = Inr u \<and> uri_ok U u"
  by (auto simp: parse_backend_url_def validate_uri_ok [symmetric] split: sum.splits)

lemma question_free_append:
  "CHR 0x3F \<notin> set p \<Longrightarrow> CHR 0x3F \<notin> set x \<Longrightarrow>
     CHR 0x3F \<notin> set (if trim_end_matches c p = [] then ''/'' @ trim_start_matches d x
        else trim_end_matches c p @ ''/'' @ trim_start_matches d x)"
  by (auto simp: trim_end_matches_def trim_start_matches_def dest: set_dropWhileD)

lemma append_path_ok:
  assumes "uri_builder_laws U" and "uri_ok U base" and "CHR 0x3F \<notin> set x"
    and "append_path U base x = Inr u"
  shows "uri_ok U u"
proof -
  let ?p = "if trim_end_matches (CHR ''/'') (uri_path U base) = []
    then ''/'' @ trim_start_matches (CHR ''/'') x
    else trim_end_matches (CHR ''/'') (uri_path U base) @ ''/'' @ trim_start_matches (CHR ''/'') x"
  obtain s a where sa: "uri_scheme U base = Some s" "uri_authority U base = Some a"
      "uri_build U s a ?p = Inr u"
    using assms(4) by (auto simp: append_path_def Let_def split: option.splits sum.splits)
  have q: "CHR 0x3F \<notin> set ?p"
    using assms(1,3) by (intro question_free_append) (auto simp: uri_builder_laws_def)
  have "uri_scheme U u = Some s \<and> uri_authority U u = Some a \<and> uri_query U u = None"
    using assms(1) sa(3) q unfolding uri_builder_laws_def by blast
  with sa assms(2) show ?thesis by (simp add: uri_ok_def)
qed

lemma endpoint_or_default_ok:
  assumes "uri_builder_laws U" and "uri_ok U base" and "CHR 0x3F \<notin> set path"
    and "endpoint_or_default U i field given base path = Inr u"
  shows "uri_ok U u"
  using assms append_path_ok [OF assms(1-3)]
  by (auto simp: endpoint_or_default_def parse_backend_url_Inr split: option.splits sum.splits)

lemma default_paths_question_free:
  "CHR 0x3F \<notin> set DEFAULT_METRICS_PATH" "CHR 0x3F \<notin> set DEFAULT_READINESS_PATH"
  by (simp_all add: DEFAULT_METRICS_PATH_def DEFAULT_READINESS_PATH_def)

lemma parse_backend_Inr:
  assumes "parse_backend U ids raw = Inr b"
  shows "id_ok (raw_id raw) \<and> raw_id raw \<notin> ids \<and> backend_id b = raw_id raw \<and>
    capacity b = raw_capacity raw \<and> raw_capacity raw \<noteq> Some 0 \<and>
    uri_parse U (raw_url raw) = Inr (url b) \<and> uri_ok U (url b) \<and>
    endpoint_or_default U (raw_id raw) ''metrics_url'' (raw_metrics_url raw) (url b)
      DEFAULT_METRICS_PATH = Inr (metrics_url b) \<and>
    endpoint_or_default U (raw_id raw) ''readiness_url'' (raw_readiness_url raw) (url b)
      DEFAULT_READINESS_PATH = Inr (readiness_url b)"
  using assms
  by (auto simp: parse_backend_def validate_backend_id_ok [symmetric]
      dest!: iffD1 [OF parse_backend_url_Inr] split: sum.splits if_splits)

text \<open>Which entries of a file are acceptable, on their own.\<close>

definition endpoint_accepted :: "'u uri_api \<Rightarrow> 'u \<Rightarrow> string option \<Rightarrow> string \<Rightarrow> bool" where
  "endpoint_accepted U base given path \<longleftrightarrow>
     (case given of
        Some text \<Rightarrow> \<exists>u. uri_parse U text = Inr u \<and> uri_ok U u
      | None \<Rightarrow> \<exists>u. append_path U base path = Inr u)"

definition entry_accepted :: "'u uri_api \<Rightarrow> BackendFile \<Rightarrow> bool" where
  "entry_accepted U raw \<longleftrightarrow> id_ok (raw_id raw) \<and> raw_capacity raw \<noteq> Some 0 \<and>
     (\<exists>base. uri_parse U (raw_url raw) = Inr base \<and> uri_ok U base \<and>
        endpoint_accepted U base (raw_metrics_url raw) DEFAULT_METRICS_PATH \<and>
        endpoint_accepted U base (raw_readiness_url raw) DEFAULT_READINESS_PATH)"

lemma endpoint_accepted_iff:
  "endpoint_accepted U base given path \<longleftrightarrow>
     (\<exists>u. endpoint_or_default U i field given base path = Inr u)"
  by (auto simp: endpoint_accepted_def endpoint_or_default_def parse_backend_url_Inr
      split: option.splits sum.splits)

lemma parse_backend_accepts:
  "(\<exists>b. parse_backend U ids raw = Inr b) \<longleftrightarrow> entry_accepted U raw \<and> raw_id raw \<notin> ids"
  (is "?l = ?r")
proof
  assume ?l
  then obtain b where "parse_backend U ids raw = Inr b" by blast
  from parse_backend_Inr [OF this] show ?r
    unfolding entry_accepted_def endpoint_accepted_iff [where i = "raw_id raw" and field = "''metrics_url''"
        and path = DEFAULT_METRICS_PATH]
      endpoint_accepted_iff [where i = "raw_id raw" and field = "''readiness_url''"
        and path = DEFAULT_READINESS_PATH]
    by blast
next
  assume r: ?r
  then obtain base where base: "uri_parse U (raw_url raw) = Inr base" "uri_ok U base"
    and m: "endpoint_accepted U base (raw_metrics_url raw) DEFAULT_METRICS_PATH"
    and d: "endpoint_accepted U base (raw_readiness_url raw) DEFAULT_READINESS_PATH"
    by (auto simp: entry_accepted_def)
  have "parse_backend_url U (raw_id raw) ''url'' (raw_url raw) = Inr base"
    using base by (simp add: parse_backend_url_Inr)
  moreover obtain u v where
    "endpoint_or_default U (raw_id raw) ''metrics_url'' (raw_metrics_url raw) base
       DEFAULT_METRICS_PATH = Inr u"
    "endpoint_or_default U (raw_id raw) ''readiness_url'' (raw_readiness_url raw) base
       DEFAULT_READINESS_PATH = Inr v"
    using m d unfolding endpoint_accepted_iff [where i = "raw_id raw" and field = "''metrics_url''"
        and path = DEFAULT_METRICS_PATH]
      endpoint_accepted_iff [where i = "raw_id raw" and field = "''readiness_url''"
        and path = DEFAULT_READINESS_PATH] by blast
  moreover have "validate_backend_id (raw_id raw) = Inr ()"
    using r by (simp add: validate_backend_id_ok entry_accepted_def)
  ultimately show ?l using r by (simp add: parse_backend_def entry_accepted_def)
qed

lemma parse_backend_valid:
  assumes "uri_builder_laws U" and "parse_backend U ids raw = Inr b"
  shows "backend_ok U b"
  using parse_backend_Inr [OF assms(2)] endpoint_or_default_ok [OF assms(1)]
    default_paths_question_free
  by (auto simp: backend_ok_def)

lemma parse_backends_accepts:
  "(\<exists>bs. parse_backends U ids raws = Inr bs) \<longleftrightarrow>
     (\<forall>raw \<in> set raws. entry_accepted U raw) \<and> distinct (map raw_id raws) \<and>
     set (map raw_id raws) \<inter> ids = {}"
proof (induction raws arbitrary: ids)
  case Nil
  then show ?case by simp
next
  case (Cons raw raws)
  have "(\<exists>bs. parse_backends U ids (raw # raws) = Inr bs) \<longleftrightarrow>
      (\<exists>b. parse_backend U ids raw = Inr b) \<and>
      (\<exists>bs. parse_backends U (insert (raw_id raw) ids) raws = Inr bs)"
    by (auto split: sum.splits)
  also have "\<dots> \<longleftrightarrow> (\<forall>raw \<in> set (raw # raws). entry_accepted U raw) \<and>
      distinct (map raw_id (raw # raws)) \<and> set (map raw_id (raw # raws)) \<inter> ids = {}"
    unfolding parse_backend_accepts Cons.IH by auto
  finally show ?case .
qed

lemma parse_backends_valid:
  assumes "uri_builder_laws U" and "parse_backends U ids raws = Inr bs"
  shows "map backend_id bs = map raw_id raws \<and> map capacity bs = map raw_capacity raws \<and>
    (\<forall>b \<in> set bs. backend_ok U b)"
  using assms(2)
  by (induction raws arbitrary: ids bs)
    (auto split: sum.splits dest: parse_backend_Inr parse_backend_valid [OF assms(1)])

subsection \<open>Property: what the parser accepts\<close>

text \<open>A URI of the witnesses: scheme, authority, path and query.\<close>

type_synonym demo_uri = "string \<times> string \<times> string"

definition demo_uri_api :: "demo_uri uri_api" where
  "demo_uri_api =
     \<lparr>uri_parse = (\<lambda>t. if take 7 t = ''http://''
        then Inr (''http'', takeWhile (\<lambda>c. c \<noteq> CHR ''/'') (drop 7 t),
                  (case dropWhile (\<lambda>c. c \<noteq> CHR ''/'') (drop 7 t) of [] \<Rightarrow> ''/'' | p \<Rightarrow> p))
        else Inl ''invalid''),
      uri_scheme = (\<lambda>(s, a, p). Some s),
      uri_authority = (\<lambda>(s, a, p). Some a),
      uri_path = (\<lambda>(s, a, p). takeWhile (\<lambda>c. c \<noteq> CHR 0x3F) p),
      uri_query = (\<lambda>(s, a, p). case dropWhile (\<lambda>c. c \<noteq> CHR 0x3F) p of [] \<Rightarrow> None | _ # q \<Rightarrow> Some q),
      uri_to_string = (\<lambda>(s, a, p). s @ ''://'' @ a @ p),
      uri_build = (\<lambda>s a p. Inr (s, a, p)),
      uri_eq = (=)\<rparr>"

lemma dropWhile_without: "c \<notin> set p \<Longrightarrow> dropWhile (\<lambda>x. x \<noteq> c) p = []"
  by (induction p) auto

lemma demo_uri_laws: "uri_builder_laws demo_uri_api"
  by (auto simp: uri_builder_laws_def demo_uri_api_def dropWhile_without dest: set_takeWhileD)

definition demo_file :: RuntimeFile where
  "demo_file =
     \<lparr>file_schema_version = 1,
      file_backends =
        [\<lparr>raw_id = ''a'', raw_url = ''http://a'', raw_metrics_url = None,
          raw_readiness_url = Some ''http://a/up'', raw_capacity = Some 4\<rparr>],
      file_routing = \<lparr>policy = LeastPressureV1, kv_soft_limit = Finite 0\<rparr>,
      file_telemetry = default_telemetry, file_readiness = default_readiness,
      file_registration = default_registration, file_openwebui = default_openwebui\<rparr>"

text \<open>
  C8. The configuration parser accepts exactly the valid files: the schema version this
  build understands, at least one backend, controls in range (a soft limit in [0,1),
  positive durations, a staleness bound of at least the scrape interval, positive
  thresholds), distinct well-formed ids, URLs that parse and validate, no zero capacity.
  An accepted configuration lists the backends of the file in order with their capacities,
  and every endpoint in it, given or derived, is a plain \<open>http\<close> URL with a host and with
  neither user information nor a query.
\<close>

theorem parse_runtime_config_exact:
  assumes "uri_builder_laws U" and "toml_from_str contents = Inr f"
  shows "((\<exists>c. parse_runtime_config toml_from_str U contents = Inr c) \<longleftrightarrow>
      file_schema_version f = 1 \<and> file_backends f \<noteq> [] \<and>
      controls_ok (file_routing f) (file_telemetry f) (file_readiness f) \<and>
      (\<forall>raw \<in> set (file_backends f). entry_accepted U raw) \<and>
      distinct (map raw_id (file_backends f))) \<and>
    (\<forall>c. parse_runtime_config toml_from_str U contents = Inr c \<longrightarrow> config_ok U c \<and>
      map backend_id (cfg_backends c) = map raw_id (file_backends f) \<and>
      map capacity (cfg_backends c) = map raw_capacity (file_backends f))"
proof -
  have parse: "parse_runtime_config toml_from_str U contents = Inr c \<longleftrightarrow>
      file_schema_version f = 1 \<and> file_backends f \<noteq> [] \<and> validate_controls f = Inr () \<and>
      (\<exists>bs. parse_backends U {} (file_backends f) = Inr bs \<and>
        c = \<lparr>cfg_backends = bs, cfg_routing = file_routing f, cfg_telemetry = file_telemetry f,
             cfg_readiness = file_readiness f, cfg_registration = file_registration f,
             cfg_openwebui = file_openwebui f\<rparr>)" for c
    using assms(2)
    by (auto simp: parse_runtime_config_def RUNTIME_SCHEMA_VERSION_def split: sum.splits)
  have accepts: "(\<exists>bs. parse_backends U {} (file_backends f) = Inr bs) \<longleftrightarrow>
      (\<forall>raw \<in> set (file_backends f). entry_accepted U raw) \<and>
      distinct (map raw_id (file_backends f))"
    by (simp add: parse_backends_accepts)
  have valid: "config_ok U c \<and> map backend_id (cfg_backends c) = map raw_id (file_backends f) \<and>
      map capacity (cfg_backends c) = map raw_capacity (file_backends f)"
    if "parse_runtime_config toml_from_str U contents = Inr c" for c
  proof -
    from that obtain bs where bs: "parse_backends U {} (file_backends f) = Inr bs"
      and c: "cfg_backends c = bs" "cfg_routing c = file_routing f"
        "cfg_telemetry c = file_telemetry f" "cfg_readiness c = file_readiness f"
      and f: "file_backends f \<noteq> []"
        "controls_ok (file_routing f) (file_telemetry f) (file_readiness f)"
      unfolding parse validate_controls_ok by auto
    note v = parse_backends_valid [OF assms(1) bs]
    have "distinct (map raw_id (file_backends f))" using bs accepts by blast
    moreover have "bs \<noteq> []" using f(1) v by auto
    ultimately show ?thesis using v c f by (simp add: config_ok_def)
  qed
  show ?thesis using parse accepts valid validate_controls_ok [of f] by auto
qed

theorem parse_runtime_config_exact_witness:
  "\<exists>c. parse_runtime_config (\<lambda>_. Inr demo_file) demo_uri_api ''t'' = Inr c \<and>
     map backend_id (cfg_backends c) = [''a'']"
proof -
  have "controls_ok (file_routing demo_file) (file_telemetry demo_file) (file_readiness demo_file)"
    by (simp add: controls_ok_def demo_file_def default_telemetry_def default_readiness_def)
  moreover have "\<forall>raw \<in> set (file_backends demo_file). entry_accepted demo_uri_api raw"
    by (simp add: demo_file_def entry_accepted_def endpoint_accepted_def id_ok_def is_id_byte_def
        is_ascii_alphanumeric_def is_ascii_alphabetic_def byte_def demo_uri_api_def uri_ok_def
        append_path_def Let_def)
  moreover have "file_schema_version demo_file = 1" "file_backends demo_file \<noteq> []"
    "map raw_id (file_backends demo_file) = [''a'']"
    by (simp_all add: demo_file_def)
  ultimately show ?thesis
    using parse_runtime_config_exact [OF demo_uri_laws, of "\<lambda>_. Inr demo_file" "''t''" demo_file]
    by auto
qed

end
