(* ===== verification/Backend_Registry.thy ===== *)
theory Backend_Registry
  imports Backend_Slot
begin

text \<open>
  The registry of backend slots (\<open>src/src/backend.rs\<close>, \<open>BackendRegistry\<close>): lookups,
  acquisition by id, the sorted snapshot of registered backends, reconciliation with a
  desired membership and the removal of quiescent tombstones. The registry keeps one slot
  per id; a removed backend stays as a retired slot while leases or a drain refer to it.
\<close>

subsection \<open>Data\<close>

type_synonym BackendRegistry = "(BackendId, BackendSlot) hashmap"

record ReconcileReport =
  added :: "BackendId list"
  report_revived :: "BackendId list"
  report_updated :: "BackendId list"
  retired :: "BackendId list"

definition empty_report :: ReconcileReport where
  "empty_report = \<lparr>added = [], report_revived = [], report_updated = [], retired = []\<rparr>"

datatype ReconcileError = DuplicateBackendId BackendId

datatype RegistryAcquireError =
    UnknownBackend BackendId
  | Unavailable AcquireError

subsection \<open>Operations\<close>

definition get_retained :: "BackendRegistry \<Rightarrow> BackendId \<Rightarrow> BackendSlot option" where
  "get_retained slots i = hget slots i"

definition registry_get :: "BackendRegistry \<Rightarrow> BackendId \<Rightarrow> BackendSlot option" where
  "registry_get slots i =
     (case get_retained slots i of
        None \<Rightarrow> None
      | Some slot \<Rightarrow> if st_registered (slot_state slot) then Some slot else None)"

definition registry_try_acquire ::
  "instant \<Rightarrow> BackendId \<Rightarrow> BackendRegistry
    \<Rightarrow> ((RegistryAcquireError + BackendLease) \<times> BackendRegistry) option" where
  "registry_try_acquire now i slots =
     (case get_retained slots i of
        None \<Rightarrow> Some (Inl (UnknownBackend i), slots)
      | Some slot \<Rightarrow> do {
          (r, slot') \<leftarrow> try_acquire now slot;
          Some (case r of Inl e \<Rightarrow> Inl (Unavailable e) | Inr lease \<Rightarrow> Inr lease,
                hset i slot' slots)
        })"

definition snapshots :: "instant \<Rightarrow> BackendRegistry \<Rightarrow> BackendSnapshot list" where
  "snapshots now slots =
     sort_key snapshot_id
       (filter snap_registered (map (\<lambda>(i, slot). slot_snapshot slot now) slots))"

text \<open>\<open>reconcile\<close>, first loop: collect the desired specifications, refusing duplicates.\<close>

fun collect_desired ::
  "BackendSpec list \<Rightarrow> (BackendId, BackendSpec) hashmap
    \<Rightarrow> ReconcileError + (BackendId, BackendSpec) hashmap" where
  "collect_desired [] desired = Inr desired"
| "collect_desired (spec # specs) desired =
     (if hcontains desired (spec_id spec) then Inl (DuplicateBackendId (spec_id spec))
      else collect_desired specs (hset (spec_id spec) spec desired))"

text \<open>Second loop: retire the slots that are not desired.\<close>

fun retire_missing ::
  "(BackendId, BackendSpec) hashmap \<Rightarrow> BackendRegistry \<Rightarrow> (BackendId list \<times> BackendRegistry) option" where
  "retire_missing desired [] = Some ([], [])"
| "retire_missing desired ((i, slot) # slots) =
     do {
       (here, slot') \<leftarrow> (if hcontains desired i then Some (False, slot) else reconcile_absent slot);
       (ids, slots') \<leftarrow> retire_missing desired slots;
       Some ((if here then [i] else []) @ ids, (i, slot') # slots')
     }"

text \<open>Third loop: update or revive the slots that exist, add those that do not.\<close>

definition install_one ::
  "BackendId \<times> BackendSpec \<Rightarrow> BackendRegistry \<times> ReconcileReport
    \<Rightarrow> (BackendRegistry \<times> ReconcileReport) option" where
  "install_one = (\<lambda>(i, spec) (slots, report).
     case hget slots i of
       Some slot \<Rightarrow> do {
         (outcome, slot') \<leftarrow> reconcile_present spec slot;
         let report = (if revived outcome
           then report\<lparr>report_revived := report_revived report @ [i]\<rparr> else report);
         let report = (if updated outcome
           then report\<lparr>report_updated := report_updated report @ [i]\<rparr> else report);
         Some (hset i slot' slots, report)
       }
     | None \<Rightarrow>
         Some (hset i (slot_new spec Disabled) slots, report\<lparr>added := added report @ [i]\<rparr>))"

definition sort_report :: "ReconcileReport \<Rightarrow> ReconcileReport" where
  "sort_report report =
     \<lparr>added = sort (added report), report_revived = sort (report_revived report),
      report_updated = sort (report_updated report), retired = sort (retired report)\<rparr>"

definition reconcile ::
  "BackendSpec list \<Rightarrow> BackendRegistry
    \<Rightarrow> ((ReconcileError + ReconcileReport) \<times> BackendRegistry) option" where
  "reconcile specs slots =
     (case collect_desired specs [] of
        Inl e \<Rightarrow> Some (Inl e, slots)
      | Inr desired \<Rightarrow> do {
          (gone, slots1) \<leftarrow> retire_missing desired slots;
          (slots2, report) \<leftarrow>
            run_all install_one desired (slots1, empty_report\<lparr>retired := gone\<rparr>);
          Some (Inr (sort_report report), slots2)
        })"

definition prune_retired :: "BackendRegistry \<Rightarrow> BackendId list \<times> BackendRegistry" where
  "prune_retired slots =
     (sort (map fst (filter (\<lambda>(i, slot). releasable_tombstone slot) slots)),
      filter (\<lambda>(i, slot). \<not> releasable_tombstone slot) slots)"

text \<open>A call on the slot of one id, leaving the others alone.\<close>

definition with_slot ::
  "BackendId \<Rightarrow> (BackendSlot \<Rightarrow> ('a \<times> BackendSlot) option) \<Rightarrow> BackendRegistry
    \<Rightarrow> ('a \<times> BackendRegistry) option" where
  "with_slot i f slots =
     do { slot \<leftarrow> hget slots i; (r, slot') \<leftarrow> f slot; Some (r, hset i slot' slots) }"

subsection \<open>Invariant and the specification of reconciliation\<close>

definition registry_inv :: "BackendRegistry \<Rightarrow> bool" where
  "registry_inv slots \<longleftrightarrow> distinct (keys_of slots) \<and>
     (\<forall>(i, slot) \<in> set slots. slot_id slot = i \<and> slot_inv slot)"

text \<open>
  What reconciliation promises for one id, from the desired specification and the slot
  before: the order in which the hash maps are walked does not appear.
\<close>

fun reconciled :: "BackendSpec option \<Rightarrow> BackendSlot option \<Rightarrow> BackendSlot option" where
  "reconciled None None = None"
| "reconciled None (Some slot) = slot_step OpReconcileAbsent slot"
| "reconciled (Some spec) (Some slot) = slot_step (OpReconcilePresent spec) slot"
| "reconciled (Some spec) None = Some (slot_new spec Disabled)"

subsection \<open>Lemmas\<close>

lemma registry_invD:
  "registry_inv slots \<Longrightarrow> hget slots i = Some slot \<Longrightarrow> slot_id slot = i \<and> slot_inv slot"
  by (auto simp: registry_inv_def dest: hget_SomeD)

lemma registry_inv_hget:
  "registry_inv slots \<longleftrightarrow> distinct (keys_of slots) \<and>
     (\<forall>i slot. hget slots i = Some slot \<longrightarrow> slot_id slot = i \<and> slot_inv slot)"
  by (auto simp: registry_inv_def hget_Some_iff dest: hget_SomeD)

lemma registry_inv_hset:
  "registry_inv slots \<Longrightarrow> slot_id slot = i \<Longrightarrow> slot_inv slot \<Longrightarrow> registry_inv (hset i slot slots)"
  by (auto simp: registry_inv_hget split: if_splits)

lemma registry_inv_Nil [simp]: "registry_inv []"
  by (simp add: registry_inv_def)

text \<open>No call but a reconciliation with another id changes the id of a slot.\<close>

lemma slot_step_id_keep:
  assumes "slot_step op slot = Some t" and "\<And>spec. op \<noteq> OpReconcilePresent spec"
  shows "slot_id t = slot_id slot"
  using assms(1)
  by (cases op)
    (use assms(2) in \<open>auto simp: slot_id_def slot_effect mode_changed_def try_acquire_Inr
      split: if_splits\<close>)

lemma reconcile_present_id:
  "slot_step (OpReconcilePresent spec) slot = Some t \<Longrightarrow> slot_id t = spec_id spec"
  by (auto simp: slot_id_def slot_effect split: if_splits)

lemma collect_desired_fresh:
  "distinct (map spec_id specs) \<Longrightarrow> set (map spec_id specs) \<inter> set (keys_of desired) = {} \<Longrightarrow>
     collect_desired specs desired = Inr (desired @ map (\<lambda>s. (spec_id s, s)) specs)"
  by (induction specs arbitrary: desired) (auto simp: hcontains_iff hset_new)

lemma collect_desired_duplicate:
  "\<not> (distinct (map spec_id specs) \<and> set (map spec_id specs) \<inter> set (keys_of desired) = {}) \<Longrightarrow>
     \<exists>i \<in> set (map spec_id specs). collect_desired specs desired = Inl (DuplicateBackendId i)"
proof (induction specs arbitrary: desired)
  case Nil
  then show ?case by simp
next
  case (Cons spec specs)
  show ?case
  proof (cases "hcontains desired (spec_id spec)")
    case True
    then show ?thesis by simp
  next
    case False
    then have "spec_id spec \<notin> set (keys_of desired)" by (simp add: hcontains_iff)
    with Cons.prems have "\<not> (distinct (map spec_id specs) \<and>
        set (map spec_id specs) \<inter> set (keys_of (hset (spec_id spec) spec desired)) = {})"
      by (auto simp: hset_new)
    from Cons.IH [OF this] False show ?thesis by auto
  qed
qed

text \<open>The desired map of a list of specifications with distinct ids.\<close>

definition desired_of :: "BackendSpec list \<Rightarrow> (BackendId, BackendSpec) hashmap" where
  "desired_of specs = map (\<lambda>s. (spec_id s, s)) specs"

lemma keys_desired_of [simp]: "keys_of (desired_of specs) = map spec_id specs"
  by (simp add: desired_of_def comp_def)

lemma hget_desired_of:
  "hget (desired_of specs) i = Some spec \<Longrightarrow> spec \<in> set specs \<and> spec_id spec = i"
  by (auto simp: desired_of_def dest!: hget_SomeD)

lemma collect_desired_cases:
  "collect_desired specs [] = Inr (desired_of specs) \<and> distinct (map spec_id specs) \<or>
   (\<exists>i \<in> set (map spec_id specs). collect_desired specs [] = Inl (DuplicateBackendId i)) \<and>
     \<not> distinct (map spec_id specs)"
  using collect_desired_fresh [of specs "[]"] collect_desired_duplicate [of specs "[]"]
  by (auto simp: desired_of_def)

lemma retire_missing_Some:
  assumes "retire_missing desired slots = Some (gone, slots')"
  shows "keys_of slots' = keys_of slots \<and>
    (\<forall>i. hget slots' i = (case hget slots i of None \<Rightarrow> None
       | Some slot \<Rightarrow> if hcontains desired i then Some slot
                      else slot_step OpReconcileAbsent slot)) \<and>
    (distinct (keys_of slots) \<longrightarrow> distinct gone \<and>
       set gone = {i. \<not> hcontains desired i \<and>
         (\<exists>slot. hget slots i = Some slot \<and> st_registered (slot_state slot))})"
  using assms
proof (induction slots arbitrary: gone slots')
  case Nil
  then show ?case by simp
next
  case (Cons entry slots)
  obtain i slot where entry: "entry = (i, slot)" by (cases entry)
  from Cons.prems entry obtain here slot' ids rest where
    one: "(if hcontains desired i then Some (False, slot) else reconcile_absent slot)
            = Some (here, slot')"
    and rest: "retire_missing desired slots = Some (ids, rest)"
    and res: "gone = (if here then [i] else []) @ ids" "slots' = (i, slot') # rest"
    by (auto split: bind_splits)
  have one': "(if hcontains desired i then slot' = slot
      else slot_step OpReconcileAbsent slot = Some slot') \<and>
      here = (\<not> hcontains desired i \<and> st_registered (slot_state slot))"
    using one by (auto simp: slot_step.simps reconcile_absent_def Let_def
        split: if_splits bind_splits)
  show ?case
    using Cons.IH [OF rest] one' unfolding entry res
    by (auto simp: hget_None_iff split: option.splits dest: hget_Some_key)
qed

text \<open>Which list of the report an entry of the desired map goes to.\<close>

definition counts_added :: "BackendSlot option \<Rightarrow> BackendSpec \<Rightarrow> bool" where
  "counts_added before spec \<longleftrightarrow> before = None"

definition counts_revived :: "BackendSlot option \<Rightarrow> BackendSpec \<Rightarrow> bool" where
  "counts_revived before spec \<longleftrightarrow>
     (case before of None \<Rightarrow> False | Some slot \<Rightarrow> \<not> st_registered (slot_state slot))"

definition counts_updated :: "BackendSlot option \<Rightarrow> BackendSpec \<Rightarrow> bool" where
  "counts_updated before spec \<longleftrightarrow>
     (case before of None \<Rightarrow> False | Some slot \<Rightarrow> st_spec (slot_state slot) \<noteq> spec)"

definition picks ::
  "(BackendSlot option \<Rightarrow> BackendSpec \<Rightarrow> bool) \<Rightarrow> BackendRegistry
    \<Rightarrow> (BackendId \<times> BackendSpec) list \<Rightarrow> BackendId list" where
  "picks P slots desired = map fst (filter (\<lambda>(i, spec). P (hget slots i) spec) desired)"

lemma install_one_Some:
  assumes "install_one (i, spec) (slots, report) = Some (slots', report')"
  shows "(\<exists>slot'. reconciled (Some spec) (hget slots i) = Some slot' \<and> slots' = hset i slot' slots) \<and>
    report' = \<lparr>
      added = added report @ picks counts_added slots [(i, spec)],
      report_revived = report_revived report @ picks counts_revived slots [(i, spec)],
      report_updated = report_updated report @ picks counts_updated slots [(i, spec)],
      retired = retired report\<rparr>"
proof (cases "hget slots i")
  case None
  with assms show ?thesis
    by (auto simp: install_one_def picks_def counts_added_def counts_revived_def
        counts_updated_def)
next
  case (Some slot)
  then obtain outcome slot' where one: "reconcile_present spec slot = Some (outcome, slot')"
    using assms by (auto simp: install_one_def split: bind_splits)
  then have "slot_step (OpReconcilePresent spec) slot = Some slot'"
    by (simp add: slot_step.simps)
  moreover have "revived outcome = (\<not> st_registered (slot_state slot)) \<and>
      updated outcome = (st_spec (slot_state slot) \<noteq> spec)"
    using one by (auto simp: reconcile_present_def Let_def split: bind_splits if_splits)
  ultimately show ?thesis
    using assms Some one
    by (auto simp: install_one_def Let_def picks_def counts_added_def counts_revived_def
        counts_updated_def)
qed

lemma picks_hset_other:
  "i \<notin> set (keys_of desired) \<Longrightarrow> picks P (hset i slot slots) desired = picks P slots desired"
  unfolding picks_def by (rule arg_cong [where f = "map fst"], rule filter_cong) force+

lemma picks_Cons: "picks P slots (entry # desired) = picks P slots [entry] @ picks P slots desired"
  by (simp add: picks_def)

lemma install_all_Some:
  assumes "run_all install_one desired (slots, report) = Some (slots', report')"
    and "distinct (keys_of desired)"
  shows "(\<forall>i. hget slots' i = (case hget desired i of None \<Rightarrow> hget slots i
            | Some spec \<Rightarrow> reconciled (Some spec) (hget slots i))) \<and>
    (\<forall>i \<in> set (keys_of desired). hget slots' i \<noteq> None) \<and>
    (distinct (keys_of slots) \<longrightarrow> distinct (keys_of slots')) \<and>
    report' = \<lparr>
      added = added report @ picks counts_added slots desired,
      report_revived = report_revived report @ picks counts_revived slots desired,
      report_updated = report_updated report @ picks counts_updated slots desired,
      retired = retired report\<rparr>"
  using assms
proof (induction desired arbitrary: slots report)
  case Nil
  then show ?case by (simp add: picks_def)
next
  case (Cons entry desired)
  obtain i spec where entry: "entry = (i, spec)" by (cases entry)
  from Cons.prems(1) entry obtain slots1 report1 where
    one: "install_one (i, spec) (slots, report) = Some (slots1, report1)"
    and rest: "run_all install_one desired (slots1, report1) = Some (slots', report')"
    by (auto split: bind_splits)
  have i: "i \<notin> set (keys_of desired)" and d: "distinct (keys_of desired)"
    using Cons.prems(2) entry by auto
  obtain slot1 where slot1: "reconciled (Some spec) (hget slots i) = Some slot1"
    and slots1: "slots1 = hset i slot1 slots"
    using install_one_Some [OF one] by blast
  note IH = Cons.IH [OF rest d]
  have none: "hget desired i = None" using i by (simp add: hget_None_iff)
  have get: "hget slots' j = (case hget (entry # desired) j of None \<Rightarrow> hget slots j
      | Some spec \<Rightarrow> reconciled (Some spec) (hget slots j))" for j
  proof (cases "j = i")
    case True
    with IH slot1 slots1 none entry show ?thesis by simp
  next
    case False
    have "hget slots' j = (case hget desired j of None \<Rightarrow> hget slots1 j
        | Some spec \<Rightarrow> reconciled (Some spec) (hget slots1 j))"
      using IH by blast
    moreover have "hget slots1 j = hget slots j" using False slots1 by simp
    ultimately show ?thesis using False entry by (simp split: option.splits)
  qed
  have kept: "hget slots' j \<noteq> None" if "j \<in> set (keys_of (entry # desired))" for j
  proof (cases "j = i")
    case True
    then show ?thesis using get [of i] slot1 entry by simp
  next
    case False
    then have "j \<in> set (keys_of desired)" using that entry by simp
    then show ?thesis using IH by blast
  qed
  have dist: "distinct (keys_of slots')" if "distinct (keys_of slots)"
  proof -
    have "distinct (keys_of slots1)" using slots1 that by simp
    then show ?thesis using IH by blast
  qed
  have rep: "report' = \<lparr>
      added = added report @ picks counts_added slots (entry # desired),
      report_revived = report_revived report @ picks counts_revived slots (entry # desired),
      report_updated = report_updated report @ picks counts_updated slots (entry # desired),
      retired = retired report\<rparr>"
  proof -
    have "report' = \<lparr>
        added = added report1 @ picks counts_added slots1 desired,
        report_revived = report_revived report1 @ picks counts_revived slots1 desired,
        report_updated = report_updated report1 @ picks counts_updated slots1 desired,
        retired = retired report1\<rparr>"
      using IH by blast
    moreover have "report1 = \<lparr>
        added = added report @ picks counts_added slots [entry],
        report_revived = report_revived report @ picks counts_revived slots [entry],
        report_updated = report_updated report @ picks counts_updated slots [entry],
        retired = retired report\<rparr>"
      using install_one_Some [OF one] entry by blast
    ultimately show ?thesis
      by (simp add: slots1 picks_hset_other [OF i] picks_Cons [of _ _ entry desired])
  qed
  show ?case using get kept dist rep by blast
qed

lemma install_all:
  assumes "run_all install_one desired (slots, report) = Some (slots', report')"
    and "distinct (keys_of desired)"
  shows install_all_hget: "hget slots' i = (case hget desired i of None \<Rightarrow> hget slots i
      | Some spec \<Rightarrow> reconciled (Some spec) (hget slots i))"
    and install_all_kept: "i \<in> set (keys_of desired) \<Longrightarrow> hget slots' i \<noteq> None"
    and install_all_distinct: "distinct (keys_of slots) \<Longrightarrow> distinct (keys_of slots')"
    and install_all_report: "report' = \<lparr>
      added = added report @ picks counts_added slots desired,
      report_revived = report_revived report @ picks counts_revived slots desired,
      report_updated = report_updated report @ picks counts_updated slots desired,
      retired = retired report\<rparr>"
  using install_all_Some [OF assms] by blast+


text \<open>The whole of a successful reconciliation, id by id.\<close>

lemma reconcile_Inr:
  assumes "reconcile specs slots = Some (Inr report, slots')" and "distinct (keys_of slots)"
  shows "distinct (map spec_id specs) \<and> distinct (keys_of slots') \<and>
    (\<forall>i. hget slots' i = reconciled (hget (desired_of specs) i) (hget slots i)) \<and>
    (\<forall>i \<in> set (map spec_id specs). hget slots' i \<noteq> None)"
proof -
  from assms(1) obtain gone slots1 report1 where
    c: "collect_desired specs [] = Inr (desired_of specs)" and d: "distinct (map spec_id specs)"
    and r: "retire_missing (desired_of specs) slots = Some (gone, slots1)"
    and i: "run_all install_one (desired_of specs) (slots1, empty_report\<lparr>retired := gone\<rparr>)
              = Some (slots', report1)"
    using collect_desired_cases [of specs]
    by (auto simp: reconcile_def split: bind_splits sum.splits)
  have dk: "distinct (keys_of (desired_of specs))" using d by simp
  note ret = retire_missing_Some [OF r] and ins = install_all [OF i dk]
  have "hget slots' i = reconciled (hget (desired_of specs) i) (hget slots i)" for i
  proof (cases "hget (desired_of specs) i")
    case None
    then have "\<not> hcontains (desired_of specs) i" by (simp add: hcontains_hget)
    with ret have "hget slots1 i = reconciled None (hget slots i)"
      by (cases "hget slots i") auto
    with None ins(1) [of i] show ?thesis by simp
  next
    case (Some spec)
    then have "hcontains (desired_of specs) i" by (simp add: hcontains_hget)
    with ret have "hget slots1 i = hget slots i" by (cases "hget slots i") auto
    with Some ins(1) [of i] show ?thesis by simp
  qed
  moreover have "distinct (keys_of slots')"
    using ret ins(3) assms(2) by simp
  moreover have "\<forall>i \<in> set (map spec_id specs). hget slots' i \<noteq> None"
    using ins(2) by (metis keys_desired_of)
  ultimately show ?thesis using d by blast
qed

lemma reconciled_inv:
  assumes "reconciled want before = Some slot" and "\<And>s. want = Some s \<Longrightarrow> spec_id s = i"
    and "\<And>b. before = Some b \<Longrightarrow> slot_id b = i \<and> slot_inv b"
  shows "slot_id slot = i \<and> slot_inv slot"
proof (cases want)
  case None
  with assms show ?thesis
    by (cases before) (auto intro: slot_step_inv simp: slot_step_id_keep)
next
  case (Some spec)
  with assms show ?thesis
    by (cases before)
      (auto intro: slot_step_inv simp: reconcile_present_id, auto simp: slot_id_def slot_new_def)
qed

lemma reconcile_inv:
  assumes "reconcile specs slots = Some (r, slots')" and "registry_inv slots"
  shows "registry_inv slots'"
proof (cases r)
  case (Inl e)
  with assms show ?thesis
    by (auto simp: reconcile_def split: sum.splits bind_splits)
next
  case (Inr report)
  with assms have "reconcile specs slots = Some (Inr report, slots')" by simp
  moreover have "distinct (keys_of slots)" using assms(2) by (simp add: registry_inv_def)
  ultimately have dist: "distinct (keys_of slots')"
    and get: "\<And>i. hget slots' i = reconciled (hget (desired_of specs) i) (hget slots i)"
    using reconcile_Inr by blast+
  have "slot_id slot = i \<and> slot_inv slot" if "hget slots' i = Some slot" for i slot
  proof (rule reconciled_inv)
    show "reconciled (hget (desired_of specs) i) (hget slots i) = Some slot"
      using that get [of i] by simp
    show "spec_id s = i" if "hget (desired_of specs) i = Some s" for s
      using hget_desired_of [OF that] by simp
    show "slot_id b = i \<and> slot_inv b" if "hget slots i = Some b" for b
      using registry_invD [OF assms(2) that] .
  qed
  then show ?thesis using dist by (simp add: registry_inv_hget)
qed

text \<open>Reconciling one slot keeps its leases and counters, and keeps a drain's epoch.\<close>

lemma reconciled_keeps:
  assumes "reconciled want (Some slot) = Some slot'"
  shows "st_leases (slot_state slot') = st_leases (slot_state slot) \<and>
    st_total_acquired (slot_state slot') = st_total_acquired (slot_state slot) \<and>
    st_next_lease_serial (slot_state slot') = st_next_lease_serial (slot_state slot) \<and>
    st_registered (slot_state slot') = (want \<noteq> None) \<and>
    (want \<noteq> None \<or> st_mode (slot_state slot) \<noteq> Active \<or> \<not> st_registered (slot_state slot) \<longrightarrow>
       st_mode (slot_state slot') = st_mode (slot_state slot) \<and>
       st_mode_epoch (slot_state slot') = st_mode_epoch (slot_state slot)) \<and>
    (want = None \<and> st_mode (slot_state slot) = Active \<and> st_registered (slot_state slot) \<longrightarrow>
       st_mode (slot_state slot') = Disabled) \<and>
    (\<forall>spec. want = Some spec \<longrightarrow> st_spec (slot_state slot') = spec)"
  using assms by (cases want) (auto simp: slot_effect split: if_splits)

definition slot_headroom :: "BackendSlot \<Rightarrow> bool" where
  "slot_headroom slot \<longleftrightarrow>
     unat (st_sequence (slot_state slot)) + 1 < 2 ^ 64 \<and>
     unat (st_mode_epoch (slot_state slot)) + 1 < 2 ^ 64 \<and>
     unat (st_spec_revision (slot_state slot)) + 1 < 2 ^ 64"

lemma reconcile_absent_total:
  "slot_headroom slot \<Longrightarrow> \<exists>r. reconcile_absent slot = Some r"
  by (auto simp: slot_headroom_def reconcile_absent_def publish_locked_def next_sequence_def
      next_mode_epoch_def checked_add_def Let_def)

lemma reconcile_present_total:
  "slot_headroom slot \<Longrightarrow> \<exists>r. reconcile_present spec slot = Some r"
  by (auto simp: slot_headroom_def reconcile_present_def publish_locked_def next_sequence_def
      checked_add_def Let_def)

lemma retire_missing_total:
  "\<forall>(i, slot) \<in> set slots. slot_headroom slot \<Longrightarrow> \<exists>r. retire_missing desired slots = Some r"
proof (induction slots)
  case Nil
  then show ?case by simp
next
  case (Cons entry slots)
  then show ?case
    by (cases entry) (auto dest!: reconcile_absent_total split: bind_splits)
qed

lemma install_all_total:
  assumes "\<And>i slot. i \<in> set (keys_of desired) \<Longrightarrow> hget slots i = Some slot \<Longrightarrow> slot_headroom slot"
    and "distinct (keys_of desired)"
  shows "\<exists>r. run_all install_one desired (slots, report) = Some r"
  using assms
proof (induction desired arbitrary: slots report)
  case Nil
  then show ?case by simp
next
  case (Cons entry desired)
  obtain i spec where entry: "entry = (i, spec)" by (cases entry)
  have "\<exists>slots1 report1. install_one (i, spec) (slots, report) = Some (slots1, report1)"
  proof (cases "hget slots i")
    case None
    then show ?thesis by (simp add: install_one_def)
  next
    case (Some slot)
    then have "slot_headroom slot" using Cons.prems(1) [of i slot] entry by simp
    then obtain r where "reconcile_present spec slot = Some r"
      using reconcile_present_total by blast
    with Some show ?thesis by (cases r) (simp add: install_one_def Let_def)
  qed
  then obtain slots1 report1 where one: "install_one (i, spec) (slots, report) = Some (slots1, report1)"
    by blast
  then obtain slot1 where "slots1 = hset i slot1 slots"
    using install_one_Some by blast
  then have "slot_headroom slot" if "j \<in> set (keys_of desired)" "hget slots1 j = Some slot" for j slot
    using that Cons.prems entry by (auto split: if_splits)
  then have "\<exists>r. run_all install_one desired (slots1, report1) = Some r"
    using Cons.prems(2) by (intro Cons.IH) auto
  with one entry show ?case by simp
qed

lemma reconcile_total:
  assumes "\<forall>(i, slot) \<in> set slots. slot_headroom slot"
  shows "\<exists>r slots'. reconcile specs slots = Some (r, slots')"
proof (cases "distinct (map spec_id specs)")
  case False
  then show ?thesis using collect_desired_cases [of specs] by (auto simp: reconcile_def)
next
  case True
  then have c: "collect_desired specs [] = Inr (desired_of specs)"
    using collect_desired_cases [of specs] by auto
  obtain gone slots1 where r: "retire_missing (desired_of specs) slots = Some (gone, slots1)"
    using retire_missing_total [OF assms] by (metis surj_pair)
  have "slot_headroom slot" if "i \<in> set (keys_of (desired_of specs))" "hget slots1 i = Some slot" for i slot
  proof -
    have "hcontains (desired_of specs) i" using that(1) by (simp add: hcontains_iff)
    then have "hget slots i = Some slot"
      using that(2) retire_missing_Some [OF r] by (auto split: option.splits)
    then show ?thesis using assms by (auto dest: hget_SomeD)
  qed
  then obtain x where "run_all install_one (desired_of specs) (slots1, empty_report\<lparr>retired := gone\<rparr>) = Some x"
    using install_all_total [of "desired_of specs" slots1 "empty_report\<lparr>retired := gone\<rparr>"] True
    by auto
  then show ?thesis using c r by (cases x) (simp add: reconcile_def)
qed

lemma reconcile_ok_iff:
  "reconcile specs slots = Some (r, slots') \<Longrightarrow> (\<exists>report. r = Inr report) \<longleftrightarrow> distinct (map spec_id specs)"
  using collect_desired_cases [of specs]
  by (auto simp: reconcile_def split: bind_splits sum.splits)

lemma desired_of_None: "hget (desired_of specs) i = None \<longleftrightarrow> i \<notin> set (map spec_id specs)"
  unfolding hget_None_iff keys_desired_of ..

lemma desired_of_Some:
  "distinct (map spec_id specs) \<Longrightarrow> spec \<in> set specs \<Longrightarrow>
     hget (desired_of specs) (spec_id spec) = Some spec"
  by (subst hget_Some_iff) (auto simp: desired_of_def comp_def)

text \<open>A reconciliation never loses a slot.\<close>

lemma reconcile_slot:
  assumes "reconcile specs slots = Some (Inr report, slots')" and "registry_inv slots"
    and "\<forall>(i, slot) \<in> set slots. slot_headroom slot" and "hget slots i = Some slot"
  shows "\<exists>slot'. hget slots' i = Some slot' \<and>
    reconciled (hget (desired_of specs) i) (Some slot) = Some slot'"
proof -
  have "distinct (keys_of slots)" using assms(2) by (simp add: registry_inv_def)
  note rec = reconcile_Inr [OF assms(1) this]
  then have get: "hget slots' i = reconciled (hget (desired_of specs) i) (Some slot)"
    using assms(4) by simp
  show ?thesis
  proof (cases "i \<in> set (map spec_id specs)")
    case True
    then show ?thesis using rec get by auto
  next
    case False
    have "slot_headroom slot" using assms(3,4) by (auto dest: hget_SomeD)
    then obtain x where "reconcile_absent slot = Some x" using reconcile_absent_total by blast
    moreover have "hget (desired_of specs) i = None" using False desired_of_None by blast
    ultimately show ?thesis using get by (simp add: slot_step.simps)
  qed
qed

lemma reconcile_keep:
  assumes "reconcile specs slots = Some (Inr report, slots')" and "registry_inv slots"
    and "\<forall>(i, slot) \<in> set slots. slot_headroom slot" and "hget slots i = Some slot"
  shows "\<exists>slot'. hget slots' i = Some slot' \<and>
    st_leases (slot_state slot') = st_leases (slot_state slot) \<and>
    st_total_acquired (slot_state slot') = st_total_acquired (slot_state slot) \<and>
    (if i \<in> set (map spec_id specs) \<or> st_mode (slot_state slot) \<noteq> Active
     then st_mode (slot_state slot') = st_mode (slot_state slot) \<and>
          st_mode_epoch (slot_state slot') = st_mode_epoch (slot_state slot)
     else st_mode (slot_state slot') = Disabled)"
proof -
  from reconcile_slot [OF assms] obtain slot' where s': "hget slots' i = Some slot'"
    and rc: "reconciled (hget (desired_of specs) i) (Some slot) = Some slot'" by blast
  have "st_mode (slot_state slot) = Active \<Longrightarrow> st_registered (slot_state slot)"
    using registry_invD [OF assms(2,4)] by (simp add: slot_inv_def Let_def)
  then show ?thesis using reconciled_keeps [OF rc] s' desired_of_None [of specs i] by auto
qed

lemma reconcile_member:
  assumes "reconcile specs slots = Some (Inr report, slots')" and "registry_inv slots"
    and "\<forall>(i, slot) \<in> set slots. slot_headroom slot" and "spec \<in> set specs"
  shows "\<exists>slot'. registry_get slots' (spec_id spec) = Some slot' \<and> st_spec (slot_state slot') = spec \<and>
    (hget slots (spec_id spec) = None \<longrightarrow> st_mode (slot_state slot') = Disabled)"
proof -
  have "distinct (keys_of slots)" using assms(2) by (simp add: registry_inv_def)
  note rec = reconcile_Inr [OF assms(1) this]
  then have want: "hget (desired_of specs) (spec_id spec) = Some spec"
    using assms(4) desired_of_Some by blast
  show ?thesis
  proof (cases "hget slots (spec_id spec)")
    case None
    then have "hget slots' (spec_id spec) = Some (slot_new spec Disabled)"
      using rec want by simp
    then show ?thesis by (simp add: registry_get_def get_retained_def slot_new_def)
  next
    case (Some slot)
    from reconcile_slot [OF assms(1-3) Some] want obtain slot'
      where "hget slots' (spec_id spec) = Some slot'"
        and "reconciled (Some spec) (Some slot) = Some slot'" by auto
    with reconciled_keeps [of "Some spec" slot slot'] Some show ?thesis
      by (auto simp: registry_get_def get_retained_def)
  qed
qed

lemma reconcile_only:
  assumes "reconcile specs slots = Some (Inr report, slots')" and "registry_inv slots"
    and "registry_get slots' i = Some slot"
  shows "i \<in> set (map spec_id specs)"
proof (rule ccontr)
  assume "i \<notin> set (map spec_id specs)"
  then have w: "hget (desired_of specs) i = None" using desired_of_None by blast
  have "distinct (keys_of slots)" using assms(2) by (simp add: registry_inv_def)
  then have "hget slots' i = reconciled None (hget slots i)"
    using reconcile_Inr [OF assms(1)] w by metis
  moreover have slot: "hget slots' i = Some slot" and reg: "st_registered (slot_state slot)"
    using assms(3) by (auto simp: registry_get_def get_retained_def split: option.splits if_splits)
  ultimately obtain before where "reconciled None (Some before) = Some slot"
    by (cases "hget slots i") auto
  from reconciled_keeps [OF this] reg show False by simp
qed

subsection \<open>Properties\<close>

definition demo_registry :: BackendRegistry where
  "demo_registry =
     [(''a'', slot_new \<lparr>spec_id = ''a'', spec_endpoint = ''http://a''\<rparr> Active),
      (''b'', slot_new \<lparr>spec_id = ''b'', spec_endpoint = ''http://b''\<rparr> Draining)]"

lemma demo_registry_headroom: "\<forall>(i, slot) \<in> set demo_registry. slot_headroom slot"
  by (simp add: demo_registry_def slot_headroom_def slot_new_def)

lemma demo_registry_inv: "registry_inv demo_registry"
  by (simp add: demo_registry_def registry_inv_def slot_id_def) (simp add: slot_new_def)

text \<open>
  C4. Reconciliation refines its per-id specification, whatever the iteration order of
  the hash maps. It never panics while the slots' counters have room. With a duplicate id
  it is rejected and the registry is unchanged. Otherwise the registered backends are
  exactly the desired ones with the desired specifications; every slot that existed keeps
  its leases and its acquisition counter; a slot that is kept, and a removed slot that is
  draining, keep their mode and drain epoch; a removed active slot is closed; a new slot
  starts disabled.
\<close>

theorem reconcile_refines:
  assumes "registry_inv slots" and "\<forall>(i, slot) \<in> set slots. slot_headroom slot"
  shows "\<exists>r slots'. reconcile specs slots = Some (r, slots') \<and> registry_inv slots' \<and>
    (if distinct (map spec_id specs)
     then (\<exists>report. r = Inr report) \<and>
       (\<forall>i. (\<exists>slot. registry_get slots' i = Some slot) \<longleftrightarrow> i \<in> set (map spec_id specs)) \<and>
       (\<forall>spec \<in> set specs. \<exists>slot'. registry_get slots' (spec_id spec) = Some slot' \<and>
          st_spec (slot_state slot') = spec \<and>
          (hget slots (spec_id spec) = None \<longrightarrow> st_mode (slot_state slot') = Disabled)) \<and>
       (\<forall>i slot. hget slots i = Some slot \<longrightarrow> (\<exists>slot'. hget slots' i = Some slot' \<and>
          st_leases (slot_state slot') = st_leases (slot_state slot) \<and>
          st_total_acquired (slot_state slot') = st_total_acquired (slot_state slot) \<and>
          (if i \<in> set (map spec_id specs) \<or> st_mode (slot_state slot) \<noteq> Active
           then st_mode (slot_state slot') = st_mode (slot_state slot) \<and>
                st_mode_epoch (slot_state slot') = st_mode_epoch (slot_state slot)
           else st_mode (slot_state slot') = Disabled)))
     else (\<exists>i. r = Inl (DuplicateBackendId i)) \<and> slots' = slots)"
proof -
  obtain r slots' where run: "reconcile specs slots = Some (r, slots')"
    using reconcile_total [OF assms(2)] by blast
  have inv: "registry_inv slots'" using reconcile_inv [OF run assms(1)] .
  show ?thesis
  proof (cases "distinct (map spec_id specs)")
    case False
    then have "(\<exists>i. r = Inl (DuplicateBackendId i)) \<and> slots' = slots"
      using run collect_desired_cases [of specs] by (auto simp: reconcile_def)
    then show ?thesis using run inv False by auto
  next
    case True
    then obtain report where r: "r = Inr report" using reconcile_ok_iff [OF run] by blast
    note ok = run [unfolded r]
    have "\<forall>i. (\<exists>slot. registry_get slots' i = Some slot) \<longleftrightarrow> i \<in> set (map spec_id specs)"
      using reconcile_only [OF ok assms(1)] reconcile_member [OF ok assms] by fastforce
    then show ?thesis
      using run inv True r reconcile_member [OF ok assms] reconcile_keep [OF ok assms] by auto
  qed
qed

theorem reconcile_refines_witness:
  "\<exists>r slots'. reconcile [\<lparr>spec_id = ''b'', spec_endpoint = ''http://b2''\<rparr>,
       \<lparr>spec_id = ''c'', spec_endpoint = ''http://c''\<rparr>] demo_registry = Some (r, slots') \<and>
     registry_inv slots' \<and>
     (\<forall>i. (\<exists>slot. registry_get slots' i = Some slot) \<longleftrightarrow> i \<in> {''b'', ''c''})"
  using reconcile_refines [OF demo_registry_inv demo_registry_headroom,
      of "[\<lparr>spec_id = ''b'', spec_endpoint = ''http://b2''\<rparr>, \<lparr>spec_id = ''c'', spec_endpoint = ''http://c''\<rparr>]"]
  by auto

lemma picks_sorted_set:
  assumes "distinct (keys_of desired)"
  shows "distinct (picks P slots desired) \<and>
    set (picks P slots desired) = {i. \<exists>spec. hget desired i = Some spec \<and> P (hget slots i) spec}"
proof -
  have "distinct (picks P slots desired)"
    using assms by (auto simp: picks_def distinct_map inj_on_def)
  moreover have "set (picks P slots desired) =
      {i. \<exists>spec. hget desired i = Some spec \<and> P (hget slots i) spec}"
    using assms by (force simp: picks_def hget_Some_iff)
  ultimately show ?thesis by blast
qed

lemma reconcile_report_eq:
  assumes "reconcile specs slots = Some (Inr report, slots')" and "registry_inv slots"
  shows "\<exists>gone. report = sort_report
      \<lparr>added = picks counts_added slots (desired_of specs),
       report_revived = picks counts_revived slots (desired_of specs),
       report_updated = picks counts_updated slots (desired_of specs), retired = gone\<rparr> \<and>
    distinct gone \<and> set gone = {i. i \<notin> set (map spec_id specs) \<and> registry_get slots i \<noteq> None}"
proof -
  from assms(1) obtain gone slots1 report1 where d: "distinct (map spec_id specs)"
    and r: "retire_missing (desired_of specs) slots = Some (gone, slots1)"
    and i: "run_all install_one (desired_of specs) (slots1, empty_report\<lparr>retired := gone\<rparr>)
              = Some (slots', report1)"
    and rep: "report = sort_report report1"
    using collect_desired_cases [of specs]
    by (auto simp: reconcile_def split: bind_splits sum.splits)
  have dk: "distinct (keys_of (desired_of specs))" using d by simp
  note ret = retire_missing_Some [OF r]
  have same: "hget slots1 i = hget slots i" if "i \<in> set (keys_of (desired_of specs))" for i
  proof -
    have "hcontains (desired_of specs) i" using that by (simp add: hcontains_iff)
    then show ?thesis using ret by (cases "hget slots i") auto
  qed
  have "picks P slots1 (desired_of specs) = picks P slots (desired_of specs)" for P
  proof -
    have "hget slots1 i = hget slots i" if "(i, spec) \<in> set (desired_of specs)" for i spec
      using same [of i] imageI [OF that, of fst] by (simp del: keys_desired_of)
    then show ?thesis
      unfolding picks_def by (intro arg_cong [where f = "map fst"] filter_cong refl) auto
  qed
  then have "report1 = \<lparr>added = picks counts_added slots (desired_of specs),
      report_revived = picks counts_revived slots (desired_of specs),
      report_updated = picks counts_updated slots (desired_of specs), retired = gone\<rparr>"
    using install_all_report [OF i dk] by (simp add: empty_report_def)
  moreover have "distinct gone \<and>
      set gone = {i. i \<notin> set (map spec_id specs) \<and> registry_get slots i \<noteq> None}"
  proof -
    have "distinct (keys_of slots)" using assms(2) by (simp add: registry_inv_def)
    with ret have "distinct gone" and "set gone = {i. \<not> hcontains (desired_of specs) i \<and>
        (\<exists>slot. hget slots i = Some slot \<and> st_registered (slot_state slot))}"
      by blast+
    moreover have "registry_get slots i \<noteq> None \<longleftrightarrow>
        (\<exists>slot. hget slots i = Some slot \<and> st_registered (slot_state slot))" for i
      by (simp add: registry_get_def get_retained_def split: option.splits)
    ultimately show ?thesis by (simp add: hcontains_hget desired_of_None)
  qed
  ultimately show ?thesis using rep by blast
qed

text \<open>
  The report of a reconciliation is exact and deterministic: each of its lists is in
  strictly ascending order, and they hold precisely the ids that are new, that come back
  from retirement, that are known with another specification, and that were registered and
  are no longer wanted.
\<close>

theorem reconcile_report_exact:
  assumes "registry_inv slots" and "reconcile specs slots = Some (Inr report, slots')"
  shows "(\<forall>ids \<in> {added report, report_revived report, report_updated report, retired report}.
      sorted ids \<and> distinct ids) \<and>
    set (added report) = {i \<in> set (map spec_id specs). get_retained slots i = None} \<and>
    set (report_revived report) = {i \<in> set (map spec_id specs).
      \<exists>slot. get_retained slots i = Some slot \<and> \<not> st_registered (slot_state slot)} \<and>
    set (report_updated report) = {i. \<exists>spec \<in> set specs. spec_id spec = i \<and>
      (\<exists>slot. get_retained slots i = Some slot \<and> st_spec (slot_state slot) \<noteq> spec)} \<and>
    set (retired report) = {i. i \<notin> set (map spec_id specs) \<and> registry_get slots i \<noteq> None}"
proof -
  obtain gone where rep: "report = sort_report
      \<lparr>added = picks counts_added slots (desired_of specs),
       report_revived = picks counts_revived slots (desired_of specs),
       report_updated = picks counts_updated slots (desired_of specs), retired = gone\<rparr>"
    and gone: "distinct gone" "set gone = {i. i \<notin> set (map spec_id specs) \<and> registry_get slots i \<noteq> None}"
    using reconcile_report_eq [OF assms(2,1)] by blast
  have "distinct (map spec_id specs)" using reconcile_ok_iff [OF assms(2)] by blast
  then have dk: "distinct (keys_of (desired_of specs))"
    and mem: "\<And>i spec. hget (desired_of specs) i = Some spec \<longleftrightarrow> spec \<in> set specs \<and> spec_id spec = i"
    using desired_of_Some hget_desired_of by (simp, blast)
  note ps = picks_sorted_set [OF dk]
  show ?thesis
    unfolding rep sort_report_def
    using ps [of counts_added slots] ps [of counts_revived slots] ps [of counts_updated slots] gone
    by (auto simp: mem get_retained_def counts_added_def counts_revived_def counts_updated_def
        split: option.splits)
qed

theorem reconcile_report_exact_witness:
  "\<exists>report slots'. reconcile [\<lparr>spec_id = ''b'', spec_endpoint = ''http://b2''\<rparr>,
       \<lparr>spec_id = ''c'', spec_endpoint = ''http://c''\<rparr>] demo_registry = Some (Inr report, slots') \<and>
     set (added report) = {''c''} \<and> set (report_updated report) = {''b''} \<and>
     set (retired report) = {''a''}"
proof -
  let ?specs = "[\<lparr>spec_id = ''b'', spec_endpoint = ''http://b2''\<rparr>, \<lparr>spec_id = ''c'', spec_endpoint = ''http://c''\<rparr>]"
  obtain r slots' where "reconcile ?specs demo_registry = Some (r, slots')"
    using reconcile_total [OF demo_registry_headroom] by blast
  moreover from reconcile_ok_iff [OF this] obtain report where "r = Inr report" by auto
  ultimately have ok: "reconcile ?specs demo_registry = Some (Inr report, slots')" by simp
  show ?thesis
    using ok reconcile_report_exact [OF demo_registry_inv ok]
    by (intro exI [of _ report] exI [of _ slots'])
      (auto simp: demo_registry_def get_retained_def registry_get_def slot_new_def)
qed

text \<open>
  Pruning removes only what nobody can miss: exactly the retired slots with no lease
  and no drain in progress are reported, in order, and removed; every other slot is kept
  as it is, so a registered backend, a held lease and a waiting drain survive.
\<close>

theorem prune_retired_exact:
  assumes "registry_inv slots" and "prune_retired slots = (removed, slots')"
  shows "registry_inv slots' \<and> sorted removed \<and> distinct removed \<and>
    (\<forall>i. hget slots' i = (if i \<in> set removed then None else hget slots i)) \<and>
    (\<forall>i. i \<in> set removed \<longleftrightarrow> (\<exists>slot. hget slots i = Some slot \<and>
       \<not> st_registered (slot_state slot) \<and> st_leases (slot_state slot) = [] \<and>
       st_mode (slot_state slot) \<noteq> Draining))"
proof -
  have d: "distinct (keys_of slots)" using assms(1) by (simp add: registry_inv_def)
  have sl: "slots' = filter (\<lambda>(i, slot). \<not> releasable_tombstone slot) slots"
    and rm: "removed = sort (map fst (filter (\<lambda>(i, slot). releasable_tombstone slot) slots))"
    using assms(2) by (auto simp: prune_retired_def)
  have d': "distinct (keys_of slots')" using d by (simp add: sl distinct_keys_filter)
  have mem: "i \<in> set removed \<longleftrightarrow> (\<exists>slot. hget slots i = Some slot \<and> releasable_tombstone slot)" for i
    using d by (force simp: rm hget_Some_iff)
  have get: "hget slots' i = (if i \<in> set removed then None else hget slots i)" for i
  proof (cases "hget slots i")
    case None
    then have "hget slots' i = None" by (auto simp: sl hget_None_iff)
    with None show ?thesis by simp
  next
    case (Some slot)
    then have "(i, s) \<in> set slots \<longleftrightarrow> s = slot" for s using d by (metis hget_Some_iff option.inject)
    then have "hget slots' i = (if releasable_tombstone slot then None else Some slot)"
      using d' by (cases "releasable_tombstone slot") (auto simp: sl hget_None_iff hget_Some_iff)
    with Some mem [of i] show ?thesis by auto
  qed
  have "distinct removed" using d by (simp add: rm distinct_keys_filter)
  moreover have "registry_inv slots'"
    using assms(1) by (auto simp: registry_inv_def sl distinct_keys_filter)
  ultimately show ?thesis
    using get mem by (simp add: rm releasable_tombstone_def Let_def)
qed

theorem prune_retired_exact_witness:
  "\<exists>gone slots'. reconcile [] demo_registry = Some (Inr gone, slots') \<and>
     fst (prune_retired slots') = [''a''] \<and> hget (snd (prune_retired slots')) ''b'' \<noteq> None"
proof -
  obtain r slots' where run: "reconcile [] demo_registry = Some (r, slots')"
    using reconcile_total [OF demo_registry_headroom] by blast
  from reconcile_ok_iff [OF run] obtain gone where r: "r = Inr gone" by auto
  have inv: "registry_inv slots'" using reconcile_inv [OF run demo_registry_inv] .
  have fst_p: "fst (prune_retired slots') = [''a'']"
    using run by (auto simp: reconcile_def demo_registry_def slot_new_def slot_ops checked_add_def
        prune_retired_def releasable_tombstone_def hcontains_def)
  have "hget slots' ''b'' \<noteq> None"
    using run by (auto simp: reconcile_def demo_registry_def slot_new_def slot_ops checked_add_def
        hcontains_def)
  then have "hget (snd (prune_retired slots')) ''b'' \<noteq> None"
    using prune_retired_exact [OF inv prod.collapse [symmetric], THEN conjunct2, THEN conjunct2,
        THEN conjunct2, THEN conjunct1, rule_format, of "''b''"] fst_p by simp
  then show ?thesis using run r fst_p by blast
qed

end
