(* ===== verification/Runtime.thy ===== *)
theory Runtime
  imports Runtime_Config Backend_Registry
begin

text \<open>
  The published runtime (\<open>src/src/runtime.rs\<close>, second half): the configuration in force
  with its revision and the generation number of every backend endpoint, the registry
  beside it, and the operations that build, read, replace and restore it.

  A call that replaces the configuration runs under the apply lock and is one step. The
  instant \<open>now\<close> is only used for the ages in snapshots. Comparisons of endpoints are
  \<open>Uri\<close>'s own equality \<open>uri_eq\<close>.
\<close>

subsection \<open>State\<close>

record 'u PublishedRuntime =
  pub_config :: "'u RuntimeConfig"
  revision :: u64
  backend_generations :: "(string, u64) hashmap"
  next_backend_generation :: u64

record 'u RuntimeState =
  published :: "'u PublishedRuntime"
  registry :: BackendRegistry

record RuntimeReloadReport =
  report_revision :: u64
  report_reconciled :: ReconcileReport

datatype RuntimeApplyError =
    ReconcileFailed ReconcileError
  | BackendMustBeDisabled string string

datatype RuntimeReloadError =
    ConfigFailed RuntimeConfigError
  | ApplyFailed RuntimeApplyError

subsection \<open>Construction and reads\<close>

text \<open>\<open>slot.activate().expect(..)\<close> on a registered backend of the registry.\<close>

definition activate_registered :: "instant \<Rightarrow> BackendId \<Rightarrow> BackendRegistry \<Rightarrow> BackendRegistry option" where
  "activate_registered now i slots =
     (case registry_get slots i of
        None \<Rightarrow> None
      | Some slot \<Rightarrow>
          do { (r, slot') \<leftarrow> activate now slot;
               case r of Inl e \<Rightarrow> None | Inr snap \<Rightarrow> Some (hset i slot' slots) })"

text \<open>The loop of \<open>from_config\<close> that numbers the backends.\<close>

fun number_backends ::
  "'u Backend list \<Rightarrow> (string, u64) hashmap \<Rightarrow> u64 \<Rightarrow> ((string, u64) hashmap \<times> u64) option" where
  "number_backends [] gens nxt = Some (gens, nxt)"
| "number_backends (b # bs) gens nxt =
     do { nxt' \<leftarrow> checked_add nxt 1;
          number_backends bs (hset (backend_id b) nxt gens) nxt' }"

definition from_config :: "'u uri_api \<Rightarrow> instant \<Rightarrow> 'u RuntimeConfig \<Rightarrow> 'u RuntimeState option" where
  "from_config U now config =
     do {
       (r, slots) \<leftarrow> reconcile (map (registry_spec U) (cfg_backends config)) [];
       case r of
         Inl e \<Rightarrow> None
       | Inr report \<Rightarrow> do {
           slots' \<leftarrow> run_all (activate_registered now) (added report) slots;
           (gens, nxt) \<leftarrow> number_backends (cfg_backends config) [] 1;
           Some \<lparr>published = \<lparr>pub_config = config, revision = 1, backend_generations = gens,
                              next_backend_generation = nxt\<rparr>,
                 registry = slots'\<rparr>
         }
     }"

definition runtime_backends :: "'u RuntimeState \<Rightarrow> 'u Backend list" where
  "runtime_backends s = cfg_backends (pub_config (published s))"

definition backend_generation :: "'u RuntimeState \<Rightarrow> string \<Rightarrow> u64 option" where
  "backend_generation s i = hget (backend_generations (published s)) i"

text \<open>The index of the source panics on a missing generation.\<close>

fun instances_of :: "(string, u64) hashmap \<Rightarrow> 'u Backend list \<Rightarrow> ('u Backend \<times> u64) list option" where
  "instances_of gens [] = Some []"
| "instances_of gens (b # bs) =
     do { g \<leftarrow> hget gens (backend_id b); rest \<leftarrow> instances_of gens bs; Some ((b, g) # rest) }"

definition backend_instances :: "'u RuntimeState \<Rightarrow> ('u Backend \<times> u64) list option" where
  "backend_instances s = instances_of (backend_generations (published s)) (runtime_backends s)"

definition runtime_backend :: "'u RuntimeState \<Rightarrow> string \<Rightarrow> 'u Backend option" where
  "runtime_backend s i = find (\<lambda>b. backend_id b = i) (runtime_backends s)"

definition available :: "instant \<Rightarrow> 'u RuntimeState \<Rightarrow> 'u Backend option" where
  "available now s =
     do { snap \<leftarrow> find (\<lambda>snap. snap_mode snap = Active) (snapshots now (registry s));
          runtime_backend s (snapshot_id snap) }"

text \<open>\<open>configured\<close>: the first backend; an empty list panics.\<close>

definition configured :: "'u RuntimeState \<Rightarrow> 'u Backend option" where
  "configured s = (case runtime_backends s of [] \<Rightarrow> None | b # _ \<Rightarrow> Some b)"

subsection \<open>Applying a configuration\<close>

definition same_endpoints :: "'u uri_api \<Rightarrow> 'u Backend \<Rightarrow> 'u Backend \<Rightarrow> bool" where
  "same_endpoints U old new \<longleftrightarrow>
     uri_eq U (url old) (url new) \<and> uri_eq U (metrics_url old) (metrics_url new) \<and>
     uri_eq U (readiness_url old) (readiness_url new)"

text \<open>The \<open>collect\<close> of backends by id: a later entry replaces an earlier one.\<close>

definition by_id :: "'u Backend list \<Rightarrow> (string, 'u Backend) hashmap" where
  "by_id bs = foldl (\<lambda>m b. hset (backend_id b) b m) [] bs"

text \<open>
  The loop over the current backends: a removal or a change of endpoints needs the slot,
  if it is retained, to be disabled and idle.
\<close>

fun check_removals ::
  "'u uri_api \<Rightarrow> instant \<Rightarrow> (string, 'u Backend) hashmap \<Rightarrow> BackendRegistry \<Rightarrow> 'u Backend list
    \<Rightarrow> RuntimeApplyError + unit" where
  "check_removals U now desired slots [] = Inr ()"
| "check_removals U now desired slots (old # rest) =
     (let changes_endpoint = (case hget desired (backend_id old) of
             None \<Rightarrow> False
           | Some new \<Rightarrow> \<not> uri_eq U (url new) (url old) \<or>
                         \<not> uri_eq U (metrics_url new) (metrics_url old) \<or>
                         \<not> uri_eq U (readiness_url new) (readiness_url old));
          removed = (\<not> hcontains desired (backend_id old));
          busy = (case get_retained slots (backend_id old) of
             None \<Rightarrow> False
           | Some slot \<Rightarrow> snap_mode (slot_snapshot slot now) \<noteq> Disabled \<or>
                          snap_local_active (slot_snapshot slot now) \<noteq> 0) in
      if (changes_endpoint \<or> removed) \<and> busy
      then Inl (BackendMustBeDisabled (backend_id old)
                  (if removed then ''removed'' else ''changed endpoints''))
      else check_removals U now desired slots rest)"

text \<open>
  The loop that numbers the new configuration: unchanged endpoints keep their generation,
  every other backend gets the next one.
\<close>

fun assign_generations ::
  "'u uri_api \<Rightarrow> (string, 'u Backend) hashmap \<Rightarrow> (string, u64) hashmap \<Rightarrow> 'u Backend list
    \<Rightarrow> (string, u64) hashmap \<Rightarrow> u64 \<Rightarrow> ((string, u64) hashmap \<times> u64) option" where
  "assign_generations U current_by_id current_generations [] gens nxt = Some (gens, nxt)"
| "assign_generations U current_by_id current_generations (b # bs) gens nxt =
     do {
       (g, nxt') \<leftarrow> (case hget current_by_id (backend_id b) of
           Some old \<Rightarrow>
             if same_endpoints U old b
             then do { g \<leftarrow> hget current_generations (backend_id b); Some (g, nxt) }
             else do { nxt' \<leftarrow> checked_add nxt 1; Some (nxt, nxt') }
         | None \<Rightarrow> do { nxt' \<leftarrow> checked_add nxt 1; Some (nxt, nxt') });
       assign_generations U current_by_id current_generations bs (hset (backend_id b) g gens) nxt'
     }"

text \<open>Set one registered backend to a mode; a missing slot or a refused activation panics.\<close>

definition put_mode ::
  "instant \<Rightarrow> BackendMode \<Rightarrow> BackendId \<Rightarrow> BackendRegistry \<Rightarrow> BackendRegistry option" where
  "put_mode now mode i slots =
     (case registry_get slots i of
        None \<Rightarrow> None
      | Some slot \<Rightarrow>
          (case mode of
             Active \<Rightarrow> activate_registered now i slots
           | Draining \<Rightarrow> do { (token, slot') \<leftarrow> begin_drain slot; Some (hset i slot' slots) }
           | Disabled \<Rightarrow> do { (snap, slot') \<leftarrow> disable now slot; Some (hset i slot' slots) }))"

definition restore_new ::
  "instant \<Rightarrow> (string, BackendMode) hashmap \<Rightarrow> BackendId \<Rightarrow> BackendRegistry \<Rightarrow> BackendRegistry option" where
  "restore_new now modes i slots =
     put_mode now (case hget modes i of None \<Rightarrow> Active | Some m \<Rightarrow> m) i slots"

definition reassert ::
  "instant \<Rightarrow> (string, BackendMode) hashmap \<Rightarrow> BackendSnapshot \<Rightarrow> BackendRegistry
    \<Rightarrow> BackendRegistry option" where
  "reassert now modes snap slots =
     (case hget modes (snapshot_id snap) of
        None \<Rightarrow> Some slots
      | Some mode \<Rightarrow> put_mode now mode (snapshot_id snap) slots)"

definition apply_with_modes ::
  "'u uri_api \<Rightarrow> instant \<Rightarrow> 'u RuntimeConfig \<Rightarrow> (string, BackendMode) hashmap \<Rightarrow> 'u RuntimeState
    \<Rightarrow> ((RuntimeApplyError + RuntimeReloadReport) \<times> 'u RuntimeState) option" where
  "apply_with_modes U now config modes s =
     (let current = runtime_backends s;
          desired = by_id (cfg_backends config) in
      case check_removals U now desired (registry s) current of
        Inl e \<Rightarrow> Some (Inl e, s)
      | Inr _ \<Rightarrow> do {
          (gens, nxt) \<leftarrow> assign_generations U (by_id current) (backend_generations (published s))
             (cfg_backends config) [] (next_backend_generation (published s));
          (r, slots) \<leftarrow> reconcile (map (registry_spec U) (cfg_backends config)) (registry s);
          case r of
            Inl e \<Rightarrow> Some (Inl (ReconcileFailed e), s\<lparr>registry := slots\<rparr>)
          | Inr report \<Rightarrow> do {
              slots1 \<leftarrow> run_all (restore_new now modes) (added report @ report_revived report) slots;
              slots2 \<leftarrow> run_all (reassert now modes) (snapshots now slots1) slots1;
              rev \<leftarrow> checked_add (revision (published s)) 1;
              Some (Inr \<lparr>report_revision = rev, report_reconciled = report\<rparr>,
                    \<lparr>published = \<lparr>pub_config = config, revision = rev, backend_generations = gens,
                                 next_backend_generation = nxt\<rparr>,
                     registry = slots2\<rparr>)
            }
        })"

definition apply_config ::
  "'u uri_api \<Rightarrow> instant \<Rightarrow> 'u RuntimeConfig \<Rightarrow> 'u RuntimeState
    \<Rightarrow> ((RuntimeApplyError + RuntimeReloadReport) \<times> 'u RuntimeState) option" where
  "apply_config U now config s = apply_with_modes U now config [] s"

definition reload_with_modes ::
  "(string \<Rightarrow> string + RuntimeFile) \<Rightarrow> 'u uri_api \<Rightarrow> string \<Rightarrow> string + string \<Rightarrow> instant
    \<Rightarrow> (string, BackendMode) hashmap \<Rightarrow> 'u RuntimeState
    \<Rightarrow> ((RuntimeReloadError + RuntimeReloadReport) \<times> 'u RuntimeState) option" where
  "reload_with_modes toml_from_str U path read now modes s =
     (case load_runtime_config toml_from_str U path read of
        Inl e \<Rightarrow> Some (Inl (ConfigFailed e), s)
      | Inr config \<Rightarrow> do {
          (r, s') \<leftarrow> apply_with_modes U now config modes s;
          Some (case r of Inl e \<Rightarrow> Inl (ApplyFailed e) | Inr report \<Rightarrow> Inr report, s')
        })"

definition reload ::
  "(string \<Rightarrow> string + RuntimeFile) \<Rightarrow> 'u uri_api \<Rightarrow> string \<Rightarrow> string + string \<Rightarrow> instant
    \<Rightarrow> 'u RuntimeState \<Rightarrow> ((RuntimeReloadError + RuntimeReloadReport) \<times> 'u RuntimeState) option" where
  "reload toml_from_str U path read now s =
     (case load_runtime_config toml_from_str U path read of
        Inl e \<Rightarrow> Some (Inl (ConfigFailed e), s)
      | Inr config \<Rightarrow> do {
          (r, s') \<leftarrow> apply_config U now config s;
          Some (case r of Inl e \<Rightarrow> Inl (ApplyFailed e) | Inr report \<Rightarrow> Inr report, s')
        })"

text \<open>\<open>restore_modes\<close>: as \<open>reassert\<close>, but a refused activation is ignored.\<close>

definition restore_one ::
  "instant \<Rightarrow> (string, BackendMode) hashmap \<Rightarrow> BackendSnapshot \<Rightarrow> BackendRegistry
    \<Rightarrow> BackendRegistry option" where
  "restore_one now modes snap slots =
     (case hget modes (snapshot_id snap) of
        None \<Rightarrow> Some slots
      | Some mode \<Rightarrow>
          (case registry_get slots (snapshot_id snap) of
             None \<Rightarrow> None
           | Some slot \<Rightarrow>
               (case mode of
                  Active \<Rightarrow> do { (r, slot') \<leftarrow> activate now slot; Some (hset (snapshot_id snap) slot' slots) }
                | Draining \<Rightarrow> do { (token, slot') \<leftarrow> begin_drain slot;
                                  Some (hset (snapshot_id snap) slot' slots) }
                | Disabled \<Rightarrow> do { (snap', slot') \<leftarrow> disable now slot;
                                  Some (hset (snapshot_id snap) slot' slots) })))"

definition restore_modes ::
  "instant \<Rightarrow> (string, BackendMode) hashmap \<Rightarrow> 'u RuntimeState \<Rightarrow> 'u RuntimeState option" where
  "restore_modes now modes s =
     do { slots \<leftarrow> run_all (restore_one now modes) (snapshots now (registry s)) (registry s);
          Some (s\<lparr>registry := slots\<rparr>) }"

subsection \<open>Lemmas: maps, checks and numbering\<close>

lemma hget_by_id: "hget (by_id bs) i = find (\<lambda>b. backend_id b = i) (rev bs)"
  by (induction bs rule: rev_induct) (auto simp: by_id_def)

lemma find_SomeD: "find P xs = Some x \<Longrightarrow> x \<in> set xs \<and> P x"
  by (auto simp: find_Some_iff)

lemma hget_by_id_Some: "hget (by_id bs) i = Some b \<Longrightarrow> b \<in> set bs \<and> backend_id b = i"
  using find_SomeD by (fastforce simp: hget_by_id)

lemma hget_by_id_None: "hget (by_id bs) i = None \<longleftrightarrow> i \<notin> set (map backend_id bs)"
  by (auto simp: hget_by_id find_None_iff)

lemma backend_unique:
  "distinct (map backend_id bs) \<Longrightarrow> a \<in> set bs \<Longrightarrow> b \<in> set bs \<Longrightarrow> backend_id a = backend_id b
     \<Longrightarrow> a = b"
  by (metis distinct_map inj_onD)

lemma hget_by_id_distinct:
  assumes "distinct (map backend_id bs)"
  shows "hget (by_id bs) i = Some b \<longleftrightarrow> b \<in> set bs \<and> backend_id b = i"
  using assms hget_by_id_Some hget_by_id_None backend_unique
  by (metis image_eqI list.set_map option.exhaust)

text \<open>A change that needs the backend to be out of service.\<close>

definition touches :: "'u uri_api \<Rightarrow> 'u Backend list \<Rightarrow> 'u Backend \<Rightarrow> bool" where
  "touches U bs old \<longleftrightarrow>
     (case hget (by_id bs) (backend_id old) of
        None \<Rightarrow> True
      | Some new \<Rightarrow> \<not> same_endpoints U new old)"

definition out_of_service :: "BackendRegistry \<Rightarrow> BackendId \<Rightarrow> bool" where
  "out_of_service slots i \<longleftrightarrow>
     (case hget slots i of
        None \<Rightarrow> True
      | Some slot \<Rightarrow> st_mode (slot_state slot) = Disabled \<and> st_leases (slot_state slot) = [])"

lemma check_removals_Inr:
  "check_removals U now (by_id bs) slots current = Inr () \<longleftrightarrow>
     (\<forall>old \<in> set current. touches U bs old \<longrightarrow> out_of_service slots (backend_id old))"
proof (induction current)
  case Nil
  then show ?case by simp
next
  case (Cons old rest)
  then show ?case
    by (auto simp: touches_def out_of_service_def same_endpoints_def hcontains_hget Let_def
        get_retained_def slot_snapshot_def state_snapshot_def split: option.splits)
qed

text \<open>Which backends of the new configuration keep their generation.\<close>

definition keeps_generation ::
  "'u uri_api \<Rightarrow> (string, 'u Backend) hashmap \<Rightarrow> 'u Backend \<Rightarrow> bool" where
  "keeps_generation U cur b \<longleftrightarrow>
     (case hget cur (backend_id b) of None \<Rightarrow> False | Some old \<Rightarrow> same_endpoints U old b)"

lemma assign_generations_Cons:
  "assign_generations U cur cg (b # bs) gens nxt =
     (if keeps_generation U cur b
      then do { g \<leftarrow> hget cg (backend_id b);
                assign_generations U cur cg bs (hset (backend_id b) g gens) nxt }
      else do { nxt' \<leftarrow> checked_add nxt 1;
                assign_generations U cur cg bs (hset (backend_id b) nxt gens) nxt' })"
  by (simp add: keeps_generation_def split: option.split)

declare assign_generations.simps(2) [simp del]

lemma assign_generations_le:
  "assign_generations U cur cg bs gens nxt = Some (gens', nxt') \<Longrightarrow> nxt \<le> nxt'"
proof (induction bs arbitrary: gens nxt)
  case (Cons b bs)
  show ?case
  proof (cases "keeps_generation U cur b")
    case True
    with Cons show ?thesis by (auto simp: assign_generations_Cons split: bind_splits)
  next
    case False
    with Cons.prems obtain m where m: "checked_add nxt 1 = Some m"
      and r: "assign_generations U cur cg bs (hset (backend_id b) nxt gens) m = Some (gens', nxt')"
      by (auto simp: assign_generations_Cons split: bind_splits)
    from Cons.IH [OF r] checked_add_one_less [OF m] show ?thesis by simp
  qed
qed simp

lemma assign_generations_other:
  "assign_generations U cur cg bs gens nxt = Some (gens', nxt') \<Longrightarrow>
     i \<notin> set (map backend_id bs) \<Longrightarrow> hget gens' i = hget gens i"
  by (induction bs arbitrary: gens nxt)
    (auto simp: assign_generations_Cons split: bind_splits if_splits)

lemma assign_generations_Some:
  assumes "assign_generations U cur cg bs gens nxt = Some (gens', nxt')"
    and "distinct (map backend_id bs)" and "b \<in> set bs"
  shows "\<exists>g. hget gens' (backend_id b) = Some g \<and>
    (if keeps_generation U cur b then hget cg (backend_id b) = Some g else nxt \<le> g \<and> g < nxt')"
  using assms
proof (induction bs arbitrary: gens nxt)
  case (Cons a bs)
  show ?case
  proof (cases "keeps_generation U cur a")
    case True
    with Cons.prems obtain g where g: "hget cg (backend_id a) = Some g"
      and r: "assign_generations U cur cg bs (hset (backend_id a) g gens) nxt = Some (gens', nxt')"
      by (auto simp: assign_generations_Cons split: bind_splits)
    from Cons.prems(2) assign_generations_other [OF r, of "backend_id a"]
    have "hget gens' (backend_id a) = Some g" by simp
    with g True Cons.IH [OF r] Cons.prems show ?thesis by (cases "b = a") auto
  next
    case False
    with Cons.prems obtain m where m: "checked_add nxt 1 = Some m"
      and r: "assign_generations U cur cg bs (hset (backend_id a) nxt gens) m = Some (gens', nxt')"
      by (auto simp: assign_generations_Cons split: bind_splits)
    have lt: "nxt < m" "m \<le> nxt'"
      using checked_add_one_less [OF m] assign_generations_le [OF r] .
    from Cons.prems(2) assign_generations_other [OF r, of "backend_id a"]
    have a: "hget gens' (backend_id a) = Some nxt" by simp
    show ?thesis
    proof (cases "b = a")
      case True
      with a False lt show ?thesis by auto
    next
      case not: False
      with Cons.IH [OF r] Cons.prems lt show ?thesis by (fastforce split: if_splits)
    qed
  qed
qed simp

text \<open>Fresh generations are pairwise different.\<close>

lemma assign_generations_inj:
  assumes "assign_generations U cur cg bs gens nxt = Some (gens', nxt')"
    and "distinct (map backend_id bs)" and "a \<in> set bs" and "b \<in> set bs"
    and "\<not> keeps_generation U cur a" and "\<not> keeps_generation U cur b"
    and "hget gens' (backend_id a) = hget gens' (backend_id b)"
  shows "a = b"
  using assms
proof (induction bs arbitrary: gens nxt)
  case (Cons c bs)
  show ?case
  proof (cases "keeps_generation U cur c")
    case True
    with Cons.prems obtain g where
      r: "assign_generations U cur cg bs (hset (backend_id c) g gens) nxt = Some (gens', nxt')"
      by (auto simp: assign_generations_Cons split: bind_splits)
    from True Cons.prems have "a \<noteq> c" "b \<noteq> c" by auto
    with Cons.IH [OF r] Cons.prems show ?thesis by simp
  next
    case False
    with Cons.prems obtain m where m: "checked_add nxt 1 = Some m"
      and r: "assign_generations U cur cg bs (hset (backend_id c) nxt gens) m = Some (gens', nxt')"
      by (auto simp: assign_generations_Cons split: bind_splits)
    have c: "hget gens' (backend_id c) = Some nxt"
      using Cons.prems(2) assign_generations_other [OF r, of "backend_id c"] by simp
    have later: "hget gens' (backend_id d) \<noteq> Some nxt"
      if "d \<in> set bs" "\<not> keeps_generation U cur d" for d
      using assign_generations_Some [OF r _ that(1)] that(2) Cons.prems(2)
        checked_add_one_less [OF m] by auto
    show ?thesis
    proof (cases "a = c \<or> b = c")
      case True
      then show ?thesis using later c Cons.prems by (metis set_ConsD)
    next
      case not: False
      with Cons.IH [OF r] Cons.prems show ?thesis by simp
    qed
  qed
qed simp

lemma assign_generations_total:
  assumes "unat nxt + length bs < 2 ^ 64"
    and "\<And>b. b \<in> set bs \<Longrightarrow> keeps_generation U cur b \<Longrightarrow> hget cg (backend_id b) \<noteq> None"
  shows "\<exists>r. assign_generations U cur cg bs gens nxt = Some r"
  using assms
proof (induction bs arbitrary: gens nxt)
  case (Cons b bs)
  have c: "checked_add nxt 1 = Some (nxt + 1)"
    using Cons.prems(1) by (intro checked_add_eq_Some) simp
  have "unat (nxt + 1) = unat nxt + 1" using checked_add_Some_unat [OF c] by simp
  then have next_ok: "\<exists>r. assign_generations U cur cg bs gens (nxt + 1) = Some r" for gens
    using Cons by simp
  have same_ok: "\<exists>r. assign_generations U cur cg bs gens nxt = Some r" for gens
    using Cons by simp
  have "keeps_generation U cur b \<Longrightarrow> \<exists>g. hget cg (backend_id b) = Some g"
    using Cons.prems(2) by auto
  with c next_ok same_ok show ?case
    by (fastforce simp: assign_generations_Cons)
qed simp

subsection \<open>Lemmas: setting modes\<close>

text \<open>Set the wanted mode, if there is one.\<close>

definition tune :: "BackendMode option \<Rightarrow> BackendSlot \<Rightarrow> BackendSlot \<Rightarrow> bool" where
  "tune want slot t \<longleftrightarrow> (case want of None \<Rightarrow> t = slot | Some m \<Rightarrow> mode_changed m slot t)"

definition put_wanted ::
  "instant \<Rightarrow> (BackendId \<Rightarrow> BackendMode option) \<Rightarrow> BackendId \<Rightarrow> BackendRegistry \<Rightarrow> BackendRegistry option" where
  "put_wanted now want i slots =
     (case want i of None \<Rightarrow> Some slots | Some m \<Rightarrow> put_mode now m i slots)"

lemma registry_get_Some:
  "registry_get slots i = Some slot \<longleftrightarrow> hget slots i = Some slot \<and> st_registered (slot_state slot)"
  by (auto simp: registry_get_def get_retained_def split: option.splits)

lemma activate_registered_Some:
  "activate_registered now i slots = Some slots' \<longleftrightarrow>
     (\<exists>slot t. registry_get slots i = Some slot \<and> mode_changed Active slot t \<and>
        slots' = hset i t slots)"
proof -
  have "activate_registered now i slots = Some slots' \<longleftrightarrow>
      (\<exists>slot. registry_get slots i = Some slot \<and>
        (\<exists>snap t. activate now slot = Some (Inr snap, t) \<and> slots' = hset i t slots))"
    by (auto simp: activate_registered_def split: option.splits bind_splits sum.splits)
  then show ?thesis by (auto simp: activate_def set_mode_Inr registry_get_Some)
qed

lemma put_mode_Some:
  "put_mode now m i slots = Some slots' \<longleftrightarrow>
     (\<exists>slot t. registry_get slots i = Some slot \<and> mode_changed m slot t \<and>
        slots' = hset i t slots)"
proof (cases m)
  case Active
  then show ?thesis
    by (auto simp: put_mode_def activate_registered_Some split: option.split)
next
  case Draining
  then have "put_mode now m i slots = Some slots' \<longleftrightarrow>
      (\<exists>slot. registry_get slots i = Some slot \<and>
        (\<exists>token t. begin_drain slot = Some (token, t) \<and> slots' = hset i t slots))"
    by (auto simp: put_mode_def split: option.splits bind_splits)
  with Draining show ?thesis by (auto simp: begin_drain_Some)
next
  case Disabled
  then have "put_mode now m i slots = Some slots' \<longleftrightarrow>
      (\<exists>slot. registry_get slots i = Some slot \<and>
        (\<exists>snap t. disable now slot = Some (snap, t) \<and> slots' = hset i t slots))"
    by (auto simp: put_mode_def split: option.splits bind_splits)
  with Disabled show ?thesis by (auto simp: disable_Some)
qed

lemma mode_changed_effect:
  assumes "mode_changed m slot t"
  shows "st_mode (slot_state t) = m \<and> st_spec (slot_state t) = st_spec (slot_state slot) \<and>
    st_registered (slot_state t) = st_registered (slot_state slot) \<and>
    st_leases (slot_state t) = st_leases (slot_state slot) \<and>
    st_total_acquired (slot_state t) = st_total_acquired (slot_state slot) \<and> slot_id t = slot_id slot"
  using assms by (auto simp: mode_changed_def slot_id_def split: if_splits)

lemma mode_changed_twice: "mode_changed m slot t \<Longrightarrow> mode_changed m t u \<longleftrightarrow> u = t"
  by (auto simp: mode_changed_def split: if_splits)

lemma tune_effect:
  assumes "tune want slot t"
  shows "st_mode (slot_state t) = (case want of None \<Rightarrow> st_mode (slot_state slot) | Some m \<Rightarrow> m) \<and>
    st_spec (slot_state t) = st_spec (slot_state slot) \<and>
    st_registered (slot_state t) = st_registered (slot_state slot) \<and>
    st_leases (slot_state t) = st_leases (slot_state slot) \<and>
    st_total_acquired (slot_state t) = st_total_acquired (slot_state slot) \<and> slot_id t = slot_id slot"
  using assms mode_changed_effect by (auto simp: tune_def split: option.splits)

lemma tune_twice: "tune want slot t \<Longrightarrow> tune want t u \<longleftrightarrow> u = t"
  by (auto simp: tune_def mode_changed_twice split: option.splits)

lemma put_wanted_Some:
  assumes "put_wanted now want i slots = Some slots'"
  shows "hget slots' j = (if j = i then hget slots' i else hget slots j)"
    and "hget slots i = Some slot \<Longrightarrow> \<exists>t. hget slots' i = Some t \<and> tune (want i) slot t"
    and "hget slots i = None \<Longrightarrow> hget slots' i = None"
  using assms
  by (auto simp: put_wanted_def tune_def put_mode_Some registry_get_Some split: option.splits)

lemma put_wanted_inv:
  assumes "put_wanted now want i slots = Some slots'" and "registry_inv slots"
  shows "registry_inv slots'"
proof (cases "want i")
  case None
  with assms show ?thesis by (simp add: put_wanted_def)
next
  case (Some m)
  with assms(1) obtain slot t where st: "registry_get slots i = Some slot" "mode_changed m slot t"
    "slots' = hset i t slots" by (auto simp: put_wanted_def put_mode_Some)
  then have "slot_id slot = i" "slot_inv slot" "st_registered (slot_state slot)"
    using registry_invD [OF assms(2)] by (auto simp: registry_get_Some)
  moreover from this have "slot_id t = i" "slot_inv t"
    using mode_changed_effect [OF st(2)] mode_changed_inv [OF st(2)] by simp_all
  ultimately show ?thesis using registry_inv_hset [OF assms(2)] st(3) by blast
qed

lemma put_all_slot:
  assumes "run_all (put_wanted now want) ids slots = Some slots'" and "hget slots i = Some slot"
  shows "\<exists>t. hget slots' i = Some t \<and> tune (if i \<in> set ids then want i else None) slot t"
  using assms
proof (induction ids arbitrary: slots slot)
  case Nil
  then show ?case by (simp add: tune_def)
next
  case (Cons j ids)
  then obtain mid where mid: "put_wanted now want j slots = Some mid"
    and r: "run_all (put_wanted now want) ids mid = Some slots'"
    by (auto split: bind_splits)
  show ?case
  proof (cases "i = j")
    case True
    with put_wanted_Some(2) [OF mid] Cons.prems obtain u where
      u: "hget mid i = Some u" "tune (want i) slot u" by auto
    from Cons.IH [OF r u(1)] obtain t where t: "hget slots' i = Some t"
      "tune (if i \<in> set ids then want i else None) u t" by blast
    then have "t = u"
      using tune_twice [OF u(2)] by (auto simp: tune_def [of None] split: if_splits)
    with t u True show ?thesis by auto
  next
    case False
    then have "hget mid i = Some slot" using put_wanted_Some(1) [OF mid, of i] Cons.prems by simp
    from Cons.IH [OF r this] False show ?thesis by simp
  qed
qed

lemma put_all_None:
  assumes "run_all (put_wanted now want) ids slots = Some slots'" and "hget slots i = None"
  shows "hget slots' i = None"
  using assms
proof (induction ids arbitrary: slots)
  case (Cons j ids)
  then obtain mid where mid: "put_wanted now want j slots = Some mid"
    and r: "run_all (put_wanted now want) ids mid = Some slots'"
    by (auto split: bind_splits)
  have "hget mid i = None"
    using put_wanted_Some(1,3) [OF mid] Cons.prems by (metis (full_types))
  from Cons.IH [OF r this] show ?case .
qed simp

lemma put_all_inv:
  "run_all (put_wanted now want) ids slots = Some slots' \<Longrightarrow> registry_inv slots \<Longrightarrow> registry_inv slots'"
  by (rule run_all_invariant [where f = "put_wanted now want" and P = registry_inv])
    (auto intro: put_wanted_inv)

definition mode_headroom :: "BackendSlot \<Rightarrow> bool" where
  "mode_headroom slot \<longleftrightarrow>
     unat (st_sequence (slot_state slot)) + 1 < 2 ^ 64 \<and>
     unat (st_mode_epoch (slot_state slot)) + 1 < 2 ^ 64"

lemma mode_changed_total: "mode_headroom slot \<Longrightarrow> \<exists>t. mode_changed m slot t"
  by (auto simp: mode_headroom_def mode_changed_def checked_add_def)

lemma put_all_total:
  assumes "\<And>i. i \<in> set ids \<Longrightarrow> want i \<noteq> None \<Longrightarrow>
      \<exists>slot. registry_get slots i = Some slot \<and> mode_headroom slot"
    and "distinct ids"
  shows "\<exists>slots'. run_all (put_wanted now want) ids slots = Some slots'"
  using assms
proof (induction ids arbitrary: slots)
  case (Cons j ids)
  have "\<exists>mid. put_wanted now want j slots = Some mid"
  proof (cases "want j")
    case None
    then show ?thesis by (simp add: put_wanted_def)
  next
    case (Some m)
    with Cons.prems(1) [of j] obtain slot where slot: "registry_get slots j = Some slot"
      "mode_headroom slot" by auto
    with mode_changed_total obtain t where "mode_changed m slot t" by blast
    with slot have "put_mode now m j slots = Some (hset j t slots)"
      unfolding put_mode_Some by blast
    with Some show ?thesis by (simp add: put_wanted_def)
  qed
  then obtain mid where mid: "put_wanted now want j slots = Some mid" by blast
  have "\<exists>slot. registry_get mid i = Some slot \<and> mode_headroom slot"
    if "i \<in> set ids" "want i \<noteq> None" for i
    using that Cons.prems put_wanted_Some(1) [OF mid, of i] by (auto simp: registry_get_Some)
  with Cons.IH [of mid] Cons.prems(2) mid show ?case by simp
qed simp

subsection \<open>Invariant and headroom\<close>

definition generations_inv :: "'u RuntimeState \<Rightarrow> bool" where
  "generations_inv s \<longleftrightarrow>
     distinct (map backend_id (runtime_backends s)) \<and>
     (\<forall>i. backend_generation s i \<noteq> None \<longleftrightarrow> i \<in> set (map backend_id (runtime_backends s))) \<and>
     (\<forall>i g. backend_generation s i = Some g \<longrightarrow> g < next_backend_generation (published s)) \<and>
     (\<forall>i j g. backend_generation s i = Some g \<longrightarrow> backend_generation s j = Some g \<longrightarrow> i = j)"

definition runtime_inv :: "'u uri_api \<Rightarrow> 'u RuntimeState \<Rightarrow> bool" where
  "runtime_inv U s \<longleftrightarrow> generations_inv s \<and> registry_inv (registry s) \<and>
     (\<forall>i. registry_get (registry s) i \<noteq> None \<longleftrightarrow> i \<in> set (map backend_id (runtime_backends s))) \<and>
     (\<forall>b \<in> set (runtime_backends s). \<exists>slot.
        registry_get (registry s) (backend_id b) = Some slot \<and>
        st_spec (slot_state slot) = registry_spec U b)"

text \<open>The counters of a slot can still be advanced \<open>n\<close> times.\<close>

definition slot_room :: "nat \<Rightarrow> BackendSlot \<Rightarrow> bool" where
  "slot_room n slot \<longleftrightarrow>
     unat (st_sequence (slot_state slot)) + n < 2 ^ 64 \<and>
     unat (st_mode_epoch (slot_state slot)) + n < 2 ^ 64 \<and>
     unat (st_spec_revision (slot_state slot)) + n < 2 ^ 64"

definition apply_room :: "'u RuntimeConfig \<Rightarrow> 'u RuntimeState \<Rightarrow> bool" where
  "apply_room config s \<longleftrightarrow> (\<forall>(i, slot) \<in> set (registry s). slot_room 3 slot) \<and>
     unat (next_backend_generation (published s)) + length (cfg_backends config) < 2 ^ 64 \<and>
     unat (revision (published s)) + 1 < 2 ^ 64"

lemma slot_room_mono: "slot_room n slot \<Longrightarrow> m \<le> n \<Longrightarrow> slot_room m slot"
  by (simp add: slot_room_def)

lemma slot_room_headroom: "slot_room n slot \<Longrightarrow> 1 \<le> n \<Longrightarrow> slot_headroom slot \<and> mode_headroom slot"
  by (simp add: slot_room_def slot_headroom_def mode_headroom_def)

lemma mode_changed_room: "slot_room (Suc n) slot \<Longrightarrow> mode_changed m slot t \<Longrightarrow> slot_room n t"
  by (auto simp: slot_room_def mode_changed_def split: if_splits dest!: checked_add_Some_unat)

lemma tune_room: "slot_room (Suc n) slot \<Longrightarrow> tune want slot t \<Longrightarrow> slot_room n t"
  by (auto simp: tune_def intro: mode_changed_room slot_room_mono split: option.splits)

lemma reconciled_room:
  assumes "slot_room (Suc n) slot" and "reconciled want (Some slot) = Some t"
  shows "slot_room n t"
  using assms
  by (cases want)
    (auto simp: slot_room_def slot_effect split: if_splits dest!: checked_add_Some_unat)

lemma slot_new_room: "n < 2 ^ 64 \<Longrightarrow> slot_room n (slot_new spec m)"
  by (simp add: slot_room_def slot_new_def)

lemma apply_room_headroom:
  "apply_room config s \<Longrightarrow> \<forall>(i, slot) \<in> set (registry s). slot_headroom slot"
  by (auto simp: apply_room_def intro: slot_room_headroom [THEN conjunct1])

text \<open>Reconciliation, as the runtime uses it.\<close>

lemma reconcile_room:
  assumes "reconcile specs slots = Some (Inr report, slots')" and "registry_inv slots"
    and "\<forall>(i, slot) \<in> set slots. slot_room (Suc n) slot" and "n < 2 ^ 64"
    and "hget slots' i = Some t"
  shows "slot_room n t"
proof -
  have "distinct (keys_of slots)" using assms(2) by (simp add: registry_inv_def)
  from reconcile_Inr [OF assms(1) this] assms(5)
  have r: "reconciled (hget (desired_of specs) i) (hget slots i) = Some t" by simp
  show ?thesis
  proof (cases "hget slots i")
    case None
    with r obtain spec where "t = slot_new spec Disabled"
      by (cases "hget (desired_of specs) i") auto
    with assms(4) show ?thesis by (simp add: slot_new_room)
  next
    case (Some slot)
    then have "slot_room (Suc n) slot" using assms(3) by (auto dest: hget_SomeD)
    with r Some show ?thesis by (simp add: reconciled_room)
  qed
qed

lemma reconcile_new_ids:
  assumes "reconcile specs slots = Some (Inr report, slots')" and "registry_inv slots"
  shows "set (added report @ report_revived report) =
      {i \<in> set (map spec_id specs). registry_get slots i = None}"
    and "distinct (added report @ report_revived report)"
proof -
  have "distinct (keys_of slots)" using assms(2) by (simp add: registry_inv_def)
  then have d: "distinct (map spec_id specs)" using reconcile_Inr [OF assms(1)] by simp
  let ?D = "desired_of specs"
  note p = picks_sorted_set [of ?D _ slots, simplified, OF d]
  obtain gone where rep: "added report = sort (picks counts_added slots ?D)"
      "report_revived report = sort (picks counts_revived slots ?D)"
    using reconcile_report_eq [OF assms] by (auto simp: sort_report_def)
  have known: "i \<in> set (map spec_id specs) \<longleftrightarrow> (\<exists>spec. hget ?D i = Some spec)" for i
    using desired_of_None [of specs i] by (cases "hget ?D i") auto
  have "set (added report @ report_revived report) =
      {i. \<exists>spec. hget ?D i = Some spec \<and> counts_added (hget slots i) spec} \<union>
      {i. \<exists>spec. hget ?D i = Some spec \<and> counts_revived (hget slots i) spec}"
    using p by (simp add: rep)
  also have "\<dots> = {i \<in> set (map spec_id specs). registry_get slots i = None}"
    unfolding known
    by (auto simp: counts_added_def counts_revived_def registry_get_def get_retained_def
        split: option.splits)
  finally show "set (added report @ report_revived report) =
      {i \<in> set (map spec_id specs). registry_get slots i = None}" .
  have "set (picks counts_added slots ?D) \<inter> set (picks counts_revived slots ?D) = {}"
    using p by (auto simp: counts_added_def counts_revived_def)
  then show "distinct (added report @ report_revived report)"
    using p by (simp add: rep)
qed

lemma snapshot_ids:
  assumes "registry_inv slots"
  shows "set (map snapshot_id (snapshots now slots)) = {i. registry_get slots i \<noteq> None}"
    and "distinct (map snapshot_id (snapshots now slots))"
proof -
  let ?live = "filter (\<lambda>(i, slot). st_registered (slot_state slot)) slots"
  have snap: "snapshot_id (slot_snapshot slot now) = slot_id slot"
    "snap_registered (slot_snapshot slot now) = st_registered (slot_state slot)" for slot
    by (simp_all add: snapshot_id_def slot_snapshot_def state_snapshot_def slot_id_def)
  have ids: "map snapshot_id (filter snap_registered (map (\<lambda>(i, slot). slot_snapshot slot now) slots))
      = keys_of ?live"
    using assms unfolding registry_inv_def
    by (induction slots) (auto simp: snap)
  have m: "mset (map snapshot_id (snapshots now slots)) = mset (keys_of ?live)"
    unfolding snapshots_def ids [symmetric] by (simp only: mset_map mset_sort)
  have d: "distinct (keys_of slots)" using assms by (simp add: registry_inv_def)
  show "distinct (map snapshot_id (snapshots now slots))"
    using mset_eq_imp_distinct_iff [OF m] distinct_keys_filter [OF d] by blast
  have "set (map snapshot_id (snapshots now slots)) = set (keys_of ?live)"
    using mset_eq_setD [OF m] .
  also have "\<dots> = {i. registry_get slots i \<noteq> None}"
    using d by (auto simp: registry_get_Some hget_Some_iff rev_image_eqI) force
  finally show "set (map snapshot_id (snapshots now slots)) = {i. registry_get slots i \<noteq> None}" .
qed

lemma run_all_map: "run_all (\<lambda>x. f (g x)) xs s = run_all f (map g xs) s"
  by (induction xs arbitrary: s) (auto split: bind_split)

lemma restore_new_wanted:
  "restore_new now modes =
     put_wanted now (\<lambda>i. Some (case hget modes i of None \<Rightarrow> Active | Some m \<Rightarrow> m))"
  by (auto simp: fun_eq_iff restore_new_def put_wanted_def)

lemma reassert_wanted:
  "run_all (reassert now modes) snaps slots =
     run_all (put_wanted now (hget modes)) (map snapshot_id snaps) slots"
  unfolding run_all_map [symmetric]
  by (rule arg_cong [where f = "\<lambda>f. run_all f snaps slots"])
    (simp add: fun_eq_iff reassert_def put_wanted_def)

subsection \<open>Lemmas: a whole call\<close>

lemma assign_generations_keys:
  assumes "assign_generations U cur cg bs [] nxt = Some (gens', nxt')"
    and "distinct (map backend_id bs)"
  shows "hget gens' i \<noteq> None \<longleftrightarrow> i \<in> set (map backend_id bs)"
proof (cases "i \<in> set (map backend_id bs)")
  case True
  then obtain b where "b \<in> set bs" "backend_id b = i" by auto
  with assign_generations_Some [OF assms this(1)] True show ?thesis by auto
next
  case False
  with assign_generations_other [OF assms(1)] show ?thesis by auto
qed

lemma assign_generations_inv:
  assumes "assign_generations U cur cg bs [] nxt = Some (gens', nxt')"
    and "distinct (map backend_id bs)"
    and old: "\<And>i g. hget cg i = Some g \<Longrightarrow> g < nxt"
    and inj: "\<And>i j g. hget cg i = Some g \<Longrightarrow> hget cg j = Some g \<Longrightarrow> i = j"
  shows "hget gens' i = Some g \<Longrightarrow> g < nxt'"
    and "hget gens' i = Some g \<Longrightarrow> hget gens' j = Some g \<Longrightarrow> i = j"
proof -
  have le: "nxt \<le> nxt'" by (rule assign_generations_le [OF assms(1)])
  have some: "\<exists>b \<in> set bs. backend_id b = i \<and>
      (if keeps_generation U cur b then hget cg i = Some g else nxt \<le> g \<and> g < nxt')"
    if "hget gens' i = Some g" for i g
  proof -
    from that have "i \<in> set (map backend_id bs)"
      using assign_generations_keys [OF assms(1,2), of i] by simp
    then obtain b where b: "b \<in> set bs" "backend_id b = i" by auto
    with assign_generations_Some [OF assms(1,2) b(1)] that show ?thesis by auto
  qed
  show "g < nxt'" if "hget gens' i = Some g"
    using some [OF that] old le by (fastforce split: if_splits intro: less_le_trans)
  show "i = j" if i: "hget gens' i = Some g" and j: "hget gens' j = Some g"
  proof -
    from some [OF i] obtain a where a: "a \<in> set bs" "backend_id a = i"
      "if keeps_generation U cur a then hget cg i = Some g else nxt \<le> g" by (auto split: if_splits)
    from some [OF j] obtain b where b: "b \<in> set bs" "backend_id b = j"
      "if keeps_generation U cur b then hget cg j = Some g else nxt \<le> g" by (auto split: if_splits)
    show ?thesis
    proof (cases "keeps_generation U cur a = keeps_generation U cur b")
      case True
      then show ?thesis
        using a b inj assign_generations_inj [OF assms(1,2) a(1) b(1)] i j
        by (auto split: if_splits)
    next
      case False
      then show ?thesis using a b old by (auto split: if_splits dest: leD)
    qed
  qed
qed

lemma number_backends_assign:
  "number_backends bs gens nxt = assign_generations U [] cg bs gens nxt"
  by (induction bs arbitrary: gens nxt)
    (auto simp: assign_generations_Cons keeps_generation_def split: bind_split)

lemma spec_ids: "map spec_id (map (registry_spec U) bs) = map backend_id bs"
  by (simp add: registry_spec_def)

lemma apply_Inl:
  assumes "apply_with_modes U now config modes s = Some (Inl e, s')"
  shows "s' = s \<and>
    ((\<exists>i change. e = BackendMustBeDisabled i change) \<and>
       check_removals U now (by_id (cfg_backends config)) (registry s) (runtime_backends s) = Inl e \<or>
     (\<exists>i. e = ReconcileFailed (DuplicateBackendId i)) \<and> \<not> distinct (map backend_id (cfg_backends config)))"
proof (cases "check_removals U now (by_id (cfg_backends config)) (registry s) (runtime_backends s)")
  case (Inl x)
  have "\<exists>i change. x = BackendMustBeDisabled i change"
    if "check_removals U now d slots cur = Inl x" for d slots cur
    using that by (induction cur) (auto simp: Let_def split: if_splits)
  with Inl assms show ?thesis by (auto simp: apply_with_modes_def)
next
  case (Inr u)
  with assms obtain d slots where
    r: "reconcile (map (registry_spec U) (cfg_backends config)) (registry s) = Some (Inl d, slots)"
    and e: "e = ReconcileFailed d" and s': "s' = s\<lparr>registry := slots\<rparr>"
    by (auto simp: apply_with_modes_def Let_def split: bind_splits sum.splits)
  have "\<not> distinct (map backend_id (cfg_backends config))"
    using reconcile_ok_iff [OF r] unfolding spec_ids by auto
  moreover have "slots = registry s"
    using r by (auto simp: reconcile_def split: sum.splits bind_splits)
  ultimately show ?thesis using e s' by (cases d) auto
qed

lemma apply_Inr:
  assumes "apply_with_modes U now config modes s = Some (Inr rep, s')"
  obtains gens nxt report slots slots1 slots2 rev where
    "check_removals U now (by_id (cfg_backends config)) (registry s) (runtime_backends s) = Inr ()"
    "assign_generations U (by_id (runtime_backends s)) (backend_generations (published s))
       (cfg_backends config) [] (next_backend_generation (published s)) = Some (gens, nxt)"
    "reconcile (map (registry_spec U) (cfg_backends config)) (registry s) = Some (Inr report, slots)"
    "run_all (restore_new now modes) (added report @ report_revived report) slots = Some slots1"
    "run_all (reassert now modes) (snapshots now slots1) slots1 = Some slots2"
    "checked_add (revision (published s)) 1 = Some rev"
    "rep = \<lparr>report_revision = rev, report_reconciled = report\<rparr>"
    "s' = \<lparr>published = \<lparr>pub_config = config, revision = rev, backend_generations = gens,
            next_backend_generation = nxt\<rparr>, registry = slots2\<rparr>"
  using assms
  by (auto simp: apply_with_modes_def Let_def split: sum.splits bind_splits)

lemma apply_generations_inv:
  assumes "apply_with_modes U now config modes s = Some (r, s')" and "generations_inv s"
    and "registry_inv (registry s)"
  shows "generations_inv s'"
proof (cases r)
  case (Inl e)
  with apply_Inl assms show ?thesis by blast
next
  case (Inr rep)
  with assms(1) have ap: "apply_with_modes U now config modes s = Some (Inr rep, s')" by simp
  from ap show ?thesis
  proof (rule apply_Inr)
    fix gens nxt report slots slots1 slots2 rev
    assume gen: "assign_generations U (by_id (runtime_backends s)) (backend_generations (published s))
        (cfg_backends config) [] (next_backend_generation (published s)) = Some (gens, nxt)"
      and rec: "reconcile (map (registry_spec U) (cfg_backends config)) (registry s) = Some (Inr report, slots)"
      and s': "s' = \<lparr>published = \<lparr>pub_config = config, revision = rev, backend_generations = gens,
            next_backend_generation = nxt\<rparr>, registry = slots2\<rparr>"
    have d: "distinct (map backend_id (cfg_backends config))"
      using reconcile_ok_iff [OF rec] unfolding spec_ids by blast
    have old: "g < next_backend_generation (published s)"
      if "hget (backend_generations (published s)) i = Some g" for i g
      using assms(2) that by (simp add: generations_inv_def backend_generation_def)
    have inj: "i = j" if "hget (backend_generations (published s)) i = Some g"
      "hget (backend_generations (published s)) j = Some g" for i j g
      using assms(2) that unfolding generations_inv_def backend_generation_def by blast
    show ?thesis
      using d assign_generations_keys [OF gen d] assign_generations_inv [OF gen d old inj]
      unfolding generations_inv_def s' backend_generation_def runtime_backends_def by simp
  qed
qed

text \<open>The two loops that set modes: what becomes of each slot.\<close>

lemma mode_rounds:
  assumes "registry_inv slots"
    and one: "run_all (restore_new now modes) ids slots = Some slots1"
    and two: "run_all (reassert now modes) (snapshots now slots1) slots1 = Some slots2"
  shows mode_rounds_inv: "registry_inv slots2"
    and mode_rounds_None: "hget slots i = None \<Longrightarrow> hget slots2 i = None"
    and mode_rounds_slot: "hget slots i = Some slot \<Longrightarrow> \<exists>t. hget slots2 i = Some t \<and>
      st_spec (slot_state t) = st_spec (slot_state slot) \<and>
      st_registered (slot_state t) = st_registered (slot_state slot) \<and>
      st_leases (slot_state t) = st_leases (slot_state slot) \<and>
      st_total_acquired (slot_state t) = st_total_acquired (slot_state slot) \<and>
      (st_registered (slot_state slot) \<longrightarrow> st_mode (slot_state t) =
         (case hget modes i of Some m \<Rightarrow> m
          | None \<Rightarrow> if i \<in> set ids then Active else st_mode (slot_state slot)))"
proof -
  note one = one [unfolded restore_new_wanted] and two = two [unfolded reassert_wanted]
  have inv1: "registry_inv slots1" by (rule put_all_inv [OF one assms(1)])
  show "registry_inv slots2" by (rule put_all_inv [OF two inv1])
  show "hget slots2 i = None" if "hget slots i = None"
    using put_all_None [OF two put_all_None [OF one that]] .
  assume "hget slots i = Some slot"
  from put_all_slot [OF one this] obtain u where u: "hget slots1 i = Some u"
    "tune (if i \<in> set ids then Some (case hget modes i of None \<Rightarrow> Active | Some m \<Rightarrow> m) else None) slot u"
    by auto
  from put_all_slot [OF two u(1)] obtain t where t: "hget slots2 i = Some t"
    "tune (if i \<in> set (map snapshot_id (snapshots now slots1)) then hget modes i else None) u t"
    by blast
  have "st_registered (slot_state slot) \<Longrightarrow> i \<in> set (map snapshot_id (snapshots now slots1))"
    unfolding snapshot_ids(1) [OF inv1] using u(1) tune_effect [OF u(2)] by (simp add: registry_get_Some)
  with t(1) tune_effect [OF u(2)] tune_effect [OF t(2)]
  show "\<exists>t. hget slots2 i = Some t \<and>
      st_spec (slot_state t) = st_spec (slot_state slot) \<and>
      st_registered (slot_state t) = st_registered (slot_state slot) \<and>
      st_leases (slot_state t) = st_leases (slot_state slot) \<and>
      st_total_acquired (slot_state t) = st_total_acquired (slot_state slot) \<and>
      (st_registered (slot_state slot) \<longrightarrow> st_mode (slot_state t) =
         (case hget modes i of Some m \<Rightarrow> m
          | None \<Rightarrow> if i \<in> set ids then Active else st_mode (slot_state slot)))"
    by (intro exI [of _ t]) (auto split: if_splits option.splits)
qed

text \<open>
  The registry after a successful call: what becomes of each slot, and the mode of each
  configured backend.
\<close>

lemma apply_registry:
  assumes "apply_with_modes U now config modes s = Some (Inr rep, s')" and "runtime_inv U s"
    and "apply_room config s"
  shows "registry_inv (registry s')"
    and "registry_get (registry s') i \<noteq> None \<longleftrightarrow> i \<in> set (map backend_id (cfg_backends config))"
    and "hget (registry s) i = Some old \<Longrightarrow> \<exists>t. hget (registry s') i = Some t \<and>
      st_leases (slot_state t) = st_leases (slot_state old) \<and>
      st_total_acquired (slot_state t) = st_total_acquired (slot_state old)"
    and "b \<in> set (cfg_backends config) \<Longrightarrow> \<exists>t. registry_get (registry s') (backend_id b) = Some t \<and>
      st_spec (slot_state t) = registry_spec U b \<and>
      st_mode (slot_state t) =
        (case hget modes (backend_id b) of Some m \<Rightarrow> m
         | None \<Rightarrow> (case registry_get (registry s) (backend_id b) of
             None \<Rightarrow> Active | Some old \<Rightarrow> st_mode (slot_state old)))"
proof -
  have ri: "registry_inv (registry s)" using assms(2) by (simp add: runtime_inv_def)
  have head: "\<forall>(i, slot) \<in> set (registry s). slot_headroom slot"
    by (rule apply_room_headroom [OF assms(3)])
  from assms(1) obtain gens nxt report slots slots1 rev where
    rec: "reconcile (map (registry_spec U) (cfg_backends config)) (registry s) = Some (Inr report, slots)"
    and one: "run_all (restore_new now modes) (added report @ report_revived report) slots = Some slots1"
    and two: "run_all (reassert now modes) (snapshots now slots1) slots1 = Some (registry s')"
    by (rule apply_Inr) simp
  note new = reconcile_new_ids(1) [OF rec ri, unfolded spec_ids]
  have inv: "registry_inv slots" by (rule reconcile_inv [OF rec ri])
  note rounds_inv = mode_rounds_inv [OF inv one two]
    and rounds_None = mode_rounds_None [OF inv one two]
    and rounds_slot = mode_rounds_slot [OF inv one two]
  show "registry_inv (registry s')" by (rule rounds_inv)
  have member: "\<exists>t. registry_get slots (backend_id c) = Some t \<and>
      st_spec (slot_state t) = registry_spec U c" if "c \<in> set (cfg_backends config)" for c
    using reconcile_member [OF rec ri head, of "registry_spec U c"] that
    by (auto simp: registry_spec_def)
  have get: "registry_get (registry s') i \<noteq> None \<longleftrightarrow> registry_get slots i \<noteq> None" for i
  proof (cases "hget slots i")
    case None
    with rounds_None [OF None] show ?thesis by (simp add: registry_get_def get_retained_def)
  next
    case (Some slot)
    with rounds_slot [OF Some] show ?thesis by (auto simp: registry_get_def get_retained_def)
  qed
  have "registry_get slots i \<noteq> None \<longleftrightarrow> i \<in> set (map backend_id (cfg_backends config))"
    using reconcile_only [OF rec ri] member unfolding spec_ids by fastforce
  with get show "registry_get (registry s') i \<noteq> None \<longleftrightarrow> i \<in> set (map backend_id (cfg_backends config))"
    by blast
  show "\<exists>t. hget (registry s') i = Some t \<and>
      st_leases (slot_state t) = st_leases (slot_state old) \<and>
      st_total_acquired (slot_state t) = st_total_acquired (slot_state old)"
    if "hget (registry s) i = Some old"
    using reconcile_keep [OF rec ri head that] rounds_slot by fastforce
  assume b: "b \<in> set (cfg_backends config)"
  then obtain mid where mid: "hget slots (backend_id b) = Some mid" "st_registered (slot_state mid)"
    "st_spec (slot_state mid) = registry_spec U b"
    using member by (auto simp: registry_get_Some)
  from rounds_slot [OF mid(1)] mid(2,3) obtain t where t: "hget (registry s') (backend_id b) = Some t"
    "st_registered (slot_state t)" "st_spec (slot_state t) = registry_spec U b"
    "st_mode (slot_state t) = (case hget modes (backend_id b) of Some m \<Rightarrow> m
       | None \<Rightarrow> if backend_id b \<in> set (added report @ report_revived report) then Active
                 else st_mode (slot_state mid))"
    by (auto split: option.splits)
  have "st_mode (slot_state mid) = st_mode (slot_state old)"
    if "registry_get (registry s) (backend_id b) = Some old" for old
  proof -
    from that have "hget (registry s) (backend_id b) = Some old" by (simp add: registry_get_Some)
    from reconcile_keep [OF rec ri head this] mid(1) b show ?thesis
      unfolding spec_ids by (auto split: if_splits)
  qed
  moreover have "registry_get (registry s') (backend_id b) = Some t"
    using t by (simp add: registry_get_Some)
  ultimately show "\<exists>t. registry_get (registry s') (backend_id b) = Some t \<and>
      st_spec (slot_state t) = registry_spec U b \<and>
      st_mode (slot_state t) =
        (case hget modes (backend_id b) of Some m \<Rightarrow> m
         | None \<Rightarrow> (case registry_get (registry s) (backend_id b) of
             None \<Rightarrow> Active | Some old \<Rightarrow> st_mode (slot_state old)))"
    using t(3,4) b unfolding new by (auto split: option.splits)
qed

lemma mode_rounds_total:
  assumes "registry_inv slots" and "\<And>i slot. hget slots i = Some slot \<Longrightarrow> slot_room 2 slot"
    and "\<And>i. i \<in> set ids \<Longrightarrow> registry_get slots i \<noteq> None" and "distinct ids"
  shows "\<exists>slots1 slots2. run_all (restore_new now modes) ids slots = Some slots1 \<and>
    run_all (reassert now modes) (snapshots now slots1) slots1 = Some slots2"
proof -
  have "\<exists>slots1. run_all (restore_new now modes) ids slots = Some slots1"
    unfolding restore_new_wanted
  proof (rule put_all_total)
    fix i
    assume "i \<in> set ids"
    then obtain slot where slot: "registry_get slots i = Some slot" using assms(3) by blast
    then have "mode_headroom slot"
      using assms(2) [of i slot] slot_room_headroom [of 2 slot] by (simp add: registry_get_Some)
    with slot show "\<exists>slot. registry_get slots i = Some slot \<and> mode_headroom slot" by blast
  qed (rule assms(4))
  then obtain slots1 where one: "run_all (restore_new now modes) ids slots = Some slots1" by blast
  note put = one [unfolded restore_new_wanted]
  have inv1: "registry_inv slots1" by (rule put_all_inv [OF put assms(1)])
  have "\<exists>slots2. run_all (reassert now modes) (snapshots now slots1) slots1 = Some slots2"
    unfolding reassert_wanted
  proof (rule put_all_total)
    fix i
    assume "i \<in> set (map snapshot_id (snapshots now slots1))"
    then obtain u where u: "registry_get slots1 i = Some u"
      unfolding snapshot_ids(1) [OF inv1] by blast
    then obtain slot where "hget slots i = Some slot"
      using put_all_None [OF put, of i] by (cases "hget slots i") (auto simp: registry_get_Some)
    moreover from put_all_slot [OF put this] u obtain w where "tune w slot u"
      by (auto simp: registry_get_Some)
    ultimately have "slot_room 1 u" using assms(2) tune_room [of 1 slot w u] by (simp add: numeral_2_eq_2)
    with u show "\<exists>slot. registry_get slots1 i = Some slot \<and> mode_headroom slot"
      using slot_room_headroom by blast
  qed (rule snapshot_ids(2) [OF inv1])
  with one show ?thesis by blast
qed

lemma apply_total:
  assumes "runtime_inv U s" and "apply_room config s"
  shows "\<exists>r s'. apply_with_modes U now config modes s = Some (r, s')"
proof (cases "check_removals U now (by_id (cfg_backends config)) (registry s) (runtime_backends s)")
  case (Inl e)
  then show ?thesis by (simp add: apply_with_modes_def)
next
  case (Inr u)
  have ri: "registry_inv (registry s)" and gi: "generations_inv s"
    using assms(1) by (simp_all add: runtime_inv_def)
  have "hget (backend_generations (published s)) (backend_id b) \<noteq> None"
    if "keeps_generation U (by_id (runtime_backends s)) b" for b
  proof -
    from that have "hget (by_id (runtime_backends s)) (backend_id b) \<noteq> None"
      by (auto simp: keeps_generation_def split: option.splits)
    then have "backend_id b \<in> set (map backend_id (runtime_backends s))"
      unfolding hget_by_id_None by simp
    then show ?thesis using gi unfolding generations_inv_def backend_generation_def by blast
  qed
  then obtain gens nxt where gen: "assign_generations U (by_id (runtime_backends s))
      (backend_generations (published s)) (cfg_backends config) []
      (next_backend_generation (published s)) = Some (gens, nxt)"
    using assign_generations_total [of "next_backend_generation (published s)" "cfg_backends config"]
      assms(2) by (fastforce simp: apply_room_def)
  obtain r slots where rec: "reconcile (map (registry_spec U) (cfg_backends config)) (registry s) = Some (r, slots)"
    using reconcile_total [OF apply_room_headroom [OF assms(2)]] by blast
  obtain rev where rev: "checked_add (revision (published s)) 1 = Some rev"
    using assms(2) by (auto simp: apply_room_def checked_add_def)
  show ?thesis
  proof (cases r)
    case Inl: (Inl e)
    with Inr gen rec show ?thesis by (simp add: apply_with_modes_def)
  next
    case ok: (Inr report)
    note rec = rec [unfolded ok]
    have "\<exists>slots1 slots2. run_all (restore_new now modes) (added report @ report_revived report) slots = Some slots1 \<and>
        run_all (reassert now modes) (snapshots now slots1) slots1 = Some slots2"
    proof (rule mode_rounds_total)
      show "registry_inv slots" by (rule reconcile_inv [OF rec ri])
      show "distinct (added report @ report_revived report)" by (rule reconcile_new_ids(2) [OF rec ri])
      show "slot_room 2 slot" if "hget slots i = Some slot" for i slot
        using reconcile_room [OF rec ri _ _ that, of 2] assms(2) by (simp add: apply_room_def)
      show "registry_get slots i \<noteq> None" if "i \<in> set (added report @ report_revived report)" for i
        using that reconcile_member [OF rec ri apply_room_headroom [OF assms(2)]]
        unfolding reconcile_new_ids(1) [OF rec ri] by auto
    qed
    with Inr gen rec rev show ?thesis by (auto simp: apply_with_modes_def)
  qed
qed

lemma apply_inv:
  assumes "apply_with_modes U now config modes s = Some (r, s')" and "runtime_inv U s"
    and "apply_room config s"
  shows "runtime_inv U s'"
proof (cases r)
  case (Inl e)
  with apply_Inl assms show ?thesis by blast
next
  case (Inr rep)
  with assms(1) have ap: "apply_with_modes U now config modes s = Some (Inr rep, s')" by simp
  then have bs: "runtime_backends s' = cfg_backends config"
    by (rule apply_Inr) (simp add: runtime_backends_def)
  have "generations_inv s'"
    using apply_generations_inv [OF ap] assms(2) by (simp add: runtime_inv_def)
  with apply_registry [OF ap assms(2,3)] show ?thesis
    unfolding runtime_inv_def bs by blast
qed

lemma from_config_inv:
  assumes "from_config U now config = Some s"
  shows "runtime_inv U s"
proof -
  let ?specs = "map (registry_spec U) (cfg_backends config)"
  from assms obtain report slots gens nxt where
    rec: "reconcile ?specs [] = Some (Inr report, slots)"
    and act: "run_all (activate_registered now) (added report) slots = Some (registry s)"
    and num: "number_backends (cfg_backends config) [] 1 = Some (gens, nxt)"
    and pub: "published s = \<lparr>pub_config = config, revision = 1, backend_generations = gens,
        next_backend_generation = nxt\<rparr>"
    by (auto simp: from_config_def split: bind_splits sum.splits)
  have d: "distinct (map backend_id (cfg_backends config))"
    using reconcile_ok_iff [OF rec] unfolding spec_ids by blast
  note gen = num [unfolded number_backends_assign [where U = U and cg = "[]"]]
  have g: "generations_inv s"
    using d assign_generations_keys [OF gen d] assign_generations_inv [OF gen d]
    unfolding generations_inv_def backend_generation_def runtime_backends_def pub by simp
  have "activate_registered now = put_wanted now (\<lambda>_. Some Active)"
    by (auto simp: fun_eq_iff put_wanted_def put_mode_def activate_registered_def split: option.split)
  note put = act [unfolded this]
  have inv: "registry_inv slots" by (rule reconcile_inv [OF rec registry_inv_Nil])
  have get: "registry_get (registry s) i \<noteq> None \<longleftrightarrow> registry_get slots i \<noteq> None" for i
    using put_all_None [OF put, of i] put_all_slot [OF put, of i] tune_effect
    by (cases "hget slots i") (fastforce simp: registry_get_def get_retained_def)+
  have member: "\<exists>t. registry_get slots (backend_id b) = Some t \<and> st_spec (slot_state t) = registry_spec U b"
    if "b \<in> set (cfg_backends config)" for b
    using reconcile_member [OF rec registry_inv_Nil, of "registry_spec U b"] that
    by (auto simp: registry_spec_def)
  have "registry_get slots i \<noteq> None \<longleftrightarrow> i \<in> set (map backend_id (cfg_backends config))" for i
    using reconcile_only [OF rec registry_inv_Nil] member unfolding spec_ids by fastforce
  moreover have "\<exists>t. registry_get (registry s) (backend_id b) = Some t \<and>
      st_spec (slot_state t) = registry_spec U b" if "b \<in> set (cfg_backends config)" for b
    using member [OF that] put_all_slot [OF put, of "backend_id b"] tune_effect
    by (fastforce simp: registry_get_Some)
  moreover have "runtime_backends s = cfg_backends config" by (simp add: runtime_backends_def pub)
  ultimately show ?thesis
    using g get put_all_inv [OF put inv] by (simp add: runtime_inv_def)
qed

subsection \<open>Histories\<close>

text \<open>
  The runtime as the other threads see it: configurations are applied, and between two of
  them the slots of the registry go through calls of their own.
\<close>

inductive runtime_history :: "'u uri_api \<Rightarrow> 'u RuntimeState \<Rightarrow> 'u RuntimeState \<Rightarrow> bool" for U where
  start: "runtime_history U s s"
| applied: "runtime_history U s t \<Longrightarrow> apply_with_modes U now config modes t = Some (r, u)
    \<Longrightarrow> runtime_history U s u"
| slot_call: "runtime_history U s t \<Longrightarrow> hget (registry t) i = Some slot \<Longrightarrow>
    slot_step op slot = Some slot' \<Longrightarrow> op \<noteq> OpReconcileAbsent \<Longrightarrow>
    (\<forall>spec. op \<noteq> OpReconcilePresent spec) \<Longrightarrow>
    runtime_history U s (t\<lparr>registry := hset i slot' (registry t)\<rparr>)"

inductive_cases runtime_historyE: "runtime_history U s t"

text \<open>\<open>Uri\<close> implements \<open>Eq\<close>.\<close>

definition uri_eq_laws :: "'u uri_api \<Rightarrow> bool" where
  "uri_eq_laws U \<longleftrightarrow> equivp (uri_eq U)"

lemma same_endpoints_equiv:
  assumes "uri_eq_laws U"
  shows "same_endpoints U a a"
    and "same_endpoints U a b \<Longrightarrow> same_endpoints U b c \<Longrightarrow> same_endpoints U a c"
    and "same_endpoints U a b \<Longrightarrow> same_endpoints U b a"
  using assms unfolding uri_eq_laws_def same_endpoints_def
  by (auto dest: equivp_reflp equivp_symp equivp_transp)

lemma history_inv:
  assumes "runtime_history U s t" and "generations_inv s" and "registry_inv (registry s)"
  shows "generations_inv t \<and> registry_inv (registry t)"
  using assms
proof (induction rule: runtime_history.induct)
  case (start s)
  then show ?case by simp
next
  case (applied s t now config modes r u)
  then have t: "generations_inv t" "registry_inv (registry t)" by simp_all
  have "registry_inv (registry u)"
  proof (cases r)
    case (Inl e)
    with applied.hyps(2) t(2) show ?thesis using apply_Inl by blast
  next
    case (Inr rep)
    with applied.hyps(2) obtain report slots slots1 where
      "reconcile (map (registry_spec U) (cfg_backends config)) (registry t) = Some (Inr report, slots)"
      "run_all (restore_new now modes) (added report @ report_revived report) slots = Some slots1"
      "run_all (reassert now modes) (snapshots now slots1) slots1 = Some (registry u)"
      by (auto elim: apply_Inr)
    then show ?thesis using mode_rounds_inv reconcile_inv t(2) by blast
  qed
  with apply_generations_inv [OF applied.hyps(2) t] show ?case by simp
next
  case (slot_call s t i slot op slot')
  then have t: "generations_inv t" "registry_inv (registry t)" by simp_all
  have "slot_id slot' = i" "slot_inv slot'"
    using registry_invD [OF t(2) slot_call.hyps(2)] slot_step_inv [OF slot_call.hyps(3)]
      slot_step_id_keep [OF slot_call.hyps(3)] slot_call.hyps(5) by auto
  with t show ?case
    using registry_inv_hset by (simp add: generations_inv_def backend_generation_def runtime_backends_def)
qed

text \<open>One application: who carries a generation that existed before it.\<close>

lemma apply_old_generation:
  assumes "apply_with_modes U now config modes s = Some (Inr rep, s')" and "generations_inv s"
    and "b \<in> set (runtime_backends s')" and "backend_generation s' (backend_id b) = Some g"
    and "g < next_backend_generation (published s)"
  shows "\<exists>old \<in> set (runtime_backends s). backend_id old = backend_id b \<and> same_endpoints U old b \<and>
    backend_generation s (backend_id old) = Some g"
  using assms(1)
proof (rule apply_Inr)
  fix gens nxt report slots slots1 slots2 rev
  assume gen: "assign_generations U (by_id (runtime_backends s)) (backend_generations (published s))
      (cfg_backends config) [] (next_backend_generation (published s)) = Some (gens, nxt)"
    and rec: "reconcile (map (registry_spec U) (cfg_backends config)) (registry s) = Some (Inr report, slots)"
    and s': "s' = \<lparr>published = \<lparr>pub_config = config, revision = rev, backend_generations = gens,
          next_backend_generation = nxt\<rparr>, registry = slots2\<rparr>"
  have d: "distinct (map backend_id (cfg_backends config))"
    using reconcile_ok_iff [OF rec] unfolding spec_ids by blast
  have b: "b \<in> set (cfg_backends config)" "hget gens (backend_id b) = Some g"
    using assms(3,4) s' by (simp_all add: runtime_backends_def backend_generation_def)
  with assign_generations_Some [OF gen d b(1)] assms(5)
  have k: "keeps_generation U (by_id (runtime_backends s)) b"
    and g: "hget (backend_generations (published s)) (backend_id b) = Some g"
    by (auto split: if_splits)
  from k obtain old where "hget (by_id (runtime_backends s)) (backend_id b) = Some old"
    "same_endpoints U old b" by (auto simp: keeps_generation_def split: option.splits)
  with g hget_by_id_Some show ?thesis by (fastforce simp: backend_generation_def)
qed

lemma apply_next_generation:
  "apply_with_modes U now config modes s = Some (Inr rep, s') \<Longrightarrow>
     next_backend_generation (published s) \<le> next_backend_generation (published s')"
  by (erule apply_Inr) (simp add: assign_generations_le)

subsection \<open>Properties\<close>

definition demo_backend :: "string \<Rightarrow> demo_uri Backend" where
  "demo_backend i =
     \<lparr>backend_id = i, url = (''http'', i, ''/''), metrics_url = (''http'', i, ''/metrics''),
      readiness_url = (''http'', i, ''/v1/models''), capacity = None\<rparr>"

definition demo_config :: "string list \<Rightarrow> demo_uri RuntimeConfig" where
  "demo_config ids =
     \<lparr>cfg_backends = map demo_backend ids,
      cfg_routing = \<lparr>policy = LeastPressureV1, kv_soft_limit = Finite 0\<rparr>,
      cfg_telemetry = default_telemetry, cfg_readiness = default_readiness,
      cfg_registration = default_registration, cfg_openwebui = default_openwebui\<rparr>"

definition demo_runtime :: "demo_uri RuntimeState" where
  "demo_runtime =
     \<lparr>published = \<lparr>pub_config = demo_config [''a''], revision = 1,
        backend_generations = [(''a'', 1)], next_backend_generation = 2\<rparr>,
      registry = [(''a'', \<lparr>slot_state =
         \<lparr>st_spec = \<lparr>spec_id = ''a'', spec_endpoint = ''http://a/''\<rparr>, st_registered = True,
          st_mode = Active, st_mode_epoch = 1, st_sequence = 1, st_spec_revision = 0,
          st_next_lease_serial = 0, st_total_acquired = 0, st_leases = []\<rparr>,
         slot_changed = 1\<rparr>)]\<rparr>"

lemma demo_runtime_from_config: "from_config demo_uri_api 0 (demo_config [''a'']) = Some demo_runtime"
  by (simp add: from_config_def demo_config_def demo_backend_def reconcile_def registry_spec_def
      demo_uri_api_def hcontains_def hset_def install_one_def empty_report_def sort_report_def
      slot_new_def activate_registered_def registry_get_def get_retained_def activate_def
      set_mode_def next_mode_epoch_def publish_locked_def next_sequence_def checked_add_def
      demo_runtime_def Let_def)

lemma demo_runtime_inv: "runtime_inv demo_uri_api demo_runtime"
  by (rule from_config_inv [OF demo_runtime_from_config])

lemma demo_apply_room: "length ids < 100 \<Longrightarrow> apply_room (demo_config ids) demo_runtime"
  by (simp add: apply_room_def demo_runtime_def slot_room_def demo_config_def)

lemma demo_uri_eq_laws: "uri_eq_laws demo_uri_api"
  by (simp add: uri_eq_laws_def demo_uri_api_def identity_equivp)

text \<open>
  C9. Applying a configuration is all or nothing and never panics while counters have
  room. It succeeds exactly when the ids are distinct and every current backend that is
  removed or changes an endpoint is out of service: its slot is disabled with no request
  in flight. When it is refused, nothing changes; when it succeeds, the configuration is
  in force under the next revision. Either way the runtime invariant is kept: registered
  backends, configured backends and generation numbers agree.
\<close>

theorem apply_all_or_nothing:
  assumes "runtime_inv U s" and "apply_room config s"
  shows "\<exists>r s'. apply_with_modes U now config modes s = Some (r, s') \<and> runtime_inv U s' \<and>
    (if distinct (map backend_id (cfg_backends config)) \<and>
        (\<forall>old \<in> set (runtime_backends s).
           touches U (cfg_backends config) old \<longrightarrow> out_of_service (registry s) (backend_id old))
     then (\<exists>rep. r = Inr rep \<and> pub_config (published s') = config \<and>
       report_revision rep = revision (published s') \<and>
       unat (revision (published s')) = unat (revision (published s)) + 1)
     else (\<exists>e. r = Inl e) \<and> s' = s)"
proof -
  obtain r s' where ap: "apply_with_modes U now config modes s = Some (r, s')"
    using apply_total [OF assms] by blast
  note inv = apply_inv [OF ap assms]
  show ?thesis
  proof (cases r)
    case (Inl e)
    with ap have "apply_with_modes U now config modes s = Some (Inl e, s')" by simp
    from apply_Inl [OF this] have "s' = s" and
      "\<not> (distinct (map backend_id (cfg_backends config)) \<and>
        (\<forall>old \<in> set (runtime_backends s).
           touches U (cfg_backends config) old \<longrightarrow> out_of_service (registry s) (backend_id old)))"
      unfolding check_removals_Inr [symmetric, where now = now] by auto
    with ap inv Inl show ?thesis by auto
  next
    case (Inr rep)
    with ap have ok: "apply_with_modes U now config modes s = Some (Inr rep, s')" by simp
    then have "distinct (map backend_id (cfg_backends config)) \<and>
        check_removals U now (by_id (cfg_backends config)) (registry s) (runtime_backends s) = Inr () \<and>
        pub_config (published s') = config \<and> report_revision rep = revision (published s') \<and>
        checked_add (revision (published s)) 1 = Some (revision (published s'))"
    proof (rule apply_Inr)
      fix report slots
      assume "reconcile (map (registry_spec U) (cfg_backends config)) (registry s) = Some (Inr report, slots)"
      from reconcile_ok_iff [OF this] have "distinct (map backend_id (cfg_backends config))"
        unfolding spec_ids by blast
      then show ?thesis if "check_removals U now (by_id (cfg_backends config)) (registry s)
          (runtime_backends s) = Inr ()"
        "rep = \<lparr>report_revision = rev, report_reconciled = report\<rparr>"
        "s' = \<lparr>published = \<lparr>pub_config = config, revision = rev, backend_generations = gens,
            next_backend_generation = nxt\<rparr>, registry = slots2\<rparr>"
        "checked_add (revision (published s)) 1 = Some rev" for rev gens nxt slots2
        using that by simp
    qed
    with ap inv Inr show ?thesis
      unfolding check_removals_Inr by (auto dest: checked_add_Some_unat)
  qed
qed

theorem apply_all_or_nothing_witness:
  "\<exists>r s'. apply_with_modes demo_uri_api 0 (demo_config [''a'', ''b'']) [] demo_runtime = Some (r, s') \<and>
     runtime_inv demo_uri_api s' \<and> unat (revision (published s')) = 2"
proof -
  have "\<forall>old \<in> set (runtime_backends demo_runtime).
      touches demo_uri_api (cfg_backends (demo_config [''a'', ''b''])) old \<longrightarrow>
      out_of_service (registry demo_runtime) (backend_id old)"
    by code_simp
  moreover have "distinct (map backend_id (cfg_backends (demo_config [''a'', ''b''])))"
    "unat (revision (published demo_runtime)) = 1"
    by (simp_all add: demo_config_def demo_backend_def demo_runtime_def)
  ultimately show ?thesis
    using apply_all_or_nothing [OF demo_runtime_inv demo_apply_room, of "[''a'', ''b'']" 0 "[]"] by auto
qed

text \<open>
  A successful reload keeps work and restores operator intent. The registered
  backends are exactly the configured ones, with their request URLs. Each is in the mode
  stored for it; without a stored mode it keeps the mode it had, and a new or revived one
  is active. No slot of the registry, not even of a removed backend, loses a held lease or
  its acquisition count.
\<close>

theorem apply_restores_modes:
  assumes "runtime_inv U s" and "apply_room config s"
    and "apply_with_modes U now config modes s = Some (Inr rep, s')"
  shows "(\<forall>i. registry_get (registry s') i \<noteq> None \<longleftrightarrow> i \<in> set (map backend_id (cfg_backends config))) \<and>
    (\<forall>b \<in> set (cfg_backends config). \<exists>t. registry_get (registry s') (backend_id b) = Some t \<and>
      spec_endpoint (st_spec (slot_state t)) = uri_to_string U (url b) \<and>
      st_mode (slot_state t) =
        (case hget modes (backend_id b) of Some m \<Rightarrow> m
         | None \<Rightarrow> (case registry_get (registry s) (backend_id b) of
             None \<Rightarrow> Active | Some old \<Rightarrow> st_mode (slot_state old)))) \<and>
    (\<forall>i old. hget (registry s) i = Some old \<longrightarrow> (\<exists>t. hget (registry s') i = Some t \<and>
      st_leases (slot_state t) = st_leases (slot_state old) \<and>
      st_total_acquired (slot_state t) = st_total_acquired (slot_state old)))"
proof (intro conjI ballI allI impI)
  note reg = apply_registry [OF assms(3,1,2)]
  fix i
  show "registry_get (registry s') i \<noteq> None \<longleftrightarrow> i \<in> set (map backend_id (cfg_backends config))"
    by (rule reg(2))
  show "\<exists>t. hget (registry s') i = Some t \<and>
      st_leases (slot_state t) = st_leases (slot_state old) \<and>
      st_total_acquired (slot_state t) = st_total_acquired (slot_state old)"
    if "hget (registry s) i = Some old" for old by (rule reg(3) [OF that])
next
  fix b
  assume "b \<in> set (cfg_backends config)"
  from apply_registry(4) [OF assms(3,1,2) this]
  show "\<exists>t. registry_get (registry s') (backend_id b) = Some t \<and>
      spec_endpoint (st_spec (slot_state t)) = uri_to_string U (url b) \<and>
      st_mode (slot_state t) =
        (case hget modes (backend_id b) of Some m \<Rightarrow> m
         | None \<Rightarrow> (case registry_get (registry s) (backend_id b) of
             None \<Rightarrow> Active | Some old \<Rightarrow> st_mode (slot_state old)))"
    by (auto simp: registry_spec_def)
qed

definition demo_drained :: "demo_uri RuntimeState" where
  "demo_drained =
     demo_runtime\<lparr>published := \<lparr>pub_config = demo_config [''a'', ''b''], revision = 2,
        backend_generations = [(''a'', 1), (''b'', 2)], next_backend_generation = 3\<rparr>,
      registry := registry demo_runtime @ [(''b'', \<lparr>slot_state =
         \<lparr>st_spec = \<lparr>spec_id = ''b'', spec_endpoint = ''http://b/''\<rparr>, st_registered = True,
          st_mode = Draining, st_mode_epoch = 1, st_sequence = 1, st_spec_revision = 0,
          st_next_lease_serial = 0, st_total_acquired = 0, st_leases = []\<rparr>,
         slot_changed = 1\<rparr>)]\<rparr>"

lemmas demo_apply_defs = demo_config_def demo_backend_def reconcile_def registry_spec_def
  demo_uri_api_def hcontains_def hset_def install_one_def empty_report_def sort_report_def
  slot_new_def activate_registered_def registry_get_def get_retained_def activate_def
  set_mode_def next_mode_epoch_def publish_locked_def next_sequence_def checked_add_def
  demo_runtime_def runtime_backends_def by_id_def same_endpoints_def assign_generations_Cons
  keeps_generation_def reconcile_present_def restore_new_def reassert_def put_mode_def
  begin_drain_def snapshots_def slot_snapshot_def state_snapshot_def snapshot_id_def slot_id_def

lemma demo_apply:
  "\<exists>rep. apply_with_modes demo_uri_api 0 (demo_config [''a'', ''b'']) [(''b'', Draining)] demo_runtime
     = Some (Inr rep, demo_drained)"
  by (simp add: apply_with_modes_def demo_drained_def demo_apply_defs Let_def)

theorem apply_restores_modes_witness:
  "\<exists>t. registry_get (registry demo_drained) ''b'' = Some t \<and> st_mode (slot_state t) = Draining"
proof -
  obtain rep where "apply_with_modes demo_uri_api 0 (demo_config [''a'', ''b'']) [(''b'', Draining)]
      demo_runtime = Some (Inr rep, demo_drained)"
    using demo_apply by blast
  from apply_restores_modes [OF demo_runtime_inv demo_apply_room this]
  show ?thesis by (auto simp: demo_config_def demo_backend_def)
qed



lemma restore_one_eq: "restore_one now modes snap = put_wanted now (hget modes) (snapshot_id snap)"
proof
  fix slots
  show "restore_one now modes snap slots = put_wanted now (hget modes) (snapshot_id snap) slots"
  proof (cases "registry_get slots (snapshot_id snap)")
    case None
    then show ?thesis by (simp add: restore_one_def put_wanted_def put_mode_def split: option.split)
  next
    case (Some slot)
    then have "activate now slot \<noteq> Some (Inl e, t)" for e t
      by (simp add: activate_def set_mode_Inl registry_get_Some)
    with Some show ?thesis
      by (auto simp: restore_one_def put_wanted_def put_mode_def activate_registered_def
          split: option.split BackendMode.split bind_split sum.split)
  qed
qed

lemma restore_one_wanted:
  "run_all (restore_one now modes) snaps slots =
     run_all (put_wanted now (hget modes)) (map snapshot_id snaps) slots"
  unfolding run_all_map [symmetric]
  by (rule arg_cong [where f = "\<lambda>f. run_all f snaps slots"]) (rule ext, rule restore_one_eq)

lemma activate_registered_wanted: "activate_registered now = put_wanted now (\<lambda>_. Some Active)"
  by (auto simp: fun_eq_iff put_wanted_def put_mode_def activate_registered_def split: option.split)

lemma fresh_slots:
  assumes "reconcile specs [] = Some (Inr report, slots)" and "hget slots i = Some slot"
  shows "\<exists>spec. slot = slot_new spec Disabled"
  using reconcile_Inr [OF assms(1)] assms(2)
  by (cases "hget (desired_of specs) i") auto

lemma from_config_published:
  "from_config U now config = Some s \<Longrightarrow> pub_config (published s) = config"
  by (auto simp: from_config_def split: bind_splits sum.splits)

lemma from_config_active:
  assumes "distinct (map backend_id (cfg_backends config))"
    and "length (cfg_backends config) < 2 ^ 64 - 1"
  shows "\<exists>s. from_config U now config = Some s \<and> registry_inv (registry s) \<and>
    (\<forall>i \<in> set (map backend_id (cfg_backends config)). \<exists>t. registry_get (registry s) i = Some t \<and>
       slot_room 1 t \<and> st_mode (slot_state t) = Active)"
proof -
  let ?specs = "map (registry_spec U) (cfg_backends config)"
  obtain r slots where "reconcile ?specs [] = Some (r, slots)"
    using reconcile_total [of "[]" ?specs] by auto
  moreover from reconcile_ok_iff [OF this] assms(1) obtain report where "r = Inr report"
    unfolding spec_ids by blast
  ultimately have rec: "reconcile ?specs [] = Some (Inr report, slots)" by simp
  note inv = reconcile_inv [OF rec registry_inv_Nil]
  have none: "report_revived report = []"
    using reconcile_report_eq [OF rec registry_inv_Nil]
    by (auto simp: sort_report_def picks_def counts_revived_def)
  have ids: "set (added report) = set (map backend_id (cfg_backends config))" "distinct (added report)"
    using reconcile_new_ids [OF rec registry_inv_Nil] none unfolding spec_ids
    by (auto simp: registry_get_def get_retained_def)
  have member: "\<exists>t. registry_get slots i = Some t \<and> slot_room 2 t"
    if i: "i \<in> set (map backend_id (cfg_backends config))" for i
  proof -
    from i obtain b where b: "b \<in> set (cfg_backends config)" "backend_id b = i" by auto
    then obtain t where "registry_get slots i = Some t"
      using reconcile_member [OF rec registry_inv_Nil, of "registry_spec U b"]
      by (auto simp: registry_spec_def)
    then show ?thesis using fresh_slots [OF rec, of i t] slot_new_room by (auto simp: registry_get_Some)
  qed
  have "\<exists>slots1. run_all (put_wanted now (\<lambda>_. Some Active)) (added report) slots = Some slots1"
    using member ids slot_room_headroom by (intro put_all_total) fastforce+
  then obtain slots1 where act: "run_all (put_wanted now (\<lambda>_. Some Active)) (added report) slots = Some slots1"
    by blast
  obtain gens nxt where num: "number_backends (cfg_backends config) [] 1 = Some (gens, nxt)"
    using assign_generations_total [of 1 "cfg_backends config" U "[]" "[]" "[]"] assms(2)
    by (auto simp: number_backends_assign [where U = U and cg = "[]"] keeps_generation_def)
  let ?s = "\<lparr>published = \<lparr>pub_config = config, revision = 1, backend_generations = gens,
    next_backend_generation = nxt\<rparr>, registry = slots1\<rparr>"
  have s: "from_config U now config = Some ?s"
    using rec act num by (simp add: from_config_def activate_registered_wanted)
  have inv1: "registry_inv slots1" by (rule put_all_inv [OF act inv])
  have active: "\<exists>t. registry_get slots1 i = Some t \<and> slot_room 1 t \<and> st_mode (slot_state t) = Active"
    if i: "i \<in> set (map backend_id (cfg_backends config))" for i
  proof -
    from member [OF i] obtain slot where slot: "hget slots i = Some slot" "slot_room 2 slot"
      "st_registered (slot_state slot)" by (auto simp: registry_get_Some)
    from put_all_slot [OF act slot(1)] i ids obtain t where "hget slots1 i = Some t"
      "tune (Some Active) slot t" by auto
    with tune_effect [of "Some Active" slot t] tune_room [of 1 slot] slot show ?thesis
      by (auto simp: registry_get_Some numeral_2_eq_2)
  qed
  with s inv1 show ?thesis by auto
qed

text \<open>
  The start of the proxy: building the state of a configuration with distinct ids and
  restoring the stored modes never panics, and before the first request every configured
  backend is in the mode stored for it, or active when none is stored.
\<close>

theorem startup_modes:
  assumes "distinct (map backend_id (cfg_backends config))"
    and "length (cfg_backends config) < 2 ^ 64 - 1"
  shows "\<exists>s s'. from_config U now config = Some s \<and> restore_modes now modes s = Some s' \<and>
    (\<forall>b \<in> set (cfg_backends config). \<exists>t. registry_get (registry s') (backend_id b) = Some t \<and>
       st_mode (slot_state t) =
         (case hget modes (backend_id b) of Some m \<Rightarrow> m | None \<Rightarrow> Active))"
proof -
  obtain s where s: "from_config U now config = Some s" and inv1: "registry_inv (registry s)"
    and active: "\<And>i. i \<in> set (map backend_id (cfg_backends config)) \<Longrightarrow>
      \<exists>t. registry_get (registry s) i = Some t \<and> slot_room 1 t \<and> st_mode (slot_state t) = Active"
    using from_config_active [OF assms, of U now] by blast
  have "registry_get (registry s) i \<noteq> None \<Longrightarrow> i \<in> set (map backend_id (cfg_backends config))" for i
    using from_config_inv [OF s] from_config_published [OF s]
    by (simp add: runtime_inv_def runtime_backends_def)
  then have live: "set (map snapshot_id (snapshots now (registry s))) = set (map backend_id (cfg_backends config))"
    unfolding snapshot_ids(1) [OF inv1] using active by fastforce
  have "\<exists>slots2. run_all (put_wanted now (hget modes)) (map snapshot_id (snapshots now (registry s))) (registry s) = Some slots2"
    using active slot_room_headroom snapshot_ids(2) [OF inv1] unfolding live [symmetric]
    by (intro put_all_total) fastforce+
  then obtain slots2 where put: "run_all (put_wanted now (hget modes))
      (map snapshot_id (snapshots now (registry s))) (registry s) = Some slots2" by blast
  have r: "restore_modes now modes s = Some (s\<lparr>registry := slots2\<rparr>)"
    using put by (simp add: restore_modes_def restore_one_wanted)
  have "\<exists>t. registry_get slots2 (backend_id b) = Some t \<and> st_mode (slot_state t) =
      (case hget modes (backend_id b) of Some m \<Rightarrow> m | None \<Rightarrow> Active)"
    if "b \<in> set (cfg_backends config)" for b
  proof -
    from that have i: "backend_id b \<in> set (map backend_id (cfg_backends config))" by simp
    from active [OF i] obtain u where u: "hget (registry s) (backend_id b) = Some u"
      "st_registered (slot_state u)" "st_mode (slot_state u) = Active" by (auto simp: registry_get_Some)
    from put_all_slot [OF put u(1)] i obtain t where "hget slots2 (backend_id b) = Some t"
      "tune (hget modes (backend_id b)) u t" unfolding live by auto
    with tune_effect [OF this(2)] u show ?thesis by (auto simp: registry_get_Some split: option.splits)
  qed
  with s r show ?thesis by auto
qed

theorem startup_modes_witness:
  "\<exists>s s'. from_config demo_uri_api 0 (demo_config [''a'']) = Some s \<and>
     restore_modes 0 [(''a'', Disabled)] s = Some s' \<and>
     (\<exists>t. registry_get (registry s') ''a'' = Some t \<and> st_mode (slot_state t) = Disabled)"
  using startup_modes [of "demo_config [''a'']" demo_uri_api 0 "[(''a'', Disabled)]"]
  by (auto simp: demo_config_def demo_backend_def)

end
