(* ===== verification/Live_Backend.thy ===== *)
theory Live_Backend
  imports Telemetry Runtime
begin

text \<open>
  The live view of one backend (\<open>src/src/routing.rs\<close>): readiness with its thresholds, the
  latest metrics observation with the serial numbers that order scrapes, the token rates
  and the circuit breaker with its permits. Every operation here is the body of a method
  of \<open>RoutingState\<close> after the entry of the backend has been looked up under the lock.
\<close>

subsection \<open>Data\<close>

definition CIRCUIT_FAILURE_THRESHOLD :: u32 where
  "CIRCUIT_FAILURE_THRESHOLD = 3"

definition CIRCUIT_OPEN_FOR :: duration where
  "CIRCUIT_OPEN_FOR = 10 * 1000000000"

datatype ReadinessState = Checking | Ready | Unready | Unreachable

fun display_readiness :: "ReadinessState \<Rightarrow> string" where
  "display_readiness Checking = ''checking''"
| "display_readiness Ready = ''ready''"
| "display_readiness Unready = ''unready''"
| "display_readiness Unreachable = ''unreachable''"

datatype TelemetryState = Fresh | Stale | TelemetryUnavailable

fun display_telemetry :: "TelemetryState \<Rightarrow> string" where
  "display_telemetry Fresh = ''fresh''"
| "display_telemetry Stale = ''stale''"
| "display_telemetry TelemetryUnavailable = ''unavailable''"

datatype CircuitState = CircuitClosed | CircuitOpen | CircuitHalfOpen

fun display_circuit :: "CircuitState \<Rightarrow> string" where
  "display_circuit CircuitClosed = ''closed''"
| "display_circuit CircuitOpen = ''open''"
| "display_circuit CircuitHalfOpen = ''half_open''"

datatype ReadinessFailureKind = FailedUnready | FailedUnreachable

record MetricsObservation =
  obs_metrics :: MistralRsMetrics
  obs_observed_at :: instant
  obs_dispatches :: u64
  obs_scrape_serial :: u64

record MetricsScrapeContext =
  scrape_serial :: u64
  scrape_dispatches :: u64
  scrape_observed_at :: instant

datatype Circuit = Closed | Open (until: instant) | HalfOpen (trial_in_flight: bool)

fun circuit_state :: "Circuit \<Rightarrow> instant \<Rightarrow> CircuitState" where
  "circuit_state Closed now = CircuitClosed"
| "circuit_state (Open t) now = (if t \<le> now then CircuitHalfOpen else CircuitOpen)"
| "circuit_state (HalfOpen trial) now = CircuitHalfOpen"

record LiveBackend =
  topology_generation :: u64
  readiness :: ReadinessState
  readiness_successes :: u32
  readiness_failures :: u32
  readiness_error :: "string option"
  readiness_checked_at :: "instant option"
  live_metrics :: "MetricsObservation option"
  metrics_error :: "string option"
  metrics_attempted_at :: "instant option"
  metrics_generation :: u64
  metrics_scrapes_started :: u64
  metrics_last_completed_scrape :: u64
  engine_idle_streak :: u64
  token_rate :: "f64 option"
  previous_token_counter :: "(f64 \<times> instant) option"
  prefill_token_rate :: "f64 option"
  previous_prefill_counter :: "(f64 \<times> instant) option"
  decode_token_rate :: "f64 option"
  previous_decode_counter :: "(f64 \<times> instant) option"
  circuit :: Circuit
  circuit_epoch :: u64
  consecutive_request_failures :: u32

definition live_new :: "u64 \<Rightarrow> LiveBackend" where
  "live_new generation =
     \<lparr>topology_generation = generation, readiness = Checking, readiness_successes = 0,
      readiness_failures = 0, readiness_error = None, readiness_checked_at = None,
      live_metrics = None, metrics_error = None, metrics_attempted_at = None,
      metrics_generation = 0, metrics_scrapes_started = 0, metrics_last_completed_scrape = 0,
      engine_idle_streak = 0, token_rate = None, previous_token_counter = None,
      prefill_token_rate = None, previous_prefill_counter = None, decode_token_rate = None,
      previous_decode_counter = None, circuit = Closed, circuit_epoch = 0,
      consecutive_request_failures = 0\<rparr>"

subsection \<open>Readiness\<close>

text \<open>The change reported to the worker: the old and the new state, when they differ.\<close>

definition readiness_change :: "LiveBackend \<Rightarrow> LiveBackend \<Rightarrow> (ReadinessState \<times> ReadinessState) option" where
  "readiness_change old new =
     (if readiness old \<noteq> readiness new then Some (readiness old, readiness new) else None)"

definition live_readiness_success :: "ReadinessConfig \<Rightarrow> instant \<Rightarrow> LiveBackend \<Rightarrow> LiveBackend" where
  "live_readiness_success config now live =
     (let n = saturating_add (readiness_successes live) 1 in
      live\<lparr>readiness_checked_at := Some now, readiness_error := None, readiness_failures := 0,
           readiness_successes := n,
           readiness := (if success_threshold config \<le> n then Ready else readiness live)\<rparr>)"

fun failed_state :: "ReadinessFailureKind \<Rightarrow> ReadinessState" where
  "failed_state FailedUnready = Unready"
| "failed_state FailedUnreachable = Unreachable"

definition live_readiness_failure ::
  "ReadinessConfig \<Rightarrow> instant \<Rightarrow> ReadinessFailureKind \<Rightarrow> string \<Rightarrow> LiveBackend \<Rightarrow> LiveBackend" where
  "live_readiness_failure config now kind error live =
     (let n = saturating_add (readiness_failures live) 1 in
      live\<lparr>readiness_checked_at := Some now, readiness_error := Some error,
           readiness_successes := 0, readiness_failures := n,
           readiness := (if failure_threshold config \<le> n then failed_state kind
                         else readiness live)\<rparr>)"

subsection \<open>Metrics\<close>

text \<open>\<open>Duration::as_secs_f64\<close>: whole seconds plus the fraction, each rounded.\<close>

definition as_secs_f64 :: "duration \<Rightarrow> f64" where
  "as_secs_f64 d =
     f64_add (to_f64 (of_nat (d div 1000000000)))
       (f64_div (to_f64 (of_nat (d mod 1000000000))) (Finite 1000000000))"

definition counter_rate ::
  "f64 \<Rightarrow> (f64 \<times> instant) option \<Rightarrow> instant \<Rightarrow> f64 option \<Rightarrow> f64 option" where
  "counter_rate current previous now old_rate =
     (case previous of
        None \<Rightarrow> None
      | Some (previous_value, since) \<Rightarrow>
          (let elapsed = as_secs_f64 (saturating_duration_since now since) in
           if f64_le elapsed (Finite 0) then old_rate
           else
             (let delta = (if f64_le previous_value current then f64_sub current previous_value
                           else current);
                  instant_rate = f64_div delta elapsed in
              Some (case old_rate of
                  Some old \<Rightarrow> f64_add (f64_mul old (to_f64 (8 / 10)))
                                     (f64_mul instant_rate (to_f64 (2 / 10)))
                | None \<Rightarrow> instant_rate))))"

text \<open>\<open>begin_metrics_scrape\<close>: \<open>dispatches\<close> and \<open>now\<close> were read before.\<close>

definition live_begin_scrape ::
  "u64 \<Rightarrow> instant \<Rightarrow> LiveBackend \<Rightarrow> (MetricsScrapeContext \<times> LiveBackend) option" where
  "live_begin_scrape dispatches now live =
     do { n \<leftarrow> checked_add (metrics_scrapes_started live) 1;
          Some (\<lparr>scrape_serial = n, scrape_dispatches = dispatches, scrape_observed_at = now\<rparr>,
                live\<lparr>metrics_scrapes_started := n\<rparr>) }"

text \<open>The three optional counters.\<close>

definition live_rates :: "instant \<Rightarrow> MistralRsMetrics \<Rightarrow> LiveBackend \<Rightarrow> LiveBackend" where
  "live_rates now metrics live =
     (let live = (case tokens_processed_total metrics of None \<Rightarrow> live
          | Some tokens \<Rightarrow>
              live\<lparr>token_rate := counter_rate tokens (previous_token_counter live) now (token_rate live),
                   previous_token_counter := Some (tokens, now)\<rparr>);
          live = (case prefill_tokens_processed_total metrics of None \<Rightarrow> live
          | Some tokens \<Rightarrow>
              live\<lparr>prefill_token_rate :=
                     counter_rate tokens (previous_prefill_counter live) now (prefill_token_rate live),
                   previous_prefill_counter := Some (tokens, now)\<rparr>) in
      case decode_tokens_processed_total metrics of None \<Rightarrow> live
          | Some tokens \<Rightarrow>
              live\<lparr>decode_token_rate :=
                     counter_rate tokens (previous_decode_counter live) now (decode_token_rate live),
                   previous_decode_counter := Some (tokens, now)\<rparr>)"

definition engine_idle :: "MistralRsMetrics \<Rightarrow> bool" where
  "engine_idle metrics \<longleftrightarrow> sequences_running metrics = 0 \<and> sequences_waiting metrics = 0"

definition live_metrics_success ::
  "instant \<Rightarrow> MistralRsMetrics \<Rightarrow> MetricsScrapeContext \<Rightarrow> LiveBackend \<Rightarrow> LiveBackend" where
  "live_metrics_success now metrics scrape live =
     (if scrape_serial scrape \<le> metrics_last_completed_scrape live then live
      else
        (let live = live_rates now metrics live in
         live\<lparr>live_metrics := Some \<lparr>obs_metrics = metrics, obs_observed_at = scrape_observed_at scrape,
                obs_dispatches = scrape_dispatches scrape, obs_scrape_serial = scrape_serial scrape\<rparr>,
              metrics_attempted_at := Some now,
              metrics_generation := metrics_generation live + 1,
              metrics_last_completed_scrape := scrape_serial scrape,
              engine_idle_streak := (if engine_idle metrics
                then saturating_add (engine_idle_streak live) 1 else 0),
              metrics_error := None\<rparr>))"

definition live_metrics_failure ::
  "instant \<Rightarrow> u64 \<Rightarrow> string \<Rightarrow> LiveBackend \<Rightarrow> LiveBackend" where
  "live_metrics_failure now scrape error live =
     (if scrape \<le> metrics_last_completed_scrape live then live
      else live\<lparr>metrics_last_completed_scrape := scrape, engine_idle_streak := 0,
                metrics_attempted_at := Some now, metrics_error := Some error\<rparr>)"

subsection \<open>The circuit breaker\<close>

datatype CircuitOutcome = Failure | Neutral

text \<open>
  A permit of the circuit and the observer of a response body. The routing state they
  point to is an argument of the operations.
\<close>

record CircuitPermit =
  permit_backend_id :: string
  permit_epoch :: u64
  permit_trial :: bool
  permit_resolved :: bool

record BodyFailureObserver =
  observer_backend_id :: string
  observer_epoch :: u64
  open_immediately :: bool

definition bump_circuit_epoch :: "LiveBackend \<Rightarrow> LiveBackend option" where
  "bump_circuit_epoch live =
     do { e \<leftarrow> checked_add (circuit_epoch live) 1; Some (live\<lparr>circuit_epoch := e\<rparr>) }"

text \<open>\<open>None\<close> is no permit.\<close>

definition live_permit :: "string \<Rightarrow> instant \<Rightarrow> LiveBackend \<Rightarrow> CircuitPermit option \<times> LiveBackend" where
  "live_permit i now live =
     (let permit = (\<lambda>trial. \<lparr>permit_backend_id = i, permit_epoch = circuit_epoch live,
                           permit_trial = trial, permit_resolved = False\<rparr>) in
      case circuit live of
        Closed \<Rightarrow> (Some (permit False), live)
      | Open t \<Rightarrow> if t \<le> now then (Some (permit True), live\<lparr>circuit := HalfOpen True\<rparr>)
                  else (None, live)
      | HalfOpen trial \<Rightarrow> if \<not> trial then (Some (permit True), live\<lparr>circuit := HalfOpen True\<rparr>)
                          else (None, live))"

definition open_circuit :: "instant \<Rightarrow> LiveBackend \<Rightarrow> LiveBackend option" where
  "open_circuit now live =
     do { live \<leftarrow> bump_circuit_epoch live; Some (live\<lparr>circuit := Open (now + CIRCUIT_OPEN_FOR)\<rparr>) }"

definition live_outcome ::
  "instant \<Rightarrow> u64 \<Rightarrow> bool \<Rightarrow> CircuitOutcome \<Rightarrow> LiveBackend \<Rightarrow> LiveBackend option" where
  "live_outcome now epoch trial outcome live =
     (if circuit_epoch live \<noteq> epoch then Some live
      else case outcome of
        Failure \<Rightarrow>
          if trial
          then open_circuit now (live\<lparr>consecutive_request_failures := CIRCUIT_FAILURE_THRESHOLD\<rparr>)
          else
            (let n = saturating_add (consecutive_request_failures live) 1;
                 live = live\<lparr>consecutive_request_failures := n\<rparr> in
             if CIRCUIT_FAILURE_THRESHOLD \<le> n then open_circuit now live else Some live)
      | Neutral \<Rightarrow> Some (if trial then live\<lparr>circuit := HalfOpen False\<rparr> else live))"

definition live_success ::
  "string \<Rightarrow> u64 \<Rightarrow> bool \<Rightarrow> LiveBackend \<Rightarrow> (BodyFailureObserver option \<times> LiveBackend) option" where
  "live_success i epoch trial live =
     (if circuit_epoch live \<noteq> epoch then Some (None, live)
      else do {
        let live = live\<lparr>consecutive_request_failures := 0\<rparr>;
        live \<leftarrow> (if trial then bump_circuit_epoch live else Some live);
        let live = live\<lparr>circuit := Closed\<rparr>;
        Some (Some \<lparr>observer_backend_id = i, observer_epoch = circuit_epoch live,
                    open_immediately = trial\<rparr>, live)
      })"

definition live_body_failure ::
  "instant \<Rightarrow> u64 \<Rightarrow> bool \<Rightarrow> LiveBackend \<Rightarrow> LiveBackend option" where
  "live_body_failure now epoch immediately live =
     (if circuit_epoch live \<noteq> epoch then Some live
      else
        (let n = (if immediately then CIRCUIT_FAILURE_THRESHOLD
                  else saturating_add (consecutive_request_failures live) 1);
             live = live\<lparr>consecutive_request_failures := n\<rparr> in
         if CIRCUIT_FAILURE_THRESHOLD \<le> n then open_circuit now live else Some live))"

subsection \<open>Properties: readiness\<close>

datatype probe = ProbeOk | ProbeFailed ReadinessFailureKind string

fun live_probe :: "ReadinessConfig \<Rightarrow> instant \<times> probe \<Rightarrow> LiveBackend \<Rightarrow> LiveBackend" where
  "live_probe config (now, ProbeOk) live = live_readiness_success config now live"
| "live_probe config (now, ProbeFailed kind error) live =
     live_readiness_failure config now kind error live"

definition live_probes :: "ReadinessConfig \<Rightarrow> u64 \<Rightarrow> (instant \<times> probe) list \<Rightarrow> LiveBackend" where
  "live_probes config generation ps = foldl (\<lambda>live p. live_probe config p live) (live_new generation) ps"

definition succeeded :: "instant \<times> probe \<Rightarrow> bool" where
  "succeeded p \<longleftrightarrow> snd p = ProbeOk"

text \<open>The last \<open>n\<close> results exist and all satisfy \<open>P\<close>.\<close>

definition last_all :: "nat \<Rightarrow> ('a \<Rightarrow> bool) \<Rightarrow> 'a list \<Rightarrow> bool" where
  "last_all n P xs \<longleftrightarrow> n \<le> length xs \<and> (\<forall>x \<in> set (take n (rev xs)). P x)"

text \<open>The length of the final run of results that satisfy \<open>P\<close>.\<close>

definition final_run :: "('a \<Rightarrow> bool) \<Rightarrow> 'a list \<Rightarrow> nat" where
  "final_run P xs = length (takeWhile P (rev xs))"

lemma final_run_snoc: "final_run P (xs @ [x]) = (if P x then Suc (final_run P xs) else 0)"
  by (simp add: final_run_def)

lemma final_run_Nil [simp]: "final_run P [] = 0"
  by (simp add: final_run_def)

lemma last_all_iff_run: "last_all n P xs \<longleftrightarrow> n \<le> final_run P xs"
proof -
  have "n \<le> length (takeWhile P ys) \<longleftrightarrow> n \<le> length ys \<and> (\<forall>x \<in> set (take n ys). P x)" for ys
  proof (induction n arbitrary: ys)
    case (Suc n)
    then show ?case by (cases ys) auto
  qed simp
  from this [of "rev xs"] show ?thesis by (simp add: last_all_def final_run_def)
qed

lemma saturating_count: "unat (saturating_add (w :: u32) 1) = min (Suc (unat w)) (2 ^ 32 - 1)"
  using unat_saturating_add [of w 1] by simp

lemma live_probes_snoc:
  "live_probes config g (ps @ [p]) = live_probe config p (live_probes config g ps)"
  by (simp add: live_probes_def)

text \<open>The two counters hold the lengths of the final runs, saturated.\<close>

lemma live_probes_counters:
  "unat (readiness_successes (live_probes config g ps)) = min (final_run succeeded ps) (2 ^ 32 - 1) \<and>
   unat (readiness_failures (live_probes config g ps)) =
     min (final_run (\<lambda>p. \<not> succeeded p) ps) (2 ^ 32 - 1)"
proof (induction ps rule: rev_induct)
  case Nil
  then show ?case by (simp add: live_probes_def live_new_def)
next
  case (snoc p ps)
  obtain now r where p: "p = (now, r)" by fastforce
  show ?case
    using snoc.IH p
    by (cases r)
      (simp_all add: live_probes_snoc final_run_snoc succeeded_def live_readiness_success_def Let_def
        live_readiness_failure_def saturating_count)
qed

lemma threshold_met: "(t :: u32) \<le> w \<Longrightarrow> unat w = min n (2 ^ 32 - 1) \<Longrightarrow> unat t \<le> n"
  by (simp add: word_le_nat_alt)

lemma threshold_reached:
  assumes "unat (w :: u32) = min n (2 ^ 32 - 1)" and "unat (t :: u32) \<le> n"
  shows "t \<le> w"
proof -
  have "unat t < 2 ^ LENGTH(32)" by (rule unsigned_less)
  with assms show ?thesis by (simp add: word_le_nat_alt)
qed

lemma live_probes_step:
  "readiness (live_probes config g (ps @ [(now, r)])) =
     (case r of
        ProbeOk \<Rightarrow>
          if last_all (unat (success_threshold config)) succeeded (ps @ [(now, r)]) then Ready
          else readiness (live_probes config g ps)
      | ProbeFailed kind error \<Rightarrow>
          if last_all (unat (failure_threshold config)) (\<lambda>p. \<not> succeeded p) (ps @ [(now, r)])
          then failed_state kind else readiness (live_probes config g ps))"
proof -
  let ?l = "live_probes config g ps" and ?l' = "live_probes config g (ps @ [(now, r)])"
  note counters = live_probes_counters [of config g "ps @ [(now, r)]"]
  show ?thesis
  proof (cases r)
    case ProbeOk
    have "success_threshold config \<le> readiness_successes ?l' \<longleftrightarrow>
        last_all (unat (success_threshold config)) succeeded (ps @ [(now, r)])"
      unfolding last_all_iff_run
      using counters threshold_met threshold_reached by blast
    then show ?thesis
      using ProbeOk by (simp add: live_probes_snoc live_readiness_success_def Let_def)
  next
    case (ProbeFailed kind error)
    have "failure_threshold config \<le> readiness_failures ?l' \<longleftrightarrow>
        last_all (unat (failure_threshold config)) (\<lambda>p. \<not> succeeded p) (ps @ [(now, r)])"
      unfolding last_all_iff_run
      using counters threshold_met threshold_reached by blast
    then show ?thesis
      using ProbeFailed by (simp add: live_probes_snoc live_readiness_failure_def Let_def)
  qed
qed

text \<open>
  C11. Readiness has hysteresis, whatever the history of probes since the backend appeared.
  As soon as the last \<open>success_threshold\<close> probes all succeeded the backend is ready; as
  soon as the last \<open>failure_threshold\<close> probes all failed it is unready or unreachable,
  whichever the last failure was. No other probe changes the state, and counters that
  saturate at the top of \<open>u32\<close> never make a difference.
\<close>

theorem readiness_hysteresis:
  "(case r of
      ProbeOk \<Rightarrow>
        readiness (live_probes config g (ps @ [(now, r)])) =
          (if last_all (unat (success_threshold config)) succeeded (ps @ [(now, r)]) then Ready
           else readiness (live_probes config g ps))
    | ProbeFailed kind error \<Rightarrow>
        readiness (live_probes config g (ps @ [(now, r)])) =
          (if last_all (unat (failure_threshold config)) (\<lambda>p. \<not> succeeded p) (ps @ [(now, r)])
           then failed_state kind else readiness (live_probes config g ps)))
   \<and> readiness (live_probes config g []) = Checking"
  using live_probes_step [of config g ps now r]
  by (cases r) (simp_all add: live_probes_def live_new_def)

subsection \<open>Properties: scrapes\<close>

text \<open>
  The telemetry worker on one backend: a scrape is begun, its result is recorded, the next
  one is begun. \<open>scraping live results pending\<close> relates the live view to the results recorded
  since the backend appeared, with their serials, and the scrape in flight. Other calls do
  not touch what scrapes are about; late results of another scrape may arrive at any time.
\<close>

datatype scrape_result = Scraped MistralRsMetrics | ScrapeFailed string

definition scrape_view :: "LiveBackend \<Rightarrow> u64 \<times> u64 \<times> u64 \<times> MetricsObservation option" where
  "scrape_view live =
     (metrics_scrapes_started live, metrics_last_completed_scrape live, engine_idle_streak live,
      live_metrics live)"

inductive scraping ::
  "LiveBackend \<Rightarrow> (u64 \<times> scrape_result) list \<Rightarrow> MetricsScrapeContext option \<Rightarrow> bool" where
  appear: "scraping (live_new g) [] None"
| started: "scraping live results None \<Longrightarrow> live_begin_scrape d now live = Some (ctx, live') \<Longrightarrow>
    scraping live' results (Some ctx)"
| scraped: "scraping live results (Some ctx) \<Longrightarrow>
    scraping (live_metrics_success now m ctx live) (results @ [(scrape_serial ctx, Scraped m)]) None"
| failed: "scraping live results (Some ctx) \<Longrightarrow>
    scraping (live_metrics_failure now (scrape_serial ctx) error live)
      (results @ [(scrape_serial ctx, ScrapeFailed error)]) None"
| late_scraped: "scraping live results c \<Longrightarrow> scrape_serial ctx \<in> fst ` set results \<Longrightarrow>
    scraping (live_metrics_success now m ctx live) results c"
| late_failed: "scraping live results c \<Longrightarrow> n \<in> fst ` set results \<Longrightarrow>
    scraping (live_metrics_failure now n error live) results c"
| other: "scraping live results c \<Longrightarrow> scrape_view live' = scrape_view live \<Longrightarrow> scraping live' results c"

inductive_simps scraping_start_simps: "scraping live [] None"

lemma other_calls_keep_scrapes:
  "scrape_view (live_readiness_success config now live) = scrape_view live"
  "scrape_view (live_readiness_failure config now kind error live) = scrape_view live"
  "scrape_view (snd (live_permit i now live)) = scrape_view live"
  "live_outcome now e trial outcome live = Some live' \<Longrightarrow> scrape_view live' = scrape_view live"
  "live_success i e trial live = Some (ob, live') \<Longrightarrow> scrape_view live' = scrape_view live"
  "live_body_failure now e immediately live = Some live' \<Longrightarrow> scrape_view live' = scrape_view live"
  by (auto simp: scrape_view_def live_readiness_success_def live_readiness_failure_def Let_def
      live_permit_def live_outcome_def live_success_def live_body_failure_def open_circuit_def
      bump_circuit_epoch_def
      split: Circuit.splits CircuitOutcome.splits if_splits bind_splits)

lemma live_rates_keep:
  "scrape_view (live_rates now m live) = scrape_view live"
  by (simp add: live_rates_def scrape_view_def Let_def split: option.split)

fun idle_result :: "u64 \<times> scrape_result \<Rightarrow> bool" where
  "idle_result (n, Scraped m) = engine_idle m"
| "idle_result (n, ScrapeFailed e) = False"

text \<open>The serials recorded are 1, 2, and so on.\<close>

definition numbered :: "(u64 \<times> scrape_result) list \<Rightarrow> bool" where
  "numbered results \<longleftrightarrow> map (\<lambda>(n, r). unat n) results = [1 ..< Suc (length results)]"

text \<open>The last successful result, as the observation keeps it.\<close>

definition observed :: "(u64 \<times> scrape_result) list \<Rightarrow> (u64 \<times> MistralRsMetrics) option" where
  "observed results = (case filter (\<lambda>(n, r). \<exists>m. r = Scraped m) (rev results) of
      (n, Scraped m) # _ \<Rightarrow> Some (n, m) | _ \<Rightarrow> None)"

definition scrape_inv ::
  "LiveBackend \<Rightarrow> (u64 \<times> scrape_result) list \<Rightarrow> MetricsScrapeContext option \<Rightarrow> bool" where
  "scrape_inv live results c \<longleftrightarrow> numbered results \<and>
     unat (metrics_last_completed_scrape live) = length results \<and>
     (case c of
        None \<Rightarrow> unat (metrics_scrapes_started live) = length results
      | Some ctx \<Rightarrow> unat (metrics_scrapes_started live) = Suc (length results) \<and>
                    scrape_serial ctx = metrics_scrapes_started live) \<and>
     unat (engine_idle_streak live) = final_run idle_result results \<and>
     map_option (\<lambda>ob. (obs_scrape_serial ob, obs_metrics ob)) (live_metrics live) = observed results"

lemma scrape_inv_view:
  "scrape_view live' = scrape_view live \<Longrightarrow> scrape_inv live' results c = scrape_inv live results c"
  by (auto simp: scrape_inv_def scrape_view_def split: option.split)

lemma final_run_le: "final_run P xs \<le> length xs"
  unfolding final_run_def by (metis length_rev length_takeWhile_le)

lemma numbered_snoc:
  "numbered results \<Longrightarrow> unat n = Suc (length results) \<Longrightarrow> numbered (results @ [(n, r)])"
  by (simp add: numbered_def)

lemma observed_snoc:
  "observed (results @ [(n, Scraped m)]) = Some (n, m)"
  "observed (results @ [(n, ScrapeFailed e)]) = observed results"
  by (simp_all add: observed_def)

lemma streak_bump:
  assumes "unat (w :: u64) = final_run P xs" and "length xs < 2 ^ 64 - 1"
  shows "unat (saturating_add w 1) = Suc (final_run P xs)"
  using assms final_run_le [of P xs] unat_saturating_add [of w 1] by simp

lemma scrape_inv_success:
  assumes "scrape_inv live results (Some ctx)"
  shows "scrape_inv (live_metrics_success now m ctx live) (results @ [(scrape_serial ctx, Scraped m)]) None"
proof -
  have serial: "unat (scrape_serial ctx) = Suc (length results)"
    "metrics_scrapes_started live = scrape_serial ctx"
    using assms by (auto simp: scrape_inv_def)
  have "unat (scrape_serial ctx) < 2 ^ LENGTH(64)" by (rule unsigned_less)
  with serial have short: "length results < 2 ^ 64 - 1" by simp
  have fresh: "\<not> scrape_serial ctx \<le> metrics_last_completed_scrape live"
    using assms serial by (auto simp: scrape_inv_def word_le_nat_alt)
  have rates: "metrics_scrapes_started (live_rates now m live) = metrics_scrapes_started live"
    "engine_idle_streak (live_rates now m live) = engine_idle_streak live"
    using live_rates_keep [of now m live] by (simp_all add: scrape_view_def)
  have "numbered (results @ [(scrape_serial ctx, Scraped m)])"
    using assms serial by (intro numbered_snoc) (simp_all add: scrape_inv_def)
  moreover have "unat (if engine_idle m then saturating_add (engine_idle_streak live) 1 else 0) =
      final_run idle_result (results @ [(scrape_serial ctx, Scraped m)])"
    using assms streak_bump [OF _ short] by (simp add: scrape_inv_def final_run_snoc)
  ultimately show ?thesis
    using serial fresh unfolding scrape_inv_def live_metrics_success_def Let_def
    by (auto simp: rates observed_snoc split: if_splits)
qed

lemma scrape_inv_failure:
  assumes "scrape_inv live results (Some ctx)"
  shows "scrape_inv (live_metrics_failure now (scrape_serial ctx) e live)
    (results @ [(scrape_serial ctx, ScrapeFailed e)]) None"
proof -
  have serial: "unat (scrape_serial ctx) = Suc (length results)"
    "metrics_scrapes_started live = scrape_serial ctx"
    using assms by (auto simp: scrape_inv_def)
  have fresh: "\<not> scrape_serial ctx \<le> metrics_last_completed_scrape live"
    using assms serial by (auto simp: scrape_inv_def word_le_nat_alt)
  have "numbered (results @ [(scrape_serial ctx, ScrapeFailed e)])"
    using assms serial by (intro numbered_snoc) (simp_all add: scrape_inv_def)
  with assms serial fresh show ?thesis
    by (simp add: scrape_inv_def live_metrics_failure_def final_run_snoc observed_snoc)
qed

lemma scrape_inv_late:
  assumes "scrape_inv live results c" and "n \<in> fst ` set results"
  shows "n \<le> metrics_last_completed_scrape live"
proof -
  from assms(2) have "unat n \<in> set (map (\<lambda>(n, r). unat n) results)" by force
  with assms(1) show ?thesis
    by (auto simp: scrape_inv_def numbered_def word_le_nat_alt simp del: set_map)
qed

lemma scraping_inv: "scraping live results c \<Longrightarrow> scrape_inv live results c"
proof (induction rule: scraping.induct)
  case (appear g)
  then show ?case by (simp add: scrape_inv_def live_new_def numbered_def observed_def)
next
  case (started live results d now ctx live')
  then show ?case
    by (auto simp: scrape_inv_def live_begin_scrape_def split: bind_splits dest: checked_add_Some_unat)
next
  case (scraped live results ctx now m)
  then show ?case by (simp add: scrape_inv_success)
next
  case (failed live results ctx now error)
  then show ?case by (simp add: scrape_inv_failure)
next
  case (late_scraped live results c ctx now m)
  from scrape_inv_late [OF late_scraped.IH late_scraped.hyps(2)] late_scraped.IH show ?case
    by (simp add: live_metrics_success_def)
next
  case (late_failed live results c n now error)
  from scrape_inv_late [OF late_failed.IH late_failed.hyps(2)] late_failed.IH show ?case
    by (simp add: live_metrics_failure_def)
next
  case (other live results c live')
  from scrape_inv_view [OF other.hyps(2)] other.IH show ?case by blast
qed

text \<open>\<open>metrics_observation_serial\<close> of a status, and the confirmations a drain counts.\<close>

definition observation_serial :: "LiveBackend \<Rightarrow> u64" where
  "observation_serial live = (case live_metrics live of None \<Rightarrow> 0 | Some ob \<Rightarrow> obs_scrape_serial ob)"

definition idle_samples :: "u64 \<Rightarrow> u64 \<Rightarrow> u64 \<Rightarrow> u64" where
  "idle_samples streak latest started_at_start = min streak (saturating_sub latest started_at_start)"

lemma final_run_two:
  assumes "2 \<le> final_run P xs"
  shows "\<exists>ys a b. xs = ys @ [a, b] \<and> P a \<and> P b"
proof -
  have l: "last_all 2 P xs" using assms by (simp add: last_all_iff_run)
  then obtain b a zs where z: "rev xs = b # a # zs"
    by (cases "rev xs"; cases "tl (rev xs)") (auto simp: last_all_def)
  then have "xs = rev zs @ [a, b]" by (metis append_Cons append_Nil append_assoc rev.simps(2) rev_rev_ident)
  with l z show ?thesis by (auto simp: last_all_def)
qed

lemma idle_samples_two:
  "2 \<le> idle_samples streak latest start \<Longrightarrow> 2 \<le> unat streak \<and> unat start + 2 \<le> unat latest"
  by (auto simp: idle_samples_def min_def word_le_nat_alt unat_saturating_sub split: if_splits)

text \<open>
  The idle confirmation a drain waits for is real. When the idle streak and the
  serial of the latest observation give two idle samples after the number of scrapes that
  had been started when the drain began, the two latest results are consecutive scrapes,
  both begun after that point, and both reported no running and no waiting sequence; no
  scrape failed in between, and a late result of an older scrape was not counted.
\<close>

theorem idle_samples_confirmed:
  assumes "scraping live results pending"
    and "2 \<le> idle_samples (engine_idle_streak live) (observation_serial live) start"
  shows "\<exists>earlier n m1 m2. results = earlier @ [(n, Scraped m1), (n + 1, Scraped m2)] \<and>
    engine_idle m1 \<and> engine_idle m2 \<and> start < n \<and>
    map_option obs_metrics (live_metrics live) = Some m2"
proof -
  note inv = scraping_inv [OF assms(1)]
  note two = idle_samples_two [OF assms(2)]
  have "2 \<le> final_run idle_result results" using inv two by (simp add: scrape_inv_def)
  then obtain ys a b where ab: "results = ys @ [a, b]" "idle_result a" "idle_result b"
    using final_run_two by blast
  then obtain n m1 n' m2 where a: "a = (n, Scraped m1)" "engine_idle m1"
    and b: "b = (n', Scraped m2)" "engine_idle m2"
    by (metis idle_result.elims(2))
  have num: "unat n = Suc (length ys)" "unat n' = Suc (Suc (length ys))"
    using inv ab(1) a(1) b(1) by (auto simp: scrape_inv_def numbered_def)
  have "unat (n + 1) = unat n'"
  proof -
    have "unat n' < 2 ^ LENGTH(64)" by (rule unsigned_less)
    with num have "checked_add n 1 = Some (n + 1)" by (intro checked_add_eq_Some) simp
    from checked_add_Some_unat [OF this] num show ?thesis by simp
  qed
  then have follows: "n' = n + 1" by (simp add: word_unat_eq_iff)
  have "observed results = Some (n', m2)"
    using ab(1) a b observed_snoc(1) [of "ys @ [a]"] by simp
  with inv have ob: "map_option (\<lambda>ob. (obs_scrape_serial ob, obs_metrics ob)) (live_metrics live) =
      Some (n', m2)" by (simp add: scrape_inv_def)
  then have "observation_serial live = n'" by (auto simp: observation_serial_def)
  with two num have "start < n" by (simp add: word_less_nat_alt)
  with ab a b ob follows show ?thesis by auto
qed

definition demo_idle :: MistralRsMetrics where
  "demo_idle =
     \<lparr>sequences_running = 0, sequences_waiting = 0, sequences_capacity = None, kv_cache = None,
      tokens_processed_total = None, prefill_tokens_processed_total = None,
      decode_tokens_processed_total = None, sequences_completed_total = None\<rparr>"

definition demo_scrape :: "u64 \<Rightarrow> LiveBackend \<Rightarrow> LiveBackend" where
  "demo_scrape n live = live_metrics_success 0 demo_idle
     \<lparr>scrape_serial = n, scrape_dispatches = 0, scrape_observed_at = 0\<rparr>
     (live\<lparr>metrics_scrapes_started := n\<rparr>)"

lemma demo_scraping:
  "scraping (demo_scrape 2 (demo_scrape 1 (live_new 1))) [(1, Scraped demo_idle), (2, Scraped demo_idle)] None"
proof -
  have step: "scraping (demo_scrape n live) (results @ [(n, Scraped demo_idle)]) None"
    if "scraping live results None" "checked_add (metrics_scrapes_started live) 1 = Some n"
    for live results n
    using scraping.scraped [OF scraping.started [OF that(1)], of 0 0, where now = 0 and m = demo_idle] that(2)
    by (simp add: live_begin_scrape_def demo_scrape_def)
  have "scraping (demo_scrape 1 (live_new 1)) ([] @ [(1, Scraped demo_idle)]) None"
    by (rule step [OF scraping.appear]) (simp add: live_new_def checked_add_def)
  moreover have "checked_add (metrics_scrapes_started (demo_scrape 1 (live_new 1))) 1 = Some 2"
    by (simp add: demo_scrape_def live_metrics_success_def Let_def live_rates_def demo_idle_def
        live_new_def checked_add_def)
  ultimately show ?thesis using step by fastforce
qed

theorem idle_samples_confirmed_witness:
  "2 \<le> idle_samples 2 2 0 \<and> (\<exists>earlier n m1 m2.
     [(1 :: u64, Scraped demo_idle), (2, Scraped demo_idle)] = earlier @ [(n, Scraped m1), (n + 1, Scraped m2)] \<and>
     engine_idle m1 \<and> engine_idle m2 \<and> 0 < n)"
proof -
  have "2 \<le> idle_samples (engine_idle_streak (demo_scrape 2 (demo_scrape 1 (live_new 1))))
      (observation_serial (demo_scrape 2 (demo_scrape 1 (live_new 1)))) 0"
    by (simp add: demo_scrape_def live_metrics_success_def Let_def live_rates_def demo_idle_def
        live_new_def engine_idle_def observation_serial_def idle_samples_def saturating_add_def
        saturating_sub_def)
  from idle_samples_confirmed [OF demo_scraping this] show ?thesis
    by (auto simp: idle_samples_def saturating_sub_def word_less_nat_alt)
qed

subsection \<open>Properties: the circuit breaker\<close>

text \<open>
  The breaker of one backend with the permits and body observers that are outstanding.
  Each call of a request acts on a permit or an observer it holds; requests interleave
  freely, and any of them may be overtaken by others. A resolved permit is gone; a permit
  that is dropped unresolved reports \<open>Neutral\<close>.
\<close>

record breaker =
  br_live :: LiveBackend
  br_permits :: "CircuitPermit multiset"
  br_observers :: "BodyFailureObserver multiset"

inductive breaker_step :: "breaker \<Rightarrow> breaker \<Rightarrow> bool" where
  permit: "live_permit i now (br_live b) = (Some p, live') \<Longrightarrow>
    breaker_step b (b\<lparr>br_live := live', br_permits := add_mset p (br_permits b)\<rparr>)"
| outcome: "p \<in># br_permits b \<Longrightarrow>
    live_outcome now (permit_epoch p) (permit_trial p) r (br_live b) = Some live' \<Longrightarrow>
    breaker_step b (b\<lparr>br_live := live', br_permits := br_permits b - {#p#}\<rparr>)"
| success: "p \<in># br_permits b \<Longrightarrow>
    live_success i (permit_epoch p) (permit_trial p) (br_live b) = Some (ob, live') \<Longrightarrow>
    breaker_step b (b\<lparr>br_live := live', br_permits := br_permits b - {#p#},
      br_observers := (case ob of None \<Rightarrow> br_observers b | Some ob \<Rightarrow> add_mset ob (br_observers b))\<rparr>)"
| body_failed: "ob \<in># br_observers b \<Longrightarrow>
    live_body_failure now (observer_epoch ob) (open_immediately ob) (br_live b) = Some live' \<Longrightarrow>
    breaker_step b (b\<lparr>br_live := live', br_observers := br_observers b - {#ob#}\<rparr>)"
| body_ended: "ob \<in># br_observers b \<Longrightarrow>
    breaker_step b (b\<lparr>br_observers := br_observers b - {#ob#}\<rparr>)"

inductive_cases breaker_stepE: "breaker_step b b'"

inductive breaker_reachable :: "u64 \<Rightarrow> breaker \<Rightarrow> bool" for g where
  initial: "breaker_reachable g \<lparr>br_live = live_new g, br_permits = {#}, br_observers = {#}\<rparr>"
| step: "breaker_reachable g b \<Longrightarrow> breaker_step b b' \<Longrightarrow> breaker_reachable g b'"

text \<open>The unresolved trial permits of the current epoch.\<close>

definition current_trials :: "breaker \<Rightarrow> CircuitPermit multiset" where
  "current_trials b =
     filter_mset (\<lambda>p. permit_trial p \<and> permit_epoch p = circuit_epoch (br_live b)) (br_permits b)"

definition breaker_inv :: "breaker \<Rightarrow> bool" where
  "breaker_inv b \<longleftrightarrow>
     (\<forall>p \<in># br_permits b. permit_epoch p \<le> circuit_epoch (br_live b)) \<and>
     (\<forall>ob \<in># br_observers b. observer_epoch ob \<le> circuit_epoch (br_live b)) \<and>
     (circuit (br_live b) \<noteq> Closed \<longrightarrow>
        (\<forall>p \<in># br_permits b. permit_epoch p = circuit_epoch (br_live b) \<longrightarrow> permit_trial p) \<and>
        (\<forall>ob \<in># br_observers b. observer_epoch ob < circuit_epoch (br_live b))) \<and>
     size (current_trials b) = (if circuit (br_live b) = HalfOpen True then 1 else 0) \<and>
     (circuit (br_live b) = Closed \<longrightarrow> consecutive_request_failures (br_live b) < CIRCUIT_FAILURE_THRESHOLD)"

lemma open_circuit_Some:
  "open_circuit now live = Some live' \<Longrightarrow>
     circuit live' = Open (now + CIRCUIT_OPEN_FOR) \<and> circuit_epoch live < circuit_epoch live' \<and>
     unat (circuit_epoch live') = unat (circuit_epoch live) + 1"
  by (auto simp: open_circuit_def bump_circuit_epoch_def split: bind_splits
      dest: checked_add_one_less checked_add_Some_unat)

text \<open>Opening from any state, whatever permits and observers remain.\<close>

lemma breaker_inv_opened:
  assumes "breaker_inv b" and "circuit_epoch (br_live b) < circuit_epoch live'"
    and "circuit live' = Open t" and "ps \<subseteq># br_permits b" and "obs \<subseteq># br_observers b"
  shows "breaker_inv \<lparr>br_live = live', br_permits = ps, br_observers = obs\<rparr>"
proof -
  have p: "\<forall>p \<in># ps. permit_epoch p < circuit_epoch live'"
    using assms(1,2,4) unfolding breaker_inv_def by (meson le_less_trans mset_subset_eqD)
  have ob: "\<forall>x \<in># obs. observer_epoch x < circuit_epoch live'"
    using assms(1,2,5) unfolding breaker_inv_def by (meson le_less_trans mset_subset_eqD)
  have "filter_mset (\<lambda>p. permit_trial p \<and> permit_epoch p = circuit_epoch live') ps = {#}"
    using p by auto
  with p ob assms(3) show ?thesis
    by (auto simp: breaker_inv_def current_trials_def)
qed

text \<open>
  Removing permits and observers that are not current keeps the invariant, and so does
  counting a failure on a closed circuit.
\<close>

lemma breaker_inv_removed:
  assumes "breaker_inv b" and "p \<in># br_permits b" and "p \<notin># current_trials b"
  shows "breaker_inv (b\<lparr>br_permits := br_permits b - {#p#}\<rparr>)"
proof -
  have "current_trials (b\<lparr>br_permits := br_permits b - {#p#}\<rparr>) = current_trials b"
    using assms(2,3) by (auto simp: current_trials_def)
  with assms(1) show ?thesis by (auto simp: breaker_inv_def dest: in_diffD)
qed

lemma breaker_inv_observed:
  "breaker_inv b \<Longrightarrow> breaker_inv (b\<lparr>br_observers := br_observers b - {#ob#}\<rparr>)"
  by (auto simp: breaker_inv_def current_trials_def dest: in_diffD)

lemma breaker_inv_counted:
  assumes "breaker_inv b" and "circuit (br_live b) = Closed" and "n < CIRCUIT_FAILURE_THRESHOLD"
  shows "breaker_inv (b\<lparr>br_live := (br_live b)\<lparr>consecutive_request_failures := n\<rparr>\<rparr>)"
  using assms by (auto simp: breaker_inv_def current_trials_def)

lemma current_needs_closed:
  assumes "breaker_inv b"
  shows "p \<in># br_permits b \<Longrightarrow> permit_epoch p = circuit_epoch (br_live b) \<Longrightarrow> \<not> permit_trial p \<Longrightarrow>
      circuit (br_live b) = Closed"
    and "ob \<in># br_observers b \<Longrightarrow> observer_epoch ob = circuit_epoch (br_live b) \<Longrightarrow>
      circuit (br_live b) = Closed"
  using assms unfolding breaker_inv_def by (blast, metis less_irrefl)

lemma current_trial_half_open:
  assumes "breaker_inv b" and "p \<in># br_permits b" and "permit_trial p"
    and "permit_epoch p = circuit_epoch (br_live b)"
  shows "circuit (br_live b) = HalfOpen True" and "current_trials b = {#p#}"
proof -
  have p: "p \<in># current_trials b" using assms by (simp add: current_trials_def)
  with assms(1) show "circuit (br_live b) = HalfOpen True"
    by (auto simp: breaker_inv_def split: if_splits)
  with assms(1) have "size (current_trials b) = 1" by (simp add: breaker_inv_def)
  then obtain q where "current_trials b = {#q#}" using size_1_singleton_mset by blast
  with p show "current_trials b = {#p#}" by simp
qed

lemma live_permit_Some:
  assumes "live_permit i now live = (Some p, live')"
  shows "permit_epoch p = circuit_epoch live \<and> circuit_epoch live' = circuit_epoch live \<and>
    (if circuit live = Closed then \<not> permit_trial p \<and> live' = live
     else permit_trial p \<and> circuit live' = HalfOpen True \<and> circuit live \<noteq> HalfOpen True)"
  using assms by (auto simp: live_permit_def Let_def split: Circuit.splits if_splits)

lemma breaker_inv_permit:
  assumes "breaker_inv b" and "live_permit i now (br_live b) = (Some p, live')"
  shows "breaker_inv (b\<lparr>br_live := live', br_permits := add_mset p (br_permits b)\<rparr>)"
proof (cases "circuit (br_live b) = Closed")
  case True
  with assms(1) live_permit_Some [OF assms(2)] show ?thesis
    by (simp add: breaker_inv_def current_trials_def)
next
  case False
  with live_permit_Some [OF assms(2)] have p: "permit_epoch p = circuit_epoch (br_live b)"
    "circuit_epoch live' = circuit_epoch (br_live b)" "permit_trial p"
    "circuit live' = HalfOpen True" "circuit (br_live b) \<noteq> HalfOpen True" by simp_all
  let ?b = "b\<lparr>br_live := live', br_permits := add_mset p (br_permits b)\<rparr>"
  have "current_trials b = {#}" using assms(1) p(5) by (simp add: breaker_inv_def)
  then have "current_trials ?b = {#p#}"
    unfolding current_trials_def using p(1-3) by simp
  then have one: "size (current_trials ?b) = 1" by simp
  have "\<forall>q \<in># br_permits ?b. permit_epoch q \<le> circuit_epoch (br_live ?b)"
    "\<forall>q \<in># br_permits ?b. permit_epoch q = circuit_epoch (br_live ?b) \<longrightarrow> permit_trial q"
    "\<forall>x \<in># br_observers ?b. observer_epoch x < circuit_epoch (br_live ?b)"
    using assms(1) p(1-3) False by (auto simp: breaker_inv_def)
  with one p(4) show ?thesis by (auto simp: breaker_inv_def intro: less_imp_le)
qed

lemma breaker_inv_outcome:
  assumes "breaker_inv b" and "p \<in># br_permits b"
    and "live_outcome now (permit_epoch p) (permit_trial p) r (br_live b) = Some live'"
  shows "breaker_inv (b\<lparr>br_live := live', br_permits := br_permits b - {#p#}\<rparr>)"
proof (cases "permit_epoch p = circuit_epoch (br_live b)")
  case False
  then have "live' = br_live b" "p \<notin># current_trials b"
    using assms(3) by (auto simp: live_outcome_def current_trials_def)
  with breaker_inv_removed [OF assms(1,2)] show ?thesis by simp
next
  case cur: True
  show ?thesis
  proof (cases "permit_trial p")
    case True
    note half = current_trial_half_open [OF assms(1,2) True cur]
    show ?thesis
    proof (cases r)
      case Failure
      with assms(3) cur True have "open_circuit now
          ((br_live b)\<lparr>consecutive_request_failures := CIRCUIT_FAILURE_THRESHOLD\<rparr>) = Some live'"
        by (simp add: live_outcome_def)
      from open_circuit_Some [OF this]
        breaker_inv_opened [OF assms(1), of live' _ "br_permits b - {#p#}" "br_observers b"]
      show ?thesis by (cases b) auto
    next
      case Neutral
      with assms(3) cur True have "live' = (br_live b)\<lparr>circuit := HalfOpen False\<rparr>"
        by (simp add: live_outcome_def)
      moreover have "filter_mset (\<lambda>q. permit_trial q \<and> permit_epoch q = circuit_epoch (br_live b))
          (br_permits b - {#p#}) = {#}"
        using half(2) cur True by (simp add: current_trials_def filter_diff_mset del: filter_mset_eq_mempty_iff)
      ultimately show ?thesis
        using assms(1) half(1) by (auto simp: breaker_inv_def current_trials_def dest: in_diffD)
    qed
  next
    case False
    then have nt: "p \<notin># current_trials b" by (simp add: current_trials_def)
    note closed = current_needs_closed(1) [OF assms(1,2) cur False]
    note rm = breaker_inv_removed [OF assms(1,2) nt]
    show ?thesis
    proof (cases r)
      case Neutral
      with assms(3) False rm show ?thesis by (auto simp: live_outcome_def split: if_splits)
    next
      case Failure
      let ?n = "saturating_add (consecutive_request_failures (br_live b)) 1"
      show ?thesis
      proof (cases "CIRCUIT_FAILURE_THRESHOLD \<le> ?n")
        case True
        with assms(3) cur False Failure have
          "open_circuit now ((br_live b)\<lparr>consecutive_request_failures := ?n\<rparr>) = Some live'"
          by (simp add: live_outcome_def Let_def)
        from open_circuit_Some [OF this]
          breaker_inv_opened [OF assms(1), of live' _ "br_permits b - {#p#}" "br_observers b"]
        show ?thesis by (cases b) auto
      next
        case few: False
        with assms(3) cur False Failure have "live' = (br_live b)\<lparr>consecutive_request_failures := ?n\<rparr>"
          by (simp add: live_outcome_def Let_def)
        with breaker_inv_counted [OF rm, of ?n] closed few show ?thesis by (cases b) auto
      qed
    qed
  qed
qed

lemma breaker_inv_success:
  assumes "breaker_inv b" and "p \<in># br_permits b"
    and "live_success i (permit_epoch p) (permit_trial p) (br_live b) = Some (ob, live')"
  shows "breaker_inv (b\<lparr>br_live := live', br_permits := br_permits b - {#p#},
    br_observers := (case ob of None \<Rightarrow> br_observers b | Some ob \<Rightarrow> add_mset ob (br_observers b))\<rparr>)"
proof (cases "permit_epoch p = circuit_epoch (br_live b)")
  case False
  then have "live' = br_live b" "ob = None" "p \<notin># current_trials b"
    using assms(3) by (auto simp: live_success_def current_trials_def)
  with breaker_inv_removed [OF assms(1,2)] show ?thesis by simp
next
  case cur: True
  show ?thesis
  proof (cases "permit_trial p")
    case False
    then have nt: "p \<notin># current_trials b" by (simp add: current_trials_def)
    note closed = current_needs_closed(1) [OF assms(1,2) cur False]
    from assms(3) cur False have "ob = Some \<lparr>observer_backend_id = i,
        observer_epoch = circuit_epoch (br_live b), open_immediately = False\<rparr>"
      "live' = (br_live b)\<lparr>consecutive_request_failures := 0, circuit := Closed\<rparr>"
      by (auto simp: live_success_def Let_def)
    with breaker_inv_removed [OF assms(1,2) nt] closed show ?thesis
      by (auto simp: breaker_inv_def current_trials_def CIRCUIT_FAILURE_THRESHOLD_def)
  next
    case True
    from assms(3) cur True obtain e where e: "checked_add (circuit_epoch (br_live b)) 1 = Some e"
      and "ob = Some \<lparr>observer_backend_id = i, observer_epoch = e, open_immediately = True\<rparr>"
      "live' = (br_live b)\<lparr>consecutive_request_failures := 0, circuit_epoch := e, circuit := Closed\<rparr>"
      by (auto simp: live_success_def Let_def bump_circuit_epoch_def split: bind_splits)
    moreover have "\<forall>q \<in># br_permits b. permit_epoch q < e" "\<forall>x \<in># br_observers b. observer_epoch x < e"
      using assms(1) checked_add_one_less [OF e] unfolding breaker_inv_def by (meson le_less_trans)+
    moreover from this have
      "filter_mset (\<lambda>q. permit_trial q \<and> permit_epoch q = e) (br_permits b - {#p#}) = {#}"
      unfolding filter_mset_eq_mempty_iff by (metis in_diffD less_irrefl)
    ultimately show ?thesis
      unfolding breaker_inv_def current_trials_def CIRCUIT_FAILURE_THRESHOLD_def
      by (auto intro: less_imp_le dest: in_diffD simp del: filter_diff_mset filter_mset_eq_mempty_iff)
  qed
qed

lemma breaker_inv_body:
  assumes "breaker_inv b" and "ob \<in># br_observers b"
    and "live_body_failure now (observer_epoch ob) (open_immediately ob) (br_live b) = Some live'"
  shows "breaker_inv (b\<lparr>br_live := live', br_observers := br_observers b - {#ob#}\<rparr>)"
proof (cases "observer_epoch ob = circuit_epoch (br_live b)")
  case False
  with assms(3) have "live' = br_live b" by (auto simp: live_body_failure_def)
  with breaker_inv_observed [OF assms(1), of ob] show ?thesis by simp
next
  case cur: True
  note closed = current_needs_closed(2) [OF assms(1,2) cur]
  let ?n = "if open_immediately ob then CIRCUIT_FAILURE_THRESHOLD
    else saturating_add (consecutive_request_failures (br_live b)) 1"
  show ?thesis
  proof (cases "CIRCUIT_FAILURE_THRESHOLD \<le> ?n")
    case True
    with assms(3) cur have
      "open_circuit now ((br_live b)\<lparr>consecutive_request_failures := ?n\<rparr>) = Some live'"
      by (simp add: live_body_failure_def Let_def)
    from open_circuit_Some [OF this]
      breaker_inv_opened [OF assms(1), of live' _ "br_permits b" "br_observers b - {#ob#}"]
    show ?thesis by (cases b) auto
  next
    case False
    with assms(3) cur have "live' = (br_live b)\<lparr>consecutive_request_failures := ?n\<rparr>"
      by (simp add: live_body_failure_def Let_def)
    with breaker_inv_counted [OF breaker_inv_observed [OF assms(1), of ob], of ?n] closed False
    show ?thesis by (cases b) auto
  qed
qed

lemma breaker_reachable_inv: "breaker_reachable g b \<Longrightarrow> breaker_inv b"
proof (induction rule: breaker_reachable.induct)
  case initial
  then show ?case
    by (simp add: breaker_inv_def current_trials_def live_new_def CIRCUIT_FAILURE_THRESHOLD_def)
next
  case (step b b')
  from step.hyps(2) step.IH show ?case
    by (cases rule: breaker_step.cases)
      (auto intro: breaker_inv_permit breaker_inv_outcome breaker_inv_success breaker_inv_body
        breaker_inv_observed)
qed

lemma stale_ignored:
  assumes "e \<noteq> circuit_epoch live"
  shows "live_outcome now e trial r live = Some live" "live_success i e trial live = Some (None, live)"
    "live_body_failure now e immediately live = Some live"
  using assms by (auto simp: live_outcome_def live_success_def live_body_failure_def)

text \<open>
  C12. The half-open circuit admits a single trial, under every interleaving of requests.
  In every reachable state there is exactly one unresolved trial permit of the current
  epoch while the circuit is half open with a trial in flight, and none otherwise; while
  it is out, no further permit is granted. As long as the circuit is not closed, the only
  permit whose outcome can change the live view is that trial: outcomes of older requests
  and failures of their response bodies are ignored.
\<close>

theorem half_open_single_trial:
  assumes "breaker_reachable g b"
  shows "size (current_trials b) = (if circuit (br_live b) = HalfOpen True then 1 else 0) \<and>
    (circuit (br_live b) = HalfOpen True \<longrightarrow> fst (live_permit i now (br_live b)) = None) \<and>
    (circuit (br_live b) \<noteq> Closed \<longrightarrow>
       (\<forall>p \<in># br_permits b. p \<notin># current_trials b \<longrightarrow>
          live_outcome now (permit_epoch p) (permit_trial p) r (br_live b) = Some (br_live b) \<and>
          live_success i (permit_epoch p) (permit_trial p) (br_live b) = Some (None, br_live b)) \<and>
       (\<forall>ob \<in># br_observers b.
          live_body_failure now (observer_epoch ob) (open_immediately ob) (br_live b) = Some (br_live b)))"
proof -
  note inv = breaker_reachable_inv [OF assms]
  have "size (current_trials b) = (if circuit (br_live b) = HalfOpen True then 1 else 0)"
    using inv by (simp add: breaker_inv_def)
  moreover have "circuit (br_live b) = HalfOpen True \<Longrightarrow> fst (live_permit i now (br_live b)) = None"
    by (simp add: live_permit_def Let_def)
  moreover have "permit_epoch p \<noteq> circuit_epoch (br_live b)"
    if "circuit (br_live b) \<noteq> Closed" "p \<in># br_permits b" "p \<notin># current_trials b" for p
    using inv that by (auto simp: breaker_inv_def current_trials_def)
  moreover have "observer_epoch ob \<noteq> circuit_epoch (br_live b)"
    if "circuit (br_live b) \<noteq> Closed" "ob \<in># br_observers b" for ob
    using inv that by (auto simp: breaker_inv_def)
  ultimately show ?thesis using stale_ignored by blast
qed

definition demo_breaker :: "LiveBackend \<Rightarrow> breaker" where
  "demo_breaker live = \<lparr>br_live = live, br_permits = {#}, br_observers = {#}\<rparr>"

lemma demo_request_failed:
  assumes "breaker_reachable g (demo_breaker live)" and "circuit live = Closed"
    and "live_outcome now (circuit_epoch live) False Failure live = Some live'"
  shows "breaker_reachable g (demo_breaker live')"
proof -
  let ?p = "\<lparr>permit_backend_id = ''a'', permit_epoch = circuit_epoch live, permit_trial = False,
    permit_resolved = False\<rparr>"
  have "breaker_reachable g \<lparr>br_live = live, br_permits = {#?p#}, br_observers = {#}\<rparr>"
    using breaker_reachable.step [OF assms(1) breaker_step.permit [of "''a''" now]] assms(2)
    by (simp add: demo_breaker_def live_permit_def)
  from breaker_reachable.step [OF this breaker_step.outcome [of ?p _ now Failure live']] assms(3)
  show ?thesis by (simp add: demo_breaker_def)
qed

definition demo_open :: LiveBackend where
  "demo_open = (live_new 1)\<lparr>consecutive_request_failures := 3, circuit_epoch := 1,
     circuit := Open CIRCUIT_OPEN_FOR\<rparr>"

lemma demo_open_reachable: "breaker_reachable 1 (demo_breaker demo_open)"
proof -
  have fail: "live_outcome 0 (circuit_epoch live) False Failure live =
      Some (live\<lparr>consecutive_request_failures := n\<rparr>)"
    if "saturating_add (consecutive_request_failures live) 1 = n" "n < 3" for live n
    using that by (auto simp: live_outcome_def Let_def CIRCUIT_FAILURE_THRESHOLD_def dest: leD)
  have "breaker_reachable 1 (demo_breaker (live_new 1))"
    unfolding demo_breaker_def by (rule breaker_reachable.initial)
  then have "breaker_reachable 1 (demo_breaker ((live_new 1)\<lparr>consecutive_request_failures := 1\<rparr>))"
    by (rule demo_request_failed [OF _ _ fail]) (simp_all add: live_new_def saturating_add_def)
  then have "breaker_reachable 1 (demo_breaker ((live_new 1)\<lparr>consecutive_request_failures := 2\<rparr>))"
    using demo_request_failed [OF _ _ fail, of 1 "(live_new 1)\<lparr>consecutive_request_failures := 1\<rparr>" 2]
    by (simp add: live_new_def saturating_add_def)
  then show ?thesis
    by (rule demo_request_failed [where now = 0])
      (simp_all add: live_new_def live_outcome_def Let_def saturating_add_def demo_open_def
        CIRCUIT_FAILURE_THRESHOLD_def open_circuit_def bump_circuit_epoch_def checked_add_def)
qed

theorem half_open_single_trial_witness:
  "\<exists>b. breaker_reachable 1 b \<and> circuit (br_live b) = HalfOpen True \<and> size (current_trials b) = 1 \<and>
     fst (live_permit ''a'' CIRCUIT_OPEN_FOR (br_live b)) = None"
proof -
  let ?p = "\<lparr>permit_backend_id = ''a'', permit_epoch = 1, permit_trial = True, permit_resolved = False\<rparr>"
  let ?b = "\<lparr>br_live = demo_open\<lparr>circuit := HalfOpen True\<rparr>, br_permits = {#?p#}, br_observers = {#}\<rparr>"
  have "breaker_reachable 1 ?b"
    using breaker_reachable.step [OF demo_open_reachable breaker_step.permit [of "''a''" CIRCUIT_OPEN_FOR]]
    by (simp add: demo_breaker_def live_permit_def demo_open_def)
  from half_open_single_trial [OF this, of "''a''" CIRCUIT_OPEN_FOR Neutral] this
  show ?thesis by (intro exI [of _ ?b]) (simp add: demo_open_def)
qed

text \<open>The outcomes of requests that run on a closed circuit, with the instants of failures.\<close>

datatype request_result = RequestOk | RequestNeutral | RequestFailed instant | BodyFailed instant

fun feed :: "u64 \<Rightarrow> request_result \<Rightarrow> LiveBackend \<Rightarrow> LiveBackend option" where
  "feed e RequestOk live = map_option snd (live_success [] e False live)"
| "feed e RequestNeutral live = live_outcome 0 e False Neutral live"
| "feed e (RequestFailed now) live = live_outcome now e False Failure live"
| "feed e (BodyFailed now) live = live_body_failure now e False live"

fun failed_at :: "request_result \<Rightarrow> instant option" where
  "failed_at (RequestFailed now) = Some now"
| "failed_at (BodyFailed now) = Some now"
| "failed_at _ = None"

text \<open>The last three outcomes that are not neutral are failures.\<close>

definition tripped :: "request_result list \<Rightarrow> bool" where
  "tripped rs \<longleftrightarrow> last_all 3 (\<lambda>r. failed_at r \<noteq> None) (filter (\<lambda>r. r \<noteq> RequestNeutral) rs)"

definition failure_run :: "request_result list \<Rightarrow> nat" where
  "failure_run rs = final_run (\<lambda>r. failed_at r \<noteq> None) (filter (\<lambda>r. r \<noteq> RequestNeutral) rs)"

lemma tripped_iff: "tripped rs \<longleftrightarrow> 3 \<le> failure_run rs"
  by (simp add: tripped_def failure_run_def last_all_iff_run)

lemma failure_run_snoc:
  "failure_run (rs @ [RequestOk]) = 0" "failure_run (rs @ [RequestNeutral]) = failure_run rs"
  "failure_run (rs @ [RequestFailed now]) = Suc (failure_run rs)"
  "failure_run (rs @ [BodyFailed now]) = Suc (failure_run rs)" "failure_run [] = 0"
  by (simp_all add: failure_run_def final_run_snoc)

lemma feed_failure:
  assumes "circuit_epoch live = e" and "failed_at r = Some now"
  shows "feed e r live =
    (let n = saturating_add (consecutive_request_failures live) 1;
         live = live\<lparr>consecutive_request_failures := n\<rparr> in
     if CIRCUIT_FAILURE_THRESHOLD \<le> n then open_circuit now live else Some live)"
  using assms by (cases r) (simp_all add: live_outcome_def live_body_failure_def Let_def)

lemma feed_closed:
  assumes "circuit live = Closed" and "circuit_epoch live = e"
    and "\<And>k. k \<le> length rs \<Longrightarrow> \<not> tripped (take k rs)"
    and "consecutive_request_failures live = 0"
  shows "\<exists>live'. run_all (feed e) rs live = Some live' \<and> circuit live' = Closed \<and>
    circuit_epoch live' = e \<and> unat (consecutive_request_failures live') = failure_run rs"
  using assms(3)
proof (induction rs rule: rev_induct)
  case Nil
  then show ?case using assms by (simp add: failure_run_snoc)
next
  case (snoc r rs)
  have "\<not> tripped (take k rs)" if "k \<le> length rs" for k
    using snoc.prems [of k] that by simp
  from snoc.IH [OF this] obtain mid where mid: "run_all (feed e) rs live = Some mid"
    "circuit mid = Closed" "circuit_epoch mid = e"
    "unat (consecutive_request_failures mid) = failure_run rs" by blast
  have few: "failure_run (rs @ [r]) < 3"
    using snoc.prems [of "Suc (length rs)"] by (simp add: tripped_iff)
  show ?case
  proof (cases "failed_at r")
    case None
    with mid show ?thesis
      by (cases r) (simp_all add: run_all_append live_success_def live_outcome_def Let_def failure_run_snoc)
  next
    case (Some now)
    let ?n = "saturating_add (consecutive_request_failures mid) 1"
    have run: "failure_run (rs @ [r]) = Suc (failure_run rs)"
      using Some by (cases r) (simp_all add: failure_run_snoc)
    have "unat ?n = Suc (failure_run rs)" using few run mid(4) by (simp add: saturating_count)
    moreover from this few run have "\<not> CIRCUIT_FAILURE_THRESHOLD \<le> ?n"
      by (simp add: CIRCUIT_FAILURE_THRESHOLD_def word_le_nat_alt)
    ultimately show ?thesis
      using mid run feed_failure [OF mid(3) Some] by (simp add: run_all_append Let_def)
  qed
qed

text \<open>
  The circuit trips exactly on the third consecutive failure. On a closed circuit
  with no failure counted, feed any outcomes of requests and response bodies until the
  last three that are not neutral are failures. Up to there the circuit stays closed and
  grants every permit; with that last failure it opens, and it refuses permits for exactly
  ten seconds from it.
\<close>

theorem circuit_trips_on_third_failure:
  assumes "circuit live = Closed" and "consecutive_request_failures live = 0"
    and "unat (circuit_epoch live) + 1 < 2 ^ 64"
    and "\<forall>k \<le> length rs. \<not> tripped (take k rs)"
  shows "(\<exists>mid. run_all (feed (circuit_epoch live)) rs live = Some mid \<and> circuit mid = Closed \<and>
      fst (live_permit i now mid) \<noteq> None) \<and>
    (tripped (rs @ [r]) \<longrightarrow> (\<exists>t live'. failed_at r = Some t \<and>
      run_all (feed (circuit_epoch live)) (rs @ [r]) live = Some live' \<and>
      circuit live' = Open (t + 10 * 1000000000) \<and>
      (fst (live_permit i now live') = None \<longleftrightarrow> now < t + 10 * 1000000000)))"
proof -
  from feed_closed [OF assms(1) refl _ assms(2), of rs] assms(4) obtain mid where
    mid: "run_all (feed (circuit_epoch live)) rs live = Some mid" "circuit mid = Closed"
    "circuit_epoch mid = circuit_epoch live"
    "unat (consecutive_request_failures mid) = failure_run rs" by blast
  have few: "failure_run rs < 3" using assms(4) by (metis take_all order_refl tripped_iff not_less)
  have "\<exists>t live'. failed_at r = Some t \<and>
      run_all (feed (circuit_epoch live)) (rs @ [r]) live = Some live' \<and>
      circuit live' = Open (t + 10 * 1000000000)" if trip: "tripped (rs @ [r])"
  proof -
    have "failed_at r \<noteq> None"
      using trip few by (cases r) (simp_all add: tripped_iff failure_run_snoc)
    then obtain t where t: "failed_at r = Some t" by blast
    let ?n = "saturating_add (consecutive_request_failures mid) 1"
    have "failure_run (rs @ [r]) = Suc (failure_run rs)"
      using t by (cases r) (simp_all add: failure_run_snoc)
    with trip few mid(4) have "CIRCUIT_FAILURE_THRESHOLD \<le> ?n"
      by (simp add: CIRCUIT_FAILURE_THRESHOLD_def word_le_nat_alt saturating_count tripped_iff)
    moreover have "checked_add (circuit_epoch live) 1 = Some (circuit_epoch live + 1)"
      using assms(3) by (intro checked_add_eq_Some) simp
    ultimately show ?thesis
      using mid t feed_failure [OF mid(3) t]
      by (simp add: run_all_append Let_def open_circuit_def bump_circuit_epoch_def CIRCUIT_OPEN_FOR_def)
  qed
  then show ?thesis using mid by (auto simp: live_permit_def Let_def split: if_splits)
qed

theorem circuit_trips_on_third_failure_witness:
  "\<exists>live'. run_all (feed 0) ([RequestFailed 1, RequestNeutral, BodyFailed 2] @ [RequestFailed 3])
       (live_new 1) = Some live' \<and> fst (live_permit ''a'' 5 live') = None"
proof -
  have "\<not> tripped (take k [RequestFailed 1, RequestNeutral, BodyFailed 2])" for k
  proof -
    have "failure_run (take k [RequestFailed 1, RequestNeutral, BodyFailed 2]) \<le> 2"
      unfolding failure_run_def final_run_def
      by (cases k; cases "k - 1"; cases "k - 2"; cases "k - 3") (auto simp: Suc_diff_Suc numeral_2_eq_2 numeral_3_eq_3)
    then show ?thesis by (simp add: tripped_iff)
  qed
  moreover have "tripped ([RequestFailed 1, RequestNeutral, BodyFailed 2] @ [RequestFailed 3])"
    by (simp add: tripped_def last_all_def)
  ultimately show ?thesis
    using circuit_trips_on_third_failure [of "live_new 1" "[RequestFailed 1, RequestNeutral, BodyFailed 2]"
        "''a''" 5 "RequestFailed 3"]
    by (auto simp: live_new_def)
qed

end
