(* ===== verification/Routing.thy ===== *)
theory Routing
  imports Live_Backend
begin

text \<open>
  The router (\<open>src/src/routing.rs\<close>): the live views of all backends beside the runtime,
  selection of a backend with its lease and circuit permit, the guard that lives as long
  as the response, the status snapshots, and what the two background workers record.

  Each method takes its lock once and is one step, except \<open>select\<close>: between the choice of
  the candidates and each attempt on one of them other threads may act, which is the
  argument \<open>env\<close>; \<open>clock k\<close> is the instant of attempt \<open>k\<close>.
\<close>

subsection \<open>State\<close>

record RoutingInner =
  inner_backends :: "(string, LiveBackend) hashmap"
  rotating_cursor :: u64

record 'u RoutingState =
  rt_runtime :: "'u RuntimeState"
  rt_inner :: RoutingInner

datatype BackendDisplayState =
    ShownDisabled | ShownDraining | ShownChecking | ShownUnreachable | ShownUnready
  | ShownCircuitOpen | ShownProbing | ShownDegraded | ShownReady

fun display_backend_state :: "BackendDisplayState \<Rightarrow> string" where
  "display_backend_state ShownDisabled = ''disabled''"
| "display_backend_state ShownDraining = ''draining''"
| "display_backend_state ShownChecking = ''checking''"
| "display_backend_state ShownUnreachable = ''unreachable''"
| "display_backend_state ShownUnready = ''unready''"
| "display_backend_state ShownCircuitOpen = ''circuit-open''"
| "display_backend_state ShownProbing = ''probing''"
| "display_backend_state ShownDegraded = ''degraded''"
| "display_backend_state ShownReady = ''ready''"

record CandidateMetrics =
  cm_running :: u64
  cm_waiting :: u64
  cm_capacity :: "u64 option"
  cm_kv_ratio :: "f64 option"
  cm_age :: duration

record Candidate =
  cand_id :: BackendId
  cand_local_active :: nat
  cand_score :: "LeastPressureV1Score option"
  cand_metrics :: "CandidateMetrics option"

record RoutingDecision =
  dec_backend_id :: string
  dec_policy :: string
  dec_reason :: string
  dec_eligible :: nat
  dec_pressure :: "f64 option"
  dec_running :: "u64 option"
  dec_waiting :: "u64 option"
  dec_capacity :: "u64 option"
  dec_kv_pressure :: "f64 option"
  dec_metrics_age_ms :: "u64 option"
  dec_proxy_active :: nat

record RouteSelection =
  sel_lease :: BackendLease
  sel_decision :: RoutingDecision
  sel_permit :: CircuitPermit

record BackendResponseGuard =
  guard_lease :: BackendLease
  guard_body_failure :: "BodyFailureObserver option"

record BackendStatusSnapshot =
  status_id :: string
  status_url :: string
  status_mode :: BackendMode
  status_state :: BackendDisplayState
  status_readiness :: ReadinessState
  status_telemetry :: TelemetryState
  status_circuit :: CircuitState
  status_eligible :: bool
  status_proxy_active :: nat
  status_oldest_request_ms :: "u64 option"
  status_running :: "u64 option"
  status_waiting :: "u64 option"
  status_reported_capacity :: "u64 option"
  status_configured_capacity :: "u64 option"
  status_effective_capacity :: "u64 option"
  status_capacity_mismatch :: bool
  status_kv_ratio :: "f64 option"
  status_token_rate :: "f64 option"
  status_prefill_token_rate :: "f64 option"
  status_decode_token_rate :: "f64 option"
  status_pressure :: "f64 option"
  status_metrics_age_ms :: "u64 option"
  status_metrics_generation :: u64
  status_scrapes_started :: u64
  status_observation_serial :: u64
  status_idle_streak :: u64
  status_readiness_age_ms :: "u64 option"
  status_metrics_error :: "string option"
  status_readiness_error :: "string option"

subsection \<open>Construction and the live map\<close>

definition routing_new :: "'u RuntimeState \<Rightarrow> 'u RoutingState option" where
  "routing_new runtime =
     do {
       instances \<leftarrow> backend_instances runtime;
       Some \<lparr>rt_runtime = runtime,
             rt_inner = \<lparr>inner_backends =
                foldl (\<lambda>m (b, g). hset (backend_id b) (live_new g) m) [] instances,
              rotating_cursor = 0\<rparr>\<rparr>
     }"

definition routing_new_assume_ready :: "'u RuntimeState \<Rightarrow> 'u RoutingState option" where
  "routing_new_assume_ready runtime =
     do {
       s \<leftarrow> routing_new runtime;
       Some (s\<lparr>rt_inner := (rt_inner s)\<lparr>inner_backends :=
         map (\<lambda>(i, live). (i, live\<lparr>readiness := Ready\<rparr>)) (inner_backends (rt_inner s))\<rparr>\<rparr>)
     }"

definition configured_generations :: "'u RuntimeState \<Rightarrow> (string, u64) hashmap option" where
  "configured_generations runtime =
     do { instances \<leftarrow> backend_instances runtime;
          Some (foldl (\<lambda>m (b, g). hset (backend_id b) g m) [] instances) }"

definition ensure_one ::
  "string \<times> u64 \<Rightarrow> (string, LiveBackend) hashmap \<Rightarrow> (string, LiveBackend) hashmap" where
  "ensure_one = (\<lambda>(i, generation) backends.
     case hget backends i of
       Some live \<Rightarrow> if topology_generation live \<noteq> generation
                    then hset i (live_new generation) backends else backends
     | None \<Rightarrow> hset i (live_new generation) backends)"

definition ensure_backends :: "'u RuntimeState \<Rightarrow> RoutingInner \<Rightarrow> RoutingInner option" where
  "ensure_backends runtime inner =
     do {
       conf \<leftarrow> configured_generations runtime;
       let retained = filter (\<lambda>(i, live). hcontains conf i) (inner_backends inner);
       Some (inner\<lparr>inner_backends := fold ensure_one conf retained\<rparr>)
     }"

text \<open>
  The common frame of the recording methods: bring the map up to date, look up the entry,
  and act on it unless it belongs to another generation.
\<close>

definition on_current_live ::
  "string \<Rightarrow> u64 \<Rightarrow> 'a \<Rightarrow> (LiveBackend \<Rightarrow> ('a \<times> LiveBackend) option) \<Rightarrow> 'u RoutingState
    \<Rightarrow> ('a \<times> 'u RoutingState) option" where
  "on_current_live i generation absent f s =
     do {
       inner \<leftarrow> ensure_backends (rt_runtime s) (rt_inner s);
       case hget (inner_backends inner) i of
         None \<Rightarrow> Some (absent, s\<lparr>rt_inner := inner\<rparr>)
       | Some live \<Rightarrow>
           if topology_generation live \<noteq> generation then Some (absent, s\<lparr>rt_inner := inner\<rparr>)
           else do {
             (r, live') \<leftarrow> f live;
             Some (r, s\<lparr>rt_inner := inner\<lparr>inner_backends := hset i live' (inner_backends inner)\<rparr>\<rparr>)
           }
     }"

subsection \<open>What the workers record\<close>

definition record_readiness_success_for ::
  "instant \<Rightarrow> string \<Rightarrow> u64 \<Rightarrow> 'u RoutingState
    \<Rightarrow> ((ReadinessState \<times> ReadinessState) option \<times> 'u RoutingState) option" where
  "record_readiness_success_for now i generation s =
     (let config = cfg_readiness (pub_config (published (rt_runtime s))) in
      on_current_live i generation None
        (\<lambda>live. let live' = live_readiness_success config now live
                in Some (readiness_change live live', live')) s)"

definition record_readiness_failure_for ::
  "instant \<Rightarrow> string \<Rightarrow> u64 \<Rightarrow> ReadinessFailureKind \<Rightarrow> string \<Rightarrow> 'u RoutingState
    \<Rightarrow> ((ReadinessState \<times> ReadinessState) option \<times> 'u RoutingState) option" where
  "record_readiness_failure_for now i generation kind error s =
     (let config = cfg_readiness (pub_config (published (rt_runtime s))) in
      on_current_live i generation None
        (\<lambda>live. let live' = live_readiness_failure config now kind error live
                in Some (readiness_change live live', live')) s)"

definition record_readiness_success ::
  "instant \<Rightarrow> string \<Rightarrow> 'u RoutingState
    \<Rightarrow> ((ReadinessState \<times> ReadinessState) option \<times> 'u RoutingState) option" where
  "record_readiness_success now i s =
     (case backend_generation (rt_runtime s) i of
        None \<Rightarrow> Some (None, s)
      | Some generation \<Rightarrow> record_readiness_success_for now i generation s)"

definition record_readiness_failure ::
  "instant \<Rightarrow> string \<Rightarrow> ReadinessFailureKind \<Rightarrow> string \<Rightarrow> 'u RoutingState
    \<Rightarrow> ((ReadinessState \<times> ReadinessState) option \<times> 'u RoutingState) option" where
  "record_readiness_failure now i kind error s =
     (case backend_generation (rt_runtime s) i of
        None \<Rightarrow> Some (None, s)
      | Some generation \<Rightarrow> record_readiness_failure_for now i generation kind error s)"

definition begin_metrics_scrape ::
  "instant \<Rightarrow> string \<Rightarrow> u64 \<Rightarrow> 'u RoutingState
    \<Rightarrow> (MetricsScrapeContext option \<times> 'u RoutingState) option" where
  "begin_metrics_scrape now i generation s =
     (let dispatches = (case registry_get (registry (rt_runtime s)) i of
          None \<Rightarrow> 0
        | Some slot \<Rightarrow> snap_total_acquired (slot_snapshot slot now)) in
      on_current_live i generation None
        (\<lambda>live. map_option (\<lambda>(ctx, live'). (Some ctx, live')) (live_begin_scrape dispatches now live)) s)"

definition record_metrics_success_for ::
  "instant \<Rightarrow> string \<Rightarrow> u64 \<Rightarrow> MistralRsMetrics \<Rightarrow> MetricsScrapeContext \<Rightarrow> 'u RoutingState
    \<Rightarrow> 'u RoutingState option" where
  "record_metrics_success_for now i generation metrics scrape s =
     map_option snd (on_current_live i generation ()
       (\<lambda>live. Some ((), live_metrics_success now metrics scrape live)) s)"

definition record_metrics_failure_for ::
  "instant \<Rightarrow> string \<Rightarrow> u64 \<Rightarrow> u64 \<Rightarrow> string \<Rightarrow> 'u RoutingState \<Rightarrow> 'u RoutingState option" where
  "record_metrics_failure_for now i generation scrape error s =
     map_option snd (on_current_live i generation ()
       (\<lambda>live. Some ((), live_metrics_failure now scrape error live)) s)"

definition record_metrics_success ::
  "instant \<Rightarrow> string \<Rightarrow> MistralRsMetrics \<Rightarrow> 'u RoutingState \<Rightarrow> 'u RoutingState option" where
  "record_metrics_success now i metrics s =
     (case backend_generation (rt_runtime s) i of
        None \<Rightarrow> Some s
      | Some generation \<Rightarrow> do {
          (scrape, s) \<leftarrow> begin_metrics_scrape now i generation s;
          case scrape of
            None \<Rightarrow> Some s
          | Some ctx \<Rightarrow> record_metrics_success_for now i generation metrics ctx s
        })"

definition record_metrics_failure ::
  "instant \<Rightarrow> string \<Rightarrow> string \<Rightarrow> 'u RoutingState \<Rightarrow> 'u RoutingState option" where
  "record_metrics_failure now i error s =
     (case backend_generation (rt_runtime s) i of
        None \<Rightarrow> Some s
      | Some generation \<Rightarrow> do {
          (scrape, s) \<leftarrow> begin_metrics_scrape now i generation s;
          case scrape of
            None \<Rightarrow> Some s
          | Some ctx \<Rightarrow> record_metrics_failure_for now i generation (scrape_serial ctx) error s
        })"

subsection \<open>The circuit breaker on the routing state\<close>

definition put_live :: "string \<Rightarrow> LiveBackend \<Rightarrow> 'u RoutingState \<Rightarrow> 'u RoutingState" where
  "put_live i live s =
     s\<lparr>rt_inner := (rt_inner s)\<lparr>inner_backends := hset i live (inner_backends (rt_inner s))\<rparr>\<rparr>"

definition get_live :: "'u RoutingState \<Rightarrow> string \<Rightarrow> LiveBackend option" where
  "get_live s i = hget (inner_backends (rt_inner s)) i"

definition try_circuit_permit ::
  "instant \<Rightarrow> string \<Rightarrow> 'u RoutingState \<Rightarrow> CircuitPermit option \<times> 'u RoutingState" where
  "try_circuit_permit now i s =
     (case get_live s i of
        None \<Rightarrow> (None, s)
      | Some live \<Rightarrow> (let (permit, live') = live_permit i now live in (permit, put_live i live' s)))"

definition record_circuit_outcome ::
  "instant \<Rightarrow> string \<Rightarrow> u64 \<Rightarrow> bool \<Rightarrow> CircuitOutcome \<Rightarrow> 'u RoutingState \<Rightarrow> 'u RoutingState option" where
  "record_circuit_outcome now i epoch trial outcome s =
     (case get_live s i of
        None \<Rightarrow> Some s
      | Some live \<Rightarrow>
          do { live' \<leftarrow> live_outcome now epoch trial outcome live; Some (put_live i live' s) })"

definition record_success_and_observer ::
  "string \<Rightarrow> u64 \<Rightarrow> bool \<Rightarrow> 'u RoutingState
    \<Rightarrow> (BodyFailureObserver option \<times> 'u RoutingState) option" where
  "record_success_and_observer i epoch trial s =
     (case get_live s i of
        None \<Rightarrow> Some (None, s)
      | Some live \<Rightarrow>
          do { (ob, live') \<leftarrow> live_success i epoch trial live; Some (ob, put_live i live' s) })"

definition record_body_failure ::
  "instant \<Rightarrow> string \<Rightarrow> u64 \<Rightarrow> bool \<Rightarrow> 'u RoutingState \<Rightarrow> 'u RoutingState option" where
  "record_body_failure now i epoch immediately s =
     (case get_live s i of
        None \<Rightarrow> Some s
      | Some live \<Rightarrow>
          do { live' \<leftarrow> live_body_failure now epoch immediately live; Some (put_live i live' s) })"

text \<open>\<open>CircuitPermit\<close>: only the first resolution counts; dropping an unresolved permit is neutral.\<close>

definition permit_resolve ::
  "instant \<Rightarrow> CircuitOutcome \<Rightarrow> CircuitPermit \<Rightarrow> 'u RoutingState
    \<Rightarrow> (CircuitPermit \<times> 'u RoutingState) option" where
  "permit_resolve now outcome permit s =
     (if permit_resolved permit then Some (permit, s)
      else do {
        s' \<leftarrow> record_circuit_outcome now (permit_backend_id permit) (permit_epoch permit)
               (permit_trial permit) outcome s;
        Some (permit\<lparr>permit_resolved := True\<rparr>, s')
      })"

definition success_with_body_observer ::
  "CircuitPermit \<Rightarrow> 'u RoutingState
    \<Rightarrow> (BodyFailureObserver option \<times> CircuitPermit \<times> 'u RoutingState) option" where
  "success_with_body_observer permit s =
     (if permit_resolved permit then Some (None, permit, s)
      else do {
        (ob, s') \<leftarrow> record_success_and_observer (permit_backend_id permit) (permit_epoch permit)
                     (permit_trial permit) s;
        Some (ob, permit\<lparr>permit_resolved := True\<rparr>, s')
      })"

definition drop_permit :: "instant \<Rightarrow> CircuitPermit \<Rightarrow> 'u RoutingState \<Rightarrow> 'u RoutingState option" where
  "drop_permit now permit s =
     (if permit_resolved permit then Some s
      else map_option snd (permit_resolve now Neutral permit s))"

text \<open>The drop of a lease, on the slot its \<open>Arc\<close> points to.\<close>

definition drop_route_lease :: "BackendLease \<Rightarrow> 'u RoutingState \<Rightarrow> 'u RoutingState option" where
  "drop_route_lease lease s =
     do { (lease', slots) \<leftarrow> with_slot (spec_id (lease_spec lease)) (drop_lease lease)
                               (registry (rt_runtime s));
          Some (s\<lparr>rt_runtime := (rt_runtime s)\<lparr>registry := slots\<rparr>\<rparr>) }"

subsection \<open>Scoring\<close>

definition effective_capacity :: "u64 option \<Rightarrow> u64 option \<Rightarrow> u64 option" where
  "effective_capacity reported limit =
     (case (reported, limit) of
        (Some r, Some c) \<Rightarrow> Some (min r c)
      | (Some r, None) \<Rightarrow> Some r
      | (None, c) \<Rightarrow> c)"

definition ok :: "'e + 'a \<Rightarrow> 'a option" where
  "ok r = (case r of Inl e \<Rightarrow> None | Inr a \<Rightarrow> Some a)"

definition score_candidate ::
  "BackendSnapshot \<Rightarrow> LiveBackend \<Rightarrow> 'u Backend \<Rightarrow> instant \<Rightarrow> duration \<Rightarrow> f64
    \<Rightarrow> LeastPressureV1Score option \<times> CandidateMetrics option" where
  "score_candidate snapshot live config now stale_after kv_limit =
     (case live_metrics live of
        None \<Rightarrow> (None, None)
      | Some observation \<Rightarrow>
          (let age = saturating_duration_since now (obs_observed_at observation) in
           if stale_after < age then (None, None)
           else
             (let m = obs_metrics observation;
                  effective = effective_capacity (sequences_capacity m) (capacity config);
                  new_sequences = saturating_sub (snap_total_acquired snapshot) (obs_dispatches observation);
                  score = do {
                    cap \<leftarrow> effective;
                    ok (least_pressure_v1_with_soft_limit
                          (pressure_inputs m (saturating_add new_sequences 1) cap) kv_limit)
                  } in
              (score,
               Some \<lparr>cm_running = sequences_running m, cm_waiting = sequences_waiting m,
                     cm_capacity = effective, cm_kv_ratio = kv_cache_ratio m, cm_age = age\<rparr>))))"

definition telemetry_state :: "LiveBackend \<Rightarrow> instant \<Rightarrow> duration \<Rightarrow> TelemetryState" where
  "telemetry_state live now stale_after =
     (case live_metrics live of
        Some observation \<Rightarrow>
          if saturating_duration_since now (obs_observed_at observation) \<le> stale_after then Fresh
          else Stale
      | None \<Rightarrow> TelemetryUnavailable)"

fun display_state ::
  "BackendMode \<Rightarrow> ReadinessState \<Rightarrow> TelemetryState \<Rightarrow> CircuitState \<Rightarrow> BackendDisplayState" where
  "display_state Disabled _ _ _ = ShownDisabled"
| "display_state Draining _ _ _ = ShownDraining"
| "display_state Active Checking _ _ = ShownChecking"
| "display_state Active Unreachable _ _ = ShownUnreachable"
| "display_state Active Unready _ _ = ShownUnready"
| "display_state Active Ready _ CircuitOpen = ShownCircuitOpen"
| "display_state Active Ready _ CircuitHalfOpen = ShownProbing"
| "display_state Active Ready t CircuitClosed = (if t \<noteq> Fresh then ShownDegraded else ShownReady)"

definition status_snapshot ::
  "'u uri_api \<Rightarrow> BackendSnapshot \<Rightarrow> LiveBackend \<Rightarrow> 'u Backend \<Rightarrow> instant \<Rightarrow> duration \<Rightarrow> f64
    \<Rightarrow> BackendStatusSnapshot" where
  "status_snapshot U snapshot live config now stale_after kv_limit =
     (let telemetry = telemetry_state live now stale_after;
          circ = circuit_state (circuit live) now;
          eligible = (snap_mode snapshot = Active \<and> readiness live = Ready \<and> circ \<noteq> CircuitOpen);
          observation = live_metrics live;
          reported = Option.bind observation (\<lambda>ob. sequences_capacity (obs_metrics ob));
          effective = effective_capacity reported (capacity config);
          pressure_now = (if eligible \<and> telemetry = Fresh
            then do {
              sample \<leftarrow> observation;
              cap \<leftarrow> effective;
              let new = saturating_sub (snap_total_acquired snapshot) (obs_dispatches sample);
              map_option pressure (ok (least_pressure_v1_with_soft_limit
                (pressure_inputs (obs_metrics sample) new cap) kv_limit))
            }
            else None) in
      \<lparr>status_id = snapshot_id snapshot,
       status_url = uri_to_string U (url config),
       status_mode = snap_mode snapshot,
       status_state = display_state (snap_mode snapshot) (readiness live) telemetry circ,
       status_readiness = readiness live,
       status_telemetry = telemetry,
       status_circuit = circ,
       status_eligible = eligible,
       status_proxy_active = snap_local_active snapshot,
       status_oldest_request_ms = map_option as_millis_u64 (snap_oldest_active_age snapshot),
       status_running = map_option (\<lambda>ob. sequences_running (obs_metrics ob)) observation,
       status_waiting = map_option (\<lambda>ob. sequences_waiting (obs_metrics ob)) observation,
       status_reported_capacity = reported,
       status_configured_capacity = capacity config,
       status_effective_capacity = effective,
       status_capacity_mismatch = (case (reported, capacity config) of
          (Some r, Some c) \<Rightarrow> r \<noteq> c | _ \<Rightarrow> False),
       status_kv_ratio = Option.bind observation (\<lambda>ob. kv_cache_ratio (obs_metrics ob)),
       status_token_rate = token_rate live,
       status_prefill_token_rate = prefill_token_rate live,
       status_decode_token_rate = decode_token_rate live,
       status_pressure = pressure_now,
       status_metrics_age_ms = map_option
          (\<lambda>ob. as_millis_u64 (saturating_duration_since now (obs_observed_at ob))) observation,
       status_metrics_generation = metrics_generation live,
       status_scrapes_started = metrics_scrapes_started live,
       status_observation_serial = observation_serial live,
       status_idle_streak = engine_idle_streak live,
       status_readiness_age_ms = map_option
          (\<lambda>t. as_millis_u64 (saturating_duration_since now t)) (readiness_checked_at live),
       status_metrics_error = metrics_error live,
       status_readiness_error = readiness_error live\<rparr>)"

definition instance_map :: "('u Backend \<times> u64) list \<Rightarrow> (string, 'u Backend \<times> u64) hashmap" where
  "instance_map instances = foldl (\<lambda>m (b, g). hset (backend_id b) (b, g) m) [] instances"

text \<open>The entry of a snapshot in the live map and the configuration, of the same generation.\<close>

definition live_entry ::
  "(string, 'u Backend \<times> u64) hashmap \<Rightarrow> RoutingInner \<Rightarrow> BackendSnapshot
    \<Rightarrow> (LiveBackend \<times> 'u Backend) option" where
  "live_entry configs inner snapshot =
     do {
       (config, generation) \<leftarrow> hget configs (snapshot_id snapshot);
       live \<leftarrow> hget (inner_backends inner) (snapshot_id snapshot);
       if topology_generation live \<noteq> generation then None else Some (live, config)
     }"

definition statuses ::
  "'u uri_api \<Rightarrow> instant \<Rightarrow> 'u RoutingState \<Rightarrow> (BackendStatusSnapshot list \<times> 'u RoutingState) option" where
  "statuses U now s =
     do {
       let config = pub_config (published (rt_runtime s));
       let stale_after = from_millis (stale_after_ms (cfg_telemetry config));
       let kv_limit = kv_soft_limit (cfg_routing config);
       instances \<leftarrow> backend_instances (rt_runtime s);
       let configs = instance_map instances;
       inner \<leftarrow> ensure_backends (rt_runtime s) (rt_inner s);
       Some (List.map_filter (\<lambda>snapshot.
               map_option (\<lambda>(live, config). status_snapshot U snapshot live config now stale_after kv_limit)
                 (live_entry configs inner snapshot))
               (snapshots now (registry (rt_runtime s))),
             s\<lparr>rt_inner := inner\<rparr>)
     }"

definition status ::
  "'u uri_api \<Rightarrow> instant \<Rightarrow> string \<Rightarrow> 'u RoutingState
    \<Rightarrow> (BackendStatusSnapshot option \<times> 'u RoutingState) option" where
  "status U now i s =
     do { (all, s') \<leftarrow> statuses U now s; Some (find (\<lambda>st. status_id st = i) all, s') }"

subsection \<open>Selection\<close>

text \<open>\<open>sort_by\<close>: a stable sort by a total preorder, given as its \<open>\<le>\<close>.\<close>

fun insert_by :: "('a \<Rightarrow> 'a \<Rightarrow> bool) \<Rightarrow> 'a \<Rightarrow> 'a list \<Rightarrow> 'a list" where
  "insert_by le x [] = [x]"
| "insert_by le x (y # ys) = (if le x y then x # y # ys else y # insert_by le x ys)"

definition sort_by :: "('a \<Rightarrow> 'a \<Rightarrow> bool) \<Rightarrow> 'a list \<Rightarrow> 'a list" where
  "sort_by le xs = foldr (insert_by le) xs []"

text \<open>\<open>rotated_cmp(left, right, cursor)\<close> is not \<open>Greater\<close>.\<close>

definition rotated_le :: "u64 \<Rightarrow> BackendId \<Rightarrow> BackendId \<Rightarrow> bool" where
  "rotated_le cursor left right = (if cursor mod 2 = 0 then left \<le> right else right \<le> left)"

definition inflight_le :: "u64 \<Rightarrow> Candidate \<Rightarrow> Candidate \<Rightarrow> bool" where
  "inflight_le cursor left right \<longleftrightarrow>
     cand_local_active left < cand_local_active right \<or>
     cand_local_active left = cand_local_active right \<and>
       rotated_le cursor (cand_id left) (cand_id right)"

definition cand_pressure :: "Candidate \<Rightarrow> f64" where
  "cand_pressure c = (case cand_score c of None \<Rightarrow> NaN | Some score \<Rightarrow> pressure score)"

definition pressure_le :: "u64 \<Rightarrow> Candidate \<Rightarrow> Candidate \<Rightarrow> bool" where
  "pressure_le cursor left right \<longleftrightarrow>
     f64_total_le (cand_pressure left) (cand_pressure right) \<and>
     (cand_pressure left \<noteq> cand_pressure right \<or> inflight_le cursor left right)"

definition candidate_of ::
  "instant \<Rightarrow> duration \<Rightarrow> f64 \<Rightarrow> (string, 'u Backend \<times> u64) hashmap \<Rightarrow> RoutingInner \<Rightarrow> BackendSnapshot
    \<Rightarrow> Candidate option" where
  "candidate_of now stale_after kv_limit configs inner snapshot =
     (if snap_mode snapshot \<noteq> Active then None
      else case hget (inner_backends inner) (snapshot_id snapshot) of
        None \<Rightarrow> None
      | Some live \<Rightarrow>
          if readiness live \<noteq> Ready \<or> circuit_state (circuit live) now = CircuitOpen then None
          else case hget configs (snapshot_id snapshot) of
            None \<Rightarrow> None
          | Some (config, generation) \<Rightarrow>
              if topology_generation live \<noteq> generation then None
              else
                (let (score, metrics) = score_candidate snapshot live config now stale_after kv_limit in
                 Some \<lparr>cand_id = snapshot_id snapshot, cand_local_active = snap_local_active snapshot,
                       cand_score = score, cand_metrics = metrics\<rparr>))"

definition order_candidates :: "u64 \<Rightarrow> Candidate list \<Rightarrow> Candidate list" where
  "order_candidates cursor candidates =
     (if list_ex (\<lambda>c. cand_score c \<noteq> None) candidates
      then sort_by (pressure_le cursor) (filter (\<lambda>c. cand_score c \<noteq> None) candidates)
      else sort_by (inflight_le cursor) candidates)"

text \<open>The first part of \<open>select\<close>: the eligible candidates and the cursor, which advances.\<close>

definition eligible_candidates ::
  "instant \<Rightarrow> 'u RoutingState \<Rightarrow> (Candidate list \<times> u64 \<times> 'u RoutingState) option" where
  "eligible_candidates now s =
     do {
       let config = pub_config (published (rt_runtime s));
       let stale_after = from_millis (stale_after_ms (cfg_telemetry config));
       let kv_limit = kv_soft_limit (cfg_routing config);
       instances \<leftarrow> backend_instances (rt_runtime s);
       let configs = instance_map instances;
       inner \<leftarrow> ensure_backends (rt_runtime s) (rt_inner s);
       let candidates = List.map_filter (candidate_of now stale_after kv_limit configs inner)
             (snapshots now (registry (rt_runtime s)));
       let cursor = rotating_cursor inner;
       Some (candidates, cursor, s\<lparr>rt_inner := inner\<lparr>rotating_cursor := cursor + 1\<rparr>\<rparr>)
     }"

definition decision_of :: "nat \<Rightarrow> Candidate \<Rightarrow> RoutingDecision" where
  "decision_of eligible c =
     (let metrics = cand_metrics c in
      \<lparr>dec_backend_id = cand_id c,
       dec_policy = ''least-pressure-v1'',
       dec_reason = (if cand_score c \<noteq> None then ''fresh_metrics_lowest_pressure''
                     else ''least_inflight_fallback''),
       dec_eligible = eligible,
       dec_pressure = map_option pressure (cand_score c),
       dec_running = map_option cm_running metrics,
       dec_waiting = map_option cm_waiting metrics,
       dec_capacity = Option.bind metrics cm_capacity,
       dec_kv_pressure = Option.bind metrics cm_kv_ratio,
       dec_metrics_age_ms = map_option (\<lambda>m. as_millis_u64 (cm_age m)) metrics,
       dec_proxy_active = cand_local_active c + 1\<rparr>)"

text \<open>
  One attempt on a candidate: a circuit permit, then a lease; without a lease the permit
  is dropped.
\<close>

definition attempt ::
  "instant \<Rightarrow> nat \<Rightarrow> Candidate \<Rightarrow> 'u RoutingState \<Rightarrow> (RouteSelection option \<times> 'u RoutingState) option" where
  "attempt now eligible c s =
     (case try_circuit_permit now (cand_id c) s of
        (None, s1) \<Rightarrow> Some (None, s1)
      | (Some permit, s1) \<Rightarrow> do {
          (r, slots) \<leftarrow> registry_try_acquire now (cand_id c) (registry (rt_runtime s1));
          let s2 = s1\<lparr>rt_runtime := (rt_runtime s1)\<lparr>registry := slots\<rparr>\<rparr>;
          case r of
            Inl e \<Rightarrow> do { s3 \<leftarrow> drop_permit now permit s2; Some (None, s3) }
          | Inr lease \<Rightarrow>
              Some (Some \<lparr>sel_lease = lease, sel_decision = decision_of eligible c,
                          sel_permit = permit\<rparr>, s2)
        })"

fun dispatch ::
  "(nat \<Rightarrow> instant) \<Rightarrow> (nat \<Rightarrow> 'u RoutingState \<Rightarrow> 'u RoutingState) \<Rightarrow> nat \<Rightarrow> nat \<Rightarrow> Candidate list
    \<Rightarrow> 'u RoutingState \<Rightarrow> (RouteSelection option \<times> 'u RoutingState) option" where
  "dispatch clock env k eligible [] s = Some (None, s)"
| "dispatch clock env k eligible (c # cs) s =
     do {
       (r, s') \<leftarrow> attempt (clock k) eligible c (env k s);
       case r of
         Some selection \<Rightarrow> Some (Some selection, s')
       | None \<Rightarrow> dispatch clock env (Suc k) eligible cs s'
     }"

definition select ::
  "instant \<Rightarrow> (nat \<Rightarrow> instant) \<Rightarrow> (nat \<Rightarrow> 'u RoutingState \<Rightarrow> 'u RoutingState) \<Rightarrow> 'u RoutingState
    \<Rightarrow> (RouteSelection option \<times> 'u RoutingState) option" where
  "select now clock env s =
     do {
       (candidates, cursor, s') \<leftarrow> eligible_candidates now s;
       if candidates = [] then Some (None, s')
       else dispatch clock env 0 (length candidates) (order_candidates cursor candidates) s'
     }"

subsection \<open>The life of a selection\<close>

definition into_response_guard ::
  "instant \<Rightarrow> nat \<Rightarrow> RouteSelection \<Rightarrow> 'u RoutingState \<Rightarrow> (BackendResponseGuard \<times> 'u RoutingState) option" where
  "into_response_guard now http_status sel s =
     do {
       (ob, s') \<leftarrow>
         (if http_status \<in> {500, 502, 503, 504}
          then do { (permit, s') \<leftarrow> permit_resolve now Failure (sel_permit sel) s; Some (None, s') }
          else if http_status \<noteq> 429
          then do { (ob, permit, s') \<leftarrow> success_with_body_observer (sel_permit sel) s; Some (ob, s') }
          else do { (permit, s') \<leftarrow> permit_resolve now Neutral (sel_permit sel) s; Some (None, s') });
       Some (\<lparr>guard_lease = sel_lease sel, guard_body_failure = ob\<rparr>, s')
     }"

definition record_transport_failure ::
  "instant \<Rightarrow> RouteSelection \<Rightarrow> 'u RoutingState \<Rightarrow> 'u RoutingState option" where
  "record_transport_failure now sel s =
     do { (permit, s') \<leftarrow> permit_resolve now Failure (sel_permit sel) s;
          drop_route_lease (sel_lease sel) s' }"

text \<open>A selection that is dropped: the lease goes first, then the unresolved permit.\<close>

definition drop_selection :: "instant \<Rightarrow> RouteSelection \<Rightarrow> 'u RoutingState \<Rightarrow> 'u RoutingState option" where
  "drop_selection now sel s =
     do { s' \<leftarrow> drop_route_lease (sel_lease sel) s; drop_permit now (sel_permit sel) s' }"

definition guard_body_error ::
  "instant \<Rightarrow> BackendResponseGuard \<Rightarrow> 'u RoutingState \<Rightarrow> (BackendResponseGuard \<times> 'u RoutingState) option" where
  "guard_body_error now guard s =
     (case guard_body_failure guard of
        None \<Rightarrow> Some (guard, s)
      | Some ob \<Rightarrow> do {
          s' \<leftarrow> record_body_failure now (observer_backend_id ob) (observer_epoch ob)
                 (open_immediately ob) s;
          Some (guard\<lparr>guard_body_failure := None\<rparr>, s')
        })"

definition drop_guard :: "BackendResponseGuard \<Rightarrow> 'u RoutingState \<Rightarrow> 'u RoutingState option" where
  "drop_guard guard s = drop_route_lease (guard_lease guard) s"

subsection \<open>The workers\<close>

text \<open>
  What the HTTP client reports of one probe. The timeouts, the client and the size limit of
  the body are outside; a response has its status code, the text of the status line and
  the outcome of reading the body.
\<close>

datatype body_outcome = BodyTimedOut | BodyUnreadable string | BodyBytes string

datatype fetch_outcome =
    RequestInvalid string
  | RequestTimedOut
  | RequestErrored string
  | Responded nat string body_outcome

definition fetch_text :: "duration \<Rightarrow> fetch_outcome \<Rightarrow> string + string" where
  "fetch_text timeout outcome =
     (case outcome of
        RequestInvalid e \<Rightarrow> Inl e
      | RequestTimedOut \<Rightarrow>
          Inl (''request timed out after '' @ show_nat (timeout div 1000000) @ ''ms'')
      | RequestErrored e \<Rightarrow> Inl e
      | Responded code status_line body \<Rightarrow>
          if \<not> (200 \<le> code \<and> code < 300) then Inl (''HTTP '' @ status_line)
          else case body of
            BodyTimedOut \<Rightarrow>
              Inl (''response body timed out after '' @ show_nat (timeout div 1000000) @ ''ms'')
          | BodyUnreadable e \<Rightarrow> Inl e
          | BodyBytes bytes \<Rightarrow>
              (case from_utf8 bytes of
                 None \<Rightarrow> Inl ''response body is not UTF-8''
               | Some text \<Rightarrow> Inr text))"

text \<open>\<open>display_error\<close> is the text of a parse error.\<close>

definition scrape_metrics ::
  "(MetricsParseError \<Rightarrow> string) \<Rightarrow> duration \<Rightarrow> fetch_outcome \<Rightarrow> string + MistralRsMetrics" where
  "scrape_metrics display_error timeout outcome =
     (case fetch_text timeout outcome of
        Inl e \<Rightarrow> Inl e
      | Inr text \<Rightarrow>
          (case parse_mistralrs_metrics text of Inl e \<Rightarrow> Inl (display_error e) | Inr m \<Rightarrow> Inr m))"

definition probe_readiness :: "duration \<Rightarrow> fetch_outcome \<Rightarrow> (ReadinessFailureKind \<times> string) + unit" where
  "probe_readiness timeout outcome =
     (case fetch_text timeout outcome of
        Inr text \<Rightarrow> Inr ()
      | Inl e \<Rightarrow> if prefix ''HTTP '' e then Inl (FailedUnready, e) else Inl (FailedUnreachable, e))"

text \<open>
  One cycle of the telemetry worker: a scrape is begun for every instance, then the results
  are recorded in the order in which the jobs end.
\<close>

record scrape_job =
  job_id :: string
  job_generation :: u64
  job_scrape :: MetricsScrapeContext

fun begin_scrapes ::
  "instant \<Rightarrow> ('u Backend \<times> u64) list \<Rightarrow> 'u RoutingState \<Rightarrow> (scrape_job list \<times> 'u RoutingState) option" where
  "begin_scrapes now [] s = Some ([], s)"
| "begin_scrapes now ((b, generation) # rest) s =
     do {
       (scrape, s) \<leftarrow> begin_metrics_scrape now (backend_id b) generation s;
       (jobs, s) \<leftarrow> begin_scrapes now rest s;
       Some ((case scrape of None \<Rightarrow> jobs
              | Some ctx \<Rightarrow> \<lparr>job_id = backend_id b, job_generation = generation, job_scrape = ctx\<rparr> # jobs), s)
     }"

definition finish_scrape ::
  "instant \<Rightarrow> scrape_job \<times> (string + MistralRsMetrics) \<Rightarrow> 'u RoutingState \<Rightarrow> 'u RoutingState option" where
  "finish_scrape now = (\<lambda>(job, result) s.
     case result of
       Inr metrics \<Rightarrow>
         record_metrics_success_for now (job_id job) (job_generation job) metrics (job_scrape job) s
     | Inl error \<Rightarrow>
         record_metrics_failure_for now (job_id job) (job_generation job)
           (scrape_serial (job_scrape job)) error s)"

definition finish_probe ::
  "instant \<Rightarrow> (string \<times> u64) \<times> ((ReadinessFailureKind \<times> string) + unit) \<Rightarrow> 'u RoutingState
    \<Rightarrow> 'u RoutingState option" where
  "finish_probe now = (\<lambda>((i, generation), result) s.
     map_option snd (case result of
       Inr _ \<Rightarrow> record_readiness_success_for now i generation s
     | Inl (kind, error) \<Rightarrow> record_readiness_failure_for now i generation kind error s))"

subsection \<open>Lemmas: the live map\<close>

definition routing_inv :: "'u RoutingState \<Rightarrow> bool" where
  "routing_inv s \<longleftrightarrow> generations_inv (rt_runtime s) \<and> registry_inv (registry (rt_runtime s)) \<and>
     distinct (keys_of (inner_backends (rt_inner s)))"

lemma instances_of_Some:
  assumes "\<And>b. b \<in> set bs \<Longrightarrow> hget gens (backend_id b) \<noteq> None"
  shows "instances_of gens bs = Some (map (\<lambda>b. (b, the (hget gens (backend_id b)))) bs)"
  using assms
proof (induction bs)
  case (Cons b bs)
  then obtain g where "hget gens (backend_id b) = Some g" by fastforce
  with Cons show ?case by simp
qed simp

lemma backend_instances_Some:
  assumes "generations_inv rt"
  shows "backend_instances rt =
    Some (map (\<lambda>b. (b, the (backend_generation rt (backend_id b)))) (runtime_backends rt))"
proof -
  have "hget (backend_generations (published rt)) (backend_id b) \<noteq> None"
    if "b \<in> set (runtime_backends rt)" for b
    using assms that unfolding generations_inv_def backend_generation_def
    by (metis image_eqI list.set_map)
  from instances_of_Some [OF this] show ?thesis
    by (simp add: backend_instances_def backend_generation_def)
qed

lemma foldl_hset_get:
  "hget (foldl (\<lambda>m x. hset (f x) (v x) m) m0 xs) i =
     (case find (\<lambda>x. f x = i) (rev xs) of None \<Rightarrow> hget m0 i | Some x \<Rightarrow> Some (v x))"
  by (induction xs rule: rev_induct) auto

lemma foldl_hset_distinct:
  "distinct (keys_of m0) \<Longrightarrow> distinct (keys_of (foldl (\<lambda>m x. hset (f x) (v x) m) m0 xs))"
  by (induction xs rule: rev_induct) auto

lemma find_backend:
  fixes bs :: "'u Backend list"
  assumes "distinct (map backend_id bs)"
  shows "find (\<lambda>b. backend_id b = i) (rev bs) = find (\<lambda>b. backend_id b = i) bs"
proof -
  have "distinct (map backend_id (rev bs))" using assms by (simp add: rev_map [symmetric])
  then show ?thesis
    using assms hget_by_id_distinct [OF assms, of i] hget_by_id_distinct [of "rev bs" i]
    by (simp add: hget_by_id) (metis option.exhaust set_rev)
qed

lemma runtime_backend_Some:
  "distinct (map backend_id (runtime_backends rt)) \<Longrightarrow>
     runtime_backend rt i = Some b \<longleftrightarrow> b \<in> set (runtime_backends rt) \<and> backend_id b = i"
  unfolding runtime_backend_def
  using find_backend hget_by_id hget_by_id_distinct by metis

text \<open>The maps the methods collect from the instances, by id.\<close>

lemma collected_maps:
  assumes "generations_inv rt"
  shows "\<exists>conf. configured_generations rt = Some conf \<and> distinct (keys_of conf) \<and>
      (\<forall>i. hget conf i = backend_generation rt i)"
    and "\<exists>instances. backend_instances rt = Some instances \<and>
      (\<forall>i. hget (instance_map instances) i =
        (case runtime_backend rt i of None \<Rightarrow> None
         | Some b \<Rightarrow> Some (b, the (backend_generation rt i))))"
proof -
  let ?g = "\<lambda>b. the (backend_generation rt (backend_id b))"
  let ?in = "map (\<lambda>b. (b, ?g b)) (runtime_backends rt)"
  have d: "distinct (map backend_id (runtime_backends rt))" using assms by (simp add: generations_inv_def)
  have known: "backend_generation rt i \<noteq> None \<longleftrightarrow> (\<exists>b \<in> set (runtime_backends rt). backend_id b = i)" for i
    using assms unfolding generations_inv_def by (auto simp: image_iff)
  have flat: "foldl (\<lambda>m (b, g). hset (backend_id b) (w b g) m) m0 ?in =
      foldl (\<lambda>m b. hset (backend_id b) (w b (?g b)) m) m0 (runtime_backends rt)" for w and m0 :: "(string, 'b) hashmap"
    by (simp add: foldl_map)
  have get: "hget (foldl (\<lambda>m b. hset (backend_id b) (w b) m) [] (runtime_backends rt)) i =
      map_option w (runtime_backend rt i)" for w :: "'a Backend \<Rightarrow> 'b" and i
    unfolding foldl_hset_get runtime_backend_def find_backend [OF d] by (simp split: option.split)
  have "map_option ?g (runtime_backend rt i) = backend_generation rt i" for i
  proof (cases "runtime_backend rt i")
    case None
    then have "backend_generation rt i = None"
      using known [of i] by (auto simp: runtime_backend_def find_None_iff)
    with None show ?thesis by simp
  next
    case (Some b)
    then have b: "b \<in> set (runtime_backends rt)" "backend_id b = i"
      using runtime_backend_Some [OF d] by auto
    then obtain g where "backend_generation rt i = Some g" using known [of i] by auto
    with Some b show ?thesis by simp
  qed
  then show "\<exists>conf. configured_generations rt = Some conf \<and> distinct (keys_of conf) \<and>
      (\<forall>i. hget conf i = backend_generation rt i)"
    using backend_instances_Some [OF assms] foldl_hset_distinct [of "[]" backend_id ?g]
    by (simp add: configured_generations_def flat get)
  have "map_option (\<lambda>b. (b, ?g b)) (runtime_backend rt i) = (case runtime_backend rt i of None \<Rightarrow> None
         | Some b \<Rightarrow> Some (b, the (backend_generation rt i)))" for i
    using runtime_backend_Some [OF d, of i] by (auto split: option.split)
  then show "\<exists>instances. backend_instances rt = Some instances \<and>
      (\<forall>i. hget (instance_map instances) i =
        (case runtime_backend rt i of None \<Rightarrow> None
         | Some b \<Rightarrow> Some (b, the (backend_generation rt i))))"
    using backend_instances_Some [OF assms] by (simp add: instance_map_def flat get)
qed

text \<open>What \<open>ensure_backends\<close> leaves for one id.\<close>

definition ensured :: "u64 option \<Rightarrow> LiveBackend option \<Rightarrow> LiveBackend option" where
  "ensured conf old =
     (case conf of
        None \<Rightarrow> None
      | Some g \<Rightarrow>
          (case old of
             None \<Rightarrow> Some (live_new g)
           | Some live \<Rightarrow> Some (if topology_generation live = g then live else live_new g)))"

lemma ensure_one_get:
  "hget (ensure_one (i, g) m) j = (if j = i then ensured (Some g) (hget m i) else hget m j)"
  by (simp add: ensure_one_def ensured_def split: option.split)

lemma ensure_one_distinct: "distinct (keys_of m) \<Longrightarrow> distinct (keys_of (ensure_one x m))"
  by (auto simp: ensure_one_def split: prod.split option.split)

lemma ensure_fold_get:
  "distinct (keys_of conf) \<Longrightarrow>
     hget (fold ensure_one conf m) j =
       (case hget conf j of None \<Rightarrow> hget m j | Some g \<Rightarrow> ensured (Some g) (hget m j))"
proof (induction conf arbitrary: m)
  case (Cons x conf)
  obtain i g where x: "x = (i, g)" by fastforce
  with Cons.prems have "hget conf i = None" by (simp add: hget_None_iff)
  with Cons x show ?case by (simp add: ensure_one_get split: option.split)
qed simp

lemma ensure_fold_distinct: "distinct (keys_of m) \<Longrightarrow> distinct (keys_of (fold ensure_one conf m))"
  by (induction conf arbitrary: m) (simp_all add: ensure_one_distinct)

lemma ensure_backends_spec:
  assumes "generations_inv rt" and "distinct (keys_of (inner_backends inner))"
  shows "\<exists>inner'. ensure_backends rt inner = Some inner' \<and>
    rotating_cursor inner' = rotating_cursor inner \<and> distinct (keys_of (inner_backends inner')) \<and>
    (\<forall>i. hget (inner_backends inner') i =
       ensured (backend_generation rt i) (hget (inner_backends inner) i))"
proof -
  obtain conf where conf: "configured_generations rt = Some conf" "distinct (keys_of conf)"
    "\<And>i. hget conf i = backend_generation rt i"
    using collected_maps(1) [OF assms(1)] by blast
  let ?kept = "filter (\<lambda>(i, live). hcontains conf i) (inner_backends inner)"
  have kept: "hget ?kept i = (if hcontains conf i then hget (inner_backends inner) i else None)" for i
    using hget_filter_keys [of "hcontains conf"] by blast
  have "distinct (keys_of ?kept)" using assms(2) by (rule distinct_keys_filter)
  then have "distinct (keys_of (fold ensure_one conf ?kept))"
    by (rule ensure_fold_distinct)
  moreover have "hget (fold ensure_one conf ?kept) i =
      ensured (backend_generation rt i) (hget (inner_backends inner) i)" for i
    unfolding ensure_fold_get [OF conf(2)] kept unfolding hcontains_hget conf(3)
    by (simp add: ensured_def split: option.split)
  ultimately show ?thesis using conf(1) by (simp add: ensure_backends_def)
qed

text \<open>The recording methods, through \<open>on_current_live\<close>.\<close>

lemma ensured_generation: "ensured (Some c) old = Some live \<Longrightarrow> topology_generation live = c"
  by (auto simp: ensured_def live_new_def split: option.splits if_splits)

lemma ensured_Some: "\<exists>live. ensured (Some c) old = Some live"
  by (auto simp: ensured_def split: option.split)

lemma routing_ensured:
  assumes "routing_inv s"
  obtains inner where "ensure_backends (rt_runtime s) (rt_inner s) = Some inner"
    and "rotating_cursor inner = rotating_cursor (rt_inner s)"
    and "distinct (keys_of (inner_backends inner))"
    and "\<And>i. hget (inner_backends inner) i =
       ensured (backend_generation (rt_runtime s) i) (hget (inner_backends (rt_inner s)) i)"
  using ensure_backends_spec [of "rt_runtime s" "rt_inner s"] assms
  unfolding routing_inv_def by blast

lemma on_current_live_spec:
  assumes "ensure_backends (rt_runtime s) (rt_inner s) = Some inner"
    and "hget (inner_backends inner) i =
       ensured (backend_generation (rt_runtime s) i) (hget (inner_backends (rt_inner s)) i)"
  shows "on_current_live i g absent f s =
    (if backend_generation (rt_runtime s) i = Some g
     then do {
       (r, live') \<leftarrow> f (the (hget (inner_backends inner) i));
       Some (r, s\<lparr>rt_inner := inner\<lparr>inner_backends := hset i live' (inner_backends inner)\<rparr>\<rparr>)
     }
     else Some (absent, s\<lparr>rt_inner := inner\<rparr>))"
proof (cases "backend_generation (rt_runtime s) i")
  case None
  with assms have "hget (inner_backends inner) i = None" by (simp add: ensured_def)
  with None assms(1) show ?thesis by (simp add: on_current_live_def)
next
  case (Some c)
  with assms(2) ensured_Some obtain live where live: "hget (inner_backends inner) i = Some live" by metis
  with assms(2) Some ensured_generation have "topology_generation live = c" by metis
  with live Some assms(1) show ?thesis by (simp add: on_current_live_def)
qed

subsection \<open>Properties: results of probes\<close>

text \<open>
  A late result never touches another endpoint. Recording a readiness probe, the start
  or the result of a scrape under a generation that is not the current one of that id
  reports nothing and leaves the live views as bringing them up to date leaves them: the
  entry of every configured backend that has the current generation is unchanged.
\<close>

theorem late_results_discarded:
  assumes "routing_inv s" and "backend_generation (rt_runtime s) i \<noteq> Some g"
  shows "\<exists>inner. ensure_backends (rt_runtime s) (rt_inner s) = Some inner \<and>
    record_readiness_success_for now i g s = Some (None, s\<lparr>rt_inner := inner\<rparr>) \<and>
    record_readiness_failure_for now i g kind error s = Some (None, s\<lparr>rt_inner := inner\<rparr>) \<and>
    begin_metrics_scrape now i g s = Some (None, s\<lparr>rt_inner := inner\<rparr>) \<and>
    record_metrics_success_for now i g m scrape s = Some (s\<lparr>rt_inner := inner\<rparr>) \<and>
    record_metrics_failure_for now i g (scrape_serial scrape) error s = Some (s\<lparr>rt_inner := inner\<rparr>) \<and>
    (\<forall>j live. hget (inner_backends (rt_inner s)) j = Some live \<longrightarrow>
       backend_generation (rt_runtime s) j = Some (topology_generation live) \<longrightarrow>
       hget (inner_backends inner) j = Some live)"
proof -
  from assms(1) obtain inner where inner: "ensure_backends (rt_runtime s) (rt_inner s) = Some inner"
    "\<And>i. hget (inner_backends inner) i =
       ensured (backend_generation (rt_runtime s) i) (hget (inner_backends (rt_inner s)) i)"
    by (rule routing_ensured) blast
  note other = on_current_live_spec [OF inner, of i g] assms(2)
  have "hget (inner_backends inner) j = Some live"
    if "hget (inner_backends (rt_inner s)) j = Some live"
      "backend_generation (rt_runtime s) j = Some (topology_generation live)" for j live
    using inner(2) [of j] that by (simp add: ensured_def)
  with inner(1) show ?thesis
    by (simp add: record_readiness_success_for_def record_readiness_failure_for_def Let_def
        begin_metrics_scrape_def record_metrics_success_for_def record_metrics_failure_for_def other)
qed

definition demo_routing :: "demo_uri RoutingState" where
  "demo_routing =
     \<lparr>rt_runtime = demo_runtime,
      rt_inner = \<lparr>inner_backends = [(''a'', (live_new 1)\<lparr>readiness := Ready\<rparr>)], rotating_cursor = 0\<rparr>\<rparr>"

lemma demo_routing_inv: "routing_inv demo_routing"
  using demo_runtime_inv by (simp add: routing_inv_def runtime_inv_def demo_routing_def)

theorem late_results_discarded_witness:
  "record_metrics_failure_for 0 ''a'' 7 1 ''timeout'' demo_routing = Some demo_routing"
proof -
  have g: "backend_generation (rt_runtime demo_routing) ''a'' \<noteq> Some 7"
    by (simp add: demo_routing_def demo_runtime_def backend_generation_def)
  have "ensure_backends (rt_runtime demo_routing) (rt_inner demo_routing) = Some (rt_inner demo_routing)"
    by (simp add: ensure_backends_def configured_generations_def backend_instances_def
        runtime_backends_def demo_routing_def demo_runtime_def demo_config_def demo_backend_def
        hset_def ensure_one_def hcontains_def live_new_def)
  with late_results_discarded [OF demo_routing_inv g, of 0 FailedUnready "''timeout''" demo_idle
      "\<lparr>scrape_serial = 1, scrape_dispatches = 0, scrape_observed_at = 0\<rparr>"]
  show ?thesis by simp
qed

subsection \<open>Sorting by a comparison\<close>

text \<open>What a comparison owes the sort: it is total and transitive.\<close>

locale sort_order =
  fixes le :: "'a \<Rightarrow> 'a \<Rightarrow> bool"
  assumes total_le: "le x y \<or> le y x"
    and trans_le: "le x y \<Longrightarrow> le y z \<Longrightarrow> le x z"
begin

lemma set_insert_by: "set (insert_by le x xs) = insert x (set xs)"
  by (induction xs) auto

lemma sorted_insert_by: "sorted_wrt le xs \<Longrightarrow> sorted_wrt le (insert_by le x xs)"
proof (induction xs)
  case (Cons y ys)
  show ?case
  proof (cases "le x y")
    case True
    with Cons.prems show ?thesis by (auto intro: trans_le)
  next
    case False
    then have "le y x" using total_le by blast
    with False Cons show ?thesis by (auto simp: set_insert_by)
  qed
qed simp

lemma set_sort_by: "set (sort_by le xs) = set xs"
  unfolding sort_by_def by (induction xs) (auto simp: set_insert_by)

lemma sorted_sort_by: "sorted_wrt le (sort_by le xs)"
  unfolding sort_by_def by (induction xs) (auto simp: sorted_insert_by)

text \<open>The first element that satisfies \<open>P\<close> is a least one among those that do.\<close>

lemma find_sort_by_least:
  assumes "find P (sort_by le xs) = Some x"
  shows "x \<in> set xs \<and> P x \<and> (\<forall>y \<in> set xs. P y \<longrightarrow> le x y)"
proof -
  have refl_le: "le z z" for z using total_le by blast
  have first: "find P ys = Some x \<Longrightarrow> sorted_wrt le ys \<Longrightarrow> y \<in> set ys \<Longrightarrow> P y \<Longrightarrow> le x y" for y ys
    by (induction ys) (auto simp: refl_le split: if_splits)
  from assms have "x \<in> set (sort_by le xs) \<and> P x" by (rule find_SomeD)
  with first [OF assms sorted_sort_by] show ?thesis by (simp add: set_sort_by)
qed

lemma find_sort_by_None: "find P (sort_by le xs) = None \<longleftrightarrow> (\<forall>x \<in> set xs. \<not> P x)"
  by (auto simp: find_None_iff set_sort_by)

end

lemma f64_total_le_total: "f64_total_le a b \<or> f64_total_le b a"
  by (cases a; cases b) auto

lemma f64_total_le_trans: "f64_total_le a b \<Longrightarrow> f64_total_le b c \<Longrightarrow> f64_total_le a c"
  by (cases a; cases b; cases c) auto

lemma f64_total_le_antisym: "f64_total_le a b \<Longrightarrow> f64_total_le b a \<Longrightarrow> a = b"
  by (cases a; cases b) auto

interpretation inflight: sort_order "inflight_le cursor" for cursor
proof
  fix x y z :: Candidate
  show "inflight_le cursor x y \<or> inflight_le cursor y x"
    by (auto simp: inflight_le_def rotated_le_def)
  show "inflight_le cursor x y \<Longrightarrow> inflight_le cursor y z \<Longrightarrow> inflight_le cursor x z"
    by (auto simp: inflight_le_def rotated_le_def split: if_splits)
qed

interpretation by_pressure: sort_order "pressure_le cursor" for cursor
proof
  fix x y z :: Candidate
  show "pressure_le cursor x y \<or> pressure_le cursor y x"
    using inflight.total_le [of cursor x y] f64_total_le_total [of "cand_pressure x" "cand_pressure y"]
    by (auto simp: pressure_le_def)
  assume "pressure_le cursor x y" and "pressure_le cursor y z"
  then show "pressure_le cursor x z"
    using inflight.trans_le [of cursor x y z] f64_total_le_trans [of "cand_pressure x" "cand_pressure y"]
      f64_total_le_antisym [of "cand_pressure x" "cand_pressure y"]
    by (auto simp: pressure_le_def)
qed

subsection \<open>Lemmas: selection\<close>

lemma hset_same: "hget m k = Some v \<Longrightarrow> hset k v m = m"
  unfolding hset_def by (induction m) (auto split: if_splits)

lemma map_filter_set: "y \<in> set (List.map_filter f xs) \<longleftrightarrow> (\<exists>x \<in> set xs. f x = Some y)"
  by (auto simp: List.map_filter_def) force

lemma map_filter_distinct:
  assumes "\<And>x y. f x = Some y \<Longrightarrow> g y = h x" and "distinct (map h xs)"
  shows "distinct (map g (List.map_filter f xs))"
  using assms(2)
proof (induction xs)
  case (Cons x xs)
  have sub: "set (map g (List.map_filter f xs)) \<subseteq> set (map h xs)"
    using assms(1) by (auto simp: map_filter_set) 
  show ?case
  proof (cases "f x")
    case None
    with Cons show ?thesis by (simp add: List.map_filter_simps)
  next
    case (Some y)
    with Cons assms(1) [OF Some] sub show ?thesis by (auto simp: List.map_filter_simps)
  qed
qed (simp add: List.map_filter_simps)

text \<open>The snapshots come from the registered slots.\<close>

lemma snapshots_slot:
  assumes "registry_inv slots" and "snap \<in> set (snapshots now slots)"
  shows "\<exists>slot. registry_get slots (snapshot_id snap) = Some slot \<and> snap = slot_snapshot slot now"
proof -
  from assms(2) obtain i slot where slot: "(i, slot) \<in> set slots" "snap = slot_snapshot slot now"
    "st_registered (slot_state slot)"
    by (auto simp: snapshots_def slot_snapshot_def state_snapshot_def)
  with assms(1) have "slot_id slot = i" "hget slots i = Some slot"
    by (auto simp: registry_inv_def hget_Some_iff)
  with slot show ?thesis
    by (auto simp: registry_get_Some snapshot_id_def slot_snapshot_def state_snapshot_def slot_id_def)
qed

text \<open>What makes a candidate, in the state the selection starts from.\<close>

definition candidate_facts ::
  "instant \<Rightarrow> 'u RoutingState \<Rightarrow> Candidate \<Rightarrow> bool" where
  "candidate_facts now s c \<longleftrightarrow>
     (\<exists>slot live b. registry_get (registry (rt_runtime s)) (cand_id c) = Some slot \<and>
        st_mode (slot_state slot) = Active \<and> cand_local_active c = length (st_leases (slot_state slot)) \<and>
        get_live s (cand_id c) = Some live \<and> readiness live = Ready \<and>
        circuit_state (circuit live) now \<noteq> CircuitOpen \<and>
        runtime_backend (rt_runtime s) (cand_id c) = Some b \<and>
        backend_generation (rt_runtime s) (cand_id c) = Some (topology_generation live) \<and>
        (cand_score c, cand_metrics c) =
          score_candidate (slot_snapshot slot now) live b now
            (from_millis (stale_after_ms (cfg_telemetry (pub_config (published (rt_runtime s))))))
            (kv_soft_limit (cfg_routing (pub_config (published (rt_runtime s))))))"

lemma candidate_of_id:
  "candidate_of now a k configs inner snap = Some c \<Longrightarrow> cand_id c = snapshot_id snap"
  by (auto simp: candidate_of_def split: if_splits option.splits prod.splits)

lemma eligible_candidates_spec:
  assumes "routing_inv s"
  obtains cs s0 where "eligible_candidates now s = Some (cs, rotating_cursor (rt_inner s), s0)"
    and "rt_runtime s0 = rt_runtime s" and "routing_inv s0"
    and "distinct (map cand_id cs)" and "\<And>c. c \<in> set cs \<Longrightarrow> candidate_facts now s0 c"
proof -
  let ?slots = "registry (rt_runtime s)" and ?config = "pub_config (published (rt_runtime s))"
  let ?stale = "from_millis (stale_after_ms (cfg_telemetry ?config))"
  let ?limit = "kv_soft_limit (cfg_routing ?config)"
  have gi: "generations_inv (rt_runtime s)" and ri: "registry_inv ?slots"
    using assms by (simp_all add: routing_inv_def)
  obtain instances where inst: "backend_instances (rt_runtime s) = Some instances"
    "\<And>i. hget (instance_map instances) i = (case runtime_backend (rt_runtime s) i of None \<Rightarrow> None
         | Some b \<Rightarrow> Some (b, the (backend_generation (rt_runtime s) i)))"
    using collected_maps(2) [OF gi] by blast
  from assms obtain inner where inner: "ensure_backends (rt_runtime s) (rt_inner s) = Some inner"
    "rotating_cursor inner = rotating_cursor (rt_inner s)" "distinct (keys_of (inner_backends inner))"
    "\<And>i. hget (inner_backends inner) i =
       ensured (backend_generation (rt_runtime s) i) (hget (inner_backends (rt_inner s)) i)"
    by (rule routing_ensured) blast
  let ?f = "candidate_of now ?stale ?limit (instance_map instances) inner"
  let ?cs = "List.map_filter ?f (snapshots now ?slots)"
  let ?s0 = "s\<lparr>rt_inner := inner\<lparr>rotating_cursor := rotating_cursor inner + 1\<rparr>\<rparr>"
  have facts: "candidate_facts now ?s0 c" if "c \<in> set ?cs" for c
  proof -
    from that obtain snap where snap: "snap \<in> set (snapshots now ?slots)" "?f snap = Some c"
      by (auto simp: map_filter_set)
    from snapshots_slot [OF ri snap(1)] obtain slot where
      slot: "registry_get ?slots (snapshot_id snap) = Some slot" "snap = slot_snapshot slot now" by blast
    from snap(2) obtain live b where live: "hget (inner_backends inner) (snapshot_id snap) = Some live"
      "readiness live = Ready" "circuit_state (circuit live) now \<noteq> CircuitOpen" "snap_mode snap = Active"
      "hget (instance_map instances) (snapshot_id snap) = Some (b, topology_generation live)"
      "cand_local_active c = snap_local_active snap"
      "(cand_score c, cand_metrics c) = score_candidate snap live b now ?stale ?limit"
      by (auto simp: candidate_of_def split: if_splits option.splits prod.splits)
    have "runtime_backend (rt_runtime s) (snapshot_id snap) = Some b"
      using live(5) inst(2) [of "snapshot_id snap"] by (auto split: option.splits)
    moreover have "backend_generation (rt_runtime s) (snapshot_id snap) = Some (topology_generation live)"
      using inner(4) [of "snapshot_id snap"] live(1) ensured_generation
      by (cases "backend_generation (rt_runtime s) (snapshot_id snap)") (auto simp: ensured_def [of None])
    ultimately show ?thesis
      using slot live candidate_of_id [OF snap(2)] unfolding candidate_facts_def
      by (auto simp: get_live_def slot_snapshot_def state_snapshot_def)
  qed
  have "distinct (map cand_id ?cs)"
    using map_filter_distinct [of ?f cand_id snapshot_id] candidate_of_id snapshot_ids(2) [OF ri] by blast
  moreover have "eligible_candidates now s = Some (?cs, rotating_cursor (rt_inner s), ?s0)"
    using inst(1) inner(1,2) by (simp add: eligible_candidates_def Let_def)
  moreover have "routing_inv ?s0" using assms inner(3) by (simp add: routing_inv_def)
  ultimately show ?thesis using that facts by simp
qed

lemma order_candidates_set:
  "set (order_candidates cursor cs) =
     (if \<exists>c \<in> set cs. cand_score c \<noteq> None then {c \<in> set cs. cand_score c \<noteq> None} else set cs)"
  by (auto simp: order_candidates_def by_pressure.set_sort_by inflight.set_sort_by list_ex_iff)

subsection \<open>Lemmas: attempts\<close>

definition permitted :: "instant \<Rightarrow> 'u RoutingState \<Rightarrow> Candidate \<Rightarrow> bool" where
  "permitted now s c \<longleftrightarrow>
     (\<exists>live p live'. get_live s (cand_id c) = Some live \<and> live_permit (cand_id c) now live = (Some p, live'))"

lemma put_live_same: "get_live s i = Some live \<Longrightarrow> put_live i live s = s"
  by (simp add: put_live_def get_live_def hset_same)

lemma live_permit_None: "live_permit i now live = (None, live') \<Longrightarrow> live' = live"
  by (auto simp: live_permit_def Let_def split: Circuit.splits if_splits)

lemma attempt_refused:
  assumes "\<not> permitted now s c"
  shows "attempt now n c s = Some (None, s)"
proof (cases "get_live s (cand_id c)")
  case None
  then show ?thesis by (simp add: attempt_def try_circuit_permit_def)
next
  case (Some live)
  obtain p live' where lp: "live_permit (cand_id c) now live = (p, live')" by fastforce
  with assms Some have "p = None" by (cases p) (auto simp: permitted_def)
  with lp Some live_permit_None [of "cand_id c" now live live'] show ?thesis
    by (simp add: attempt_def try_circuit_permit_def put_live_same)
qed

text \<open>A successful attempt, in any state.\<close>

lemma attempt_granted_facts:
  assumes "attempt now n c s = Some (Some sel, s')"
  shows "\<exists>slot slot' live live'. hget (registry (rt_runtime s)) (cand_id c) = Some slot \<and>
    try_acquire now slot = Some (Inr (sel_lease sel), slot') \<and>
    registry (rt_runtime s') = hset (cand_id c) slot' (registry (rt_runtime s)) \<and>
    get_live s (cand_id c) = Some live \<and>
    live_permit (cand_id c) now live = (Some (sel_permit sel), live') \<and>
    sel_decision sel = decision_of n c"
proof -
  from assms obtain permit s1 where tp: "try_circuit_permit now (cand_id c) s = (Some permit, s1)"
    by (auto simp: attempt_def split: prod.splits option.splits)
  then obtain live live' where live: "get_live s (cand_id c) = Some live"
    "live_permit (cand_id c) now live = (Some permit, live')" "s1 = put_live (cand_id c) live' s"
    by (auto simp: try_circuit_permit_def split: option.splits prod.splits)
  have reg: "registry (rt_runtime s1) = registry (rt_runtime s)" by (simp add: live(3) put_live_def)
  from assms tp obtain slots where acq: "registry_try_acquire now (cand_id c) (registry (rt_runtime s1)) =
        Some (Inr (sel_lease sel), slots)"
    and s': "s' = s1\<lparr>rt_runtime := (rt_runtime s1)\<lparr>registry := slots\<rparr>\<rparr>"
    and sel: "sel_permit sel = permit" "sel_decision sel = decision_of n c"
    by (auto simp: attempt_def Let_def split: prod.splits bind_splits sum.splits)
  from acq obtain slot slot' where "hget (registry (rt_runtime s)) (cand_id c) = Some slot"
    "try_acquire now slot = Some (Inr (sel_lease sel), slot')"
    "slots = hset (cand_id c) slot' (registry (rt_runtime s))"
    unfolding reg
    by (auto simp: registry_try_acquire_def get_retained_def split: option.splits bind_splits sum.splits)
  with s' sel live show ?thesis by auto
qed

definition acquire_room :: "BackendSlot \<Rightarrow> bool" where
  "acquire_room slot \<longleftrightarrow>
     unat (st_next_lease_serial (slot_state slot)) + 1 < 2 ^ 64 \<and>
     unat (st_total_acquired (slot_state slot)) + 1 < 2 ^ 64 \<and>
     unat (st_sequence (slot_state slot)) + 1 < 2 ^ 64"

lemma try_acquire_total:
  assumes "acquire_room slot" and "st_registered (slot_state slot)" and "st_mode (slot_state slot) = Active"
  shows "\<exists>lease slot'. try_acquire now slot = Some (Inr lease, slot')"
  using assms
  by (auto simp: try_acquire_def Let_def publish_locked_def next_sequence_def acquire_room_def checked_add_def)

lemma attempt_granted:
  assumes "permitted now s c" and "registry_get (registry (rt_runtime s)) (cand_id c) = Some slot"
    and "st_mode (slot_state slot) = Active" and "acquire_room slot"
  shows "\<exists>sel s'. attempt now n c s = Some (Some sel, s')"
proof -
  from assms(2) have slot: "hget (registry (rt_runtime s)) (cand_id c) = Some slot"
    "st_registered (slot_state slot)" by (simp_all add: registry_get_Some)
  with try_acquire_total [OF assms(4) _ assms(3)] obtain lease slot' where
    acq: "try_acquire now slot = Some (Inr lease, slot')" by blast
  from assms(1) obtain live p live' where "get_live s (cand_id c) = Some live"
    "live_permit (cand_id c) now live = (Some p, live')" by (auto simp: permitted_def)
  with slot acq show ?thesis
    by (simp add: attempt_def try_circuit_permit_def registry_try_acquire_def get_retained_def put_live_def)
qed

lemma dispatch_frozen:
  assumes "\<And>c. c \<in> set cs \<Longrightarrow> \<exists>slot. registry_get (registry (rt_runtime s)) (cand_id c) = Some slot \<and>
      st_mode (slot_state slot) = Active \<and> acquire_room slot"
  shows "case find (permitted now s) cs of
      None \<Rightarrow> dispatch (\<lambda>_. now) (\<lambda>_ t. t) k n cs s = Some (None, s)
    | Some c \<Rightarrow> \<exists>sel s'. dispatch (\<lambda>_. now) (\<lambda>_ t. t) k n cs s = Some (Some sel, s') \<and>
        attempt now n c s = Some (Some sel, s')"
  using assms
proof (induction cs arbitrary: k)
  case (Cons c cs)
  show ?case
  proof (cases "permitted now s c")
    case True
    obtain slot where "registry_get (registry (rt_runtime s)) (cand_id c) = Some slot"
      "st_mode (slot_state slot) = Active" "acquire_room slot" using Cons.prems [of c] by auto
    from attempt_granted [OF True this, of n] obtain sel s' where
      "attempt now n c s = Some (Some sel, s')" by blast
    with True show ?thesis by simp
  next
    case False
    then have skip: "dispatch (\<lambda>_. now) (\<lambda>_ t. t) k n (c # cs) s = dispatch (\<lambda>_. now) (\<lambda>_ t. t) (Suc k) n cs s"
      by (simp add: attempt_refused)
    have "find (permitted now s) (c # cs) = find (permitted now s) cs" using False by simp
    with Cons.IH [of "Suc k"] Cons.prems show ?thesis unfolding skip by simp
  qed
qed simp

text \<open>The circuit of a candidate refuses a permit only because its trial is in flight.\<close>

definition trial_out :: "'u RoutingState \<Rightarrow> Candidate \<Rightarrow> bool" where
  "trial_out s c \<longleftrightarrow> map_option circuit (get_live s (cand_id c)) = Some (HalfOpen True)"

lemma permitted_candidate:
  assumes "candidate_facts now s c"
  shows "permitted now s c \<longleftrightarrow> \<not> trial_out s c"
proof -
  from assms obtain live where live: "get_live s (cand_id c) = Some live"
    "circuit_state (circuit live) now \<noteq> CircuitOpen" by (auto simp: candidate_facts_def)
  have "(\<exists>p live'. live_permit i now live = (Some p, live')) \<longleftrightarrow> circuit live \<noteq> HalfOpen True" for i
    using live(2) by (cases "circuit live") (auto simp: live_permit_def Let_def split: if_splits)
  with live(1) show ?thesis by (auto simp: permitted_def trial_out_def)
qed

text \<open>The candidates that are tried: the scored ones, or all when none is scored.\<close>

definition pool :: "Candidate list \<Rightarrow> Candidate set" where
  "pool cs = (if \<exists>c \<in> set cs. cand_score c \<noteq> None then {c \<in> set cs. cand_score c \<noteq> None} else set cs)"

definition at_least_as_good :: "Candidate \<Rightarrow> Candidate \<Rightarrow> bool" where
  "at_least_as_good c d \<longleftrightarrow>
     f64_total_le (cand_pressure c) (cand_pressure d) \<and>
     (cand_pressure c = cand_pressure d \<longrightarrow> cand_local_active c \<le> cand_local_active d)"

lemma order_candidates_find:
  "find P (order_candidates cursor cs) = Some c \<Longrightarrow>
     c \<in> pool cs \<and> P c \<and> (\<forall>d \<in> pool cs. P d \<longrightarrow> at_least_as_good c d)"
  "find P (order_candidates cursor cs) = None \<longleftrightarrow> (\<forall>d \<in> pool cs. \<not> P d)"
proof -
  have best: "at_least_as_good c d" if "pressure_le cursor c d" for d
    using that by (auto simp: at_least_as_good_def pressure_le_def inflight_le_def)
  have fewest: "at_least_as_good c d"
    if "inflight_le cursor c d" "cand_score c = None" "cand_score d = None" for d
    using that by (auto simp: at_least_as_good_def cand_pressure_def inflight_le_def)
  show "c \<in> pool cs \<and> P c \<and> (\<forall>d \<in> pool cs. P d \<longrightarrow> at_least_as_good c d)"
    if "find P (order_candidates cursor cs) = Some c"
  proof (cases "list_ex (\<lambda>c. cand_score c \<noteq> None) cs")
    case True
    with that have "find P (sort_by (pressure_le cursor) (filter (\<lambda>c. cand_score c \<noteq> None) cs)) = Some c"
      by (simp add: order_candidates_def)
    from by_pressure.find_sort_by_least [OF this] best True show ?thesis
      by (auto simp: pool_def list_ex_iff)
  next
    case False
    with that have "find P (sort_by (inflight_le cursor) cs) = Some c" by (simp add: order_candidates_def)
    from inflight.find_sort_by_least [OF this] fewest False show ?thesis
      by (auto simp: pool_def list_ex_iff)
  qed
  show "find P (order_candidates cursor cs) = None \<longleftrightarrow> (\<forall>d \<in> pool cs. \<not> P d)"
    by (auto simp: find_None_iff order_candidates_set pool_def)
qed

text \<open>A selection of a candidate holds a lease, and reports the requests in flight with it.\<close>

lemma attempt_counts:
  assumes "attempt now n c s = Some (Some sel, s')" and "routing_inv s" and "candidate_facts now s c"
  shows "sel_decision sel = decision_of n c \<and>
    (\<exists>slot'. hget (registry (rt_runtime s')) (cand_id c) = Some slot' \<and>
      (\<exists>key \<in> set (st_leases (slot_state slot')). lease_key (sel_lease sel) = Some key) \<and>
      dec_proxy_active (sel_decision sel) = length (st_leases (slot_state slot')))"
proof -
  from attempt_granted_facts [OF assms(1)] obtain slot slot' where
    slot: "hget (registry (rt_runtime s)) (cand_id c) = Some slot"
    "try_acquire now slot = Some (Inr (sel_lease sel), slot')"
    "registry (rt_runtime s') = hset (cand_id c) slot' (registry (rt_runtime s))"
    "sel_decision sel = decision_of n c" by blast
  have si: "slot_inv slot" using registry_invD [OF _ slot(1)] assms(2) by (simp add: routing_inv_def)
  let ?key = "LeaseKey now (st_next_lease_serial (slot_state slot))"
  have fresh: "?key \<notin> set (st_leases (slot_state slot))"
    using si by (auto simp: slot_inv_def Let_def)
  have key: "lease_key (sel_lease sel) = Some ?key"
    "st_leases (slot_state slot') = insort_insert ?key (st_leases (slot_state slot))"
    using slot(2) by (auto simp: try_acquire_Inr)
  have "cand_local_active c = length (st_leases (slot_state slot))"
    using assms(3) slot(1) by (auto simp: candidate_facts_def registry_get_Some)
  then have "dec_proxy_active (sel_decision sel) = length (st_leases (slot_state slot'))"
    using fresh key(2) by (simp add: slot(4) decision_of_def insort_insert_key_def Let_def)
  moreover have "?key \<in> set (st_leases (slot_state slot'))"
    unfolding key(2) by (simp add: set_insort_insert)
  ultimately show ?thesis using slot(3,4) key(1) by auto
qed

subsection \<open>Properties: selection\<close>


lemma demo_acquire_room: "\<forall>(i, slot) \<in> set (registry (rt_runtime demo_routing)). acquire_room slot"
  by (simp add: demo_routing_def demo_runtime_def acquire_room_def)

lemma demo_eligible:
  "\<exists>s0. eligible_candidates 5 demo_routing =
     Some ([\<lparr>cand_id = ''a'', cand_local_active = 0, cand_score = None, cand_metrics = None\<rparr>], 0, s0) \<and>
     map_option circuit (get_live s0 ''a'') = Some Closed"
  by (simp add: eligible_candidates_def Let_def ensure_backends_def configured_generations_def
      backend_instances_def runtime_backends_def demo_routing_def demo_runtime_def demo_config_def
      demo_backend_def hset_def ensure_one_def hcontains_def live_new_def instance_map_def
      List.map_filter_simps candidate_of_def snapshots_def slot_snapshot_def state_snapshot_def
      snapshot_id_def score_candidate_def get_live_def)


text \<open>An attempt that yields nothing leaves the registry alone and gives a trial back.\<close>

lemma attempt_failed_facts:
  assumes "attempt now n c s = Some (None, s')"
  shows "registry (rt_runtime s') = registry (rt_runtime s) \<and>
    (\<forall>i. map_option circuit (get_live s' i) = Some (HalfOpen True) \<longrightarrow>
      map_option circuit (get_live s i) = Some (HalfOpen True))"
proof (cases "permitted now s c")
  case False
  with attempt_refused [OF False, of n] assms have "s' = s" by simp
  then show ?thesis by simp
next
  case True
  then obtain live p live' where live: "get_live s (cand_id c) = Some live"
    "live_permit (cand_id c) now live = (Some p, live')" by (auto simp: permitted_def)
  let ?s1 = "put_live (cand_id c) live' s"
  have reg: "registry (rt_runtime ?s1) = registry (rt_runtime s)" by (simp add: put_live_def)
  have p: "permit_backend_id p = cand_id c" "\<not> permit_resolved p" "permit_epoch p = circuit_epoch live'"
    "permit_trial p \<or> live' = live"
    using live(2) by (auto simp: live_permit_def Let_def split: Circuit.splits if_splits)
  obtain e slots s2 where acq: "registry_try_acquire now (cand_id c) (registry (rt_runtime s)) = Some (Inl e, slots)"
    and s2: "s2 = ?s1\<lparr>rt_runtime := (rt_runtime ?s1)\<lparr>registry := slots\<rparr>\<rparr>"
    and drop: "drop_permit now p s2 = Some s'"
    using assms live reg
    by (auto simp: attempt_def try_circuit_permit_def Let_def split: bind_splits sum.splits)
  have slots: "slots = registry (rt_runtime s)"
  proof (cases "hget (registry (rt_runtime s)) (cand_id c)")
    case None
    with acq show ?thesis by (simp add: registry_try_acquire_def get_retained_def)
  next
    case (Some slot)
    with acq obtain x slot' where "try_acquire now slot = Some (Inl x, slot')"
      "slots = hset (cand_id c) slot' (registry (rt_runtime s))"
      by (auto simp: registry_try_acquire_def get_retained_def split: bind_splits sum.splits)
    with try_acquire_Inl Some hset_same show ?thesis by metis
  qed
  have get2: "get_live s2 i = (if i = cand_id c then Some live' else get_live s i)" for i
    by (simp add: s2 get_live_def put_live_def)
  have "s' = put_live (cand_id c) (if permit_trial p then live'\<lparr>circuit := HalfOpen False\<rparr> else live') s2"
    using drop p get2 [of "cand_id c"]
    by (auto simp: drop_permit_def permit_resolve_def record_circuit_outcome_def live_outcome_def
        split: if_splits)
  then have "get_live s' i = (if i = cand_id c
      then Some (if permit_trial p then live'\<lparr>circuit := HalfOpen False\<rparr> else live') else get_live s i)"
    "rt_runtime s' = rt_runtime s2" for i
    using get2 by (auto simp: put_live_def get_live_def)
  with p(4) live(1) slots reg show ?thesis by (auto simp: s2)
qed

lemma dispatch_Some:
  assumes "dispatch clock env k n cs s = Some (Some sel, s')"
  shows "\<exists>j c t. c \<in> set cs \<and> attempt (clock j) n c t = Some (Some sel, s')"
  using assms
proof (induction cs arbitrary: k s)
  case (Cons c cs)
  then obtain r t where at: "attempt (clock k) n c (env k s) = Some (r, t)"
    by (auto split: bind_splits)
  show ?case
  proof (cases r)
    case None
    with at Cons.prems have "dispatch clock env (Suc k) n cs t = Some (Some sel, s')" by simp
    from Cons.IH [OF this] show ?thesis by auto
  next
    case (Some sl)
    with at Cons.prems have "attempt (clock k) n c (env k s) = Some (Some sel, s')" by simp
    then show ?thesis by (meson list.set_intros(1))
  qed
qed simp

text \<open>A lease granted at instant \<open>now\<close> in state \<open>t\<close>, with the gates open there.\<close>

definition granted_at ::
  "instant \<Rightarrow> RouteSelection \<Rightarrow> BackendId \<Rightarrow> 'u RoutingState \<Rightarrow> 'u RoutingState \<Rightarrow> bool" where
  "granted_at now sel i t s' \<longleftrightarrow>
     (\<exists>slot slot' live. hget (registry (rt_runtime t)) i = Some slot \<and>
        st_registered (slot_state slot) \<and> st_mode (slot_state slot) = Active \<and>
        get_live t i = Some live \<and> circuit_state (circuit live) now \<noteq> CircuitOpen \<and>
        circuit live \<noteq> HalfOpen True \<and>
        lease_spec (sel_lease sel) = st_spec (slot_state slot) \<and>
        hget (registry (rt_runtime s')) i = Some slot' \<and>
        (\<exists>key \<in> set (st_leases (slot_state slot')). lease_key (sel_lease sel) = Some key))"

lemma attempt_granted_at:
  assumes "attempt now n c t = Some (Some sel, s')"
  shows "granted_at now sel (cand_id c) t s' \<and> dec_backend_id (sel_decision sel) = cand_id c"
proof -
  from attempt_granted_facts [OF assms] obtain slot slot' live live' where
    g: "hget (registry (rt_runtime t)) (cand_id c) = Some slot"
    "try_acquire now slot = Some (Inr (sel_lease sel), slot')"
    "registry (rt_runtime s') = hset (cand_id c) slot' (registry (rt_runtime t))"
    "get_live t (cand_id c) = Some live"
    "live_permit (cand_id c) now live = (Some (sel_permit sel), live')"
    "sel_decision sel = decision_of n c" by blast
  have circ: "circuit_state (circuit live) now \<noteq> CircuitOpen" "circuit live \<noteq> HalfOpen True"
    using g(5) by (auto simp: live_permit_def Let_def split: Circuit.splits if_splits)
  have acq: "st_registered (slot_state slot)" "st_mode (slot_state slot) = Active"
    "lease_spec (sel_lease sel) = st_spec (slot_state slot)"
    "\<exists>key \<in> set (st_leases (slot_state slot')). lease_key (sel_lease sel) = Some key"
    using g(2) by (auto simp: try_acquire_Inr set_insort_insert)
  have "hget (registry (rt_runtime s')) (cand_id c) = Some slot'" by (simp add: g(3))
  with g(1,4) circ acq have "granted_at now sel (cand_id c) t s'" unfolding granted_at_def by blast
  then show ?thesis by (simp add: g(6) decision_of_def Let_def)
qed



lemma candidate_iff_status:
  "map_option cand_id (candidate_of now stale limit configs inner snap) =
     (case live_entry configs inner snap of
        None \<Rightarrow> None
      | Some (live, config) \<Rightarrow>
          if status_eligible (status_snapshot U snap live config now stale limit)
          then Some (snapshot_id snap) else None)"
  by (auto simp: candidate_of_def live_entry_def status_snapshot_def Let_def
      split: option.split prod.split if_splits bind_splits)

lemma status_snapshot_id: "status_id (status_snapshot U snap live config now stale limit) = snapshot_id snap"
  by (simp add: status_snapshot_def Let_def)

text \<open>
  What an operator sees is what the router does: the backends reported as eligible by
  the status view are exactly the candidates the next selection considers, in the same
  order.
\<close>

theorem eligible_status_iff_candidate:
  assumes "routing_inv s"
  shows "\<exists>cs cursor s0 sts s1. eligible_candidates now s = Some (cs, cursor, s0) \<and>
    statuses U now s = Some (sts, s1) \<and>
    map cand_id cs = map status_id (filter status_eligible sts)"
proof -
  have gi: "generations_inv (rt_runtime s)" using assms by (simp add: routing_inv_def)
  obtain instances where inst: "backend_instances (rt_runtime s) = Some instances"
    using collected_maps(2) [OF gi] by blast
  from assms obtain inner where inner: "ensure_backends (rt_runtime s) (rt_inner s) = Some inner"
    by (rule routing_ensured) blast
  let ?config = "pub_config (published (rt_runtime s))"
  let ?stale = "from_millis (stale_after_ms (cfg_telemetry ?config))"
  let ?limit = "kv_soft_limit (cfg_routing ?config)"
  let ?m = "instance_map instances"
  let ?cand = "candidate_of now ?stale ?limit ?m inner"
  let ?stat = "\<lambda>snap. map_option
    (\<lambda>(live, config). status_snapshot U snap live config now ?stale ?limit) (live_entry ?m inner snap)"
  have same: "map cand_id (List.map_filter ?cand snaps) =
      map status_id (filter status_eligible (List.map_filter ?stat snaps))" for snaps
  proof (induction snaps)
    case (Cons snap snaps)
    show ?case
    proof (cases "live_entry ?m inner snap")
      case None
      with candidate_iff_status [of now ?stale ?limit ?m inner snap] Cons show ?thesis
        by (simp add: List.map_filter_simps)
    next
      case (Some lc)
      with candidate_iff_status [of now ?stale ?limit ?m inner snap U] Cons show ?thesis
        by (cases lc; cases "?cand snap")
          (auto simp: List.map_filter_simps status_snapshot_id split: if_splits)
    qed
  qed (simp add: List.map_filter_simps)
  show ?thesis
    using inst inner same by (simp add: eligible_candidates_def statuses_def Let_def)
qed

theorem eligible_status_iff_candidate_witness:
  "\<exists>sts s1. statuses demo_uri_api 5 demo_routing = Some (sts, s1) \<and>
     map status_id (filter status_eligible sts) = [''a'']"
  using eligible_status_iff_candidate [OF demo_routing_inv, of 5 demo_uri_api] demo_eligible by force

end
