(* ===== verification/Backend_State.thy ===== *)
theory Backend_State
  imports Backend_Slot
begin

text \<open>
  The durable operator state (\<open>src/src/backend_state.rs\<close>): the overlay file that keeps the
  backends that are not active, its validation, loading, the replacement of the file by a
  temporary sibling, and the mode change that keeps memory and disk together.

  JSON encoding and decoding belong to \<open>serde_json\<close> and are the arguments \<open>to_json\<close> and
  \<open>from_json\<close>. The file system is the contents of the state file and of its temporary
  sibling; which of the system calls of one save fail is the argument \<open>fails\<close>.
\<close>

subsection \<open>Data\<close>

record PersistedBackend =
  pb_mode :: BackendMode
  pb_changed_at_unix_ms :: u64

text \<open>The \<open>BTreeMap\<close> of entries is an association list in ascending order of ids.\<close>

record StateFile =
  sf_schema_version :: u32
  sf_backends :: "(string \<times> PersistedBackend) list"

definition STATE_SCHEMA_VERSION :: u32 where
  "STATE_SCHEMA_VERSION = 1"

definition default_state_file :: StateFile where
  "default_state_file = \<lparr>sf_schema_version = STATE_SCHEMA_VERSION, sf_backends = []\<rparr>"

datatype StateFault = UnsupportedSchema u32 | EmptyBackendId | StoresActive string

datatype StateError = InvalidState StateFault | Unparsable | Unreadable | SaveFailed

datatype save_call = CreateDirAll | OpenTemporary | WriteAll | SyncFile | Harden | Rename | SyncDirectory

record disk =
  disk_main :: "string option"
  disk_temporary :: "string option"

definition bt_remove :: "'k::linorder \<Rightarrow> ('k \<times> 'v) list \<Rightarrow> ('k \<times> 'v) list" where
  "bt_remove k m = filter (\<lambda>(k', v). k' \<noteq> k) m"

definition bt_insert :: "'k::linorder \<Rightarrow> 'v \<Rightarrow> ('k \<times> 'v) list \<Rightarrow> ('k \<times> 'v) list" where
  "bt_insert k v m = insort_key fst (k, v) (bt_remove k m)"

subsection \<open>Operations\<close>

fun validate_entries :: "(string \<times> PersistedBackend) list \<Rightarrow> StateFault + unit" where
  "validate_entries [] = Inr ()"
| "validate_entries ((i, backend) # rest) =
     (if i = [] then Inl EmptyBackendId
      else if pb_mode backend = Active then Inl (StoresActive i)
      else validate_entries rest)"

definition validate_state :: "StateFile \<Rightarrow> StateFault + unit" where
  "validate_state st =
     (if sf_schema_version st \<noteq> STATE_SCHEMA_VERSION
      then Inl (UnsupportedSchema (sf_schema_version st))
      else validate_entries (sf_backends st))"

text \<open>
  The result of reading the file is \<open>None\<close> when the read itself fails, and otherwise the
  contents, if the file exists.
\<close>

definition load_state ::
  "(string \<Rightarrow> StateFile option) \<Rightarrow> string option option \<Rightarrow> StateError + StateFile" where
  "load_state from_json read =
     (case read of
        Some (Some contents) \<Rightarrow>
          (case from_json contents of
             None \<Rightarrow> Inl Unparsable
           | Some st \<Rightarrow>
               (case validate_state st of Inl e \<Rightarrow> Inl (InvalidState e) | Inr _ \<Rightarrow> Inr st))
      | Some None \<Rightarrow> Inr default_state_file
      | None \<Rightarrow> Inl Unreadable)"

definition store_modes :: "StateFile \<Rightarrow> (string, BackendMode) hashmap" where
  "store_modes st = map (\<lambda>(i, backend). (i, pb_mode backend)) (sf_backends st)"

text \<open>
  \<open>save_file\<close>: validate, encode, then the chain of calls; after a failure past the opening
  of the temporary file it is removed. A failing write leaves some prefix behind, which the
  removal takes away as well.
\<close>

definition save_file ::
  "(StateFile \<Rightarrow> string option) \<Rightarrow> (save_call \<Rightarrow> bool) \<Rightarrow> StateFile \<Rightarrow> disk
    \<Rightarrow> (StateError + unit) \<times> disk" where
  "save_file to_json fails st d =
     (case validate_state st of
        Inl e \<Rightarrow> (Inl (InvalidState e), d)
      | Inr _ \<Rightarrow>
          (case to_json st of
             None \<Rightarrow> (Inl SaveFailed, d)
           | Some json \<Rightarrow>
               (let contents = json @ [CHR 0x0A];
                    removed = d\<lparr>disk_temporary := None\<rparr>;
                    renamed = d\<lparr>disk_main := Some contents, disk_temporary := None\<rparr> in
                if fails CreateDirAll then (Inl SaveFailed, d)
                else if fails OpenTemporary then (Inl SaveFailed, d)
                else if fails WriteAll then (Inl SaveFailed, removed)
                else if fails SyncFile then (Inl SaveFailed, removed)
                else if fails Harden then (Inl SaveFailed, removed)
                else if fails Rename then (Inl SaveFailed, removed)
                else if fails SyncDirectory then (Inl SaveFailed, renamed)
                else (Inr (), renamed))))"

definition store_set_mode ::
  "(StateFile \<Rightarrow> string option) \<Rightarrow> (save_call \<Rightarrow> bool) \<Rightarrow> u64 \<Rightarrow> string \<Rightarrow> BackendMode
    \<Rightarrow> StateFile \<Rightarrow> disk \<Rightarrow> (StateError + unit) \<times> StateFile \<times> disk" where
  "store_set_mode to_json fails now_unix_ms i mode st d =
     (let previous = st;
          st' = (case mode of
            Active \<Rightarrow> st\<lparr>sf_backends := bt_remove i (sf_backends st)\<rparr>
          | _ \<Rightarrow> st\<lparr>sf_backends := bt_insert i
                     \<lparr>pb_mode = mode, pb_changed_at_unix_ms = now_unix_ms\<rparr> (sf_backends st)\<rparr>)
      in case save_file to_json fails st' d of
           (Inl e, d') \<Rightarrow> (Inl e, previous, d')
         | (Inr _, d') \<Rightarrow> (Inr (), st', d'))"

subsection \<open>Lemmas\<close>

definition state_inv :: "StateFile \<Rightarrow> bool" where
  "state_inv st \<longleftrightarrow> validate_state st = Inr () \<and> sorted (keys_of (sf_backends st)) \<and>
     distinct (keys_of (sf_backends st))"

lemma validate_entries_ok:
  "validate_entries m = Inr () \<longleftrightarrow> (\<forall>(i, b) \<in> set m. i \<noteq> [] \<and> pb_mode b \<noteq> Active)"
  by (induction m rule: validate_entries.induct) auto

lemma set_bt_insert: "set (bt_insert k v m) = insert (k, v) (set (bt_remove k m))"
  by (simp add: bt_insert_def set_insort_key)

lemma set_bt_remove: "set (bt_remove k m) = {(k', v) \<in> set m. k' \<noteq> k}"
  by (auto simp: bt_remove_def)

lemma hget_bt_remove: "hget (bt_remove k m) k' = (if k' = k then None else hget m k')"
  unfolding bt_remove_def using hget_filter_keys [of "\<lambda>j. j \<noteq> k" m k'] by simp

lemma sorted_bt_remove: "sorted (keys_of m) \<Longrightarrow> sorted (keys_of (bt_remove k m))"
  unfolding bt_remove_def by (rule sorted_filter)

lemma distinct_bt_remove: "distinct (keys_of m) \<Longrightarrow> distinct (keys_of (bt_remove k m))"
  unfolding bt_remove_def by (rule distinct_keys_filter)

lemma sorted_bt_insert: "sorted (keys_of m) \<Longrightarrow> sorted (keys_of (bt_insert k v m))"
  unfolding bt_insert_def by (simp add: sorted_insort_key sorted_bt_remove)

lemma distinct_bt_insert:
  assumes "distinct (keys_of m)"
  shows "distinct (keys_of (bt_insert k v m))"
proof -
  have "mset (keys_of (bt_insert k v m)) = mset (k # keys_of (bt_remove k m))"
    by (simp add: bt_insert_def)
  moreover have "distinct (k # keys_of (bt_remove k m))"
    using distinct_bt_remove [OF assms] by (auto simp: set_bt_remove)
  ultimately show ?thesis by (metis mset_eq_imp_distinct_iff)
qed

lemma hget_bt_insert:
  assumes "distinct (keys_of m)"
  shows "hget (bt_insert k v m) k' = (if k' = k then Some v else hget m k')"
proof -
  have "hget (bt_insert k v m) k' = Some x \<longleftrightarrow> (k', x) \<in> insert (k, v) (set (bt_remove k m))" for x
    using distinct_bt_insert [OF assms] by (simp add: hget_Some_iff set_bt_insert)
  also have "\<dots> x \<longleftrightarrow> (if k' = k then Some v else hget m k') = Some x" for x
    using assms by (auto simp: set_bt_remove hget_Some_iff)
  finally show ?thesis by (metis option.exhaust)
qed

lemmas bt_facts = set_bt_insert set_bt_remove hget_bt_remove hget_bt_insert sorted_bt_remove
  sorted_bt_insert distinct_bt_remove distinct_bt_insert

lemma save_file_cases:
  "save_file to_json fails st d = (r, d') \<Longrightarrow>
     (r = Inr () \<longrightarrow> validate_state st = Inr () \<and>
        (\<exists>json. to_json st = Some json \<and> disk_main d' = Some (json @ [CHR 0x0A]))) \<and>
     (r \<noteq> Inr () \<longrightarrow> disk_main d' = disk_main d \<or>
        (fails SyncDirectory \<and>
         (\<exists>json. to_json st = Some json \<and> disk_main d' = Some (json @ [CHR 0x0A]))))"
  by (auto simp: save_file_def Let_def split: sum.splits option.splits if_splits)

text \<open>The state a mode change tries to save.\<close>

definition with_mode :: "u64 \<Rightarrow> string \<Rightarrow> BackendMode \<Rightarrow> StateFile \<Rightarrow> StateFile" where
  "with_mode now_unix_ms i mode st =
     (if mode = Active then st\<lparr>sf_backends := bt_remove i (sf_backends st)\<rparr>
      else st\<lparr>sf_backends := bt_insert i
             \<lparr>pb_mode = mode, pb_changed_at_unix_ms = now_unix_ms\<rparr> (sf_backends st)\<rparr>)"

lemma store_set_mode_eq:
  "store_set_mode to_json fails t i mode st d =
     (case save_file to_json fails (with_mode t i mode st) d of
        (Inl e, d') \<Rightarrow> (Inl e, st, d') | (Inr _, d') \<Rightarrow> (Inr (), with_mode t i mode st, d'))"
  by (cases mode) (simp_all add: store_set_mode_def with_mode_def Let_def split: prod.split sum.split)

lemma hget_store_modes: "hget (store_modes st) j = map_option pb_mode (hget (sf_backends st) j)"
  unfolding store_modes_def by (rule hget_map_values)

lemma with_mode_modes:
  "distinct (keys_of (sf_backends st)) \<Longrightarrow>
     hget (store_modes (with_mode t i mode st)) j =
       (if j = i then (if mode = Active then None else Some mode) else hget (store_modes st) j)"
  by (simp add: hget_store_modes with_mode_def hget_bt_remove hget_bt_insert)

lemma with_mode_inv:
  assumes "state_inv st" and "i \<noteq> []"
  shows "state_inv (with_mode t i mode st)"
  using assms
  by (auto simp: state_inv_def with_mode_def validate_state_def validate_entries_ok bt_facts
      split: if_splits)

lemma with_mode_valid:
  assumes "state_inv st" and "validate_state (with_mode t i mode st) = Inr ()"
  shows "state_inv (with_mode t i mode st)"
  using assms by (auto simp: state_inv_def with_mode_def bt_facts split: if_splits)

lemma load_saved:
  assumes "from_json (json @ [CHR 0x0A]) = Some st" and "validate_state st = Inr ()"
  shows "load_state from_json (Some (Some (json @ [CHR 0x0A]))) = Inr st"
  using assms by (simp add: load_state_def)

subsection \<open>Properties\<close>

text \<open>
  C5. A mode change of the store is durable before it is acknowledged. With a JSON codec
  that reads back what it wrote, an acknowledged change is what a restart loads, it changes
  the mode of that backend and of no other, and an active backend has no entry. A refused
  change leaves the memory as it was, and the file too unless the refusal came from the
  final directory sync. Every state kept in memory stays valid and free of active entries.
\<close>

theorem store_set_mode_durable:
  assumes "state_inv st"
    and codec: "\<And>s json. to_json s = Some json \<Longrightarrow> from_json (json @ [CHR 0x0A]) = Some s"
    and run: "store_set_mode to_json fails t i mode st d = (r, st', d')"
  shows "state_inv st' \<and>
    (r = Inr () \<longrightarrow> load_state from_json (Some (disk_main d')) = Inr st' \<and>
       (\<forall>j. hget (store_modes st') j =
          (if j = i then (if mode = Active then None else Some mode) else hget (store_modes st) j))) \<and>
    (r \<noteq> Inr () \<longrightarrow> st' = st \<and> (disk_main d' = disk_main d \<or> fails SyncDirectory))"
proof -
  obtain s e where save: "save_file to_json fails (with_mode t i mode st) d = (s, e)"
    by fastforce
  show ?thesis
  proof (cases s)
    case (Inl err)
    then have "r = Inl err" "st' = st" "d' = e" using run save by (auto simp: store_set_mode_eq)
    then show ?thesis using save_file_cases [OF save] Inl assms(1) by auto
  next
    case (Inr u)
    then have res: "r = Inr ()" "st' = with_mode t i mode st" "d' = e"
      using run save by (auto simp: store_set_mode_eq)
    have ok: "validate_state st' = Inr ()"
      and "\<exists>json. to_json st' = Some json \<and> disk_main d' = Some (json @ [CHR 0x0A])"
      using save_file_cases [OF save] Inr res by auto
    then have "load_state from_json (Some (disk_main d')) = Inr st'"
      using load_saved codec by metis
    moreover have "distinct (keys_of (sf_backends st))" using assms(1) by (simp add: state_inv_def)
    ultimately show ?thesis
      using res with_mode_valid [OF assms(1)] ok with_mode_modes by simp
  qed
qed

text \<open>A codec for one state, enough to run the store on a concrete change.\<close>

definition demo_state :: StateFile where
  "demo_state = with_mode 7 ''a'' Draining default_state_file"

definition demo_to_json :: "StateFile \<Rightarrow> string option" where
  "demo_to_json s = (if s = demo_state then Some ''S'' else None)"

definition demo_from_json :: "string \<Rightarrow> StateFile option" where
  "demo_from_json c = (if c = ''S'' @ [CHR 0x0A] then Some demo_state else None)"

lemma demo_codec: "demo_to_json s = Some json \<Longrightarrow> demo_from_json (json @ [CHR 0x0A]) = Some s"
  by (auto simp: demo_to_json_def demo_from_json_def split: if_splits)

lemma default_state_inv: "state_inv default_state_file"
  by (simp add: state_inv_def default_state_file_def validate_state_def)

lemma demo_state_inv: "state_inv demo_state"
  unfolding demo_state_def by (rule with_mode_inv [OF default_state_inv]) simp

theorem store_set_mode_durable_witness:
  "\<exists>to_json from_json st' d'.
     store_set_mode to_json (\<lambda>_. False) 7 ''a'' Draining default_state_file
       \<lparr>disk_main = None, disk_temporary = None\<rparr> = (Inr (), st', d') \<and>
     load_state from_json (Some (disk_main d')) = Inr st' \<and>
     hget (store_modes st') ''a'' = Some Draining"
proof -
  let ?d = "\<lparr>disk_main = None, disk_temporary = None\<rparr>"
  have "validate_state demo_state = Inr ()" using demo_state_inv by (simp add: state_inv_def)
  then have run: "store_set_mode demo_to_json (\<lambda>_. False) 7 ''a'' Draining default_state_file ?d
      = (Inr (), demo_state, \<lparr>disk_main = Some (''S'' @ [CHR 0x0A]), disk_temporary = None\<rparr>)"
    by (simp add: store_set_mode_eq save_file_def demo_state_def [symmetric] demo_to_json_def Let_def)
  have "load_state demo_from_json (Some (Some (''S'' @ [CHR 0x0A]))) = Inr demo_state \<and>
      hget (store_modes demo_state) ''a'' = Some Draining"
    using store_set_mode_durable [where from_json = demo_from_json, OF default_state_inv demo_codec run]
    by auto
  with run show ?thesis by fastforce
qed

text \<open>
  The one case in which memory and disk part ways. If only the final directory sync
  fails, the change is refused and the memory keeps the old mode, but the file has been
  replaced already: a restart then loads the refused mode.
\<close>

theorem store_set_mode_sync_gap:
  assumes "state_inv st" and "i \<noteq> []"
    and codec: "\<And>s json. to_json s = Some json \<Longrightarrow> from_json (json @ [CHR 0x0A]) = Some s"
    and "to_json (with_mode t i mode st) \<noteq> None"
    and "\<And>c. fails c \<longleftrightarrow> c = SyncDirectory"
  shows "\<exists>d' loaded. store_set_mode to_json fails t i mode st d = (Inl SaveFailed, st, d') \<and>
    load_state from_json (Some (disk_main d')) = Inr loaded \<and>
    hget (store_modes loaded) i = (if mode = Active then None else Some mode)"
proof -
  obtain json where json: "to_json (with_mode t i mode st) = Some json" using assms(4) by auto
  have inv: "state_inv (with_mode t i mode st)" using with_mode_inv assms(1,2) .
  then have ok: "validate_state (with_mode t i mode st) = Inr ()" by (simp add: state_inv_def)
  let ?d = "d\<lparr>disk_main := Some (json @ [CHR 0x0A]), disk_temporary := None\<rparr>"
  have "store_set_mode to_json fails t i mode st d = (Inl SaveFailed, st, ?d)"
    using json ok assms(5) by (simp add: store_set_mode_eq save_file_def Let_def)
  moreover have "load_state from_json (Some (disk_main ?d)) = Inr (with_mode t i mode st)"
    using load_saved codec json ok by simp
  moreover have "distinct (keys_of (sf_backends st))" using assms(1) by (simp add: state_inv_def)
  ultimately show ?thesis using with_mode_modes by fastforce
qed

theorem store_set_mode_sync_gap_witness:
  "\<exists>to_json from_json d' loaded.
     store_set_mode to_json (\<lambda>c. c = SyncDirectory) 7 ''a'' Draining default_state_file
       \<lparr>disk_main = None, disk_temporary = None\<rparr> = (Inl SaveFailed, default_state_file, d') \<and>
     load_state from_json (Some (disk_main d')) = Inr loaded \<and>
     hget (store_modes loaded) ''a'' = Some Draining"
proof -
  have "demo_to_json (with_mode 7 ''a'' Draining default_state_file) \<noteq> None"
    by (simp add: demo_to_json_def demo_state_def)
  from store_set_mode_sync_gap [where to_json = demo_to_json and from_json = demo_from_json and i = "''a''" and
      fails = "\<lambda>c. c = SyncDirectory" and d = "\<lparr>disk_main = None, disk_temporary = None\<rparr>",
      OF default_state_inv _ demo_codec this]
  show ?thesis by fastforce
qed

end
