(* ===== verification/Control.thy ===== *)
theory Control
  imports Routing Backend_State
begin

text \<open>
  The private control plane (\<open>src/src/control.rs\<close>): drain operations and the task that drives
  each of them, activation, forced disabling and reloading, the HTTP handlers and the
  binding of the control socket.

  \<^item> A call that holds the \<open>lifecycle\<close> lock is one step. The task of a drain reads the status
    without the lock and decides again once it holds it: \<open>drive_look\<close> and \<open>drive_confirm\<close>
    are two steps, with any steps of other threads in between.
  \<^item> The runtime handle of the control state is the one inside its routing state.
  \<^item> \<open>store_io\<close> is what one save of the durable state meets: the JSON encoder, the system
    calls that fail and the wall clock. \<open>None\<close> is a panic, as everywhere.
  \<^item> A message is a constructor with the values that are printed into it. What is printed
    to the terminal is left out.
\<close>

subsection \<open>Data\<close>

type_synonym Uuid = "128 word"

datatype DrainPhase = PhaseDraining | PhaseComplete | PhaseFailed | PhaseCancelled

datatype DrainMessage =
    BackendDisappeared | BackendIsDisabled | DrainSuperseded | ProxyAndEngineIdle
  | DisabledNotPersisted StateError

record DrainProgress =
  dp_operation_id :: Uuid
  dp_backend_id :: string
  dp_phase :: DrainPhase
  dp_safe_to_stop :: bool
  dp_elapsed_ms :: u64
  dp_proxy_active :: nat
  dp_engine_running :: "u64 option"
  dp_engine_waiting :: "u64 option"
  dp_telemetry :: TelemetryState
  dp_message :: "DrainMessage option"

text \<open>The watch channel of an operation is the value last sent.\<close>

record DrainOperation =
  op_id :: Uuid
  op_backend_id :: string
  op_started_at :: instant
  op_scrapes_at_start :: u64
  op_progress :: DrainProgress

record 'u ControlState =
  ctl_routing :: "'u RoutingState"
  ctl_store :: StateFile
  ctl_disk :: disk
  ctl_runtime_file :: string
  ctl_operations :: "(Uuid, DrainOperation) hashmap"

record store_io =
  io_to_json :: "StateFile \<Rightarrow> string option"
  io_fails :: "save_call \<Rightarrow> bool"
  io_unix_ms :: u64

record BackendView =
  view_id :: string
  view_url :: string
  view_mode :: BackendMode
  view_state :: BackendDisplayState
  view_readiness :: ReadinessState
  view_telemetry :: TelemetryState
  view_circuit :: CircuitState
  view_eligible :: bool
  view_proxy_active :: nat
  view_oldest_proxy_request_ms :: "u64 option"
  view_running :: "u64 option"
  view_waiting :: "u64 option"
  view_reported_capacity :: "u64 option"
  view_configured_capacity :: "u64 option"
  view_effective_capacity :: "u64 option"
  view_capacity_mismatch :: bool
  view_kv_ratio :: "f64 option"
  view_token_rate :: "f64 option"
  view_prefill_token_rate :: "f64 option"
  view_decode_token_rate :: "f64 option"
  view_pressure :: "f64 option"
  view_metrics_age_ms :: "u64 option"
  view_readiness_age_ms :: "u64 option"
  view_metrics_error :: "string option"
  view_readiness_error :: "string option"

definition view_of :: "BackendStatusSnapshot \<Rightarrow> BackendView" where
  "view_of s =
     \<lparr>view_id = status_id s,
      view_url = status_url s,
      view_mode = status_mode s,
      view_state = status_state s,
      view_readiness = status_readiness s,
      view_telemetry = status_telemetry s,
      view_circuit = status_circuit s,
      view_eligible = status_eligible s,
      view_proxy_active = status_proxy_active s,
      view_oldest_proxy_request_ms = status_oldest_request_ms s,
      view_running = status_running s,
      view_waiting = status_waiting s,
      view_reported_capacity = status_reported_capacity s,
      view_configured_capacity = status_configured_capacity s,
      view_effective_capacity = status_effective_capacity s,
      view_capacity_mismatch = status_capacity_mismatch s,
      view_kv_ratio = status_kv_ratio s,
      view_token_rate = status_token_rate s,
      view_prefill_token_rate = status_prefill_token_rate s,
      view_decode_token_rate = status_decode_token_rate s,
      view_pressure = status_pressure s,
      view_metrics_age_ms = status_metrics_age_ms s,
      view_readiness_age_ms = status_readiness_age_ms s,
      view_metrics_error = status_metrics_error s,
      view_readiness_error = status_readiness_error s\<rparr>"

record BackendListResponse =
  list_runtime_revision :: u64
  list_routing_policy :: string
  list_backends_of :: "BackendView list"

record DrainStartedResponse =
  started_operation_id :: Uuid
  started_backend_id :: string
  started_mode :: BackendMode
  started_safe_to_stop :: bool

datatype ActionMessage =
    AlreadyActive | Activated | AlreadyDisabled | DisabledMessage | DisabledWithRunning nat

record ActionResponse =
  action_backend_id :: string
  action_mode :: BackendMode
  action_message :: ActionMessage

record ReloadResponse =
  reload_revision :: u64
  reload_added :: "string list"
  reload_revived :: "string list"
  reload_updated :: "string list"
  reload_retired :: "string list"

datatype StatusCode = OK | ACCEPTED | NOT_FOUND | CONFLICT | BAD_REQUEST | INTERNAL_SERVER_ERROR

datatype ControlMessage =
    NoSuchBackend string
  | UnknownOperation Uuid
  | DrainNotPersisted StateError
  | StillDraining
  | NotReady string
  | TelemetryIs string
  | FenceNotRemoved StateError
  | NotActivated ModeChangeError "StateError option"
  | HasInFlight nat
  | DisableNotPersisted StateError
  | ReloadRefused RuntimeReloadError

record ControlError =
  err_status :: StatusCode
  err_message :: ControlMessage

definition not_found :: "ControlMessage \<Rightarrow> ControlError" where
  "not_found message = \<lparr>err_status = NOT_FOUND, err_message = message\<rparr>"

definition conflict :: "ControlMessage \<Rightarrow> ControlError" where
  "conflict message = \<lparr>err_status = CONFLICT, err_message = message\<rparr>"

definition bad_request :: "ControlMessage \<Rightarrow> ControlError" where
  "bad_request message = \<lparr>err_status = BAD_REQUEST, err_message = message\<rparr>"

definition internal :: "ControlMessage \<Rightarrow> ControlError" where
  "internal message = \<lparr>err_status = INTERNAL_SERVER_ERROR, err_message = message\<rparr>"

text \<open>\<open>peer_cred\<close> of the stream: the process id, when known, is an \<open>i32\<close>.\<close>

record UdsPeer =
  peer_uid :: "u32 option"
  peer_gid :: "u32 option"
  peer_pid :: "u32 option"

definition from_stream :: "(u32 \<times> u32 \<times> int option) option \<Rightarrow> UdsPeer" where
  "from_stream peer_cred =
     (case peer_cred of
        Some (uid, gid, pid) \<Rightarrow>
          \<lparr>peer_uid = Some uid, peer_gid = Some gid,
           peer_pid = (case pid of None \<Rightarrow> None
             | Some p \<Rightarrow> if 0 \<le> p \<and> p < 2 ^ 32 then Some (of_int p) else None)\<rparr>
      | None \<Rightarrow> \<lparr>peer_uid = None, peer_gid = None, peer_pid = None\<rparr>)"

subsection \<open>State access\<close>

definition control_new ::
  "'u RoutingState \<Rightarrow> StateFile \<Rightarrow> disk \<Rightarrow> string \<Rightarrow> 'u ControlState" where
  "control_new routing state_store d runtime_file =
     \<lparr>ctl_routing = routing, ctl_store = state_store, ctl_disk = d,
      ctl_runtime_file = runtime_file, ctl_operations = []\<rparr>"

abbreviation ctl_runtime :: "'u ControlState \<Rightarrow> 'u RuntimeState" where
  "ctl_runtime s \<equiv> rt_runtime (ctl_routing s)"

abbreviation ctl_slots :: "'u ControlState \<Rightarrow> BackendRegistry" where
  "ctl_slots s \<equiv> registry (ctl_runtime s)"

definition put_slot :: "BackendId \<Rightarrow> BackendSlot \<Rightarrow> 'u ControlState \<Rightarrow> 'u ControlState" where
  "put_slot i slot s =
     s\<lparr>ctl_routing := (ctl_routing s)
         \<lparr>rt_runtime := (ctl_runtime s)\<lparr>registry := hset i slot (ctl_slots s)\<rparr>\<rparr>\<rparr>"

definition persist_mode ::
  "store_io \<Rightarrow> string \<Rightarrow> BackendMode \<Rightarrow> 'u ControlState \<Rightarrow> (StateError + unit) \<times> 'u ControlState" where
  "persist_mode io i mode s =
     (case store_set_mode (io_to_json io) (io_fails io) (io_unix_ms io) i mode (ctl_store s) (ctl_disk s) of
        (r, st, d) \<Rightarrow> (r, s\<lparr>ctl_store := st, ctl_disk := d\<rparr>))"

definition ctl_status ::
  "'u uri_api \<Rightarrow> instant \<Rightarrow> string \<Rightarrow> 'u ControlState
    \<Rightarrow> (BackendStatusSnapshot option \<times> 'u ControlState) option" where
  "ctl_status U now i s =
     do { (st, r) \<leftarrow> status U now i (ctl_routing s); Some (st, s\<lparr>ctl_routing := r\<rparr>) }"

text \<open>\<open>send_replace\<close> on the channel of an operation.\<close>

definition send_progress :: "DrainOperation \<Rightarrow> DrainProgress \<Rightarrow> 'u ControlState \<Rightarrow> 'u ControlState" where
  "send_progress oper progress s =
     s\<lparr>ctl_operations := hset (op_id oper) (oper\<lparr>op_progress := progress\<rparr>) (ctl_operations s)\<rparr>"

definition elapsed_ms :: "instant \<Rightarrow> instant \<Rightarrow> u64" where
  "elapsed_ms now started = as_millis_u64 (saturating_duration_since now started)"

definition progress_from_status ::
  "instant \<Rightarrow> DrainOperation \<Rightarrow> BackendStatusSnapshot \<Rightarrow> DrainPhase \<Rightarrow> bool \<Rightarrow> DrainMessage option
    \<Rightarrow> DrainProgress" where
  "progress_from_status now oper st phase safe message =
     \<lparr>dp_operation_id = op_id oper,
      dp_backend_id = op_backend_id oper,
      dp_phase = phase,
      dp_safe_to_stop = safe,
      dp_elapsed_ms = elapsed_ms now (op_started_at oper),
      dp_proxy_active = status_proxy_active st,
      dp_engine_running = status_running st,
      dp_engine_waiting = status_waiting st,
      dp_telemetry = status_telemetry st,
      dp_message = message\<rparr>"

subsection \<open>Drain operations\<close>

text \<open>
  The first operation of the backend that is still draining, in the order of the map.
\<close>

definition running_drain :: "string \<Rightarrow> 'u ControlState \<Rightarrow> DrainOperation option" where
  "running_drain i s =
     find (\<lambda>oper. op_backend_id oper = i \<and> dp_phase (op_progress oper) = PhaseDraining)
       (map snd (ctl_operations s))"

definition ensure_drain_operation ::
  "'u uri_api \<Rightarrow> instant \<Rightarrow> Uuid \<Rightarrow> string \<Rightarrow> 'u ControlState
    \<Rightarrow> (DrainOperation \<times> 'u ControlState) option" where
  "ensure_drain_operation U now uuid i s =
     (case running_drain i s of
        Some existing \<Rightarrow> Some (existing, s)
      | None \<Rightarrow> do {
          (st, s1) \<leftarrow> ctl_status U now i s;
          let initial =
            \<lparr>dp_operation_id = uuid,
             dp_backend_id = i,
             dp_phase = PhaseDraining,
             dp_safe_to_stop = False,
             dp_elapsed_ms = 0,
             dp_proxy_active = (case st of None \<Rightarrow> 0 | Some st \<Rightarrow> status_proxy_active st),
             dp_engine_running = Option.bind st status_running,
             dp_engine_waiting = Option.bind st status_waiting,
             dp_telemetry = (case st of None \<Rightarrow> TelemetryUnavailable | Some st \<Rightarrow> status_telemetry st),
             dp_message = None\<rparr>;
          let oper =
            \<lparr>op_id = uuid,
             op_backend_id = i,
             op_started_at = now,
             op_scrapes_at_start = (case st of None \<Rightarrow> 0 | Some st \<Rightarrow> status_scrapes_started st),
             op_progress = initial\<rparr>;
          Some (oper, s1\<lparr>ctl_operations := hset uuid oper (ctl_operations s1)\<rparr>)
        })"

text \<open>One draw from the random source per snapshot; the extra ones are not used.\<close>

fun resume_drains ::
  "'u uri_api \<Rightarrow> instant \<Rightarrow> (BackendSnapshot \<times> Uuid) list \<Rightarrow> 'u ControlState \<Rightarrow> 'u ControlState option" where
  "resume_drains U now [] s = Some s"
| "resume_drains U now ((snap, uuid) # rest) s =
     do {
       s' \<leftarrow> (if snap_mode snap = Draining
         then map_option snd (ensure_drain_operation U now uuid (snapshot_id snap) s)
         else Some s);
       resume_drains U now rest s'
     }"

definition resume_persisted_drains ::
  "'u uri_api \<Rightarrow> instant \<Rightarrow> (nat \<Rightarrow> Uuid) \<Rightarrow> 'u ControlState \<Rightarrow> 'u ControlState option" where
  "resume_persisted_drains U now uuids s =
     (let snaps = snapshots now (ctl_slots s) in
      resume_drains U now (zip snaps (map uuids [0..<length snaps])) s)"

definition ctl_begin_drain ::
  "'u uri_api \<Rightarrow> instant \<Rightarrow> store_io \<Rightarrow> Uuid \<Rightarrow> string \<Rightarrow> 'u ControlState
    \<Rightarrow> ((ControlError + DrainOperation) \<times> 'u ControlState) option" where
  "ctl_begin_drain U now io uuid i s =
     (case registry_get (ctl_slots s) i of
        None \<Rightarrow> Some (Inl (not_found (NoSuchBackend i)), s)
      | Some slot \<Rightarrow> do {
          let before = snap_mode (slot_snapshot slot now);
          (token, slot1) \<leftarrow> begin_drain slot;
          let s1 = put_slot i slot1 s;
          (refused, s2) \<leftarrow> Some (if before \<noteq> Draining
            then (case persist_mode io i Draining s1 of
                    (Inl e, s2) \<Rightarrow> (Some e, s2) | (Inr _, s2) \<Rightarrow> (None, s2))
            else (None, s1));
          case refused of
            Some e \<Rightarrow> do {
              s3 \<leftarrow> (case before of
                Active \<Rightarrow> do { (r, slot2) \<leftarrow> activate now slot1; Some (put_slot i slot2 s2) }
              | Disabled \<Rightarrow> do { (snap, slot2) \<leftarrow> disable now slot1; Some (put_slot i slot2 s2) }
              | Draining \<Rightarrow> None);
              Some (Inl (internal (DrainNotPersisted e)), s3)
            }
          | None \<Rightarrow> do {
              (oper, s3) \<leftarrow> ensure_drain_operation U now uuid i s2;
              Some (Inr oper, s3)
            }
        })"

text \<open>
  One turn of \<open>drive_drain\<close>. Looking at the status decides whether the task is done,
  sleeps, or waits for the lifecycle lock; with the lock it looks again.
\<close>

datatype drive_next = DriveDone | DriveSleep duration | DriveConfirm BackendStatusSnapshot

definition engine_idle_since :: "u64 \<Rightarrow> BackendStatusSnapshot \<Rightarrow> bool" where
  "engine_idle_since start st \<longleftrightarrow>
     status_telemetry st = Fresh \<and> status_running st = Some 0 \<and> status_waiting st = Some 0 \<and>
     2 \<le> idle_samples (status_idle_streak st) (status_observation_serial st) start"

definition drive_look ::
  "'u uri_api \<Rightarrow> instant \<Rightarrow> DrainOperation \<Rightarrow> 'u ControlState \<Rightarrow> (drive_next \<times> 'u ControlState) option" where
  "drive_look U now oper s =
     do {
       (st, s1) \<leftarrow> ctl_status U now (op_backend_id oper) s;
       Some (case st of
         None \<Rightarrow>
           (DriveDone, send_progress oper
              \<lparr>dp_operation_id = op_id oper,
               dp_backend_id = op_backend_id oper,
               dp_phase = PhaseFailed,
               dp_safe_to_stop = False,
               dp_elapsed_ms = elapsed_ms now (op_started_at oper),
               dp_proxy_active = 0,
               dp_engine_running = None,
               dp_engine_waiting = None,
               dp_telemetry = TelemetryUnavailable,
               dp_message = Some BackendDisappeared\<rparr> s1)
       | Some st \<Rightarrow>
           if status_mode st \<noteq> Draining
           then (let complete = (status_mode st = Disabled) in
             (DriveDone, send_progress oper
                (progress_from_status now oper st
                   (if complete then PhaseComplete else PhaseCancelled) complete
                   (Some (if complete then BackendIsDisabled else DrainSuperseded))) s1))
           else if status_proxy_active st = 0 \<and> engine_idle_since (op_scrapes_at_start oper) st
           then (DriveConfirm st, s1)
           else (let interval = min (scrape_interval_ms (cfg_telemetry (pub_config (published (ctl_runtime s1))))) 1000 in
             (DriveSleep (from_millis (max interval 100)),
              send_progress oper (progress_from_status now oper st PhaseDraining False None) s1)))
     }"

text \<open>
  With the lifecycle lock held; \<open>now\<close> is the time of the confirmation and \<open>later\<close> that of
  the final status. The result says whether the loop goes round again.
\<close>

definition drive_confirm ::
  "'u uri_api \<Rightarrow> instant \<Rightarrow> instant \<Rightarrow> store_io \<Rightarrow> DrainOperation \<Rightarrow> BackendStatusSnapshot
    \<Rightarrow> 'u ControlState \<Rightarrow> (bool \<times> 'u ControlState) option" where
  "drive_confirm U now later io oper looked s =
     do {
       (st, s1) \<leftarrow> ctl_status U now (op_backend_id oper) s;
       case st of
         None \<Rightarrow> Some (True, s1)
       | Some confirmed \<Rightarrow>
           if status_mode confirmed \<noteq> Draining \<or> status_proxy_active confirmed \<noteq> 0
             \<or> \<not> engine_idle_since (op_scrapes_at_start oper) confirmed
           then Some (True, s1)
           else (case persist_mode io (op_backend_id oper) Disabled s1 of
               (Inl e, s2) \<Rightarrow>
                 Some (False, send_progress oper
                   (progress_from_status later oper looked PhaseFailed False
                      (Some (DisabledNotPersisted e))) s2)
             | (Inr _, s2) \<Rightarrow> do {
                 s3 \<leftarrow> (case registry_get (ctl_slots s2) (op_backend_id oper) of
                   None \<Rightarrow> Some s2
                 | Some slot \<Rightarrow> do { (snap, slot') \<leftarrow> disable now slot; Some (put_slot (op_backend_id oper) slot' s2) });
                 (st', s4) \<leftarrow> ctl_status U later (op_backend_id oper) s3;
                 let final = (case st' of None \<Rightarrow> confirmed | Some st' \<Rightarrow> st');
                 Some (False, send_progress oper
                   (progress_from_status later oper final PhaseComplete True (Some ProxyAndEngineIdle)) s4)
               })
     }"

text \<open>
  The loop of \<open>drive_drain\<close>. A turn of the schedule gives its instants, what one save
  meets, and what the other threads do while the task waits for the lock and after the
  turn; the schedule ends while the task is still running, or the task returns.
\<close>

record 'u drive_turn =
  turn_now :: instant
  turn_locked :: instant
  turn_later :: instant
  turn_io :: store_io
  turn_waiting :: "'u ControlState \<Rightarrow> 'u ControlState"
  turn_after :: "'u ControlState \<Rightarrow> 'u ControlState"

fun drive_drain ::
  "'u uri_api \<Rightarrow> DrainOperation \<Rightarrow> 'u drive_turn list \<Rightarrow> 'u ControlState
    \<Rightarrow> (bool \<times> 'u ControlState) option" where
  "drive_drain U oper [] s = Some (True, s)"
| "drive_drain U oper (turn # turns) s =
     do {
       (next_do, s1) \<leftarrow> drive_look U (turn_now turn) oper s;
       case next_do of
         DriveDone \<Rightarrow> Some (False, s1)
       | DriveSleep d \<Rightarrow> drive_drain U oper turns (turn_after turn s1)
       | DriveConfirm looked \<Rightarrow> do {
           (again, s2) \<leftarrow> drive_confirm U (turn_locked turn) (turn_later turn) (turn_io turn) oper looked
             (turn_waiting turn s1);
           if again then drive_drain U oper turns (turn_after turn s2) else Some (False, s2)
         }
     }"

subsection \<open>Activation, disabling and reloading\<close>

definition ctl_activate ::
  "'u uri_api \<Rightarrow> instant \<Rightarrow> store_io \<Rightarrow> store_io \<Rightarrow> string \<Rightarrow> 'u ControlState
    \<Rightarrow> ((ControlError + ActionResponse) \<times> 'u ControlState) option" where
  "ctl_activate U now io rollback_io i s =
     do {
       (st, s1) \<leftarrow> ctl_status U now i s;
       case st of
         None \<Rightarrow> Some (Inl (not_found (NoSuchBackend i)), s1)
       | Some st \<Rightarrow>
           (case status_mode st of
              Active \<Rightarrow> Some (Inr \<lparr>action_backend_id = i, action_mode = Active,
                                 action_message = AlreadyActive\<rparr>, s1)
            | Draining \<Rightarrow> Some (Inl (conflict StillDraining), s1)
            | Disabled \<Rightarrow>
                if status_readiness st \<noteq> Ready
                then Some (Inl (conflict (NotReady (display_readiness (status_readiness st)))), s1)
                else if status_telemetry st \<noteq> Fresh
                then Some (Inl (conflict (TelemetryIs (display_telemetry (status_telemetry st)))), s1)
                else (case registry_get (ctl_slots s1) i of
                    None \<Rightarrow> Some (Inl (not_found (NoSuchBackend i)), s1)
                  | Some slot \<Rightarrow>
                      (case persist_mode io i Active s1 of
                         (Inl e, s2) \<Rightarrow> Some (Inl (internal (FenceNotRemoved e)), s2)
                       | (Inr _, s2) \<Rightarrow> do {
                           (r, slot') \<leftarrow> activate now slot;
                           case r of
                             Inl e \<Rightarrow>
                               (case persist_mode rollback_io i Disabled (put_slot i slot' s2) of
                                  (rollback, s3) \<Rightarrow>
                                    Some (Inl (conflict (NotActivated e
                                      (case rollback of Inl e' \<Rightarrow> Some e' | Inr _ \<Rightarrow> None))), s3))
                           | Inr snap \<Rightarrow>
                               Some (Inr \<lparr>action_backend_id = i, action_mode = Active,
                                        action_message = Activated\<rparr>, put_slot i slot' s2)
                         })))
     }"

definition ctl_disable ::
  "'u uri_api \<Rightarrow> instant \<Rightarrow> store_io \<Rightarrow> string \<Rightarrow> bool \<Rightarrow> 'u ControlState
    \<Rightarrow> ((ControlError + ActionResponse) \<times> 'u ControlState) option" where
  "ctl_disable U now io i force s =
     do {
       (st, s1) \<leftarrow> ctl_status U now i s;
       case st of
         None \<Rightarrow> Some (Inl (not_found (NoSuchBackend i)), s1)
       | Some st \<Rightarrow>
           if status_mode st = Disabled
           then Some (Inr \<lparr>action_backend_id = i, action_mode = Disabled,
                         action_message = AlreadyDisabled\<rparr>, s1)
           else if \<not> force \<and> 0 < status_proxy_active st
           then Some (Inl (conflict (HasInFlight (status_proxy_active st))), s1)
           else (case registry_get (ctl_slots s1) i of
               None \<Rightarrow> Some (Inl (not_found (NoSuchBackend i)), s1)
             | Some slot \<Rightarrow>
                 (case persist_mode io i Disabled s1 of
                    (Inl e, s2) \<Rightarrow> Some (Inl (internal (DisableNotPersisted e)), s2)
                  | (Inr _, s2) \<Rightarrow> do {
                      let in_flight = status_proxy_active st;
                      (snap, slot') \<leftarrow> disable now slot;
                      Some (Inr \<lparr>action_backend_id = i, action_mode = Disabled,
                               action_message = (if force \<and> 0 < in_flight
                                 then DisabledWithRunning in_flight else DisabledMessage)\<rparr>,
                            put_slot i slot' s2)
                    }))
     }"

definition reload_response :: "RuntimeReloadReport \<Rightarrow> ReloadResponse" where
  "reload_response report =
     \<lparr>reload_revision = report_revision report,
      reload_added = added (report_reconciled report),
      reload_revived = report_revived (report_reconciled report),
      reload_updated = report_updated (report_reconciled report),
      reload_retired = retired (report_reconciled report)\<rparr>"

text \<open>
  \<open>file\<close> is the outcome of reading a path, as text or as the error.
\<close>

definition ctl_reload ::
  "(string \<Rightarrow> string + RuntimeFile) \<Rightarrow> 'u uri_api \<Rightarrow> instant \<Rightarrow> (string \<Rightarrow> string + string)
    \<Rightarrow> (nat \<Rightarrow> Uuid) \<Rightarrow> 'u ControlState \<Rightarrow> ((ControlError + ReloadResponse) \<times> 'u ControlState) option" where
  "ctl_reload toml_from_str U now file uuids s =
     do {
       let modes = store_modes (ctl_store s);
       (r, runtime) \<leftarrow> reload_with_modes toml_from_str U (ctl_runtime_file s) (file (ctl_runtime_file s))
          now modes (ctl_runtime s);
       let s1 = s\<lparr>ctl_routing := (ctl_routing s)\<lparr>rt_runtime := runtime\<rparr>\<rparr>;
       case r of
         Inl e \<Rightarrow> Some (Inl (bad_request (ReloadRefused e)), s1)
       | Inr report \<Rightarrow> do {
           s2 \<leftarrow> resume_persisted_drains U now uuids s1;
           Some (Inr (reload_response report), s2)
         }
     }"

subsection \<open>Start\<close>

text \<open>
  The part of \<open>main.rs\<close>'s \<open>run\<close> that builds the state: configuration, durable modes, routing
  and control. \<open>state_read\<close> is the outcome of reading the state file.
\<close>

datatype StartError = StartConfig RuntimeConfigError | StartState StateError

definition start_control ::
  "(string \<Rightarrow> string + RuntimeFile) \<Rightarrow> 'u uri_api \<Rightarrow> (string \<Rightarrow> StateFile option) \<Rightarrow> instant
    \<Rightarrow> string \<Rightarrow> string + string \<Rightarrow> string option option \<Rightarrow> disk \<Rightarrow> (nat \<Rightarrow> Uuid)
    \<Rightarrow> (StartError + 'u ControlState) option" where
  "start_control toml_from_str U from_json now runtime_file read state_read d uuids =
     (case load_runtime_config toml_from_str U runtime_file read of
        Inl e \<Rightarrow> Some (Inl (StartConfig e))
      | Inr config \<Rightarrow> do {
          runtime \<leftarrow> from_config U now config;
          case load_state from_json state_read of
            Inl e \<Rightarrow> Some (Inl (StartState e))
          | Inr st \<Rightarrow> do {
              runtime1 \<leftarrow> restore_modes now (store_modes st) runtime;
              routing \<leftarrow> routing_new runtime1;
              s \<leftarrow> resume_persisted_drains U now uuids (control_new routing st d runtime_file);
              Some (Inr s)
            }
        })"

subsection \<open>Handlers\<close>

definition list_backends ::
  "'u uri_api \<Rightarrow> instant \<Rightarrow> 'u ControlState \<Rightarrow> (BackendListResponse \<times> 'u ControlState) option" where
  "list_backends U now s =
     do {
       (all, r) \<leftarrow> statuses U now (ctl_routing s);
       Some (\<lparr>list_runtime_revision = revision (published (ctl_runtime s)),
              list_routing_policy = display_policy (policy (cfg_routing (pub_config (published (ctl_runtime s))))),
              list_backends_of = map view_of all\<rparr>,
             s\<lparr>ctl_routing := r\<rparr>)
     }"

definition get_backend ::
  "'u uri_api \<Rightarrow> instant \<Rightarrow> string \<Rightarrow> 'u ControlState
    \<Rightarrow> ((ControlError + BackendView) \<times> 'u ControlState) option" where
  "get_backend U now i s =
     do {
       (st, s1) \<leftarrow> ctl_status U now i s;
       Some (case st of None \<Rightarrow> Inl (not_found (NoSuchBackend i)) | Some st \<Rightarrow> Inr (view_of st), s1)
     }"

definition start_drain ::
  "'u uri_api \<Rightarrow> instant \<Rightarrow> store_io \<Rightarrow> Uuid \<Rightarrow> string \<Rightarrow> 'u ControlState
    \<Rightarrow> ((ControlError + (StatusCode \<times> DrainStartedResponse)) \<times> 'u ControlState) option" where
  "start_drain U now io uuid i s =
     do {
       (r, s1) \<leftarrow> ctl_begin_drain U now io uuid i s;
       Some (case r of
           Inl e \<Rightarrow> Inl e
         | Inr oper \<Rightarrow>
             (let progress = op_progress oper in
              Inr (if dp_safe_to_stop progress then OK else ACCEPTED,
                   \<lparr>started_operation_id = op_id oper,
                    started_backend_id = i,
                    started_mode = (if dp_safe_to_stop progress then Disabled else Draining),
                    started_safe_to_stop = dp_safe_to_stop progress\<rparr>)), s1)
     }"

definition get_operation :: "Uuid \<Rightarrow> 'u ControlState \<Rightarrow> ControlError + DrainProgress" where
  "get_operation uuid s =
     (case hget (ctl_operations s) uuid of
        None \<Rightarrow> Inl (not_found (UnknownOperation uuid))
      | Some oper \<Rightarrow> Inr (op_progress oper))"

definition disable_backend ::
  "'u uri_api \<Rightarrow> instant \<Rightarrow> store_io \<Rightarrow> string \<Rightarrow> bool option \<Rightarrow> 'u ControlState
    \<Rightarrow> ((ControlError + ActionResponse) \<times> 'u ControlState) option" where
  "disable_backend U now io i force s =
     ctl_disable U now io i (case force of None \<Rightarrow> False | Some f \<Rightarrow> f) s"

subsection \<open>The control socket\<close>

text \<open>
  What the system calls of \<open>bind_control_socket\<close> answer, and the calls that change the file
  system, in the order they are made.
\<close>

datatype ErrorKind = KindNotFound | KindConnectionRefused | KindAlreadyExists | KindAddrInUse | KindOther string

datatype fs_effect = CreatedDirs | RemovedFile | BoundSocket | SetMode nat

record bind_env =
  be_parent :: "string option"
  be_create_dirs :: "ErrorKind option"
  be_lstat :: "ErrorKind + bool"
  be_connect :: "ErrorKind option"
  be_remove :: "ErrorKind option"
  be_bind :: "ErrorKind option"
  be_metadata :: "ErrorKind option"
  be_chmod :: "ErrorKind option"

text \<open>\<open>f?\<close> for a call that changes the file system.\<close>

definition try_effect ::
  "ErrorKind option \<Rightarrow> fs_effect \<Rightarrow> (fs_effect list \<Rightarrow> (ErrorKind + unit) \<times> fs_effect list)
    \<Rightarrow> fs_effect list \<Rightarrow> (ErrorKind + unit) \<times> fs_effect list" where
  "try_effect result effect k done_before =
     (case result of Some e \<Rightarrow> (Inl e, done_before) | None \<Rightarrow> k (done_before @ [effect]))"

definition bind_control_socket :: "bind_env \<Rightarrow> (ErrorKind + unit) \<times> fs_effect list" where
  "bind_control_socket env =
     (let finish = try_effect (be_bind env) BoundSocket (\<lambda>made.
            case be_metadata env of
              Some e \<Rightarrow> (Inl e, made)
            | None \<Rightarrow> try_effect (be_chmod env) (SetMode 432) (\<lambda>made. (Inr (), made)) made);
          examine = (\<lambda>made.
            case be_lstat env of
              Inr is_socket \<Rightarrow>
                if \<not> is_socket then (Inl KindAlreadyExists, made)
                else (case be_connect env of
                    None \<Rightarrow> (Inl KindAddrInUse, made)
                  | Some e \<Rightarrow>
                      if e = KindConnectionRefused \<or> e = KindNotFound
                      then try_effect (be_remove env) RemovedFile finish made
                      else (Inl e, made))
            | Inl e \<Rightarrow> if e = KindNotFound then finish made else (Inl e, made)) in
      case be_parent env of
        Some parent \<Rightarrow>
          if parent \<noteq> [] then try_effect (be_create_dirs env) CreatedDirs examine [] else examine []
      | None \<Rightarrow> examine [])"


subsection \<open>Lemmas: what a status says\<close>

definition stale_limit :: "'u RuntimeState \<Rightarrow> duration" where
  "stale_limit rt = from_millis (stale_after_ms (cfg_telemetry (pub_config (published rt))))"

text \<open>The status of a backend comes from its slot, its live entry and its configuration.\<close>

definition status_facts ::
  "'u uri_api \<Rightarrow> instant \<Rightarrow> 'u RoutingState \<Rightarrow> string \<Rightarrow> BackendStatusSnapshot \<Rightarrow> bool" where
  "status_facts U now s i st \<longleftrightarrow>
     (\<exists>slot live b. registry_get (registry (rt_runtime s)) i = Some slot \<and> get_live s i = Some live \<and>
        runtime_backend (rt_runtime s) i = Some b \<and>
        backend_generation (rt_runtime s) i = Some (topology_generation live) \<and>
        st = status_snapshot U (slot_snapshot slot now) live b now (stale_limit (rt_runtime s))
          (kv_soft_limit (cfg_routing (pub_config (published (rt_runtime s))))))"

lemma routing_inv_runtime:
  "runtime_inv U (rt_runtime s) \<Longrightarrow> distinct (keys_of (inner_backends (rt_inner s))) \<Longrightarrow> routing_inv s"
  by (simp add: routing_inv_def runtime_inv_def)

lemma status_spec:
  assumes "runtime_inv U (rt_runtime s)" and "distinct (keys_of (inner_backends (rt_inner s)))"
  obtains st inner where "status U now i s = Some (st, s\<lparr>rt_inner := inner\<rparr>)"
    and "distinct (keys_of (inner_backends inner))"
    and "st = None \<longleftrightarrow> registry_get (registry (rt_runtime s)) i = None"
    and "\<And>x. st = Some x \<Longrightarrow> status_facts U now (s\<lparr>rt_inner := inner\<rparr>) i x"
    and "\<And>i. hget (inner_backends inner) i =
       ensured (backend_generation (rt_runtime s) i) (hget (inner_backends (rt_inner s)) i)"
proof -
  let ?rt = "rt_runtime s"
  let ?limit = "kv_soft_limit (cfg_routing (pub_config (published ?rt)))"
  have rinv: "routing_inv s" using routing_inv_runtime assms by blast
  then have gi: "generations_inv ?rt" and ri: "registry_inv (registry ?rt)" by (simp_all add: routing_inv_def)
  obtain instances where inst: "backend_instances ?rt = Some instances"
    "\<And>i. hget (instance_map instances) i = (case runtime_backend ?rt i of None \<Rightarrow> None
         | Some b \<Rightarrow> Some (b, the (backend_generation ?rt i)))"
    using collected_maps(2) [OF gi] by blast
  from rinv obtain inner where inner: "ensure_backends ?rt (rt_inner s) = Some inner"
    "distinct (keys_of (inner_backends inner))"
    "\<And>i. hget (inner_backends inner) i =
       ensured (backend_generation ?rt i) (hget (inner_backends (rt_inner s)) i)"
    by (rule routing_ensured) blast
  let ?entry = "live_entry (instance_map instances) inner"
  let ?f = "\<lambda>snap. map_option
    (\<lambda>(live, config). status_snapshot U snap live config now (stale_limit ?rt) ?limit) (?entry snap)"
  let ?st = "find (\<lambda>st. status_id st = i) (List.map_filter ?f (snapshots now (registry ?rt)))"
  have run: "status U now i s = Some (?st, s\<lparr>rt_inner := inner\<rparr>)"
    using inst(1) inner(1) by (simp add: status_def statuses_def stale_limit_def Let_def)
  have entry: "\<exists>live b. ?entry snap = Some (live, b) \<and> hget (inner_backends inner) (snapshot_id snap) = Some live \<and>
      runtime_backend ?rt (snapshot_id snap) = Some b \<and>
      backend_generation ?rt (snapshot_id snap) = Some (topology_generation live)"
    if "registry_get (registry ?rt) (snapshot_id snap) \<noteq> None" for snap
  proof -
    from that assms(1) have conf: "snapshot_id snap \<in> set (map backend_id (runtime_backends ?rt))"
      by (simp add: runtime_inv_def)
    then obtain g where g: "backend_generation ?rt (snapshot_id snap) = Some g"
      using gi unfolding generations_inv_def by blast
    obtain live where live: "hget (inner_backends inner) (snapshot_id snap) = Some live"
      "topology_generation live = g"
      using inner(3) [of "snapshot_id snap"] ensured_Some ensured_generation unfolding g by metis
    have d: "distinct (map backend_id (runtime_backends ?rt))" using gi by (simp add: generations_inv_def)
    from conf obtain b where "b \<in> set (runtime_backends ?rt)" "backend_id b = snapshot_id snap" by auto
    then have b: "runtime_backend ?rt (snapshot_id snap) = Some b"
      unfolding runtime_backend_Some [OF d] by simp
    then show ?thesis using g live inst(2) by (simp add: live_entry_def)
  qed
  have f_id: "status_id y = snapshot_id x" if "?f x = Some y" for x y
    using that by (auto simp: status_snapshot_id)
  have hit: "\<exists>y. ?f snap = Some y \<and> status_id y = snapshot_id snap"
    if "snap \<in> set (snapshots now (registry ?rt))" for snap
    using snapshots_slot [OF ri that] entry [of snap] by (auto simp: status_snapshot_id)
  have "?st = None \<longleftrightarrow> (\<forall>snap \<in> set (snapshots now (registry ?rt)). snapshot_id snap \<noteq> i)"
  proof
    assume none: "?st = None"
    show "\<forall>snap \<in> set (snapshots now (registry ?rt)). snapshot_id snap \<noteq> i"
    proof
      fix snap
      assume snap: "snap \<in> set (snapshots now (registry ?rt))"
      from hit [OF this] obtain y where y: "?f snap = Some y" "status_id y = snapshot_id snap" by blast
      then have "y \<in> set (List.map_filter ?f (snapshots now (registry ?rt)))"
        unfolding map_filter_set using snap by blast
      with none y(2) show "snapshot_id snap \<noteq> i" by (auto simp: find_None_iff)
    qed
  next
    assume none: "\<forall>snap \<in> set (snapshots now (registry ?rt)). snapshot_id snap \<noteq> i"
    have "status_id y \<noteq> i" if "snap \<in> set (snapshots now (registry ?rt))" "?f snap = Some y" for snap y
      using f_id [OF that(2)] none that(1) by auto
    then show "?st = None" unfolding find_None_iff map_filter_set by blast
  qed
  also have "\<dots> \<longleftrightarrow> i \<notin> set (map snapshot_id (snapshots now (registry ?rt)))" by auto
  also have "\<dots> \<longleftrightarrow> registry_get (registry ?rt) i = None"
    unfolding snapshot_ids(1) [OF ri] by simp
  finally have "?st = None \<longleftrightarrow> registry_get (registry ?rt) i = None" .
  moreover have "status_facts U now (s\<lparr>rt_inner := inner\<rparr>) i x" if st: "?st = Some x" for x
  proof -
    from st have "x \<in> set (List.map_filter ?f (snapshots now (registry ?rt)))" and x: "status_id x = i"
      by (auto simp: find_Some_iff)
    then obtain snap where snap: "snap \<in> set (snapshots now (registry ?rt))" "?f snap = Some x"
      by (auto simp: map_filter_set)
    have i: "snapshot_id snap = i" using f_id [OF snap(2)] x by simp
    from snapshots_slot [OF ri snap(1)] i obtain slot where
      slot: "registry_get (registry ?rt) i = Some slot" "snap = slot_snapshot slot now" by blast
    from entry [of snap] slot i obtain live b where e: "?entry snap = Some (live, b)"
      "hget (inner_backends inner) i = Some live" "runtime_backend ?rt i = Some b"
      "backend_generation ?rt i = Some (topology_generation live)" by auto
    with slot snap(2) show ?thesis
      unfolding status_facts_def by (auto simp: get_live_def)
  qed
  ultimately show ?thesis using inner(3) by (rule that [OF run inner(2)])
qed


subsection \<open>Invariant\<close>

text \<open>The durable mode of a backend: active unless an entry says otherwise.\<close>

definition stored_mode :: "StateFile \<Rightarrow> string \<Rightarrow> BackendMode" where
  "stored_mode st i = (case hget (store_modes st) i of None \<Rightarrow> Active | Some m \<Rightarrow> m)"

definition fence_inv :: "'u uri_api \<Rightarrow> 'u RuntimeState \<Rightarrow> StateFile \<Rightarrow> bool" where
  "fence_inv U rt st \<longleftrightarrow> runtime_inv U rt \<and> state_inv st \<and>
     (\<forall>i slot. registry_get (registry rt) i = Some slot \<longrightarrow> st_mode (slot_state slot) = stored_mode st i)"

definition control_inv :: "'u uri_api \<Rightarrow> 'u ControlState \<Rightarrow> bool" where
  "control_inv U s \<longleftrightarrow> fence_inv U (ctl_runtime s) (ctl_store s) \<and>
     distinct (keys_of (inner_backends (rt_inner (ctl_routing s)))) \<and>
     distinct (keys_of (ctl_operations s)) \<and>
     (\<forall>u oper. hget (ctl_operations s) u = Some oper \<longrightarrow> op_id oper = u)"

lemma hset_hset: "hset k v (hset k w m) = hset k v m"
  unfolding hset_def by (induction m) auto

lemma stored_mode_with_mode:
  assumes "state_inv st"
  shows "stored_mode (with_mode t i m st) j = (if j = i then m else stored_mode st j)"
  using assms by (simp add: stored_mode_def with_mode_modes state_inv_def)

lemma put_slot_fields [simp]:
  "ctl_slots (put_slot i t s) = hset i t (ctl_slots s)"
  "ctl_runtime (put_slot i t s) = (ctl_runtime s)\<lparr>registry := hset i t (ctl_slots s)\<rparr>"
  "rt_inner (ctl_routing (put_slot i t s)) = rt_inner (ctl_routing s)"
  "ctl_store (put_slot i t s) = ctl_store s" "ctl_disk (put_slot i t s) = ctl_disk s"
  "ctl_operations (put_slot i t s) = ctl_operations s"
  "ctl_runtime_file (put_slot i t s) = ctl_runtime_file s"
  by (simp_all add: put_slot_def)

lemma send_progress_fields [simp]:
  "ctl_routing (send_progress oper p s) = ctl_routing s"
  "ctl_store (send_progress oper p s) = ctl_store s" "ctl_disk (send_progress oper p s) = ctl_disk s"
  "ctl_operations (send_progress oper p s) =
     hset (op_id oper) (oper\<lparr>op_progress := p\<rparr>) (ctl_operations s)"
  by (simp_all add: send_progress_def)

text \<open>A slot may be replaced by one that differs in mode, leases and counters only.\<close>

lemma runtime_inv_put:
  assumes "runtime_inv U rt" and "hget (registry rt) i = Some slot" and "slot_inv t"
    and "st_spec (slot_state t) = st_spec (slot_state slot)"
    and "st_registered (slot_state t) = st_registered (slot_state slot)"
  shows "runtime_inv U (rt\<lparr>registry := hset i t (registry rt)\<rparr>)"
proof -
  have ri: "registry_inv (registry rt)" using assms(1) by (simp add: runtime_inv_def)
  have "slot_id t = i" using registry_invD [OF ri assms(2)] assms(4) by (simp add: slot_id_def)
  then have "registry_inv (hset i t (registry rt))" using registry_inv_hset [OF ri] assms(3) by blast
  moreover have "registry_get (hset i t (registry rt)) j =
      (if j = i then (if st_registered (slot_state slot) then Some t else None) else registry_get (registry rt) j)" for j
    using assms(5) by (simp add: registry_get_def get_retained_def)
  moreover have "registry_get (registry rt) i = (if st_registered (slot_state slot) then Some slot else None)"
    using assms(2) by (simp add: registry_get_def get_retained_def)
  ultimately show ?thesis
    using assms(1,4)
    unfolding runtime_inv_def generations_inv_def backend_generation_def runtime_backends_def
    by (auto split: if_splits)
qed

lemma fence_put:
  assumes "fence_inv U rt st" and "hget (registry rt) i = Some slot" and "slot_inv t"
    and "st_spec (slot_state t) = st_spec (slot_state slot)"
    and "st_registered (slot_state t) = st_registered (slot_state slot)" and "state_inv st'"
    and "st_registered (slot_state slot) \<Longrightarrow> st_mode (slot_state t) = stored_mode st' i"
    and "\<And>j. j \<noteq> i \<Longrightarrow> stored_mode st' j = stored_mode st j"
  shows "fence_inv U (rt\<lparr>registry := hset i t (registry rt)\<rparr>) st'"
  using assms runtime_inv_put [OF _ assms(2-5)]
  by (auto simp: fence_inv_def registry_get_Some split: if_splits)

text \<open>Setting the mode of a registered slot, together with the stored mode.\<close>

lemma fence_mode:
  assumes "fence_inv U rt st" and "registry_get (registry rt) i = Some slot" and "mode_changed m slot t"
    and "state_inv st'" and "\<And>j. stored_mode st' j = (if j = i then m else stored_mode st j)"
  shows "fence_inv U (rt\<lparr>registry := hset i t (registry rt)\<rparr>) st'"
proof (rule fence_put [OF assms(1) _ _ _ _ assms(4)])
  show get: "hget (registry rt) i = Some slot" using assms(2) by (simp add: registry_get_Some)
  have "slot_inv slot" using assms(1) registry_invD [OF _ get] by (auto simp: fence_inv_def runtime_inv_def)
  then show "slot_inv t" using mode_changed_inv [OF assms(3)] assms(2) by (simp add: registry_get_Some)
qed (use mode_changed_effect [OF assms(3)] assms(5) in auto)

lemma persist_mode_spec:
  assumes "persist_mode io i m s = (r, s')" and "state_inv (ctl_store s)"
  shows "ctl_routing s' = ctl_routing s" and "ctl_operations s' = ctl_operations s"
    and "ctl_runtime_file s' = ctl_runtime_file s" and "state_inv (ctl_store s')"
    and "r = Inr () \<Longrightarrow> stored_mode (ctl_store s') j = (if j = i then m else stored_mode (ctl_store s) j)"
    and "r \<noteq> Inr () \<Longrightarrow> ctl_store s' = ctl_store s"
proof -
  let ?w = "with_mode (io_unix_ms io) i m (ctl_store s)"
  obtain x d where save: "save_file (io_to_json io) (io_fails io) ?w (ctl_disk s) = (x, d)" by fastforce
  note run = assms(1) [unfolded persist_mode_def store_set_mode_eq save]
  show "ctl_routing s' = ctl_routing s" "ctl_operations s' = ctl_operations s"
    "ctl_runtime_file s' = ctl_runtime_file s" "r \<noteq> Inr () \<Longrightarrow> ctl_store s' = ctl_store s"
    using run by (auto split: sum.splits)
  have "x = Inr () \<Longrightarrow> state_inv ?w"
    using save_file_cases [OF save] with_mode_valid [OF assms(2)] by blast
  then show "state_inv (ctl_store s')" using run assms(2) by (auto split: sum.splits)
  show "r = Inr () \<Longrightarrow> stored_mode (ctl_store s') j = (if j = i then m else stored_mode (ctl_store s) j)"
    using run stored_mode_with_mode [OF assms(2)] by (auto split: sum.splits)
qed

text \<open>
  Seen from the slots and the durable modes, an operation on a backend does nothing or sets
  its mode, in memory and in the store, and keeps its leases.
\<close>

definition untouched :: "'u ControlState \<Rightarrow> 'u ControlState \<Rightarrow> bool" where
  "untouched s s' \<longleftrightarrow> ctl_runtime s' = ctl_runtime s \<and> ctl_store s' = ctl_store s"

definition mode_written :: "string \<Rightarrow> BackendMode \<Rightarrow> 'u ControlState \<Rightarrow> 'u ControlState \<Rightarrow> bool" where
  "mode_written i m s s' \<longleftrightarrow>
     (\<exists>slot t. registry_get (ctl_slots s) i = Some slot \<and> st_mode (slot_state t) = m \<and>
        st_registered (slot_state t) = st_registered (slot_state slot) \<and>
        st_leases (slot_state t) = st_leases (slot_state slot) \<and>
        st_total_acquired (slot_state t) = st_total_acquired (slot_state slot) \<and>
        ctl_slots s' = hset i t (ctl_slots s)) \<and>
     (\<forall>j. stored_mode (ctl_store s') j = (if j = i then m else stored_mode (ctl_store s) j))"

lemma ctl_status_total:
  assumes "control_inv U s"
  shows "\<exists>st s1. ctl_status U now i s = Some (st, s1)"
proof -
  have inv: "runtime_inv U (ctl_runtime s)" "distinct (keys_of (inner_backends (rt_inner (ctl_routing s))))"
    using assms by (simp_all add: control_inv_def fence_inv_def)
  show ?thesis by (rule status_spec [OF inv, where now = now and i = i]) (simp add: ctl_status_def)
qed

lemma ctl_status_effect:
  assumes "ctl_status U now i s = Some (st, s1)" and "control_inv U s"
  shows "control_inv U s1" and "untouched s s1" and "ctl_operations s1 = ctl_operations s"
    and "ctl_runtime_file s1 = ctl_runtime_file s" and "ctl_disk s1 = ctl_disk s"
    and "st = None \<longleftrightarrow> registry_get (ctl_slots s) i = None"
    and "st = Some x \<Longrightarrow> status_facts U now (ctl_routing s1) i x"
    and "get_live (ctl_routing s1) j = ensured (backend_generation (ctl_runtime s) j) (get_live (ctl_routing s) j)"
proof -
  have inv: "runtime_inv U (ctl_runtime s)" "distinct (keys_of (inner_backends (rt_inner (ctl_routing s))))"
    using assms(2) by (simp_all add: control_inv_def fence_inv_def)
  obtain inner where s1: "s1 = s\<lparr>ctl_routing := (ctl_routing s)\<lparr>rt_inner := inner\<rparr>\<rparr>"
    and d: "distinct (keys_of (inner_backends inner))"
    and st: "st = None \<longleftrightarrow> registry_get (ctl_slots s) i = None"
      "\<And>x. st = Some x \<Longrightarrow> status_facts U now ((ctl_routing s)\<lparr>rt_inner := inner\<rparr>) i x"
    and l: "\<And>i. hget (inner_backends inner) i =
       ensured (backend_generation (ctl_runtime s) i) (hget (inner_backends (rt_inner (ctl_routing s))) i)"
    by (rule status_spec [OF inv, where now = now and i = i]) (use assms(1) in \<open>auto simp: ctl_status_def\<close>)
  show "control_inv U s1" "untouched s s1" "ctl_operations s1 = ctl_operations s"
    "ctl_runtime_file s1 = ctl_runtime_file s" "ctl_disk s1 = ctl_disk s"
    using assms(2) d unfolding s1 by (simp_all add: control_inv_def untouched_def)
  show "st = None \<longleftrightarrow> registry_get (ctl_slots s) i = None" by (rule st(1))
  show "status_facts U now (ctl_routing s1) i x" if "st = Some x" using st(2) [OF that] s1 by simp
  show "get_live (ctl_routing s1) j = ensured (backend_generation (ctl_runtime s) j) (get_live (ctl_routing s) j)"
    using l s1 by (simp add: get_live_def)
qed

subsection \<open>Lemmas: the effect of each operation\<close>

lemma control_inv_store: "control_inv U s \<Longrightarrow> state_inv (ctl_store s)"
  by (simp add: control_inv_def fence_inv_def)

lemma control_inv_mode:
  "control_inv U s \<Longrightarrow> registry_get (ctl_slots s) i = Some slot \<Longrightarrow>
     st_mode (slot_state slot) = stored_mode (ctl_store s) i"
  by (simp add: control_inv_def fence_inv_def)

lemma control_inv_send:
  "control_inv U s \<Longrightarrow> control_inv U (send_progress oper p s)"
  by (auto simp: control_inv_def split: if_splits)

lemma hget_snd: "distinct (keys_of m) \<Longrightarrow> v \<in> set (map snd m) \<Longrightarrow> \<exists>k. hget m k = Some v"
  by (force simp: hget_Some_iff)

lemma ensure_drain_operation_spec:
  assumes "ensure_drain_operation U now uuid i s = Some (oper, s')" and "control_inv U s"
  shows "control_inv U s' \<and> untouched s s' \<and> op_backend_id oper = i \<and>
    dp_phase (op_progress oper) = PhaseDraining \<and> hget (ctl_operations s') (op_id oper) = Some oper"
proof (cases "running_drain i s")
  case None
  with assms(1) obtain st s1 where run: "ctl_status U now i s = Some (st, s1)"
    by (auto simp: ensure_drain_operation_def split: bind_splits)
  note eff = ctl_status_effect [OF run assms(2)]
  from assms(1) None run eff(1,2) show ?thesis
    by (auto simp: ensure_drain_operation_def Let_def control_inv_def untouched_def split: if_splits)
next
  case (Some oper')
  then have oper': "oper' \<in> set (map snd (ctl_operations s))" "op_backend_id oper' = i"
    "dp_phase (op_progress oper') = PhaseDraining"
    by (auto simp: running_drain_def find_Some_iff)
  moreover have "\<exists>k. hget (ctl_operations s) k = Some oper'"
    using hget_snd [OF _ oper'(1)] assms(2) by (simp add: control_inv_def)
  moreover have "oper = oper'" "s' = s" using assms(1) Some by (simp_all add: ensure_drain_operation_def)
  ultimately show ?thesis using assms(2) by (auto simp: control_inv_def untouched_def)
qed

lemma activate_registered_slot:
  "st_registered (slot_state slot) \<Longrightarrow>
     activate now slot = Some (r, t) \<longleftrightarrow> mode_changed Active slot t \<and> r = Inr (slot_snapshot t now)"
  by (cases r) (auto simp: activate_def set_mode_Inl set_mode_Inr)

lemma begin_drain_effect:
  assumes "ctl_begin_drain U now io uuid i s = Some (r, s')" and inv: "control_inv U s"
  shows "control_inv U s' \<and>
    (case r of
       Inl e \<Rightarrow> e = not_found (NoSuchBackend i) \<and> s' = s \<and> registry_get (ctl_slots s) i = None \<or>
         (\<exists>f. e = internal (DrainNotPersisted f)) \<and> mode_written i (stored_mode (ctl_store s) i) s s'
     | Inr oper \<Rightarrow> mode_written i Draining s s' \<and> op_backend_id oper = i \<and>
         dp_phase (op_progress oper) = PhaseDraining \<and>
         hget (ctl_operations s') (op_id oper) = Some oper)"
proof (cases "registry_get (ctl_slots s) i")
  case None
  with assms show ?thesis by (auto simp: ctl_begin_drain_def)
next
  case (Some slot)
  let ?before = "st_mode (slot_state slot)"
  have before: "snap_mode (slot_snapshot slot now) = ?before"
    by (simp add: slot_snapshot_def state_snapshot_def)
  have agree: "?before = stored_mode (ctl_store s) i" by (rule control_inv_mode [OF inv Some])
  from assms(1) Some obtain token slot1 where "begin_drain slot = Some (token, slot1)"
    by (auto simp: ctl_begin_drain_def Let_def split: bind_splits)
  then have drained: "mode_changed Draining slot slot1" by (simp add: begin_drain_Some)
  note eff = mode_changed_effect [OF drained]
  let ?s1 = "put_slot i slot1 s"
  have fence: "fence_inv U (ctl_runtime s) (ctl_store s)" using inv by (simp add: control_inv_def)
  have written: ?thesis if "r = Inr oper" "ensure_drain_operation U now uuid i s2 = Some (oper, s')"
    "ctl_routing s2 = ctl_routing ?s1" "ctl_operations s2 = ctl_operations s" "state_inv (ctl_store s2)"
    "\<And>j. stored_mode (ctl_store s2) j = (if j = i then Draining else stored_mode (ctl_store s) j)" for oper s2
  proof -
    have "control_inv U s2"
      using inv fence_mode [OF fence Some drained that(5,6)] that(3,4) by (simp add: control_inv_def)
    from ensure_drain_operation_spec [OF that(2) this] that(1,3,6) Some eff
    show ?thesis by (auto simp: mode_written_def untouched_def)
  qed
  show ?thesis
  proof (cases "?before = Draining")
    case True
    with drained have "slot1 = slot" by (simp add: mode_changed_def)
    obtain oper where e: "r = Inr oper" "ensure_drain_operation U now uuid i ?s1 = Some (oper, s')"
      using assms(1) Some True \<open>begin_drain slot = Some (token, slot1)\<close> before
      by (auto simp: ctl_begin_drain_def Let_def split: bind_splits)
    show ?thesis
      by (rule written [OF e]) (use control_inv_store [OF inv] True agree in auto)
  next
    case False
    obtain x s2 where p: "persist_mode io i Draining ?s1 = (x, s2)" by fastforce
    note ps = persist_mode_spec [OF p, simplified, OF control_inv_store [OF inv]]
    show ?thesis
    proof (cases x)
      case (Inr u)
      obtain oper where e: "r = Inr oper" "ensure_drain_operation U now uuid i s2 = Some (oper, s')"
        using assms(1) Some False \<open>begin_drain slot = Some (token, slot1)\<close> before p Inr
        by (auto simp: ctl_begin_drain_def Let_def split: bind_splits)
      show ?thesis by (rule written [OF e]) (use ps Inr in auto)
    next
      case (Inl f)
      have "\<exists>slot2. mode_changed ?before slot1 slot2 \<and> s' = put_slot i slot2 s2 \<and>
          r = Inl (internal (DrainNotPersisted f))"
        using assms(1) Some False \<open>begin_drain slot = Some (token, slot1)\<close> before p Inl eff
        by (cases ?before)
          (auto simp: ctl_begin_drain_def Let_def activate_registered_slot disable_Some
            registry_get_Some split: bind_splits)
      then obtain slot2 where s2: "mode_changed ?before slot1 slot2" "s' = put_slot i slot2 s2"
        "r = Inl (internal (DrainNotPersisted f))" by blast
      note eff2 = mode_changed_effect [OF s2(1)]
      have reg: "hget (ctl_slots s) i = Some slot" "st_registered (slot_state slot)"
        using Some by (simp_all add: registry_get_Some)
      have "slot_inv slot" using fence registry_invD [OF _ reg(1)] by (auto simp: fence_inv_def runtime_inv_def)
      then have "slot_inv slot2"
        using mode_changed_inv [OF drained] mode_changed_inv [OF s2(1)] eff reg(2) by simp
      then have "fence_inv U ((ctl_runtime s)\<lparr>registry := hset i slot2 (ctl_slots s)\<rparr>) (ctl_store s)"
        by (rule fence_put [OF fence reg(1)]) (use eff eff2 agree control_inv_store [OF inv] in auto)
      then have "control_inv U s'"
        using inv ps Inl s2(2) by (simp add: control_inv_def hset_hset)
      moreover have "mode_written i (stored_mode (ctl_store s) i) s s'"
        unfolding mode_written_def
        using ps Inl s2(2) eff eff2 Some agree by (auto simp: hset_hset)
      ultimately show ?thesis using s2(3) by auto
    qed
  qed
qed

lemma drive_look_effect:
  assumes "drive_look U now oper s = Some (todo, s')" and inv: "control_inv U s"
  shows "control_inv U s' \<and> untouched s s'"
proof -
  from assms(1) obtain st s1 where run: "ctl_status U now (op_backend_id oper) s = Some (st, s1)"
    by (auto simp: drive_look_def split: bind_splits)
  note eff = ctl_status_effect [OF run inv]
  from assms(1) run eff(1,2) control_inv_send [OF eff(1)] show ?thesis
    by (auto simp: drive_look_def untouched_def Let_def split: option.splits if_splits)
qed

text \<open>
  Storing a mode and then setting it on the registered slot, as activation, disabling and
  the end of a drain do.
\<close>

lemma stored_then_set:
  assumes inv: "control_inv U s" and p: "persist_mode io i m s = (Inr (), s2)"
    and slot: "registry_get (ctl_slots s) i = Some slot" and ch: "mode_changed m slot t"
  shows "control_inv U (put_slot i t s2) \<and> mode_written i m s (put_slot i t s2)"
proof -
  note ps = persist_mode_spec [OF p control_inv_store [OF inv]]
  have fence: "fence_inv U (ctl_runtime s) (ctl_store s)" using inv by (simp add: control_inv_def)
  have stored: "\<And>j. stored_mode (ctl_store s2) j = (if j = i then m else stored_mode (ctl_store s) j)"
    by (rule ps(5)) simp
  have "control_inv U (put_slot i t s2)"
    using inv fence_mode [OF fence slot ch ps(4) stored] ps(1,2) by (simp add: control_inv_def)
  moreover have "mode_written i m s (put_slot i t s2)"
    using slot mode_changed_effect [OF ch] ps(1) stored by (auto simp: mode_written_def)
  ultimately show ?thesis ..
qed

lemma persist_refused:
  assumes "control_inv U s" and "persist_mode io i m s = (Inl e, s2)"
  shows "control_inv U s2 \<and> untouched s s2"
  using assms persist_mode_spec [OF assms(2) control_inv_store [OF assms(1)]]
  by (simp add: control_inv_def untouched_def)

lemma untouched_written: "untouched s s1 \<Longrightarrow> mode_written i m s1 s2 \<Longrightarrow> mode_written i m s s2"
  by (simp add: untouched_def mode_written_def)

lemma written_untouched: "mode_written i m s s1 \<Longrightarrow> untouched s1 s2 \<Longrightarrow> mode_written i m s s2"
  by (simp add: untouched_def mode_written_def)

lemma mode_written_get:
  assumes "mode_written i m s s'" and "registry_get (ctl_slots s) i = Some slot"
  shows "\<exists>t. registry_get (ctl_slots s') i = Some t \<and> st_mode (slot_state t) = m \<and>
    st_leases (slot_state t) = st_leases (slot_state slot)"
    and "stored_mode (ctl_store s') i = m"
    and "j \<noteq> i \<Longrightarrow> hget (ctl_slots s') j = hget (ctl_slots s) j \<and>
      stored_mode (ctl_store s') j = stored_mode (ctl_store s) j"
  using assms by (auto simp: mode_written_def registry_get_Some)

lemma untouched_send [simp]: "untouched s (send_progress oper p s') \<longleftrightarrow> untouched s s'"
  by (simp add: untouched_def)

lemma untouched_trans: "untouched s s1 \<Longrightarrow> untouched s1 s2 \<Longrightarrow> untouched s s2"
  by (simp add: untouched_def)

text \<open>What a confirmed drain has seen with the lock held.\<close>

definition certified :: "'u uri_api \<Rightarrow> instant \<Rightarrow> DrainOperation \<Rightarrow> 'u ControlState \<Rightarrow> bool" where
  "certified U now oper s \<longleftrightarrow>
     (\<exists>slot live ob. registry_get (ctl_slots s) (op_backend_id oper) = Some slot \<and>
        st_mode (slot_state slot) = Draining \<and> st_leases (slot_state slot) = [] \<and>
        get_live (ctl_routing s) (op_backend_id oper) = Some live \<and>
        backend_generation (ctl_runtime s) (op_backend_id oper) = Some (topology_generation live) \<and>
        live_metrics live = Some ob \<and>
        saturating_duration_since now (obs_observed_at ob) \<le> stale_limit (ctl_runtime s) \<and>
        sequences_running (obs_metrics ob) = 0 \<and> sequences_waiting (obs_metrics ob) = 0 \<and>
        2 \<le> idle_samples (engine_idle_streak live) (observation_serial live) (op_scrapes_at_start oper))"


lemma confirmed_certified:
  assumes "status_facts U now (ctl_routing s) (op_backend_id oper) st" and "status_mode st = Draining"
    and "status_proxy_active st = 0" and "engine_idle_since (op_scrapes_at_start oper) st"
  shows "certified U now oper s"
proof -
  obtain slot live b where f: "registry_get (ctl_slots s) (op_backend_id oper) = Some slot"
    "get_live (ctl_routing s) (op_backend_id oper) = Some live"
    "backend_generation (ctl_runtime s) (op_backend_id oper) = Some (topology_generation live)"
    and st: "st = status_snapshot U (slot_snapshot slot now) live b now (stale_limit (ctl_runtime s))
      (kv_soft_limit (cfg_routing (pub_config (published (ctl_runtime s)))))"
    using assms(1) unfolding status_facts_def by blast
  have "st_mode (slot_state slot) = Draining" "st_leases (slot_state slot) = []"
    using assms(2,3) st by (simp_all add: status_snapshot_def Let_def slot_snapshot_def state_snapshot_def)
  moreover have "\<exists>ob. live_metrics live = Some ob \<and>
      saturating_duration_since now (obs_observed_at ob) \<le> stale_limit (ctl_runtime s) \<and>
      sequences_running (obs_metrics ob) = 0 \<and> sequences_waiting (obs_metrics ob) = 0"
    using assms(4) st
    by (auto simp: engine_idle_since_def status_snapshot_def Let_def telemetry_state_def
        split: option.splits if_splits)
  moreover have "2 \<le> idle_samples (engine_idle_streak live) (observation_serial live) (op_scrapes_at_start oper)"
    using assms(4) st by (simp add: engine_idle_since_def status_snapshot_def Let_def)
  ultimately show ?thesis using f unfolding certified_def by blast
qed

lemma drive_confirm_effect:
  assumes "drive_confirm U now later io oper looked s = Some (again, s')" and inv: "control_inv U s"
  shows "control_inv U s' \<and>
    (if again then untouched s s' \<and> ctl_operations s' = ctl_operations s
     else (\<exists>s1. untouched s s1 \<and> certified U now oper s1) \<and>
       (\<exists>p. map_option op_progress (hget (ctl_operations s') (op_id oper)) = Some p \<and>
         (dp_phase p = PhaseComplete \<and> dp_safe_to_stop p \<and> mode_written (op_backend_id oper) Disabled s s' \<or>
          dp_phase p = PhaseFailed \<and> \<not> dp_safe_to_stop p \<and> untouched s s')))"
proof -
  let ?i = "op_backend_id oper"
  from assms(1) obtain st s1 where run: "ctl_status U now ?i s = Some (st, s1)"
    by (auto simp: drive_confirm_def split: bind_splits)
  note eff = ctl_status_effect [OF run inv]
  show ?thesis
  proof (cases "\<exists>c. st = Some c \<and> status_mode c = Draining \<and> status_proxy_active c = 0 \<and>
      engine_idle_since (op_scrapes_at_start oper) c")
    case False
    with assms(1) run have "again" "s' = s1"
      by (auto simp: drive_confirm_def split: option.splits if_splits)
    with eff(1-3) show ?thesis by simp
  next
    case True
    then obtain c where c: "st = Some c" "status_mode c = Draining" "status_proxy_active c = 0"
      "engine_idle_since (op_scrapes_at_start oper) c" by blast
    have cert: "certified U now oper s1" by (rule confirmed_certified [OF eff(7) [OF c(1)] c(2-4)])
    obtain slot where slot: "registry_get (ctl_slots s1) ?i = Some slot"
      using eff(2,6) c(1) by (auto simp: untouched_def)
    obtain x s2 where p: "persist_mode io ?i Disabled s1 = (x, s2)" by fastforce
    show ?thesis
    proof (cases x)
      case (Inl e)
      with assms(1) run c p have "\<not> again" and s': "s' = send_progress oper
          (progress_from_status later oper looked PhaseFailed False (Some (DisabledNotPersisted e))) s2"
        by (auto simp: drive_confirm_def)
      have "control_inv U s2" "untouched s1 s2" using persist_refused [OF eff(1)] p Inl by blast+
      with \<open>\<not> again\<close> eff(2) cert show ?thesis
        unfolding s' by (auto simp: control_inv_send untouched_def progress_from_status_def)
    next
      case (Inr u)
      then have p': "persist_mode io ?i Disabled s1 = (Inr (), s2)" using p by simp
      have slots: "ctl_slots s2 = ctl_slots s1"
        using persist_mode_spec(1) [OF p' control_inv_store [OF eff(1)]] by simp
      from assms(1) run c p' slots slot obtain snap slot' st' s4 where
        d: "disable now slot = Some (snap, slot')"
        and last: "ctl_status U later ?i (put_slot ?i slot' s2) = Some (st', s4)" "\<not> again"
          "s' = send_progress oper (progress_from_status later oper
             (case st' of None \<Rightarrow> c | Some x \<Rightarrow> x) PhaseComplete True (Some ProxyAndEngineIdle)) s4"
        by (auto simp: drive_confirm_def Let_def split: bind_splits)
      have ch: "mode_changed Disabled slot slot'" using d by (simp add: disable_Some)
      note set = stored_then_set [OF eff(1) p' slot ch]
      note eff' = ctl_status_effect [OF last(1) conjunct1 [OF set]]
      have "mode_written ?i Disabled s s'"
        using set eff'(2) unfolding last(3)
        by (blast intro: untouched_written [OF eff(2)] written_untouched untouched_send [THEN iffD2])
      with eff(2) cert control_inv_send [OF eff'(1)] last(2,3) show ?thesis
        by (auto simp: progress_from_status_def)
    qed
  qed
qed


lemma activate_effect:
  assumes "ctl_activate U now io rollback_io i s = Some (r, s')" and inv: "control_inv U s"
  shows "control_inv U s' \<and>
    (untouched s s' \<and> (\<forall>a. r = Inr a \<longrightarrow> action_message a = AlreadyActive) \<or>
     r = Inr \<lparr>action_backend_id = i, action_mode = Active, action_message = Activated\<rparr> \<and>
     mode_written i Active s s' \<and> stored_mode (ctl_store s) i = Disabled \<and>
     (\<exists>s1 live ob. untouched s s1 \<and> get_live (ctl_routing s1) i = Some live \<and> readiness live = Ready \<and>
        backend_generation (ctl_runtime s) i = Some (topology_generation live) \<and>
        live_metrics live = Some ob \<and>
        saturating_duration_since now (obs_observed_at ob) \<le> stale_limit (ctl_runtime s)))"
proof -
  from assms(1) obtain st s1 where run: "ctl_status U now i s = Some (st, s1)"
    by (auto simp: ctl_activate_def split: bind_splits)
  note eff = ctl_status_effect [OF run inv]
  show ?thesis
  proof (cases "\<exists>x. st = Some x \<and> status_mode x = Disabled \<and> status_readiness x = Ready \<and> status_telemetry x = Fresh")
    case False
    with assms(1) run have "s' = s1" "\<forall>a. r = Inr a \<longrightarrow> action_message a = AlreadyActive"
      by (auto simp: ctl_activate_def split: option.splits if_splits BackendMode.splits)
    with eff(1,2) show ?thesis by blast
  next
    case True
    then obtain x where x: "st = Some x" "status_mode x = Disabled" "status_readiness x = Ready"
      "status_telemetry x = Fresh" by blast
    from eff(7) [OF x(1)] obtain slot live b where f: "registry_get (ctl_slots s1) i = Some slot"
      "get_live (ctl_routing s1) i = Some live"
      "backend_generation (ctl_runtime s1) i = Some (topology_generation live)"
      and st: "x = status_snapshot U (slot_snapshot slot now) live b now (stale_limit (ctl_runtime s1))
        (kv_soft_limit (cfg_routing (pub_config (published (ctl_runtime s1)))))"
      unfolding status_facts_def by blast
    have mode: "st_mode (slot_state slot) = Disabled" "readiness live = Ready"
      "\<exists>ob. live_metrics live = Some ob \<and>
         saturating_duration_since now (obs_observed_at ob) \<le> stale_limit (ctl_runtime s1)"
      using x(2-4) st by (auto simp: status_snapshot_def Let_def slot_snapshot_def state_snapshot_def
          telemetry_state_def split: option.splits if_splits)
    obtain y s2 where p: "persist_mode io i Active s1 = (y, s2)" by fastforce
    show ?thesis
    proof (cases y)
      case (Inl e)
      with assms(1) run x f(1) p have "s' = s2" "r = Inl (internal (FenceNotRemoved e))"
        by (auto simp: ctl_activate_def)
      with persist_refused [OF eff(1)] p Inl untouched_trans [OF eff(2)] show ?thesis by auto
    next
      case (Inr u)
      then have p': "persist_mode io i Active s1 = (Inr (), s2)" using p by simp
      have "st_registered (slot_state slot)" using f(1) by (simp add: registry_get_Some)
      with assms(1) run x f(1) p' obtain t where t: "mode_changed Active slot t" "s' = put_slot i t s2"
        "r = Inr \<lparr>action_backend_id = i, action_mode = Active, action_message = Activated\<rparr>"
        by (auto simp: ctl_activate_def activate_registered_slot split: bind_splits)
      note set = stored_then_set [OF eff(1) p' f(1) t(1)]
      have "stored_mode (ctl_store s) i = Disabled"
        using control_inv_mode [OF eff(1) f(1)] mode(1) eff(2) by (simp add: untouched_def)
      with set t untouched_written [OF eff(2)] f(2,3) mode(2,3) eff(2) show ?thesis
        by (auto simp: untouched_def)
    qed
  qed
qed

lemma disable_effect:
  assumes "ctl_disable U now io i force s = Some (r, s')" and inv: "control_inv U s"
  shows "control_inv U s' \<and>
    (untouched s s' \<and> (\<forall>a. r = Inr a \<longrightarrow>
       action_mode a = Disabled \<and> action_message a = AlreadyDisabled \<and> stored_mode (ctl_store s) i = Disabled) \<or>
     (\<exists>m slot. r = Inr \<lparr>action_backend_id = i, action_mode = Disabled, action_message = m\<rparr> \<and>
        mode_written i Disabled s s' \<and> registry_get (ctl_slots s) i = Some slot \<and>
        st_mode (slot_state slot) \<noteq> Disabled \<and>
        (let n = length (st_leases (slot_state slot)) in
         (force \<or> n = 0) \<and> m = (if 0 < n then DisabledWithRunning n else DisabledMessage))))"
proof -
  from assms(1) obtain st s1 where run: "ctl_status U now i s = Some (st, s1)"
    by (auto simp: ctl_disable_def split: bind_splits)
  note eff = ctl_status_effect [OF run inv]
  show ?thesis
  proof (cases st)
    case None
    with assms(1) run eff(1,2) show ?thesis by (auto simp: ctl_disable_def)
  next
    case (Some x)
    from eff(7) [OF Some] obtain slot live b where f: "registry_get (ctl_slots s1) i = Some slot"
      and st: "x = status_snapshot U (slot_snapshot slot now) live b now (stale_limit (ctl_runtime s1))
        (kv_soft_limit (cfg_routing (pub_config (published (ctl_runtime s1)))))"
      unfolding status_facts_def by blast
    have x: "status_mode x = st_mode (slot_state slot)" "status_proxy_active x = length (st_leases (slot_state slot))"
      using st by (simp_all add: status_snapshot_def Let_def slot_snapshot_def state_snapshot_def)
    have stored: "st_mode (slot_state slot) = stored_mode (ctl_store s) i"
      using control_inv_mode [OF eff(1) f] eff(2) by (simp add: untouched_def)
    obtain y s2 where p: "persist_mode io i Disabled s1 = (y, s2)" by fastforce
    consider (off) "st_mode (slot_state slot) = Disabled"
      | (busy) "st_mode (slot_state slot) \<noteq> Disabled" "\<not> force" "st_leases (slot_state slot) \<noteq> []"
      | (go) "st_mode (slot_state slot) \<noteq> Disabled" "force \<or> st_leases (slot_state slot) = []"
      by blast
    then show ?thesis
    proof cases
      case off
      with assms(1) run Some x stored eff(1,2) show ?thesis by (auto simp: ctl_disable_def)
    next
      case busy
      with assms(1) run Some x eff(1,2) show ?thesis by (auto simp: ctl_disable_def)
    next
      case go
      then have unlocked: "\<not> (\<not> force \<and> 0 < status_proxy_active x)" using x(2) by auto
      show ?thesis
      proof (cases y)
        case (Inl e)
        with assms(1) run Some f x(1) go(1) unlocked p have "s' = s2" "r = Inl (internal (DisableNotPersisted e))"
          by (auto simp: ctl_disable_def split: if_splits)
        with persist_refused [OF eff(1)] p Inl untouched_trans [OF eff(2)] show ?thesis by auto
      next
        case (Inr u)
        then have p': "persist_mode io i Disabled s1 = (Inr (), s2)" using p by simp
        from assms(1) run Some f x go unlocked p' obtain t where t: "mode_changed Disabled slot t"
          "s' = put_slot i t s2" "r = Inr \<lparr>action_backend_id = i, action_mode = Disabled,
             action_message = (if 0 < length (st_leases (slot_state slot))
               then DisabledWithRunning (length (st_leases (slot_state slot))) else DisabledMessage)\<rparr>"
          by (auto simp: ctl_disable_def Let_def disable_Some split: bind_splits if_splits)
        note set = stored_then_set [OF eff(1) p' f t(1)]
        have "registry_get (ctl_slots s) i = Some slot" using f eff(2) by (simp add: untouched_def)
        with set t untouched_written [OF eff(2)] go show ?thesis by (auto simp: Let_def)
      qed
    qed
  qed
qed


text \<open>A slot that a reload creates holds no lease.\<close>

lemma apply_new_slot:
  assumes "apply_with_modes U now config modes s = Some (Inr rep, s')" and ri: "registry_inv (registry s)"
    and none: "hget (registry s) i = None" and t: "hget (registry s') i = Some t"
  shows "st_leases (slot_state t) = []"
proof -
  from assms(1) obtain report slots slots1 where
    rec: "reconcile (map (registry_spec U) (cfg_backends config)) (registry s) = Some (Inr report, slots)"
    and one: "run_all (restore_new now modes) (added report @ report_revived report) slots = Some slots1"
    and two: "run_all (reassert now modes) (snapshots now slots1) slots1 = Some (registry s')"
    by (rule apply_Inr) simp
  have inv: "registry_inv slots" by (rule reconcile_inv [OF rec ri])
  have d: "distinct (keys_of (registry s))" using ri by (simp add: registry_inv_def)
  obtain mid where mid: "hget slots i = Some mid"
    using mode_rounds_None [OF inv one two, of i] t by (cases "hget slots i") auto
  have "hget slots i = reconciled (hget (desired_of (map (registry_spec U) (cfg_backends config))) i) None"
    using reconcile_Inr [OF rec d] none by metis
  then have "st_leases (slot_state mid) = []"
    using mid by (cases "hget (desired_of (map (registry_spec U) (cfg_backends config))) i")
      (auto simp: slot_new_def)
  with mode_rounds_slot [OF inv one two mid] t show ?thesis by auto
qed

lemma resume_drains_effect:
  assumes "resume_drains U now work s = Some s'" and "control_inv U s"
  shows "control_inv U s' \<and> untouched s s'"
  using assms
proof (induction U now work s rule: resume_drains.induct)
  case (1 U now s)
  then show ?case by (simp add: untouched_def)
next
  case (2 U now snap uuid rest s)
  show ?case
  proof (cases "snap_mode snap = Draining")
    case True
    with "2.prems"(1) obtain oper s1 where
      e: "ensure_drain_operation U now uuid (snapshot_id snap) s = Some (oper, s1)"
      and r: "resume_drains U now rest s1 = Some s'" by (auto split: bind_splits)
    with ensure_drain_operation_spec [OF e "2.prems"(2)] "2.IH" [of s1] True show ?thesis
      by (auto intro: untouched_trans)
  next
    case False
    with 2 show ?thesis by simp
  qed
qed

lemma reload_effect:
  assumes "ctl_reload toml_from_str U now file uuids s = Some (r, s')" and inv: "control_inv U s"
    and room: "\<forall>config. load_runtime_config toml_from_str U (ctl_runtime_file s)
      (file (ctl_runtime_file s)) = Inr config \<longrightarrow> apply_room config (ctl_runtime s)"
  shows "control_inv U s' \<and> ctl_store s' = ctl_store s \<and>
    ((\<exists>e. r = Inl e) \<longrightarrow> untouched s s') \<and>
    (\<forall>i t. hget (ctl_slots s') i = Some t \<longrightarrow> st_leases (slot_state t) =
       (case hget (ctl_slots s) i of None \<Rightarrow> [] | Some old \<Rightarrow> st_leases (slot_state old)))"
proof -
  let ?modes = "store_modes (ctl_store s)"
  have rinv: "runtime_inv U (ctl_runtime s)" and fence: "fence_inv U (ctl_runtime s) (ctl_store s)"
    using inv by (simp_all add: control_inv_def fence_inv_def)
  have refused: ?thesis if "r = Inl e" "s' = s\<lparr>ctl_routing := (ctl_routing s)\<lparr>rt_runtime := ctl_runtime s\<rparr>\<rparr>" for e
    using inv that by (auto simp: control_inv_def untouched_def)
  show ?thesis
  proof (cases "load_runtime_config toml_from_str U (ctl_runtime_file s) (file (ctl_runtime_file s))")
    case (Inl e)
    with assms(1) show ?thesis
      by (intro refused [of "bad_request (ReloadRefused (ConfigFailed e))"])
        (auto simp: ctl_reload_def reload_with_modes_def Let_def)
  next
    case (Inr config)
    with room have ar: "apply_room config (ctl_runtime s)" by blast
    from assms(1) Inr obtain x rt where ap: "apply_with_modes U now config ?modes (ctl_runtime s) = Some (x, rt)"
      by (auto simp: ctl_reload_def reload_with_modes_def Let_def split: bind_splits)
    show ?thesis
    proof (cases x)
      case (Inl e)
      moreover from this have "rt = ctl_runtime s" using apply_Inl ap by blast
      ultimately show ?thesis using assms(1) Inr ap
        by (intro refused [of "bad_request (ReloadRefused (ApplyFailed e))"])
          (auto simp: ctl_reload_def reload_with_modes_def Let_def)
    next
      case (Inr rep)
      with ap have ok: "apply_with_modes U now config ?modes (ctl_runtime s) = Some (Inr rep, rt)" by simp
      let ?s1 = "s\<lparr>ctl_routing := (ctl_routing s)\<lparr>rt_runtime := rt\<rparr>\<rparr>"
      note reg = apply_registry [OF ok rinv ar]
      have bs: "runtime_backends rt = cfg_backends config"
        using ok by (rule apply_Inr) (simp add: runtime_backends_def)
      have modes: "st_mode (slot_state t) = stored_mode (ctl_store s) i"
        if t: "registry_get (registry rt) i = Some t" for i t
      proof -
        from t reg(2) obtain b where "b \<in> set (cfg_backends config)" "backend_id b = i" by force
        with apply_registry(4) [OF ok rinv ar this(1)] t have
          "st_mode (slot_state t) = (case hget ?modes i of Some m \<Rightarrow> m
             | None \<Rightarrow> (case registry_get (ctl_slots s) i of
                 None \<Rightarrow> Active | Some old \<Rightarrow> st_mode (slot_state old)))" by auto
        then show ?thesis
          using control_inv_mode [OF inv] by (auto simp: stored_mode_def split: option.splits)
      qed
      have inv1: "control_inv U ?s1"
        using inv apply_inv [OF ok rinv ar] modes by (auto simp: control_inv_def fence_inv_def)
      have resumed: "\<exists>s2. resume_persisted_drains U now uuids ?s1 = Some s2 \<and> s' = s2 \<and> (\<exists>y. r = Inr y)"
        using assms(1) \<open>load_runtime_config _ _ _ _ = _\<close> ok
        by (auto simp: ctl_reload_def reload_with_modes_def Let_def split: bind_splits)
      then have "control_inv U s' \<and> untouched ?s1 s'"
        using resume_drains_effect inv1 unfolding resume_persisted_drains_def Let_def by blast
      moreover have "st_leases (slot_state t) =
          (case hget (ctl_slots s) i of None \<Rightarrow> [] | Some old \<Rightarrow> st_leases (slot_state old))"
        if "hget (registry rt) i = Some t" for i t
        using apply_new_slot [OF ok _ _ that] rinv reg(3) [of i] that
        by (auto simp: runtime_inv_def split: option.splits)
      ultimately show ?thesis using resumed by (auto simp: untouched_def)
    qed
  qed
qed


subsection \<open>Histories\<close>

text \<open>
  What changes the state of the control plane, one step at a time: the operations, the two
  halves of a turn of a drain task, requests that take and release leases, and everything
  the workers and requests do to the live routing map. A reload is assumed to find room in
  the counters it advances.
\<close>

datatype control_event =
    EvDrain string | EvActivate string | EvDisable string | EvReload
  | EvLook Uuid | EvConfirm Uuid | EvTraffic string | EvLive

inductive control_step ::
  "'u uri_api \<Rightarrow> control_event \<Rightarrow> 'u ControlState \<Rightarrow> 'u ControlState \<Rightarrow> bool" for U where
  drained: "ctl_begin_drain U now io uuid i s = Some (r, s') \<Longrightarrow> control_step U (EvDrain i) s s'"
| activated: "ctl_activate U now io rollback_io i s = Some (r, s') \<Longrightarrow> control_step U (EvActivate i) s s'"
| disabled: "ctl_disable U now io i force s = Some (r, s') \<Longrightarrow> control_step U (EvDisable i) s s'"
| reloaded: "ctl_reload toml_from_str U now file uuids s = Some (r, s') \<Longrightarrow>
    \<forall>config. load_runtime_config toml_from_str U (ctl_runtime_file s)
      (file (ctl_runtime_file s)) = Inr config \<longrightarrow> apply_room config (ctl_runtime s) \<Longrightarrow>
    control_step U EvReload s s'"
| looked: "hget (ctl_operations s) u = Some oper \<Longrightarrow> drive_look U now oper s = Some (todo, s') \<Longrightarrow>
    control_step U (EvLook u) s s'"
| confirmed: "hget (ctl_operations s) u = Some oper \<Longrightarrow>
    drive_confirm U now later io oper seen s = Some (again, s') \<Longrightarrow> control_step U (EvConfirm u) s s'"
| traffic: "hget (ctl_slots s) i = Some slot \<Longrightarrow> (\<exists>now. op = OpAcquire now) \<or> (\<exists>key. op = OpRelease key) \<Longrightarrow>
    slot_step op slot = Some t \<Longrightarrow> control_step U (EvTraffic i) s (put_slot i t s)"
| live: "distinct (keys_of (inner_backends inner)) \<Longrightarrow>
    control_step U EvLive s (s\<lparr>ctl_routing := (ctl_routing s)\<lparr>rt_inner := inner\<rparr>\<rparr>)"

inductive control_run ::
  "'u uri_api \<Rightarrow> control_event list \<Rightarrow> 'u ControlState \<Rightarrow> 'u ControlState \<Rightarrow> bool" for U where
  stay: "control_run U [] s s"
| more: "control_step U ev s t \<Longrightarrow> control_run U evs t u \<Longrightarrow> control_run U (ev # evs) s u"

inductive_cases control_run_NilE: "control_run U [] s t"
inductive_cases control_run_ConsE: "control_run U (ev # evs) s t"

lemma traffic_effect:
  assumes "slot_step op slot = Some t" and "(\<exists>now. op = OpAcquire now) \<or> (\<exists>key. op = OpRelease key)"
  shows "st_spec (slot_state t) = st_spec (slot_state slot) \<and>
    st_registered (slot_state t) = st_registered (slot_state slot) \<and>
    st_mode (slot_state t) = st_mode (slot_state slot) \<and>
    (st_mode (slot_state slot) \<noteq> Active \<longrightarrow> set (st_leases (slot_state t)) \<subseteq> set (st_leases (slot_state slot)))"
  using assms by (auto simp: slot_effect try_acquire_Inr split: if_splits)

lemma control_step_inv:
  assumes "control_step U ev s s'" and "control_inv U s"
  shows "control_inv U s'"
  using assms
proof (induction rule: control_step.induct)
  case (traffic s i slot op t)
  have fence: "fence_inv U (ctl_runtime s) (ctl_store s)" using traffic(4) by (simp add: control_inv_def)
  then have "slot_inv slot" using registry_invD [OF _ traffic(1)] by (auto simp: fence_inv_def runtime_inv_def)
  then have "slot_inv t" using slot_step_inv [OF traffic(3)] by blast
  then have "fence_inv U ((ctl_runtime s)\<lparr>registry := hset i t (ctl_slots s)\<rparr>) (ctl_store s)"
    by (rule fence_put [OF fence traffic(1)])
      (use traffic_effect [OF traffic(3,2)] control_inv_store [OF traffic(4)] traffic(1)
        control_inv_mode [OF traffic(4)] in \<open>auto simp: registry_get_Some\<close>)
  then show ?case using traffic(4) by (simp add: control_inv_def)
next
  case (live inner s)
  then show ?case by (simp add: control_inv_def)
qed (auto dest: begin_drain_effect activate_effect disable_effect reload_effect drive_look_effect
    drive_confirm_effect)

lemma control_run_inv: "control_run U evs s s' \<Longrightarrow> control_inv U s \<Longrightarrow> control_inv U s'"
  by (induction rule: control_run.induct) (auto intro: control_step_inv)

text \<open>A backend that no request can reach: not active, neither in memory nor durably, and without a lease.\<close>

definition closed_idle :: "string \<Rightarrow> 'u ControlState \<Rightarrow> bool" where
  "closed_idle i s \<longleftrightarrow> stored_mode (ctl_store s) i \<noteq> Active \<and>
     (\<forall>slot. hget (ctl_slots s) i = Some slot \<longrightarrow> st_leases (slot_state slot) = [])"

lemma closed_idle_untouched: "untouched s s' \<Longrightarrow> closed_idle i s \<Longrightarrow> closed_idle i s'"
  by (simp add: closed_idle_def untouched_def)

lemma closed_idle_written:
  "mode_written j m s s' \<Longrightarrow> j = i \<Longrightarrow> m \<noteq> Active \<Longrightarrow> closed_idle i s \<Longrightarrow> closed_idle i s'"
  "mode_written j m s s' \<Longrightarrow> j \<noteq> i \<Longrightarrow> closed_idle i s \<Longrightarrow> closed_idle i s'"
  by (auto simp: closed_idle_def mode_written_def registry_get_Some)

lemma control_step_closed:
  assumes "control_step U ev s s'" and "control_inv U s" and "ev \<noteq> EvActivate i" and "closed_idle i s"
  shows "closed_idle i s'"
  using assms
proof (induction rule: control_step.induct)
  case (drained now io uuid j s r s')
  have m: "j = i \<Longrightarrow> stored_mode (ctl_store s) j \<noteq> Active" using drained(4) by (simp add: closed_idle_def)
  from begin_drain_effect [OF drained(1,2)] drained(4) m show ?case
    by (cases r; cases "j = i") (auto intro: closed_idle_written)
next
  case (activated now io rollback_io j s r s')
  with activate_effect [OF activated(1,2)] show ?case
    by (auto intro: closed_idle_written closed_idle_untouched)
next
  case (disabled now io j force s r s')
  with disable_effect [OF disabled(1,2)] show ?case
    by (cases "j = i") (auto intro: closed_idle_written closed_idle_untouched)
next
  case (reloaded toml now f uuids s r s')
  with reload_effect [OF reloaded(1,3,2)] show ?case
    by (auto simp: closed_idle_def split: option.splits)
next
  case (looked s u oper now todo s')
  with drive_look_effect [OF looked(2,3)] show ?case by (auto intro: closed_idle_untouched)
next
  case (confirmed s u oper now later io seen again s')
  with drive_confirm_effect [OF confirmed(2,3)] show ?case
    by (cases "op_backend_id oper = i") (auto intro: closed_idle_written closed_idle_untouched split: if_splits)
next
  case (traffic s j slot op t)
  show ?case
  proof (cases "j = i")
    case True
    have "st_mode (slot_state slot) \<noteq> Active"
    proof
      assume a: "st_mode (slot_state slot) = Active"
      have "slot_inv slot" using traffic(4) registry_invD [OF _ traffic(1)]
        by (auto simp: control_inv_def fence_inv_def runtime_inv_def)
      with a have "registry_get (ctl_slots s) i = Some slot"
        using traffic(1) True by (simp add: slot_inv_def Let_def registry_get_Some)
      from control_inv_mode [OF traffic(4) this] a traffic(6) show False by (simp add: closed_idle_def)
    qed
    with traffic_effect [OF traffic(3,2)] traffic(1,6) True show ?thesis by (auto simp: closed_idle_def)
  next
    case False
    with traffic(6) show ?thesis by (simp add: closed_idle_def)
  qed
next
  case (live inner s)
  then show ?case by (simp add: closed_idle_def)
qed

lemma control_run_closed:
  assumes "control_run U evs s s'" and "control_inv U s" and "EvActivate i \<notin> set evs" and "closed_idle i s"
  shows "closed_idle i s'"
  using assms
  by (induction rule: control_run.induct) (auto intro: control_step_inv control_step_closed)


subsection \<open>Lemmas: the start\<close>

lemma from_config_modes:
  assumes "from_config U now config = Some s" and "registry_get (registry s) i = Some t"
  shows "st_mode (slot_state t) = Active"
proof -
  let ?specs = "map (registry_spec U) (cfg_backends config)"
  from assms(1) obtain report slots where rec: "reconcile ?specs [] = Some (Inr report, slots)"
    and act: "run_all (put_wanted now (\<lambda>_. Some Active)) (added report) slots = Some (registry s)"
    by (auto simp: from_config_def activate_registered_wanted split: bind_splits sum.splits)
  have none: "report_revived report = []"
    using reconcile_report_eq [OF rec registry_inv_Nil]
    by (auto simp: sort_report_def picks_def counts_revived_def)
  have ids: "set (added report) = set (map backend_id (cfg_backends config))"
    using reconcile_new_ids(1) [OF rec registry_inv_Nil] none unfolding spec_ids
    by (auto simp: registry_get_def get_retained_def)
  have "i \<in> set (map backend_id (cfg_backends config))"
    using assms(2) from_config_inv [OF assms(1)] from_config_published [OF assms(1)]
    by (auto simp: runtime_inv_def runtime_backends_def)
  with ids have i: "i \<in> set (added report)" by simp
  have t: "hget (registry s) i = Some t" using assms(2) by (simp add: registry_get_Some)
  then obtain slot where "hget slots i = Some slot" using put_all_None [OF act, of i] by fastforce
  from put_all_slot [OF act this] i t have "tune (Some Active) slot t" by auto
  then show ?thesis using tune_effect by fastforce
qed

lemma put_wanted_runtime_inv:
  assumes "run_all (put_wanted now want) ids (registry rt) = Some slots" and "runtime_inv U rt"
  shows "runtime_inv U (rt\<lparr>registry := slots\<rparr>)"
proof (rule run_all_invariant [OF _ assms(1), where P = "\<lambda>slots. runtime_inv U (rt\<lparr>registry := slots\<rparr>)"])
  show "runtime_inv U (rt\<lparr>registry := registry rt\<rparr>)" using assms(2) by simp
  fix i slots slots'
  assume put: "put_wanted now want i slots = Some slots'" and inv: "runtime_inv U (rt\<lparr>registry := slots\<rparr>)"
  show "runtime_inv U (rt\<lparr>registry := slots'\<rparr>)"
  proof (cases "want i")
    case None
    with put inv show ?thesis by (simp add: put_wanted_def)
  next
    case (Some m)
    with put obtain slot t where st: "registry_get slots i = Some slot" "mode_changed m slot t"
      "slots' = hset i t slots" by (auto simp: put_wanted_def put_mode_Some)
    then have h: "hget slots i = Some slot" "st_registered (slot_state slot)" by (simp_all add: registry_get_Some)
    have "slot_inv t"
      using mode_changed_inv [OF st(2)] registry_invD [OF _ h(1)] inv h(2) by (auto simp: runtime_inv_def)
    from runtime_inv_put [OF inv _ this, of i slot] h(1) mode_changed_effect [OF st(2)] st(3)
    show ?thesis by simp
  qed
qed

text \<open>A \<open>BTreeMap\<close> that was decoded has its keys in order, once each.\<close>

definition json_btree :: "(string \<Rightarrow> StateFile option) \<Rightarrow> bool" where
  "json_btree from_json \<longleftrightarrow> (\<forall>c st. from_json c = Some st \<longrightarrow>
     sorted (keys_of (sf_backends st)) \<and> distinct (keys_of (sf_backends st)))"

lemma load_state_inv:
  "load_state from_json read = Inr st \<Longrightarrow> json_btree from_json \<Longrightarrow> state_inv st"
  by (auto simp: load_state_def json_btree_def state_inv_def default_state_inv [unfolded state_inv_def]
      split: option.splits sum.splits)

lemma start_control_inv:
  assumes "start_control toml_from_str U from_json now path read state_read d uuids = Some (Inr s)"
    and "json_btree from_json"
  shows "control_inv U s"
proof -
  from assms(1) obtain config rt st rt1 routing where
    rt: "from_config U now config = Some rt" and st: "load_state from_json state_read = Inr st"
    and re: "restore_modes now (store_modes st) rt = Some rt1" and ro: "routing_new rt1 = Some routing"
    and s: "resume_persisted_drains U now uuids (control_new routing st d path) = Some s"
    by (auto simp: start_control_def split: sum.splits bind_splits)
  have rinv: "runtime_inv U rt" by (rule from_config_inv [OF rt])
  from re obtain slots where put: "run_all (put_wanted now (hget (store_modes st)))
      (map snapshot_id (snapshots now (registry rt))) (registry rt) = Some slots"
    and rt1: "rt1 = rt\<lparr>registry := slots\<rparr>"
    by (auto simp: restore_modes_def restore_one_wanted split: bind_splits)
  have inv1: "runtime_inv U rt1" unfolding rt1 by (rule put_wanted_runtime_inv [OF put rinv])
  have "st_mode (slot_state t) = stored_mode st i" if "registry_get (registry rt1) i = Some t" for i t
  proof -
    from that rt1 have t: "hget slots i = Some t" "st_registered (slot_state t)" by (simp_all add: registry_get_Some)
    then obtain u where u: "hget (registry rt) i = Some u" using put_all_None [OF put, of i] by fastforce
    from put_all_slot [OF put u] t have tu:
      "tune (if i \<in> set (map snapshot_id (snapshots now (registry rt))) then hget (store_modes st) i else None) u t"
      by auto
    with t have reg: "registry_get (registry rt) i = Some u"
      using u tune_effect [OF tu] by (simp add: registry_get_Some)
    have ri: "registry_inv (registry rt)" using rinv by (simp add: runtime_inv_def)
    have "i \<in> set (map snapshot_id (snapshots now (registry rt)))"
      unfolding snapshot_ids(1) [OF ri] using reg by simp
    with tune_effect [OF tu] from_config_modes [OF rt reg] show ?thesis
      by (auto simp: stored_mode_def split: option.splits)
  qed
  moreover have "rt_runtime routing = rt1" "distinct (keys_of (inner_backends (rt_inner routing)))"
    using ro foldl_hset_distinct [of "[]" "\<lambda>(b, g). backend_id b" "\<lambda>(b, g). live_new g"]
    by (auto simp: routing_new_def case_prod_beta' split: bind_splits)
  ultimately have "control_inv U (control_new routing st d path)"
    using inv1 load_state_inv [OF st assms(2)] by (simp add: control_inv_def fence_inv_def control_new_def)
  then show ?thesis
    using resume_drains_effect s unfolding resume_persisted_drains_def Let_def by blast
qed


subsection \<open>Lemmas: no operation panics\<close>

definition slots_room :: "nat \<Rightarrow> 'u ControlState \<Rightarrow> bool" where
  "slots_room n s \<longleftrightarrow> (\<forall>(i, slot) \<in> set (ctl_slots s). slot_room n slot)"

lemma slots_room_get:
  "slots_room n s \<Longrightarrow> 1 \<le> n \<Longrightarrow> registry_get (ctl_slots s) i = Some slot \<Longrightarrow>
     slot_room n slot \<and> (\<exists>t. mode_changed m slot t)"
  using slot_room_headroom mode_changed_total
  by (fastforce simp: slots_room_def registry_get_Some dest!: hget_SomeD)

lemma ensure_drain_operation_total:
  "control_inv U s \<Longrightarrow> \<exists>oper s'. ensure_drain_operation U now uuid i s = Some (oper, s')"
  using ctl_status_total [of U s now i]
  by (auto simp: ensure_drain_operation_def Let_def split: option.split)

lemma begin_drain_total:
  assumes inv: "control_inv U s" and room: "slots_room 2 s"
  shows "\<exists>r s'. ctl_begin_drain U now io uuid i s = Some (r, s')"
proof (cases "registry_get (ctl_slots s) i")
  case None
  then show ?thesis by (simp add: ctl_begin_drain_def)
next
  case (Some slot)
  let ?before = "st_mode (slot_state slot)"
  obtain slot1 where ch: "mode_changed Draining slot slot1" and r2: "slot_room 2 slot"
    using slots_room_get [OF room _ Some] by fastforce
  then obtain token where bd: "begin_drain slot = Some (token, slot1)" by (auto simp: begin_drain_Some)
  have before: "snap_mode (slot_snapshot slot now) = ?before"
    by (simp add: slot_snapshot_def state_snapshot_def)
  have fence: "fence_inv U (ctl_runtime s) (ctl_store s)" using inv by (simp add: control_inv_def)
  have agree: "?before = stored_mode (ctl_store s) i" by (rule control_inv_mode [OF inv Some])
  have ensured: "\<exists>oper s'. ensure_drain_operation U now uuid i s2 = Some (oper, s')"
    if "ctl_routing s2 = ctl_routing (put_slot i slot1 s)" "ctl_operations s2 = ctl_operations s"
      "state_inv (ctl_store s2)"
      "\<And>j. stored_mode (ctl_store s2) j = (if j = i then Draining else stored_mode (ctl_store s) j)" for s2
    using inv fence_mode [OF fence Some ch that(3,4)] that(1,2)
    by (intro ensure_drain_operation_total) (simp add: control_inv_def)
  show ?thesis
  proof (cases "?before = Draining")
    case True
    then have "\<exists>oper s'. ensure_drain_operation U now uuid i (put_slot i slot1 s) = Some (oper, s')"
      using control_inv_store [OF inv] agree by (intro ensured) auto
    with True Some bd before show ?thesis by (auto simp: ctl_begin_drain_def Let_def)
  next
    case False
    obtain x s2 where p: "persist_mode io i Draining (put_slot i slot1 s) = (x, s2)" by fastforce
    note ps = persist_mode_spec [OF p, simplified, OF control_inv_store [OF inv]]
    show ?thesis
    proof (cases x)
      case (Inr u)
      with ensured [of s2] ps have "\<exists>oper s'. ensure_drain_operation U now uuid i s2 = Some (oper, s')" by simp
      with Some False bd before p Inr show ?thesis by (auto simp: ctl_begin_drain_def Let_def)
    next
      case (Inl e)
      have "slot_room 1 slot1" using mode_changed_room [OF _ ch] r2 by (simp add: numeral_2_eq_2)
      then obtain slot2 where ch2: "mode_changed ?before slot1 slot2"
        using slot_room_headroom mode_changed_total by fastforce
      have "st_registered (slot_state slot1)"
        using mode_changed_effect [OF ch] Some by (simp add: registry_get_Some)
      with ch2 False have "?before = Active \<and> activate now slot1 = Some (Inr (slot_snapshot slot2 now), slot2) \<or>
          ?before = Disabled \<and> disable now slot1 = Some (slot_snapshot slot2 now, slot2)"
        by (cases ?before) (simp_all add: activate_registered_slot disable_Some)
      with Some False bd before p Inl show ?thesis by (auto simp: ctl_begin_drain_def Let_def)
    qed
  qed
qed

lemma activate_total:
  assumes inv: "control_inv U s" and room: "slots_room 1 s"
  shows "\<exists>r s'. ctl_activate U now io rollback_io i s = Some (r, s')"
proof -
  obtain st s1 where run: "ctl_status U now i s = Some (st, s1)" using ctl_status_total [OF inv] by blast
  have "slots_room 1 s1" using room ctl_status_effect(2) [OF run inv] by (simp add: slots_room_def untouched_def)
  then have "\<exists>t. activate now slot = Some (Inr (slot_snapshot t now), t)"
    if "registry_get (ctl_slots s1) i = Some slot" for slot
    using slots_room_get [OF _ _ that, of 1 Active] that by (auto simp: activate_registered_slot registry_get_Some)
  with run show ?thesis
    by (fastforce simp: ctl_activate_def split: option.split BackendMode.split prod.split sum.split)
qed

lemma disable_total:
  assumes inv: "control_inv U s" and room: "slots_room 1 s"
  shows "\<exists>r s'. ctl_disable U now io i force s = Some (r, s')"
proof -
  obtain st s1 where run: "ctl_status U now i s = Some (st, s1)" using ctl_status_total [OF inv] by blast
  have "slots_room 1 s1" using room ctl_status_effect(2) [OF run inv] by (simp add: slots_room_def untouched_def)
  then have "\<exists>t. disable now slot = Some (slot_snapshot t now, t)"
    if "registry_get (ctl_slots s1) i = Some slot" for slot
    using slots_room_get [OF _ _ that, of 1 Disabled] by (auto simp: disable_Some)
  with run show ?thesis
    by (fastforce simp: ctl_disable_def Let_def split: option.split prod.split sum.split)
qed

subsection \<open>Lemmas: a drain that can complete\<close>

lemma certified_status:
  assumes "certified U now oper s" and inv: "control_inv U s"
  shows "\<exists>x s1. ctl_status U now (op_backend_id oper) s = Some (Some x, s1) \<and>
    status_mode x = Draining \<and> status_proxy_active x = 0 \<and>
    engine_idle_since (op_scrapes_at_start oper) x \<and> certified U now oper s1"
proof -
  let ?i = "op_backend_id oper"
  obtain slot live ob where c: "registry_get (ctl_slots s) ?i = Some slot"
    "st_mode (slot_state slot) = Draining" "st_leases (slot_state slot) = []"
    "get_live (ctl_routing s) ?i = Some live"
    "backend_generation (ctl_runtime s) ?i = Some (topology_generation live)"
    "live_metrics live = Some ob"
    "saturating_duration_since now (obs_observed_at ob) \<le> stale_limit (ctl_runtime s)"
    "sequences_running (obs_metrics ob) = 0" "sequences_waiting (obs_metrics ob) = 0"
    "2 \<le> idle_samples (engine_idle_streak live) (observation_serial live) (op_scrapes_at_start oper)"
    using assms(1) unfolding certified_def by blast
  obtain st s1 where run: "ctl_status U now ?i s = Some (st, s1)" using ctl_status_total [OF inv] by blast
  note eff = ctl_status_effect [OF run inv]
  obtain x where x: "st = Some x" using eff(6) c(1) by (cases st) auto
  have live: "get_live (ctl_routing s1) ?i = Some live" using eff(8) c(4,5) by (simp add: ensured_def)
  have "\<exists>b. x = status_snapshot U (slot_snapshot slot now) live b now (stale_limit (ctl_runtime s))
      (kv_soft_limit (cfg_routing (pub_config (published (ctl_runtime s)))))"
    using eff(7) [OF x] live c(1) eff(2) by (auto simp: status_facts_def untouched_def)
  then have "status_mode x = Draining" "status_proxy_active x = 0"
    "engine_idle_since (op_scrapes_at_start oper) x"
    using c by (auto simp: status_snapshot_def Let_def slot_snapshot_def state_snapshot_def
        engine_idle_since_def telemetry_state_def)
  moreover from this have "certified U now oper s1" by (intro confirmed_certified [OF eff(7) [OF x]])
  ultimately show ?thesis using run x by blast
qed

lemma persist_mode_ok:
  assumes "state_inv (ctl_store s)" and "i \<noteq> []" and "\<forall>c. \<not> io_fails io c" and "\<forall>st. io_to_json io st \<noteq> None"
  shows "\<exists>s'. persist_mode io i m s = (Inr (), s')"
proof -
  have "validate_state (with_mode (io_unix_ms io) i m (ctl_store s)) = Inr ()"
    using with_mode_inv [OF assms(1,2)] by (simp add: state_inv_def)
  moreover obtain json where "io_to_json io (with_mode (io_unix_ms io) i m (ctl_store s)) = Some json"
    using assms(4) by fastforce
  ultimately show ?thesis
    using assms(3) by (simp add: persist_mode_def store_set_mode_eq save_file_def Let_def)
qed

lemma confirm_completes:
  assumes inv: "control_inv U w" and cert: "certified U now oper w"
    and room: "\<forall>(i, slot) \<in> set (ctl_slots w). mode_headroom slot"
    and io: "op_backend_id oper \<noteq> []" "\<forall>c. \<not> io_fails io c" "\<forall>st. io_to_json io st \<noteq> None"
  shows "\<exists>s' p. drive_confirm U now later io oper seen w = Some (False, s') \<and>
    get_operation (op_id oper) s' = Inr p \<and> dp_phase p = PhaseComplete \<and> dp_safe_to_stop p"
proof -
  let ?i = "op_backend_id oper"
  obtain y s2 where lock: "ctl_status U now ?i w = Some (Some y, s2)" "status_mode y = Draining"
    "status_proxy_active y = 0" "engine_idle_since (op_scrapes_at_start oper) y" "certified U now oper s2"
    using certified_status [OF cert inv] by blast
  note eff = ctl_status_effect [OF lock(1) inv]
  obtain s3 where p: "persist_mode io ?i Disabled s2 = (Inr (), s3)"
    using persist_mode_ok [OF control_inv_store [OF eff(1)] io] by blast
  obtain slot where slot: "registry_get (ctl_slots s2) ?i = Some slot"
    using lock(5) by (auto simp: certified_def)
  have slots: "ctl_slots s3 = ctl_slots s2"
    using persist_mode_spec(1) [OF p control_inv_store [OF eff(1)]] by simp
  have "mode_headroom slot"
    using room slot eff(2) by (auto simp: untouched_def registry_get_Some dest!: hget_SomeD)
  then obtain t where t: "mode_changed Disabled slot t" using mode_changed_total by blast
  then have d: "disable now slot = Some (slot_snapshot t now, t)" by (simp add: disable_Some)
  have "control_inv U (put_slot ?i t s3)" using stored_then_set [OF eff(1) p slot t] ..
  then obtain st s4 where "ctl_status U later ?i (put_slot ?i t s3) = Some (st, s4)"
    using ctl_status_total by blast
  with lock p slots slot d show ?thesis
    by (simp add: drive_confirm_def get_operation_def progress_from_status_def Let_def)
qed

subsection \<open>A concrete control plane\<close>

definition demo_io :: store_io where
  "demo_io = \<lparr>io_to_json = (\<lambda>_. Some ''S''), io_fails = (\<lambda>_. False), io_unix_ms = 7\<rparr>"

definition demo_disk :: disk where
  "demo_disk = \<lparr>disk_main = None, disk_temporary = None\<rparr>"

definition demo_control :: "demo_uri ControlState" where
  "demo_control = control_new demo_routing default_state_file demo_disk ''r''"

lemma stored_mode_default: "stored_mode default_state_file i = Active"
  by (simp add: stored_mode_def store_modes_def default_state_file_def)

lemma demo_control_inv: "control_inv demo_uri_api demo_control"
  using demo_runtime_inv default_state_inv
  by (auto simp: control_inv_def fence_inv_def demo_control_def control_new_def demo_routing_def
      stored_mode_default demo_runtime_def registry_get_Some split: if_splits)

lemma demo_control_room: "slots_room 2 demo_control" "slots_room 1 demo_control"
  by (simp_all add: slots_room_def demo_control_def control_new_def demo_routing_def demo_runtime_def slot_room_def)

lemma demo_control_slot: "\<exists>slot. registry_get (ctl_slots demo_control) ''a'' = Some slot \<and>
    st_mode (slot_state slot) = Active \<and> st_leases (slot_state slot) = []"
  by (simp add: demo_control_def control_new_def demo_routing_def demo_runtime_def registry_get_def get_retained_def)

text \<open>A drained backend whose engine has been seen idle twice since the drain began.\<close>

definition demo_operation :: DrainOperation where
  "demo_operation =
     \<lparr>op_id = 9, op_backend_id = ''a'', op_started_at = 0, op_scrapes_at_start = 0,
      op_progress = \<lparr>dp_operation_id = 9, dp_backend_id = ''a'', dp_phase = PhaseDraining,
        dp_safe_to_stop = False, dp_elapsed_ms = 0, dp_proxy_active = 0, dp_engine_running = None,
        dp_engine_waiting = None, dp_telemetry = TelemetryUnavailable, dp_message = None\<rparr>\<rparr>"

definition demo_slot_draining :: BackendSlot where
  "demo_slot_draining =
     \<lparr>slot_state =
        \<lparr>st_spec = \<lparr>spec_id = ''a'', spec_endpoint = ''http://a/''\<rparr>, st_registered = True,
         st_mode = Draining, st_mode_epoch = 2, st_sequence = 2, st_spec_revision = 0,
         st_next_lease_serial = 0, st_total_acquired = 0, st_leases = []\<rparr>,
      slot_changed = 2\<rparr>"

definition demo_draining :: "demo_uri ControlState" where
  "demo_draining =
     \<lparr>ctl_routing = \<lparr>rt_runtime = demo_runtime\<lparr>registry := [(''a'', demo_slot_draining)]\<rparr>,
        rt_inner = \<lparr>inner_backends = [(''a'', demo_scrape 2 (demo_scrape 1 (live_new 1)))],
          rotating_cursor = 0\<rparr>\<rparr>,
      ctl_store = demo_state, ctl_disk = demo_disk, ctl_runtime_file = ''r'',
      ctl_operations = [(9, demo_operation)]\<rparr>"

lemma demo_draining_inv: "control_inv demo_uri_api demo_draining"
proof -
  have put: "hset ''a'' demo_slot_draining (registry demo_runtime) = [(''a'', demo_slot_draining)]"
    by (simp add: demo_runtime_def hset_def)
  have "slot_inv demo_slot_draining" by (simp add: slot_inv_def demo_slot_draining_def)
  moreover let ?old = "snd (hd (registry demo_runtime))"
  have "hget (registry demo_runtime) ''a'' = Some ?old"
    "st_spec (slot_state demo_slot_draining) = st_spec (slot_state ?old)"
    "st_registered (slot_state demo_slot_draining) = st_registered (slot_state ?old)"
    by (simp_all add: demo_runtime_def demo_slot_draining_def)
  ultimately have "runtime_inv demo_uri_api (demo_runtime\<lparr>registry := [(''a'', demo_slot_draining)]\<rparr>)"
    using runtime_inv_put [OF demo_runtime_inv] unfolding put [symmetric] by blast
  moreover have "stored_mode demo_state ''a'' = Draining"
    using stored_mode_with_mode [OF default_state_inv] by (simp add: demo_state_def)
  ultimately show ?thesis
    using demo_state_inv
    by (auto simp: control_inv_def fence_inv_def demo_draining_def registry_get_Some
        demo_slot_draining_def demo_operation_def split: if_splits)
qed

lemma demo_draining_certified: "certified demo_uri_api 0 demo_operation demo_draining"
  by (simp add: certified_def demo_draining_def demo_operation_def demo_slot_draining_def registry_get_def
      get_retained_def get_live_def demo_scrape_def live_metrics_success_def Let_def live_rates_def
      demo_idle_def live_new_def engine_idle_def observation_serial_def idle_samples_def
      saturating_add_def saturating_sub_def saturating_duration_since_def backend_generation_def
      demo_runtime_def)

lemma demo_draining_room: "\<forall>(i, slot) \<in> set (ctl_slots demo_draining). mode_headroom slot"
  by (simp add: demo_draining_def demo_slot_draining_def mode_headroom_def)

text \<open>A start without a state file: every backend is active and no drain is resumed.\<close>

lemma restore_nothing: "restore_modes now [] rt = Some rt"
proof -
  have "run_all (restore_one now []) snaps slots = Some slots" for snaps slots
    by (induction snaps) (simp_all add: restore_one_def)
  then show ?thesis by (simp add: restore_modes_def)
qed

lemma resume_nothing:
  "\<forall>(snap, u) \<in> set work. snap_mode snap \<noteq> Draining \<Longrightarrow> resume_drains U now work s = Some s"
  by (induction work) auto

lemma start_fresh:
  assumes "load_runtime_config toml_from_str U path read = Inr config"
    and "distinct (map backend_id (cfg_backends config))" and "length (cfg_backends config) < 2 ^ 64 - 1"
  shows "\<exists>s. start_control toml_from_str U from_json now path read (Some None) d uuids = Some (Inr s) \<and>
    runtime_backends (ctl_runtime s) = cfg_backends config"
proof -
  obtain rt where rt: "from_config U now config = Some rt"
    using from_config_active [OF assms(2,3)] by blast
  have rinv: "runtime_inv U rt" by (rule from_config_inv [OF rt])
  then have gi: "generations_inv rt" and ri: "registry_inv (registry rt)" by (simp_all add: runtime_inv_def)
  obtain routing where ro: "routing_new rt = Some routing" "rt_runtime routing = rt"
    using backend_instances_Some [OF gi] by (simp add: routing_new_def)
  let ?s = "control_new routing default_state_file d path"
  have "snap_mode snap \<noteq> Draining" if "snap \<in> set (snapshots now (registry rt))" for snap
    using snapshots_slot [OF ri that] from_config_modes [OF rt]
    by (auto simp: slot_snapshot_def state_snapshot_def)
  then have "resume_persisted_drains U now uuids ?s = Some ?s"
    unfolding resume_persisted_drains_def Let_def
    by (intro resume_nothing) (auto simp: control_new_def ro(2) dest: set_zip_leftD)
  moreover have "store_modes default_state_file = []" by (simp add: store_modes_def default_state_file_def)
  ultimately have "start_control toml_from_str U from_json now path read (Some None) d uuids = Some (Inr ?s)"
    using assms(1) rt ro(1) by (simp add: start_control_def load_state_def restore_nothing)
  then show ?thesis
    using from_config_published [OF rt] ro(2) by (auto simp: control_new_def runtime_backends_def)
qed

lemma demo_load: "\<exists>c. load_runtime_config (\<lambda>_. Inr demo_file) demo_uri_api ''p'' (Inr ''t'') = Inr c \<and>
    map backend_id (cfg_backends c) = [''a'']"
proof -
  have "\<forall>raw \<in> set (file_backends demo_file). entry_accepted demo_uri_api raw"
    by (simp add: demo_file_def entry_accepted_def endpoint_accepted_def id_ok_def is_id_byte_def
        is_ascii_alphanumeric_def is_ascii_alphabetic_def byte_def demo_uri_api_def uri_ok_def
        append_path_def Let_def)
  moreover have "map raw_id (file_backends demo_file) = [''a'']" by (simp add: demo_file_def)
  ultimately obtain bs where bs: "parse_backends demo_uri_api {} (file_backends demo_file) = Inr bs"
    using parse_backends_accepts [of demo_uri_api "{}" "file_backends demo_file"] by auto
  have "validate_controls demo_file = Inr ()"
    unfolding validate_controls_ok
    by (simp add: controls_ok_def demo_file_def default_telemetry_def default_readiness_def)
  moreover have "file_schema_version demo_file = 1" "file_backends demo_file \<noteq> []"
    by (simp_all add: demo_file_def)
  ultimately show ?thesis
    using bs parse_backends_valid [OF demo_uri_laws bs]
      \<open>map raw_id (file_backends demo_file) = _\<close>
    by (simp add: load_runtime_config_def parse_runtime_config_def RUNTIME_SCHEMA_VERSION_def)
qed

subsection \<open>Properties\<close>





lemma begin_drain_outcome:
  assumes "control_inv U s" and "ctl_begin_drain U now io uuid i s = Some (r, s')"
  shows "(\<forall>j. j \<noteq> i \<longrightarrow> hget (ctl_slots s') j = hget (ctl_slots s) j \<and>
      stored_mode (ctl_store s') j = stored_mode (ctl_store s) j) \<and>
    (case registry_get (ctl_slots s) i of
       None \<Rightarrow> r = Inl (not_found (NoSuchBackend i)) \<and> s' = s
     | Some slot \<Rightarrow> \<exists>t. registry_get (ctl_slots s') i = Some t \<and>
         st_leases (slot_state t) = st_leases (slot_state slot) \<and>
         st_mode (slot_state t) = stored_mode (ctl_store s') i \<and>
         (case r of
            Inl e \<Rightarrow> err_status e = INTERNAL_SERVER_ERROR \<and> st_mode (slot_state t) = st_mode (slot_state slot)
          | Inr oper \<Rightarrow> st_mode (slot_state t) = Draining \<and> op_backend_id oper = i \<and>
              get_operation (op_id oper) s' = Inr (op_progress oper) \<and>
              dp_phase (op_progress oper) = PhaseDraining))"
proof (cases "registry_get (ctl_slots s) i")
  case None
  with assms(2) show ?thesis by (auto simp: ctl_begin_drain_def)
next
  case (Some slot)
  note eff = begin_drain_effect [OF assms(2,1)]
  have mode: "st_mode (slot_state slot) = stored_mode (ctl_store s) i" by (rule control_inv_mode [OF assms(1) Some])
  show ?thesis
  proof (cases r)
    case (Inl e)
    with eff Some mode show ?thesis
      using mode_written_get [OF _ Some, of "st_mode (slot_state slot)" s'] by (auto simp: internal_def)
  next
    case (Inr oper)
    with eff Some show ?thesis
      using mode_written_get [OF _ Some, of Draining s'] by (auto simp: get_operation_def)
  qed
qed



lemma activate_outcome:
  assumes "control_inv U s" and "ctl_activate U now io rollback_io i s = Some (r, s')"
  shows "case r of
      Inl e \<Rightarrow> untouched s s' \<and>
        (stored_mode (ctl_store s) i = Draining \<and> registry_get (ctl_slots s) i \<noteq> None \<longrightarrow>
           e = conflict StillDraining)
    | Inr a \<Rightarrow> (\<exists>slot. registry_get (ctl_slots s') i = Some slot \<and> st_mode (slot_state slot) = Active) \<and>
        hget (store_modes (ctl_store s')) i \<noteq> Some Disabled \<and>
        (untouched s s' \<or>
         stored_mode (ctl_store s) i = Disabled \<and>
         (\<exists>s1 live ob. untouched s s1 \<and> get_live (ctl_routing s1) i = Some live \<and> readiness live = Ready \<and>
            backend_generation (ctl_runtime s) i = Some (topology_generation live) \<and>
            live_metrics live = Some ob \<and>
            saturating_duration_since now (obs_observed_at ob) \<le> stale_limit (ctl_runtime s)))"
proof -
  note eff = activate_effect [OF assms(2,1)]
  from assms(2) obtain st s1 where run: "ctl_status U now i s = Some (st, s1)"
    by (auto simp: ctl_activate_def split: bind_splits)
  note seff = ctl_status_effect [OF run assms(1)]
  have mode: "status_mode x = stored_mode (ctl_store s) i" if "st = Some x" for x
  proof -
    from seff(7) [OF that] obtain slot where "registry_get (ctl_slots s1) i = Some slot"
      "status_mode x = st_mode (slot_state slot)"
      by (auto simp: status_facts_def status_snapshot_def Let_def slot_snapshot_def state_snapshot_def)
    with control_inv_mode [OF seff(1)] seff(2) show ?thesis by (simp add: untouched_def)
  qed
  show ?thesis
  proof (cases r)
    case (Inl e)
    have "e = conflict StillDraining" if "stored_mode (ctl_store s) i = Draining" "st \<noteq> None"
      using assms(2) run that mode Inl by (auto simp: ctl_activate_def)
    with eff Inl seff(6) show ?thesis by auto
  next
    case (Inr a)
    have active: "registry_get (ctl_slots s') i \<noteq> None \<and> stored_mode (ctl_store s') i = Active"
    proof (cases "action_message a = AlreadyActive")
      case True
      with assms(2) run mode Inr obtain x where "st = Some x" "stored_mode (ctl_store s) i = Active" "s' = s1"
        by (cases st) (auto simp: ctl_activate_def split: BackendMode.splits if_splits option.splits
            prod.splits sum.splits bind_splits)
      with seff(2,6) show ?thesis by (auto simp: untouched_def)
    next
      case False
      with eff Inr show ?thesis by (auto simp: mode_written_def registry_get_Some)
    qed
    then obtain slot where "registry_get (ctl_slots s') i = Some slot" by blast
    with control_inv_mode [of U s'] eff active Inr show ?thesis
      by (auto simp: stored_mode_def)
  qed
qed


text \<open>
  A backend is only activated when it can serve. An acknowledged activation of a
  backend that was not active found it disabled, with a ready probe state of the current
  generation and fresh telemetry; it is then active in memory and has no durable fence.
  Every other outcome leaves the modes of all backends as they were; a draining backend is
  refused with a conflict.
\<close>

theorem activate_guarded:
  assumes "control_inv U s" and "slots_room 1 s"
  shows "\<exists>r s'. ctl_activate U now io rollback_io i s = Some (r, s') \<and>
    (case r of
      Inl e \<Rightarrow> untouched s s' \<and>
        (stored_mode (ctl_store s) i = Draining \<and> registry_get (ctl_slots s) i \<noteq> None \<longrightarrow>
           e = conflict StillDraining)
    | Inr a \<Rightarrow> (\<exists>slot. registry_get (ctl_slots s') i = Some slot \<and> st_mode (slot_state slot) = Active) \<and>
        hget (store_modes (ctl_store s')) i \<noteq> Some Disabled \<and>
        (untouched s s' \<or>
         stored_mode (ctl_store s) i = Disabled \<and>
         (\<exists>s1 live ob. untouched s s1 \<and> get_live (ctl_routing s1) i = Some live \<and> readiness live = Ready \<and>
            backend_generation (ctl_runtime s) i = Some (topology_generation live) \<and>
            live_metrics live = Some ob \<and>
            saturating_duration_since now (obs_observed_at ob) \<le> stale_limit (ctl_runtime s))))"
proof -
  obtain r s' where run: "ctl_activate U now io rollback_io i s = Some (r, s')"
    using activate_total [OF assms] by blast
  show ?thesis
    by (rule exI [of _ r], rule exI [of _ s'], rule conjI, rule run, rule activate_outcome [OF assms(1) run])
qed

theorem activate_guarded_witness:
  "\<exists>r s'. ctl_activate demo_uri_api 0 demo_io demo_io ''a'' demo_control = Some (r, s') \<and>
     ((\<exists>e. r = Inl e) \<longrightarrow> untouched demo_control s')"
  using activate_guarded [OF demo_control_inv demo_control_room(2), of 0 demo_io demo_io "''a''"]
  by (elim exE conjE) (rule exI, rule exI, rule conjI, assumption, simp add: sum.case_eq_if split: if_splits, auto)

lemma disable_outcome:
  assumes "control_inv U s" and "ctl_disable U now io i force s = Some (r, s')"
    and "registry_get (ctl_slots s) i = Some slot"
  shows "case r of
      Inl e \<Rightarrow> untouched s s'
    | Inr a \<Rightarrow> action_mode a = Disabled \<and> stored_mode (ctl_store s') i = Disabled \<and>
        (\<exists>t. registry_get (ctl_slots s') i = Some t \<and> st_mode (slot_state t) = Disabled \<and>
           st_leases (slot_state t) = st_leases (slot_state slot)) \<and>
        (st_mode (slot_state slot) \<noteq> Disabled \<and> st_leases (slot_state slot) \<noteq> [] \<longrightarrow> force \<and>
           action_message a = DisabledWithRunning (length (st_leases (slot_state slot))))"
proof -
  note eff = disable_effect [OF assms(2,1)]
  have mode: "st_mode (slot_state slot) = stored_mode (ctl_store s) i"
    by (rule control_inv_mode [OF assms(1,3)])
  show ?thesis
  proof (cases r)
    case (Inl e)
    with eff show ?thesis by simp
  next
    case (Inr a)
    show ?thesis
    proof (cases "untouched s s'")
      case True
      have "action_mode a = Disabled"
        using eff Inr by auto
      moreover have "stored_mode (ctl_store s) i = Disabled"
        using eff Inr True mode_written_get(2) [OF _ assms(3), of Disabled s'] by (auto simp: untouched_def)
      ultimately show ?thesis using True Inr mode assms(3) by (auto simp: untouched_def)
    next
      case False
      with eff Inr assms(3) mode_written_get [OF _ assms(3), of Disabled s'] show ?thesis
        by (auto simp: Let_def)
    qed
  qed
qed

text \<open>
  Disabling does not abandon requests unless it is forced. Without force a backend with
  requests in flight is refused and no mode changes. An acknowledged call leaves the backend
  disabled in memory and durably, keeps the leases that are running, and says how many they
  are.
\<close>

theorem disable_guarded:
  assumes "control_inv U s" and "slots_room 1 s" and "registry_get (ctl_slots s) i = Some slot"
  shows "\<exists>r s'. ctl_disable U now io i force s = Some (r, s') \<and>
    (case r of
      Inl e \<Rightarrow> untouched s s'
    | Inr a \<Rightarrow> action_mode a = Disabled \<and> stored_mode (ctl_store s') i = Disabled \<and>
        (\<exists>t. registry_get (ctl_slots s') i = Some t \<and> st_mode (slot_state t) = Disabled \<and>
           st_leases (slot_state t) = st_leases (slot_state slot)) \<and>
        (st_mode (slot_state slot) \<noteq> Disabled \<and> st_leases (slot_state slot) \<noteq> [] \<longrightarrow> force \<and>
           action_message a = DisabledWithRunning (length (st_leases (slot_state slot)))))"
proof -
  obtain r s' where run: "ctl_disable U now io i force s = Some (r, s')"
    using disable_total [OF assms(1,2)] by blast
  show ?thesis
    by (rule exI [of _ r], rule exI [of _ s'], rule conjI, rule run, rule disable_outcome [OF assms(1) run assms(3)])
qed

theorem disable_guarded_witness:
  "\<exists>r s'. ctl_disable demo_uri_api 0 demo_io ''a'' False demo_control = Some (r, s') \<and>
     (\<forall>a. r = Inr a \<longrightarrow> stored_mode (ctl_store s') ''a'' = Disabled)"
proof -
  obtain slot where "registry_get (ctl_slots demo_control) ''a'' = Some slot" using demo_control_slot by blast
  from disable_guarded [OF demo_control_inv demo_control_room(2) this, of 0 demo_io False]
  show ?thesis
    by (elim exE conjE) (rule exI, rule exI, rule conjI, assumption, auto)
qed

text \<open>
  A drain that has become idle completes. If the backend is drained and confirmed idle
  when its task looks, and still is once the task holds the lifecycle lock, and the save
  succeeds, then that turn of the loop returns with the operation complete and safe to stop.
\<close>

theorem drain_finishes:
  assumes "control_inv U s" and "certified U (turn_now turn) oper s"
    and waiting: "\<forall>s1. control_inv U s1 \<and> certified U (turn_now turn) oper s1 \<and> untouched s s1 \<longrightarrow>
      control_inv U (turn_waiting turn s1) \<and> certified U (turn_locked turn) oper (turn_waiting turn s1) \<and>
      (\<forall>(i, slot) \<in> set (ctl_slots (turn_waiting turn s1)). mode_headroom slot)"
    and "op_backend_id oper \<noteq> []" and "\<forall>c. \<not> io_fails (turn_io turn) c"
    and "\<forall>st. io_to_json (turn_io turn) st \<noteq> None"
  shows "\<exists>s' p. drive_drain U oper (turn # turns) s = Some (False, s') \<and>
    get_operation (op_id oper) s' = Inr p \<and> dp_phase p = PhaseComplete \<and> dp_safe_to_stop p"
proof -
  obtain x s1 where run: "ctl_status U (turn_now turn) (op_backend_id oper) s = Some (Some x, s1)"
    "status_mode x = Draining" "status_proxy_active x = 0" "engine_idle_since (op_scrapes_at_start oper) x"
    "certified U (turn_now turn) oper s1"
    using certified_status [OF assms(2,1)] by blast
  note eff = ctl_status_effect [OF run(1) assms(1)]
  have look: "drive_look U (turn_now turn) oper s = Some (DriveConfirm x, s1)"
    using run by (simp add: drive_look_def)
  have "control_inv U (turn_waiting turn s1)" "certified U (turn_locked turn) oper (turn_waiting turn s1)"
    "\<forall>(i, slot) \<in> set (ctl_slots (turn_waiting turn s1)). mode_headroom slot"
    using waiting eff(1,2) run(5) by blast+
  from confirm_completes [OF this assms(4-6), of "turn_later turn" x] look show ?thesis by auto
qed

theorem drain_finishes_witness:
  "\<exists>s' p. drive_drain demo_uri_api demo_operation
       [\<lparr>turn_now = 0, turn_locked = 0, turn_later = 0, turn_io = demo_io,
         turn_waiting = (\<lambda>s. s), turn_after = (\<lambda>s. s)\<rparr>] demo_draining = Some (False, s') \<and>
     get_operation 9 s' = Inr p \<and> dp_phase p = PhaseComplete \<and> dp_safe_to_stop p"
proof -
  let ?turn = "\<lparr>turn_now = 0, turn_locked = 0, turn_later = 0, turn_io = demo_io,
    turn_waiting = (\<lambda>s. s), turn_after = (\<lambda>s. s)\<rparr> :: demo_uri drive_turn"
  have w: "\<forall>s1. control_inv demo_uri_api s1 \<and> certified demo_uri_api (turn_now ?turn) demo_operation s1 \<and>
      untouched demo_draining s1 \<longrightarrow>
      control_inv demo_uri_api (turn_waiting ?turn s1) \<and>
      certified demo_uri_api (turn_locked ?turn) demo_operation (turn_waiting ?turn s1) \<and>
      (\<forall>(i, slot) \<in> set (ctl_slots (turn_waiting ?turn s1)). mode_headroom slot)"
    using demo_draining_room by (simp add: untouched_def)
  have "op_backend_id demo_operation \<noteq> []" "op_id demo_operation = 9" by (simp_all add: demo_operation_def)
  with drain_finishes [OF demo_draining_inv _ w, of "[]"] demo_draining_certified show ?thesis
    by (simp add: demo_io_def)
qed

text \<open>
  Binding the control socket never destroys anything but a dead socket. A path is
  removed only if it is a socket that nobody answers on; a path that is no socket and a
  socket with a live server are refused with nothing removed and nothing bound. The call
  succeeds only with the socket bound and its permissions restricted to owner and group.
\<close>

theorem bind_control_socket_safe:
  "case bind_control_socket env of (r, made) \<Rightarrow>
     (RemovedFile \<in> set made \<longrightarrow> be_lstat env = Inr True \<and>
        be_connect env \<in> {Some KindConnectionRefused, Some KindNotFound}) \<and>
     (be_lstat env = Inr False \<or> be_lstat env = Inr True \<and> be_connect env = None \<longrightarrow>
        r \<noteq> Inr () \<and> set made \<subseteq> {CreatedDirs}) \<and>
     (r = Inr () \<longrightarrow> (\<exists>before. made = before @ [BoundSocket, SetMode 432] \<and> BoundSocket \<notin> set before))"
  by (auto simp: bind_control_socket_def try_effect_def Let_def split: option.splits sum.splits if_splits)

definition demo_bind_env :: bind_env where
  "demo_bind_env =
     \<lparr>be_parent = Some ''/run/proxy'', be_create_dirs = None, be_lstat = Inr True,
      be_connect = Some KindConnectionRefused, be_remove = None, be_bind = None,
      be_metadata = None, be_chmod = None\<rparr>"

theorem bind_control_socket_safe_witness:
  "bind_control_socket demo_bind_env = (Inr (), [CreatedDirs, RemovedFile, BoundSocket, SetMode 432]) \<and>
   be_connect demo_bind_env \<in> {Some KindConnectionRefused, Some KindNotFound}"
proof -
  have "bind_control_socket demo_bind_env = (Inr (), [CreatedDirs, RemovedFile, BoundSocket, SetMode 432])"
    by (simp add: bind_control_socket_def demo_bind_env_def try_effect_def Let_def)
  with bind_control_socket_safe [of demo_bind_env] show ?thesis by simp
qed

end
