(* ===== verification/Keys.thy ===== *)
theory Keys
  imports Backend_State Rust_Strings
begin

unbundle bit_operations_syntax

text \<open>
  The key database (\<open>src/src/keys.rs\<close>): key records and their minting, validation of a key
  file, loading and saving, and the hexadecimal form of a digest.

  SHA-256, the base64 encoder, the system random source and the JSON codec are arguments:
  \<open>sha\<close>, \<open>base64\<close>, the outcomes of the two \<open>getrandom::fill\<close> calls, \<open>to_json\<close> and
  \<open>from_json\<close>. A string is the list of its UTF-8 bytes, and a slice at an offset that is not
  a character boundary panics, which is \<open>None\<close>.
\<close>

subsection \<open>Data\<close>

type_synonym u8 = "8 word"

definition KEY_PREFIX :: string where "KEY_PREFIX = ''eb''"
definition IDENTIFIER_LEN :: nat where "IDENTIFIER_LEN = 8"
definition SECRET_LEN :: nat where "SECRET_LEN = 32"
definition SCHEMA_VERSION :: u32 where "SCHEMA_VERSION = 1"

record KeyRecord =
  kr_name :: string
  kr_identifier :: string
  kr_key_sha256 :: string
  kr_admin :: bool
  kr_disabled :: bool
  kr_created_at_unix_ms :: u64

record KeyFile =
  kf_version :: u32
  kf_keys :: "KeyRecord list"

definition default_key_file :: KeyFile where
  "default_key_file = \<lparr>kf_version = SCHEMA_VERSION, kf_keys = []\<rparr>"

datatype KeyFault =
    KeySchema u32
  | KeyEmptyName nat
  | KeyBadIdentifier nat string
  | KeyBadDigest nat
  | KeyIdentifierTwice string
  | KeyDigestTwice nat string

datatype KeyFileError =
    KeysNotFound | KeysUnreadable | KeysUnparsable | KeysInvalid KeyFault | KeysSaveFailed

subsection \<open>Hexadecimal digests\<close>

definition hex_value :: "char \<Rightarrow> u8 option" where
  "hex_value c =
     (if 48 \<le> byte c \<and> byte c \<le> 57 then Some (of_nat (byte c - 48))
      else if 97 \<le> byte c \<and> byte c \<le> 102 then Some (of_nat (byte c - 97 + 10))
      else if 65 \<le> byte c \<and> byte c \<le> 70 then Some (of_nat (byte c - 65 + 10))
      else None)"

fun decode_pairs :: "string \<Rightarrow> u8 list option" where
  "decode_pairs (a # b # rest) =
     do {
       hi \<leftarrow> hex_value a;
       lo \<leftarrow> hex_value b;
       bytes \<leftarrow> decode_pairs rest;
       Some ((push_bit 4 hi OR lo) # bytes)
     }"
| "decode_pairs _ = Some []"

definition decode_digest :: "string \<Rightarrow> u8 list option" where
  "decode_digest hex = (if length hex \<noteq> 64 then None else decode_pairs hex)"

definition hex_digit :: "u8 \<Rightarrow> char" where
  "hex_digit n = ''0123456789abcdef'' ! unat n"

fun hex_encode :: "u8 list \<Rightarrow> string" where
  "hex_encode [] = []"
| "hex_encode (b # bytes) = hex_digit (drop_bit 4 b) # hex_digit (b AND 15) # hex_encode bytes"

subsection \<open>Keys\<close>

definition is_base64_byte :: "char \<Rightarrow> bool" where
  "is_base64_byte c \<longleftrightarrow> is_ascii_alphanumeric c \<or> c = CHR ''-'' \<or> c = CHR ''_''"

definition is_base64_segment :: "string \<Rightarrow> nat \<Rightarrow> bool" where
  "is_base64_segment segment len \<longleftrightarrow> length segment = len \<and> list_all is_base64_byte segment"

definition strip_prefix :: "string \<Rightarrow> string \<Rightarrow> string option" where
  "strip_prefix p s = (if prefix p s then Some (drop (length p) s) else None)"

definition is_char_boundary :: "string \<Rightarrow> nat \<Rightarrow> bool" where
  "is_char_boundary s n \<longleftrightarrow> n = length s \<or> n < length s \<and> \<not> continuation (byte (s ! n))"

definition split_at :: "string \<Rightarrow> nat \<Rightarrow> (string \<times> string) option" where
  "split_at s n = (if is_char_boundary s n then Some (take n s, drop n s) else None)"

definition identifier_of :: "string \<Rightarrow> string option option" where
  "identifier_of key =
     (case Option.bind (strip_prefix KEY_PREFIX key) (strip_prefix ''_'') of
        None \<Rightarrow> Some None
      | Some rest \<Rightarrow>
          if length rest \<noteq> IDENTIFIER_LEN + 1 + SECRET_LEN then Some None
          else do {
            (identifier, rest) \<leftarrow> split_at rest IDENTIFIER_LEN;
            Some (case strip_prefix ''_'' rest of
                None \<Rightarrow> None
              | Some secret \<Rightarrow>
                  if is_base64_segment identifier IDENTIFIER_LEN \<and> is_base64_segment secret SECRET_LEN
                  then Some identifier else None)
          })"

text \<open>\<open>fill\<close> is what the random source returns for a buffer of the given length.\<close>

definition random_base64 :: "(u8 list \<Rightarrow> string) \<Rightarrow> (nat \<Rightarrow> u8 list option) \<Rightarrow> nat \<Rightarrow> string option" where
  "random_base64 base64 fill len = map_option base64 (fill (len div 4 * 3))"

definition generate ::
  "(string \<Rightarrow> u8 list) \<Rightarrow> (u8 list \<Rightarrow> string) \<Rightarrow> (nat \<Rightarrow> u8 list option) \<Rightarrow> (nat \<Rightarrow> u8 list option)
    \<Rightarrow> u64 \<Rightarrow> string \<Rightarrow> bool \<Rightarrow> (KeyRecord \<times> string) option" where
  "generate sha base64 fill1 fill2 now_unix_ms name admin =
     do {
       identifier \<leftarrow> random_base64 base64 fill1 IDENTIFIER_LEN;
       secret \<leftarrow> random_base64 base64 fill2 SECRET_LEN;
       let key = KEY_PREFIX @ ''_'' @ identifier @ ''_'' @ secret;
       Some (\<lparr>kr_name = name, kr_identifier = identifier, kr_key_sha256 = hex_encode (sha key),
              kr_admin = admin, kr_disabled = False, kr_created_at_unix_ms = now_unix_ms\<rparr>, key)
     }"

subsection \<open>Key files\<close>

text \<open>The loop of \<open>validate\<close>: \<open>earlier\<close> are the records before the current one.\<close>

fun validate_keys :: "KeyRecord list \<Rightarrow> KeyRecord list \<Rightarrow> KeyFault + unit" where
  "validate_keys earlier [] = Inr ()"
| "validate_keys earlier (key # keys) =
     (let position = length earlier + 1 in
      if trim (kr_name key) = [] then Inl (KeyEmptyName position)
      else if \<not> is_base64_segment (kr_identifier key) IDENTIFIER_LEN
        then Inl (KeyBadIdentifier position (kr_identifier key))
      else if decode_digest (kr_key_sha256 key) = None then Inl (KeyBadDigest position)
      else if list_ex (\<lambda>e. kr_identifier e = kr_identifier key) earlier
        then Inl (KeyIdentifierTwice (kr_identifier key))
      else if list_ex (\<lambda>e. eq_ignore_ascii_case (kr_key_sha256 e) (kr_key_sha256 key)) earlier
        then Inl (KeyDigestTwice position (kr_name key))
      else validate_keys (earlier @ [key]) keys)"

definition validate_key_file :: "KeyFile \<Rightarrow> KeyFault + unit" where
  "validate_key_file file =
     (if kf_version file \<noteq> SCHEMA_VERSION then Inl (KeySchema (kf_version file))
      else validate_keys [] (kf_keys file))"

text \<open>
  The outcome of reading the file: \<open>None\<close> if the read fails, otherwise the contents if the
  file exists.
\<close>

definition load_keys ::
  "(string \<Rightarrow> KeyFile option) \<Rightarrow> string option option \<Rightarrow> KeyFileError + KeyFile" where
  "load_keys from_json read =
     (case read of
        None \<Rightarrow> Inl KeysUnreadable
      | Some None \<Rightarrow> Inl KeysNotFound
      | Some (Some contents) \<Rightarrow>
          (case from_json contents of
             None \<Rightarrow> Inl KeysUnparsable
           | Some file \<Rightarrow>
               (case validate_key_file file of Inl e \<Rightarrow> Inl (KeysInvalid e) | Inr _ \<Rightarrow> Inr file)))"

definition load_or_default ::
  "(string \<Rightarrow> KeyFile option) \<Rightarrow> string option option \<Rightarrow> KeyFileError + KeyFile" where
  "load_or_default from_json read =
     (case load_keys from_json read of Inl KeysNotFound \<Rightarrow> Inr default_key_file | other \<Rightarrow> other)"

definition save_keys ::
  "(KeyFile \<Rightarrow> string option) \<Rightarrow> (save_call \<Rightarrow> bool) \<Rightarrow> KeyFile \<Rightarrow> disk
    \<Rightarrow> (KeyFileError + unit) \<times> disk" where
  "save_keys to_json fails file d =
     (case validate_key_file file of
        Inl e \<Rightarrow> (Inl (KeysInvalid e), d)
      | Inr _ \<Rightarrow>
          (case to_json file of
             None \<Rightarrow> (Inl KeysSaveFailed, d)
           | Some json \<Rightarrow>
               if fails OpenTemporary then (Inl KeysSaveFailed, d)
               else if fails WriteAll \<or> fails SyncFile \<or> fails Harden \<or> fails Rename
                 then (Inl KeysSaveFailed, d\<lparr>disk_temporary := None\<rparr>)
               else (Inr (), d\<lparr>disk_main := Some (json @ [CHR 0x0A]), disk_temporary := None\<rparr>)))"

text \<open>The name of the temporary sibling: \<open>file_name\<close> is that of the path, when it has one.\<close>

definition temporary_name :: "string option \<Rightarrow> nat \<Rightarrow> string" where
  "temporary_name file_name pid =
     ''.'' @ (case file_name of None \<Rightarrow> ''keys.json'' | Some n \<Rightarrow> n) @ ''.'' @ show_nat pid @ ''.tmp''"

subsection \<open>Lemmas: hexadecimal\<close>

lemma byte_eq_iff: "byte c = byte d \<longleftrightarrow> c = d"
  by (simp add: byte_def)

lemma byte_lowercase:
  "byte (to_ascii_lowercase c) = (if 65 \<le> byte c \<and> byte c \<le> 90 then byte c + 32 else byte c)"
  by (auto simp: to_ascii_lowercase_def byte_def)

lemma byte_hex_digit:
  assumes "unat n < 16"
  shows "byte (hex_digit n) = (if unat n < 10 then 48 + unat n else 87 + unat n)"
proof -
  have "byte (''0123456789abcdef'' ! j) = (if j < 10 then 48 + j else 87 + j)" if "j < 16" for j
  proof -
    from that have "j = 0 \<or> j = 1 \<or> j = 2 \<or> j = 3 \<or> j = 4 \<or> j = 5 \<or> j = 6 \<or> j = 7 \<or> j = 8 \<or>
      j = 9 \<or> j = 10 \<or> j = 11 \<or> j = 12 \<or> j = 13 \<or> j = 14 \<or> j = 15" by presburger
    then show ?thesis by (elim disjE) (simp_all add: byte_def)
  qed
  with assms show ?thesis by (simp add: hex_digit_def)
qed

lemma hex_value_cases:
  "hex_value c = Some n \<longleftrightarrow>
     48 \<le> byte c \<and> byte c \<le> 57 \<and> unat n = byte c - 48 \<or>
     97 \<le> byte c \<and> byte c \<le> 102 \<and> unat n = byte c - 87 \<or>
     65 \<le> byte c \<and> byte c \<le> 70 \<and> unat n = byte c - 55"
proof -
  have w: "of_nat k = n \<longleftrightarrow> unat n = k" if "k < 16" for k
    using that by (auto simp: word_unat_eq_iff unat_of_nat)
  consider (digit) "48 \<le> byte c \<and> byte c \<le> 57" | (lower) "97 \<le> byte c \<and> byte c \<le> 102"
    | (upper) "65 \<le> byte c \<and> byte c \<le> 70"
    | (other) "\<not> (48 \<le> byte c \<and> byte c \<le> 57)" "\<not> (97 \<le> byte c \<and> byte c \<le> 102)" "\<not> (65 \<le> byte c \<and> byte c \<le> 70)"
    by blast
  then show ?thesis
  proof cases
    case digit
    then have "hex_value c = Some n \<longleftrightarrow> of_nat (byte c - 48) = n" by (simp add: hex_value_def)
    also have "\<dots> \<longleftrightarrow> unat n = byte c - 48" using digit by (intro w) linarith
    finally show ?thesis using digit by auto
  next
    case lower
    then have "hex_value c = Some n \<longleftrightarrow> of_nat (byte c - 87) = n" by (simp add: hex_value_def)
    also have "\<dots> \<longleftrightarrow> unat n = byte c - 87" using lower by (intro w) linarith
    finally show ?thesis using lower by auto
  next
    case upper
    then have "hex_value c = Some n \<longleftrightarrow> of_nat (byte c - 55) = n" by (simp add: hex_value_def)
    also have "\<dots> \<longleftrightarrow> unat n = byte c - 55" using upper by (intro w) linarith
    finally show ?thesis using upper by auto
  next
    case other
    then show ?thesis unfolding hex_value_def by auto
  qed
qed

text \<open>A hexadecimal digit of either case denotes the value whose lower-case digit it is.\<close>

lemma hex_value_iff: "hex_value c = Some n \<longleftrightarrow> unat n < 16 \<and> hex_digit n = to_ascii_lowercase c"
proof -
  have "hex_digit n = to_ascii_lowercase c \<longleftrightarrow> byte (hex_digit n) = byte (to_ascii_lowercase c)"
    by (simp add: byte_eq_iff)
  then show ?thesis
    unfolding hex_value_cases using byte_hex_digit [of n] byte_lowercase [of c]
    by (cases "unat n < 16") auto
qed

lemma and_15: "b AND 15 = take_bit 4 (b :: u8)"
  by (simp add: take_bit_eq_mask mask_eq_exp_minus_1)

lemma nibbles: "push_bit 4 (drop_bit 4 b) OR (b AND 15) = (b :: u8)"
  unfolding and_15 by (rule bit_eqI) (auto simp: bit_simps)

lemma nibble_bits: "unat (lo :: u8) < 16 \<Longrightarrow> take_bit 4 lo = lo"
  by (simp add: word_unat_eq_iff unsigned_take_bit_eq take_bit_nat_eq_self_iff)

lemma nibbles_split:
  fixes hi lo :: u8
  assumes "unat hi < 16" and "unat lo < 16"
  shows "drop_bit 4 (push_bit 4 hi OR lo) = hi" and "(push_bit 4 hi OR lo) AND 15 = lo"
proof -
  have hi: "bit hi n \<Longrightarrow> n < 4" and lo: "bit lo n \<Longrightarrow> n < 4" for n
    using nibble_bits [OF assms(1)] nibble_bits [OF assms(2)] by (metis bit_take_bit_iff)+
  show "drop_bit 4 (push_bit 4 hi OR lo) = hi"
    by (rule bit_eqI) (use hi lo in \<open>auto simp: bit_simps\<close>)
  show "(push_bit 4 hi OR lo) AND 15 = lo"
    unfolding and_15 by (rule bit_eqI) (use lo in \<open>auto simp: bit_simps\<close>)
qed


lemma unat_nibbles: "unat (drop_bit 4 (b :: u8)) < 16" "unat (b AND 15) < 16"
proof -
  have "unat b < 2 ^ LENGTH(8)" by (rule unsigned_less)
  then show "unat (drop_bit 4 b) < 16" by (simp add: drop_bit_eq_div unat_div_distrib)
  show "unat (b AND 15) < 16" unfolding and_15 by (simp add: take_bit_eq_mod unat_mod_distrib)
qed

lemma hex_encode_length [simp]: "length (hex_encode bytes) = 2 * length bytes"
  by (induction bytes) auto

lemma hex_encode_empty: "hex_encode bytes = [] \<longleftrightarrow> bytes = []"
  by (cases bytes) simp_all

lemma decode_pairs_iff:
  "even (length h) \<Longrightarrow> decode_pairs h = Some bytes \<longleftrightarrow> hex_encode bytes = map to_ascii_lowercase h"
proof (induction h arbitrary: bytes rule: decode_pairs.induct)
  case (1 a b rest)
  show ?case
  proof
    assume "decode_pairs (a # b # rest) = Some bytes"
    then obtain hi lo bs where "hex_value a = Some hi" "hex_value b = Some lo"
      "decode_pairs rest = Some bs" "bytes = (push_bit 4 hi OR lo) # bs"
      by (auto split: bind_splits)
    moreover from this have "hex_encode bs = map to_ascii_lowercase rest"
      using "1.IH" [of hi lo bs] "1.prems" by simp
    moreover have "unat hi < 16" "unat lo < 16" "hex_digit hi = to_ascii_lowercase a"
      "hex_digit lo = to_ascii_lowercase b"
      using calculation(1,2) by (simp_all add: hex_value_iff)
    ultimately show "hex_encode bytes = map to_ascii_lowercase (a # b # rest)"
      using nibbles_split [of hi lo] by (simp del: drop_bit_or)
  next
    assume e: "hex_encode bytes = map to_ascii_lowercase (a # b # rest)"
    then obtain x bs where b: "bytes = x # bs" by (cases bytes) auto
    with e have "hex_value a = Some (drop_bit 4 x)" "hex_value b = Some (x AND 15)"
      using unat_nibbles [of x] by (simp_all add: hex_value_iff)
    moreover have "decode_pairs rest = Some bs" using e b "1.IH" [OF calculation] "1.prems" by simp
    ultimately show "decode_pairs (a # b # rest) = Some bytes" using b nibbles by simp
  qed
qed (auto simp: hex_encode_empty)

lemma decode_digest_iff:
  "decode_digest h = Some bytes \<longleftrightarrow> length h = 64 \<and> hex_encode bytes = map to_ascii_lowercase h"
  using decode_pairs_iff [of h bytes] by (auto simp: decode_digest_def)

lemma hex_encode_inj: "hex_encode a = hex_encode b \<Longrightarrow> a = b"
proof (induction a arbitrary: b)
  case (Cons x a)
  then obtain y c where b: "b = y # c" by (cases b) auto
  have "to_ascii_lowercase (hex_digit n) = hex_digit n" if "unat n < 16" for n
    using byte_lowercase [of "hex_digit n"] byte_hex_digit [OF that] that
    by (auto simp: byte_eq_iff [symmetric] split: if_splits)
  then have "hex_value (hex_digit n) = Some n" if "unat n < 16" for n
    using that by (simp add: hex_value_iff)
  then have inj: "hex_digit n = hex_digit m \<Longrightarrow> unat n < 16 \<Longrightarrow> unat m < 16 \<Longrightarrow> n = m" for n m
    by (metis option.inject)
  have "hex_digit (drop_bit 4 x) = hex_digit (drop_bit 4 y)" "hex_digit (x AND 15) = hex_digit (y AND 15)"
    "a = c" using Cons b by auto
  then have "drop_bit 4 x = drop_bit 4 y" "x AND 15 = y AND 15" "a = c"
    using inj [of "drop_bit 4 x" "drop_bit 4 y"] inj [of "x AND 15" "y AND 15"] unat_nibbles [of x]
      unat_nibbles [of y] by simp_all
  then have "push_bit 4 (drop_bit 4 x) OR (x AND 15) = push_bit 4 (drop_bit 4 y) OR (y AND 15)" by (simp only:)
  then have "x = y" unfolding nibbles .
  with \<open>a = c\<close> b show ?case by simp
next
  case Nil
  then show ?case by (cases b) auto
qed

lemma lowercase_hex [simp]: "map to_ascii_lowercase (hex_encode bytes) = hex_encode bytes"
proof -
  have "to_ascii_lowercase (hex_digit n) = hex_digit n" if "unat n < 16" for n
    using byte_lowercase [of "hex_digit n"] byte_hex_digit [OF that] that
    by (auto simp: byte_eq_iff [symmetric] split: if_splits)
  then show ?thesis by (induction bytes) (auto simp: unat_nibbles)
qed

lemma decode_encoded: "length bytes = 32 \<Longrightarrow> decode_digest (hex_encode bytes) = Some bytes"
  by (simp add: decode_digest_iff)

subsection \<open>Lemmas: validation\<close>

definition record_ok :: "KeyRecord \<Rightarrow> bool" where
  "record_ok key \<longleftrightarrow> trim (kr_name key) \<noteq> [] \<and> is_base64_segment (kr_identifier key) IDENTIFIER_LEN \<and>
     decode_digest (kr_key_sha256 key) \<noteq> None"

lemma same_digest_iff:
  assumes "decode_digest a \<noteq> None" and "decode_digest b \<noteq> None"
  shows "eq_ignore_ascii_case a b \<longleftrightarrow> decode_digest a = decode_digest b"
proof -
  obtain x y where "decode_digest a = Some x" "decode_digest b = Some y" using assms by auto
  moreover from this have "eq_ignore_ascii_case a b \<longleftrightarrow> hex_encode x = hex_encode y"
    by (simp add: decode_digest_iff eq_ignore_ascii_case_def)
  ultimately show ?thesis using hex_encode_inj by auto
qed

lemma validate_keys_iff:
  assumes "\<forall>key \<in> set earlier. record_ok key"
  shows "validate_keys earlier keys = Inr () \<longleftrightarrow>
    (\<forall>key \<in> set keys. record_ok key) \<and>
    distinct (map kr_identifier keys) \<and>
    kr_identifier ` set earlier \<inter> kr_identifier ` set keys = {} \<and>
    distinct (map (\<lambda>k. decode_digest (kr_key_sha256 k)) keys) \<and>
    (\<lambda>k. decode_digest (kr_key_sha256 k)) ` set earlier \<inter>
      (\<lambda>k. decode_digest (kr_key_sha256 k)) ` set keys = {}"
  using assms
proof (induction earlier keys rule: validate_keys.induct)
  case (1 earlier)
  then show ?case by simp
next
  case (2 earlier key keys)
  show ?case
  proof (cases "record_ok key")
    case False
    then show ?thesis by (auto simp: record_ok_def Let_def)
  next
    case True
    have clash: "list_ex (\<lambda>e. eq_ignore_ascii_case (kr_key_sha256 e) (kr_key_sha256 key)) earlier \<longleftrightarrow>
        decode_digest (kr_key_sha256 key) \<in> (\<lambda>k. decode_digest (kr_key_sha256 k)) ` set earlier"
    proof -
      have "eq_ignore_ascii_case (kr_key_sha256 e) (kr_key_sha256 key) \<longleftrightarrow>
          decode_digest (kr_key_sha256 key) = decode_digest (kr_key_sha256 e)" if "e \<in> set earlier" for e
        using same_digest_iff [of "kr_key_sha256 e" "kr_key_sha256 key"] "2.prems" True that
        by (auto simp: record_ok_def)
      then show ?thesis by (auto simp: list_ex_iff)
    qed
    have same: "list_ex (\<lambda>e. kr_identifier e = kr_identifier key) earlier \<longleftrightarrow>
        kr_identifier key \<in> kr_identifier ` set earlier"
      unfolding list_ex_iff image_iff by (metis (no_types))
    show ?thesis
    proof (cases "kr_identifier key \<in> kr_identifier ` set earlier \<or>
        decode_digest (kr_key_sha256 key) \<in> (\<lambda>k. decode_digest (kr_key_sha256 k)) ` set earlier")
      case bad: True
      then have "validate_keys earlier (key # keys) \<noteq> Inr ()"
        using clash same by (auto simp: Let_def)
      with bad show ?thesis by auto
    next
      case ok: False
      then have "validate_keys earlier (key # keys) = validate_keys (earlier @ [key]) keys"
        using True clash same by (auto simp: record_ok_def Let_def)
      moreover have "\<forall>k \<in> set (earlier @ [key]). record_ok k" using "2.prems" True by simp
      ultimately show ?thesis using "2.IH" True ok clash same by (auto simp: record_ok_def)
    qed
  qed
qed


lemma validate_key_file_iff:
  "validate_key_file file = Inr () \<longleftrightarrow>
     kf_version file = 1 \<and> (\<forall>key \<in> set (kf_keys file). record_ok key) \<and>
     distinct (map kr_identifier (kf_keys file)) \<and>
     distinct (map (\<lambda>k. decode_digest (kr_key_sha256 k)) (kf_keys file))"
  using validate_keys_iff [of "[]" "kf_keys file"] by (auto simp: validate_key_file_def SCHEMA_VERSION_def)

lemma load_keys_valid: "load_keys from_json read = Inr file \<Longrightarrow> validate_key_file file = Inr ()"
  by (auto simp: load_keys_def split: option.splits sum.splits)

lemma save_keys_cases:
  assumes "save_keys to_json fails file d = (r, d')"
  shows "(r = Inr () \<longrightarrow> validate_key_file file = Inr () \<and>
      (\<exists>json. to_json file = Some json \<and> disk_main d' = Some (json @ [CHR 0x0A]))) \<and>
    (r \<noteq> Inr () \<longrightarrow> disk_main d' = disk_main d)"
  using assms by (auto simp: save_keys_def split: sum.splits option.splits if_splits)

subsection \<open>Lemmas: minted keys\<close>

text \<open>
  Documented behaviour of the URL-safe base64 encoding without padding on whole groups of
  three bytes, of the random source, and of SHA-256.
\<close>

definition base64_law :: "(u8 list \<Rightarrow> string) \<Rightarrow> bool" where
  "base64_law base64 \<longleftrightarrow> (\<forall>bytes. 3 dvd length bytes \<longrightarrow>
     is_base64_segment (base64 bytes) (4 * (length bytes div 3)))"

definition fill_law :: "(nat \<Rightarrow> u8 list option) \<Rightarrow> bool" where
  "fill_law fill \<longleftrightarrow> (\<forall>n bytes. fill n = Some bytes \<longrightarrow> length bytes = n)"

definition sha_law :: "(string \<Rightarrow> u8 list) \<Rightarrow> bool" where
  "sha_law sha \<longleftrightarrow> (\<forall>s. length (sha s) = 32)"

lemma random_base64_segment:
  assumes "base64_law base64" and "fill_law fill" and "random_base64 base64 fill (4 * n) = Some s"
  shows "is_base64_segment s (4 * n)"
proof -
  from assms(3) obtain bytes where "fill (n * 3) = Some bytes" "s = base64 bytes"
    by (auto simp: random_base64_def)
  moreover from this assms(2) have "length bytes = n * 3" by (simp add: fill_law_def)
  ultimately show ?thesis using assms(1) [unfolded base64_law_def, rule_format, of bytes] by simp
qed

lemma base64_no_continuation: "is_base64_byte c \<Longrightarrow> \<not> continuation (byte c)"
  by (auto simp: is_base64_byte_def is_ascii_alphanumeric_def is_ascii_alphabetic_def is_ascii_digit_def
      continuation_def byte_def)

text \<open>A well-formed key has one identifier, whatever underscores its segments contain.\<close>

lemma identifier_of_key:
  assumes "is_base64_segment i IDENTIFIER_LEN" and "is_base64_segment x SECRET_LEN"
  shows "identifier_of (KEY_PREFIX @ ''_'' @ i @ ''_'' @ x) = Some (Some i)"
proof -
  let ?rest = "i @ ''_'' @ x"
  have len: "length i = 8" "length x = 32"
    using assms by (simp_all add: is_base64_segment_def IDENTIFIER_LEN_def SECRET_LEN_def)
  have "strip_prefix KEY_PREFIX (KEY_PREFIX @ ''_'' @ ?rest) = Some (''_'' @ ?rest)"
    "strip_prefix ''_'' (''_'' @ ?rest) = Some ?rest" "strip_prefix ''_'' (''_'' @ x) = Some x"
    by (simp_all add: strip_prefix_def)
  moreover have "split_at ?rest IDENTIFIER_LEN = Some (i, ''_'' @ x)"
    using len by (simp add: split_at_def is_char_boundary_def IDENTIFIER_LEN_def nth_append continuation_def byte_def)
  ultimately show ?thesis
    using assms len by (simp add: identifier_of_def IDENTIFIER_LEN_def SECRET_LEN_def)
qed

lemma generate_ok:
  assumes "base64_law base64" and "fill_law fill1" and "fill_law fill2" and "sha_law sha"
    and "generate sha base64 fill1 fill2 now name admin = Some (rec, key)"
  shows "identifier_of key = Some (Some (kr_identifier rec)) \<and>
    decode_digest (kr_key_sha256 rec) = Some (sha key) \<and> kr_name rec = name \<and> kr_admin rec = admin \<and>
    \<not> kr_disabled rec \<and> (trim name \<noteq> [] \<longrightarrow> record_ok rec)"
proof -
  from assms(5) obtain i x where i: "random_base64 base64 fill1 IDENTIFIER_LEN = Some i"
    and x: "random_base64 base64 fill2 SECRET_LEN = Some x"
    and r: "rec = \<lparr>kr_name = name, kr_identifier = i,
        kr_key_sha256 = hex_encode (sha (KEY_PREFIX @ ''_'' @ i @ ''_'' @ x)),
        kr_admin = admin, kr_disabled = False, kr_created_at_unix_ms = now\<rparr>"
      "key = KEY_PREFIX @ ''_'' @ i @ ''_'' @ x"
    by (auto simp: generate_def Let_def split: bind_splits)
  have "is_base64_segment i IDENTIFIER_LEN" "is_base64_segment x SECRET_LEN"
    using random_base64_segment [OF assms(1,2), of 2] random_base64_segment [OF assms(1,3), of 8] i x
    by (simp_all add: IDENTIFIER_LEN_def SECRET_LEN_def)
  with identifier_of_key [OF this] r decode_encoded assms(4) show ?thesis
    by (auto simp: sha_law_def record_ok_def)
qed

subsection \<open>Properties\<close>



text \<open>
  A minted key is what the rest of the program expects: its identifier is read back
  from the key text although the base64 alphabet contains the separator, the stored digest
  decodes to the SHA-256 of the whole key, it is enabled, and with a name that is not blank
  the record passes validation.
\<close>

theorem generated_key_roundtrip:
  assumes "base64_law base64" and "fill_law fill1" and "fill_law fill2" and "sha_law sha"
    and "generate sha base64 fill1 fill2 now name admin = Some (rec, key)"
  shows "identifier_of key = Some (Some (kr_identifier rec)) \<and>
    decode_digest (kr_key_sha256 rec) = Some (sha key) \<and> kr_admin rec = admin \<and> \<not> kr_disabled rec \<and>
    (trim name \<noteq> [] \<longrightarrow> validate_key_file \<lparr>kf_version = SCHEMA_VERSION, kf_keys = [rec]\<rparr> = Inr ())"
  using generate_ok [OF assms] by (simp add: validate_key_file_iff SCHEMA_VERSION_def)

definition demo_base64 :: "u8 list \<Rightarrow> string" where
  "demo_base64 bytes = replicate (4 * (length bytes div 3)) (CHR ''_'')"

definition demo_fill :: "nat \<Rightarrow> u8 list option" where
  "demo_fill n = Some (replicate n 0)"

definition demo_sha :: "string \<Rightarrow> u8 list" where
  "demo_sha s = replicate 31 0 @ [of_nat (length s)]"

lemma demo_key_laws: "base64_law demo_base64" "fill_law demo_fill" "sha_law demo_sha"
  by (auto simp: base64_law_def demo_base64_def is_base64_segment_def is_base64_byte_def fill_law_def
      demo_fill_def sha_law_def demo_sha_def list_all_iff)

theorem generated_key_roundtrip_witness:
  "\<exists>rec key. generate demo_sha demo_base64 demo_fill demo_fill 0 ''ops'' False = Some (rec, key) \<and>
     identifier_of key = Some (Some (replicate 8 (CHR ''_'')))"
proof -
  obtain rec key where g: "generate demo_sha demo_base64 demo_fill demo_fill 0 ''ops'' False = Some (rec, key)"
    "kr_identifier rec = replicate 8 (CHR ''_'')"
    by (simp add: generate_def random_base64_def demo_fill_def demo_base64_def IDENTIFIER_LEN_def
        SECRET_LEN_def Let_def)
  from generated_key_roundtrip [OF demo_key_laws(1,2,2,3) g(1)] g show ?thesis by auto
qed

text \<open>
  The offset at which \<open>identifier_of\<close> splits need not be a character boundary: there the
  slice panics.
\<close>

lemma identifier_of_panics:
  "identifier_of (''eb_'' @ replicate 7 (CHR ''a'') @ [CHR 0xC3, CHR 0xA9] @ replicate 32 (CHR ''a'')) = None"
  by (simp add: identifier_of_def strip_prefix_def KEY_PREFIX_def IDENTIFIER_LEN_def SECRET_LEN_def
      split_at_def is_char_boundary_def continuation_def byte_def nth_append)

end
