(* ===== verification/Auth.thy ===== *)
theory Auth
  imports Keys
begin

text \<open>
  Authentication (\<open>src/src/auth.rs\<close>): the index of key digests, the lookup that compares
  every entry, the decision on one request, and the creation of keys while the proxy runs.

  A \<open>HeaderMap\<close> is the list of its fields in order, names in lower case. \<open>to_str\<close> is
  \<open>HeaderValue::to_str\<close>. The gate that serializes registrations makes a creation one step.
\<close>

subsection \<open>Data\<close>

type_synonym HeaderMap = "(string \<times> string) list"

definition get_all :: "HeaderMap \<Rightarrow> string \<Rightarrow> string list" where
  "get_all headers name = map snd (filter (\<lambda>(n, v). n = name) headers)"

definition MAX_KEY_NAME_CHARS :: nat where
  "MAX_KEY_NAME_CHARS = 64"

record KeyIdentity =
  ki_name :: string
  ki_identifier :: string
  ki_key_sha256 :: string
  ki_admin :: bool
  ki_disabled :: bool

record KeyIndex =
  ix_digests :: "u8 list list"
  ix_identities :: "KeyIdentity list"

datatype IndexError = EmptyDatabase | AllDisabled | MalformedDigest string | SharedDigest

text \<open>\<open>writer\<close> is the path that registrations are saved to, if the store came from a file.\<close>

record KeyStore =
  ks_index :: KeyIndex
  ks_writer :: "string option"

datatype AuthError = AuthMissing | AuthMalformed | AuthInvalid | AuthDisabled

record Authentication =
  au_key_sha256 :: "string option"
  au_identity :: "KeyIdentity option"
  au_result :: "AuthError + unit"

datatype Unavailability = NoWriter | StoreUnreadable KeyFileError | NoRandomness | BadIndex IndexError

datatype KeyCreationError =
    InvalidName string
  | DuplicateName
  | LimitReached
  | KeysUnavailable Unavailability

subsection \<open>The index\<close>

fun index_records :: "KeyRecord list \<Rightarrow> u8 list list \<Rightarrow> KeyIdentity list \<Rightarrow> IndexError + KeyIndex" where
  "index_records [] digests identities = Inr \<lparr>ix_digests = digests, ix_identities = identities\<rparr>"
| "index_records (r # rs) digests identities =
     (case decode_digest (kr_key_sha256 r) of
        None \<Rightarrow> Inl (MalformedDigest (kr_name r))
      | Some digest \<Rightarrow>
          if digest \<in> set digests then Inl SharedDigest
          else index_records rs (digests @ [digest])
            (identities @ [\<lparr>ki_name = kr_name r, ki_identifier = kr_identifier r,
               ki_key_sha256 = hex_encode digest, ki_admin = kr_admin r, ki_disabled = kr_disabled r\<rparr>]))"

definition from_records :: "KeyRecord list \<Rightarrow> IndexError + KeyIndex" where
  "from_records records =
     (if records = [] then Inl EmptyDatabase
      else if \<not> list_ex (\<lambda>r. \<not> kr_disabled r) records then Inl AllDisabled
      else index_records records [] [])"

text \<open>
  The loop of \<open>lookup\<close>: every digest is compared, and a match overwrites the index found so
  far, without a branch. \<open>u64::MAX\<close> means that none matched.
\<close>

definition conditional_select :: "u64 \<Rightarrow> u64 \<Rightarrow> bool \<Rightarrow> u64" where
  "conditional_select a b choice = (if choice then b else a)"

fun match_digests :: "u8 list \<Rightarrow> nat \<Rightarrow> u8 list list \<Rightarrow> u64 \<Rightarrow> u64" where
  "match_digests digest index [] matched = matched"
| "match_digests digest index (candidate # candidates) matched =
     match_digests digest (Suc index) candidates
       (conditional_select matched (of_nat index) (candidate = digest))"

text \<open>An index out of range panics.\<close>

definition lookup ::
  "(string \<Rightarrow> u8 list) \<Rightarrow> KeyIndex \<Rightarrow> string \<Rightarrow> (string \<times> KeyIdentity option) option" where
  "lookup sha index presented =
     (let digest = sha presented;
          matched = match_digests digest 0 (ix_digests index) (- 1) in
      if matched = - 1 then Some (hex_encode digest, None)
      else if unat matched < length (ix_identities index)
        then Some (hex_encode digest, Some (ix_identities index ! unat matched))
      else None)"

subsection \<open>One request\<close>

definition rejected :: "AuthError \<Rightarrow> Authentication" where
  "rejected e = \<lparr>au_key_sha256 = None, au_identity = None, au_result = Inl e\<rparr>"

definition authenticate ::
  "(string \<Rightarrow> u8 list) \<Rightarrow> (string \<Rightarrow> string option) \<Rightarrow> HeaderMap \<Rightarrow> KeyStore \<Rightarrow> Authentication option" where
  "authenticate sha to_str headers store =
     (case get_all headers ''authorization'' of
        [] \<Rightarrow> Some (rejected AuthMissing)
      | _ # _ # _ \<Rightarrow> Some (rejected AuthMalformed)
      | [value] \<Rightarrow>
          (case to_str value of
             None \<Rightarrow> Some (rejected AuthMalformed)
           | Some value \<Rightarrow>
               (case split_ascii_whitespace value of
                  [scheme, key] \<Rightarrow>
                    if \<not> eq_ignore_ascii_case scheme ''bearer'' \<or> key = []
                    then Some (rejected AuthMalformed)
                    else do {
                      (key_sha256, identity) \<leftarrow> lookup sha (ks_index store) key;
                      Some \<lparr>au_key_sha256 = Some key_sha256,
                            au_identity = identity,
                            au_result = (case identity of
                                Some i \<Rightarrow> if ki_disabled i then Inl AuthDisabled else Inr ()
                              | None \<Rightarrow> Inl AuthInvalid)\<rparr>
                    }
                | _ \<Rightarrow> Some (rejected AuthMalformed))))"

fun auth_code :: "AuthError \<Rightarrow> string" where
  "auth_code AuthMissing = ''invalid_api_key''"
| "auth_code AuthMalformed = ''invalid_api_key''"
| "auth_code AuthInvalid = ''invalid_api_key''"
| "auth_code AuthDisabled = ''api_key_disabled''"

fun auth_message :: "AuthError \<Rightarrow> string" where
  "auth_message AuthMissing = ''Missing Authorization header. Expected 'Bearer <API key>'.''"
| "auth_message AuthMalformed = ''Malformed Authorization header. Expected 'Bearer <API key>'.''"
| "auth_message AuthInvalid = ''Incorrect API key provided.''"
| "auth_message AuthDisabled = ''This API key has been disabled.''"

subsection \<open>Stores and registration\<close>

definition store_from_file ::
  "(string \<Rightarrow> KeyFile option) \<Rightarrow> string \<Rightarrow> string option option \<Rightarrow> (KeyFileError + IndexError) + KeyStore" where
  "store_from_file from_json path read =
     (case load_keys from_json read of
        Inl e \<Rightarrow> Inl (Inl e)
      | Inr keys \<Rightarrow>
          (case from_records (kf_keys keys) of
             Inl e \<Rightarrow> Inl (Inr e)
           | Inr index \<Rightarrow> Inr \<lparr>ks_index = index, ks_writer = Some path\<rparr>))"

definition store_from_records :: "KeyRecord list \<Rightarrow> IndexError + KeyStore" where
  "store_from_records records =
     (case from_records records of
        Inl e \<Rightarrow> Inl e | Inr index \<Rightarrow> Inr \<lparr>ks_index = index, ks_writer = None\<rparr>)"

definition store_len :: "KeyStore \<Rightarrow> nat" where
  "store_len store = length (ix_identities (ks_index store))"

definition can_register :: "KeyStore \<Rightarrow> nat option \<Rightarrow> bool" where
  "can_register store max_keys \<longleftrightarrow> ks_writer store \<noteq> None \<and>
     \<not> (case max_keys of None \<Rightarrow> False | Some limit \<Rightarrow> limit \<le> store_len store)"

text \<open>
  Characters are counted by their first bytes. A control character is one byte below 32,
  the byte 127, or one of U+0080 to U+009F.
\<close>

definition char_count :: "string \<Rightarrow> nat" where
  "char_count s = length (filter (\<lambda>c. \<not> continuation (byte c)) s)"

fun has_control :: "string \<Rightarrow> bool" where
  "has_control [] = False"
| "has_control (c # s) =
     (byte c < 32 \<or> byte c = 127 \<or>
      byte c = 194 \<and> (case s of [] \<Rightarrow> False | d # _ \<Rightarrow> 128 \<le> byte d \<and> byte d \<le> 159) \<or>
      has_control s)"

definition normalize_key_name :: "string \<Rightarrow> KeyCreationError + string" where
  "normalize_key_name raw =
     (let name = trim raw in
      if name = [] then Inl (InvalidName ''it cannot be empty'')
      else if MAX_KEY_NAME_CHARS < char_count name
        then Inl (InvalidName ''it cannot be longer than 64 characters'')
      else if has_control name then Inl (InvalidName ''it cannot contain control characters'')
      else Inr name)"

text \<open>What a registration meets outside: the codec, the file system, the random source, the clock.\<close>

record key_io =
  kio_from_json :: "string \<Rightarrow> KeyFile option"
  kio_to_json :: "KeyFile \<Rightarrow> string option"
  kio_readable :: bool
  kio_fails :: "save_call \<Rightarrow> bool"
  kio_base64 :: "u8 list \<Rightarrow> string"
  kio_fill1 :: "nat \<Rightarrow> u8 list option"
  kio_fill2 :: "nat \<Rightarrow> u8 list option"
  kio_unix_ms :: u64

definition create_non_admin ::
  "(string \<Rightarrow> u8 list) \<Rightarrow> key_io \<Rightarrow> string \<Rightarrow> nat option \<Rightarrow> KeyStore \<Rightarrow> disk
    \<Rightarrow> (KeyCreationError + string) \<times> KeyStore \<times> disk" where
  "create_non_admin sha io raw max_keys store d =
     (case normalize_key_name raw of
        Inl e \<Rightarrow> (Inl e, store, d)
      | Inr name \<Rightarrow>
          if ks_writer store = None then (Inl (KeysUnavailable NoWriter), store, d)
          else (case load_keys (kio_from_json io) (if kio_readable io then Some (disk_main d) else None) of
              Inl e \<Rightarrow> (Inl (KeysUnavailable (StoreUnreadable e)), store, d)
            | Inr keys \<Rightarrow>
                if (case max_keys of None \<Rightarrow> False | Some limit \<Rightarrow> limit \<le> length (kf_keys keys))
                then (Inl LimitReached, store, d)
                else if list_ex (\<lambda>k. kr_name k = name) (kf_keys keys) then (Inl DuplicateName, store, d)
                else (case generate sha (kio_base64 io) (kio_fill1 io) (kio_fill2 io) (kio_unix_ms io) name False of
                    None \<Rightarrow> (Inl (KeysUnavailable NoRandomness), store, d)
                  | Some (rec, plaintext) \<Rightarrow>
                      (let keys' = keys\<lparr>kf_keys := kf_keys keys @ [rec]\<rparr> in
                       case from_records (kf_keys keys') of
                         Inl e \<Rightarrow> (Inl (KeysUnavailable (BadIndex e)), store, d)
                       | Inr index \<Rightarrow>
                           (case save_keys (kio_to_json io) (kio_fails io) keys' d of
                              (Inl e, d') \<Rightarrow> (Inl (KeysUnavailable (StoreUnreadable e)), store, d')
                            | (Inr _, d') \<Rightarrow> (Inr plaintext, store\<lparr>ks_index := index\<rparr>, d'))))))"

subsection \<open>Lemmas: the index and the lookup\<close>

definition identity_of :: "KeyRecord \<Rightarrow> KeyIdentity" where
  "identity_of r = \<lparr>ki_name = kr_name r, ki_identifier = kr_identifier r,
     ki_key_sha256 = hex_encode (the (decode_digest (kr_key_sha256 r))),
     ki_admin = kr_admin r, ki_disabled = kr_disabled r\<rparr>"

abbreviation digest_of :: "KeyRecord \<Rightarrow> u8 list option" where
  "digest_of r \<equiv> decode_digest (kr_key_sha256 r)"

lemma identity_flags [simp]:
  "ki_disabled (identity_of r) = kr_disabled r" "ki_admin (identity_of r) = kr_admin r"
  by (simp_all add: identity_of_def)

lemma index_records_Inr:
  assumes "index_records rs digests identities = Inr index" and "distinct digests"
  shows "ix_digests index = digests @ map (\<lambda>r. the (digest_of r)) rs \<and>
    ix_identities index = identities @ map identity_of rs \<and>
    (\<forall>r \<in> set rs. digest_of r \<noteq> None) \<and> distinct (ix_digests index)"
  using assms
proof (induction rs digests identities rule: index_records.induct)
  case (1 digests identities)
  then show ?case by auto
next
  case (2 r rs digests identities)
  then obtain digest where d: "digest_of r = Some digest" "digest \<notin> set digests"
    by (auto split: option.splits if_splits)
  have "\<lparr>ki_name = kr_name r, ki_identifier = kr_identifier r,
      ki_key_sha256 = hex_encode digest, ki_admin = kr_admin r, ki_disabled = kr_disabled r\<rparr> = identity_of r"
    using d(1) by (simp add: identity_of_def)
  with d "2.prems"(1) have run: "index_records rs (digests @ [digest]) (identities @ [identity_of r]) = Inr index"
    by simp
  have "distinct (digests @ [digest])" using "2.prems"(2) d(2) by simp
  from "2.IH" [OF d, unfolded \<open>_ = identity_of r\<close>, OF run this] d(1) show ?case
    by (elim conjE) simp
qed

lemma from_records_Inr:
  assumes "from_records records = Inr index"
  shows "ix_digests index = map (\<lambda>r. the (digest_of r)) records"
    and "ix_identities index = map identity_of records"
    and "\<forall>r \<in> set records. digest_of r \<noteq> None" and "distinct (ix_digests index)"
    and "\<exists>r \<in> set records. \<not> kr_disabled r"
  using assms index_records_Inr [of records "[]" "[]" index]
  by (auto simp: from_records_def list_ex_iff split: if_splits)

lemma match_digests_absent:
  "digest \<notin> set candidates \<Longrightarrow> match_digests digest index candidates matched = matched"
  by (induction candidates arbitrary: index matched) (auto simp: conditional_select_def)

lemma match_digests_present:
  assumes "distinct candidates" and "k < length candidates" and "candidates ! k = digest"
  shows "match_digests digest index candidates matched = of_nat (index + k)"
  using assms
proof (induction candidates arbitrary: index matched k)
  case (Cons c candidates)
  show ?case
  proof (cases k)
    case 0
    with Cons.prems have "c = digest" "digest \<notin> set candidates" by auto
    with 0 show ?thesis by (simp add: conditional_select_def match_digests_absent)
  next
    case (Suc j)
    with Cons.prems Cons.IH [of j "Suc index"] show ?thesis by simp
  qed
qed simp

lemma small_index: "k < 2 ^ 64 - 1 \<Longrightarrow> (of_nat k :: u64) \<noteq> - 1 \<and> unat (of_nat k :: u64) = k"
proof -
  assume k: "k < 2 ^ 64 - 1"
  then have u: "unat (of_nat k :: u64) = k" by (simp add: unat_of_nat)
  moreover have "unat (- 1 :: u64) = 2 ^ 64 - 1"
    by (simp add: unsigned_minus_1_eq_mask mask_eq_exp_minus_1)
  ultimately show ?thesis using k by auto
qed

text \<open>The reference lookup: the record of that digest, if there is one.\<close>

definition find_record :: "KeyRecord list \<Rightarrow> u8 list \<Rightarrow> KeyRecord option" where
  "find_record records digest = find (\<lambda>r. digest_of r = Some digest) records"

lemma lookup_finds:
  assumes "from_records records = Inr index" and "length records < 2 ^ 64 - 1"
  shows "lookup sha index presented =
    Some (hex_encode (sha presented), map_option identity_of (find_record records (sha presented)))"
proof -
  note ix = from_records_Inr [OF assms(1)]
  show ?thesis
  proof (cases "find_record records (sha presented)")
    case None
    then have "\<forall>r \<in> set records. the (digest_of r) \<noteq> sha presented"
      using ix(3) by (fastforce simp: find_record_def find_None_iff)
    then have "sha presented \<notin> set (ix_digests index)" unfolding ix(1) by auto
    then show ?thesis using None by (simp add: lookup_def match_digests_absent)
  next
    case (Some r)
    then obtain k where k: "k < length records" "records ! k = r" "digest_of r = Some (sha presented)"
      by (auto simp: find_record_def find_Some_iff)
    then have "match_digests (sha presented) 0 (ix_digests index) (- 1) = of_nat (0 + k)"
      by (intro match_digests_present [OF ix(4)]) (simp_all add: ix(1))
    moreover have "(of_nat k :: u64) \<noteq> - 1" "unat (of_nat k :: u64) = k"
      using small_index [of k] k(1) assms(2) by simp_all
    ultimately show ?thesis using Some k ix(2) by (simp add: lookup_def)
  qed
qed

lemma find_record_iff:
  assumes "distinct (map (\<lambda>r. the (digest_of r)) records)" and "\<forall>r \<in> set records. digest_of r \<noteq> None"
  shows "find_record records digest = Some r \<longleftrightarrow> r \<in> set records \<and> digest_of r = Some digest"
proof
  assume "find_record records digest = Some r"
  then show "r \<in> set records \<and> digest_of r = Some digest" by (auto simp: find_record_def find_Some_iff)
next
  assume r: "r \<in> set records \<and> digest_of r = Some digest"
  then obtain q where q: "find_record records digest = Some q"
    by (cases "find_record records digest") (auto simp: find_record_def find_None_iff)
  then have "q \<in> set records" "digest_of q = Some digest" by (auto simp: find_record_def find_Some_iff)
  with r assms(1) have "q = r" by (auto simp: distinct_map inj_on_def)
  with q show "find_record records digest = Some r" by simp
qed

subsection \<open>Properties\<close>

text \<open>
  C26. The lookup that compares every entry without branching on a match is equivalent to
  a plain search: for every index built from a list of records, and every key presented, it
  does not panic and returns the digest of the key with the identity of the one record of
  that digest, or none.
\<close>

theorem lookup_equivalent:
  assumes "from_records records = Inr index" and "length records < 2 ^ 64 - 1"
  shows "lookup sha index presented =
      Some (hex_encode (sha presented), map_option identity_of (find_record records (sha presented))) \<and>
    (\<forall>r. find_record records (sha presented) = Some r \<longleftrightarrow>
       r \<in> set records \<and> decode_digest (kr_key_sha256 r) = Some (sha presented))"
  using lookup_finds [OF assms] find_record_iff from_records_Inr [OF assms(1)] by auto

definition demo_record :: KeyRecord where
  "demo_record = \<lparr>kr_name = ''ops'', kr_identifier = ''AAAAAAAA'',
     kr_key_sha256 = hex_encode (demo_sha ''k''), kr_admin = True, kr_disabled = False,
     kr_created_at_unix_ms = 0\<rparr>"

lemma demo_record_digest: "digest_of demo_record = Some (demo_sha s) \<longleftrightarrow> demo_sha s = demo_sha ''k''"
proof -
  have "decode_digest (hex_encode (demo_sha ''k'')) = Some (demo_sha ''k'')"
    by (rule decode_encoded) (simp add: demo_sha_def)
  then show ?thesis by (auto simp: demo_record_def)
qed

lemma demo_index: "\<exists>index. from_records [demo_record] = Inr index"
  using demo_record_digest [of "''k''"] by (simp add: from_records_def demo_record_def)

theorem lookup_equivalent_witness:
  "\<exists>index. from_records [demo_record] = Inr index \<and>
     lookup demo_sha index ''k'' = Some (hex_encode (demo_sha ''k''), Some (identity_of demo_record))"
proof -
  obtain index where ix: "from_records [demo_record] = Inr index" using demo_index by blast
  have "find_record [demo_record] (demo_sha ''k'') = Some demo_record"
    using demo_record_digest [of "''k''"] by (simp add: find_record_def)
  with lookup_equivalent [OF ix, of demo_sha "''k''"] ix show ?thesis by simp
qed

definition credential :: "(string \<Rightarrow> string option) \<Rightarrow> HeaderMap \<Rightarrow> string \<Rightarrow> bool" where
  "credential to_str headers key \<longleftrightarrow>
     (\<exists>v s scheme. get_all headers ''authorization'' = [v] \<and> to_str v = Some s \<and>
        split_ascii_whitespace s = [scheme, key] \<and> eq_ignore_ascii_case scheme ''bearer'' \<and> key \<noteq> [])"

lemma credential_unique: "credential to_str headers k \<Longrightarrow> credential to_str headers k' \<Longrightarrow> k' = k"
  by (auto simp: credential_def)

lemma authenticate_credential:
  assumes "credential to_str headers key" and "lookup sha (ks_index store) key = Some (h, identity)"
  shows "authenticate sha to_str headers store = Some \<lparr>au_key_sha256 = Some h, au_identity = identity,
    au_result = (case identity of Some i \<Rightarrow> if ki_disabled i then Inl AuthDisabled else Inr ()
                 | None \<Rightarrow> Inl AuthInvalid)\<rparr>"
  using assms by (auto simp: credential_def authenticate_def)

lemma authenticate_rejected:
  assumes "\<And>key. \<not> credential to_str headers key"
  shows "authenticate sha to_str headers store = Some (rejected AuthMissing) \<or>
    authenticate sha to_str headers store = Some (rejected AuthMalformed)"
proof -
  have "\<not> (get_all headers ''authorization'' = [v] \<and> to_str v = Some s \<and>
      split_ascii_whitespace s = [scheme, key] \<and> eq_ignore_ascii_case scheme ''bearer'' \<and> key \<noteq> [])"
    for v s scheme key using assms unfolding credential_def by blast
  then show ?thesis by (auto simp: authenticate_def split: list.split option.split)
qed



text \<open>
  A registration is published and durable, or it did nothing. With a codec that reads
  back what it wrote: when a key is returned, the file now holds the records it held before
  and one more, enabled and not an administrator, under a name nobody had and within the
  limit; the published index is the one of that file, and the returned key is accepted from
  now on as that record. When the call fails, the index is untouched and the file holds what
  it held.
\<close>

theorem create_non_admin_atomic:
  assumes "\<forall>f json. kio_to_json io f = Some json \<longrightarrow> kio_from_json io (json @ [CHR 0x0A]) = Some f"
    and "base64_law (kio_base64 io)" and "fill_law (kio_fill1 io)" and "fill_law (kio_fill2 io)"
    and "sha_law sha" and "disk_main d = Some contents"
    and "create_non_admin sha io raw max_keys store d = (r, store', d')"
  shows "case r of
      Inl e \<Rightarrow> store' = store \<and> disk_main d' = disk_main d
    | Inr key \<Rightarrow> \<exists>keys rec.
        load_keys (kio_from_json io) (Some (disk_main d)) = Inr keys \<and>
        load_keys (kio_from_json io) (Some (disk_main d')) = Inr (keys\<lparr>kf_keys := kf_keys keys @ [rec]\<rparr>) \<and>
        from_records (kf_keys keys @ [rec]) = Inr (ks_index store') \<and>
        kr_name rec = trim raw \<and> kr_name rec \<notin> kr_name ` set (kf_keys keys) \<and>
        \<not> kr_admin rec \<and> \<not> kr_disabled rec \<and> decode_digest (kr_key_sha256 rec) = Some (sha key) \<and>
        (case max_keys of None \<Rightarrow> True | Some limit \<Rightarrow> length (kf_keys keys @ [rec]) \<le> limit)"
proof (cases r)
  case (Inl e)
  with assms(7) save_keys_cases show ?thesis
    by (auto simp: create_non_admin_def Let_def split: sum.splits if_splits option.splits prod.splits)
next
  case (Inr key)
  with assms(7) obtain name keys rec index where n: "normalize_key_name raw = Inr name"
    and l: "load_keys (kio_from_json io) (Some (disk_main d)) = Inr keys"
    and lim: "\<not> (case max_keys of None \<Rightarrow> False | Some limit \<Rightarrow> limit \<le> length (kf_keys keys))"
    and dup: "\<not> list_ex (\<lambda>k. kr_name k = name) (kf_keys keys)"
    and g: "generate sha (kio_base64 io) (kio_fill1 io) (kio_fill2 io) (kio_unix_ms io) name False = Some (rec, key)"
    and ix: "from_records (kf_keys keys @ [rec]) = Inr (ks_index store')"
    and sv: "save_keys (kio_to_json io) (kio_fails io) (keys\<lparr>kf_keys := kf_keys keys @ [rec]\<rparr>) d = (Inr (), d')"
    by (auto simp: create_non_admin_def Let_def load_keys_def
        split: sum.splits if_splits option.splits prod.splits)
  note gen = generate_ok [OF assms(2-5) g]
  have "name = trim raw" using n by (auto simp: normalize_key_name_def Let_def split: if_splits)
  moreover have "load_keys (kio_from_json io) (Some (disk_main d')) = Inr (keys\<lparr>kf_keys := kf_keys keys @ [rec]\<rparr>)"
    using save_keys_cases [OF sv] assms(1) by (auto simp: load_keys_def)
  moreover have "kr_name rec \<notin> kr_name ` set (kf_keys keys)" using dup gen by (auto simp: list_ex_iff)
  ultimately show ?thesis
    unfolding Inr sum.case
    by (intro exI [of _ keys] exI [of _ rec]) (use l ix gen lim in \<open>auto split: option.splits\<close>)
qed


text \<open>A database with one key, to which a second one is added.\<close>

definition demo_minted :: "KeyRecord \<times> string" where
  "demo_minted = the (generate demo_sha demo_base64 demo_fill demo_fill 0 ''bob'' False)"

definition demo_before :: KeyFile where
  "demo_before = \<lparr>kf_version = 1, kf_keys = [demo_record]\<rparr>"

definition demo_after :: KeyFile where
  "demo_after = \<lparr>kf_version = 1, kf_keys = [demo_record, fst demo_minted]\<rparr>"

definition demo_key_io :: key_io where
  "demo_key_io =
     \<lparr>kio_from_json = (\<lambda>c. if c = ''1'' @ [CHR 0x0A] then Some demo_before
        else if c = ''2'' @ [CHR 0x0A] then Some demo_after else None),
      kio_to_json = (\<lambda>f. if f = demo_before then Some ''1'' else if f = demo_after then Some ''2'' else None),
      kio_readable = True, kio_fails = (\<lambda>_. False), kio_base64 = demo_base64, kio_fill1 = demo_fill,
      kio_fill2 = demo_fill, kio_unix_ms = 0\<rparr>"

definition demo_key_disk :: disk where
  "demo_key_disk = \<lparr>disk_main = Some (''1'' @ [CHR 0x0A]), disk_temporary = None\<rparr>"

lemma demo_generate: "generate demo_sha demo_base64 demo_fill demo_fill 0 ''bob'' False = Some demo_minted"
  unfolding demo_minted_def
  by (simp add: generate_def random_base64_def demo_fill_def demo_base64_def Let_def)

lemma demo_minted_facts:
  "kr_identifier (fst demo_minted) = replicate 8 (CHR ''_'')" "kr_name (fst demo_minted) = ''bob''"
  "length (snd demo_minted) = 44" "\<not> kr_disabled (fst demo_minted)"
  by (simp_all add: demo_minted_def generate_def random_base64_def demo_fill_def demo_base64_def Let_def
      IDENTIFIER_LEN_def SECRET_LEN_def KEY_PREFIX_def)

lemma demo_minted_ok:
  "decode_digest (kr_key_sha256 (fst demo_minted)) = Some (demo_sha (snd demo_minted))"
  "record_ok (fst demo_minted)" "record_ok demo_record"
  "demo_sha (snd demo_minted) \<noteq> demo_sha ''k''"
proof -
  have bob: "trim ''bob'' \<noteq> []" and ops: "trim ''ops'' \<noteq> []" by code_simp+
  have g: "generate demo_sha demo_base64 demo_fill demo_fill 0 ''bob'' False = Some (fst demo_minted, snd demo_minted)"
    using demo_generate by simp
  from generate_ok [OF demo_key_laws(1,2,2,3) g] bob
  show "decode_digest (kr_key_sha256 (fst demo_minted)) = Some (demo_sha (snd demo_minted))"
    "record_ok (fst demo_minted)" by simp_all
  show "record_ok demo_record"
    using demo_record_digest [of "''k''"] ops
    by (simp add: record_ok_def) (simp add: demo_record_def is_base64_segment_def IDENTIFIER_LEN_def
        is_base64_byte_def is_ascii_alphanumeric_def is_ascii_alphabetic_def byte_def)
  show "demo_sha (snd demo_minted) \<noteq> demo_sha ''k''" by (simp add: demo_sha_def demo_minted_facts)
qed

lemma demo_files_valid: "validate_key_file demo_before = Inr ()" "validate_key_file demo_after = Inr ()"
  "demo_after \<noteq> demo_before"
  using demo_minted_ok demo_minted_facts(1) demo_record_digest [of "''k''"] demo_record_digest [of "snd demo_minted"]
  by (auto simp: validate_key_file_iff demo_before_def demo_after_def) (simp add: demo_record_def numeral_eq_Suc)

theorem create_non_admin_atomic_witness:
  "\<exists>key store' d' keys. create_non_admin demo_sha demo_key_io ''bob'' None
       \<lparr>ks_index = \<lparr>ix_digests = [], ix_identities = []\<rparr>, ks_writer = Some ''keys.json''\<rparr> demo_key_disk =
       (Inr key, store', d') \<and> load_keys (kio_from_json demo_key_io) (Some (disk_main d')) = Inr keys \<and>
     length (kf_keys keys) = 2"
proof -
  let ?store = "\<lparr>ks_index = \<lparr>ix_digests = [], ix_identities = []\<rparr>, ks_writer = Some ''keys.json''\<rparr>"
  have laws: "\<forall>f json. kio_to_json demo_key_io f = Some json \<longrightarrow> kio_from_json demo_key_io (json @ [CHR 0x0A]) = Some f"
    "base64_law (kio_base64 demo_key_io)" "fill_law (kio_fill1 demo_key_io)" "fill_law (kio_fill2 demo_key_io)"
    using demo_key_laws demo_files_valid(3) by (auto simp: demo_key_io_def)
  have main: "disk_main demo_key_disk = Some (''1'' @ [CHR 0x0A])" by (simp add: demo_key_disk_def)
  have name: "normalize_key_name ''bob'' = Inr ''bob''" by code_simp
  have load: "load_keys (kio_from_json demo_key_io) (Some (disk_main demo_key_disk)) = Inr demo_before"
    using demo_files_valid(1) by (simp add: main load_keys_def demo_key_io_def)
  obtain index where ix: "from_records [demo_record, fst demo_minted] = Inr index"
    using demo_minted_ok(1,4) demo_record_digest [of "''k''"]
    by (auto simp: from_records_def demo_record_def [THEN arg_cong [where f = kr_disabled]])
  have gen: "generate demo_sha (kio_base64 demo_key_io) (kio_fill1 demo_key_io) (kio_fill2 demo_key_io)
      (kio_unix_ms demo_key_io) ''bob'' False = Some (fst demo_minted, snd demo_minted)"
    using demo_generate by (simp add: demo_key_io_def)
  have "demo_before\<lparr>kf_keys := kf_keys demo_before @ [fst demo_minted]\<rparr> = demo_after"
    by (simp add: demo_before_def demo_after_def)
  moreover have "save_keys (kio_to_json demo_key_io) (kio_fails demo_key_io) demo_after demo_key_disk =
      (Inr (), demo_key_disk\<lparr>disk_main := Some (''2'' @ [CHR 0x0A]), disk_temporary := None\<rparr>)"
    using demo_files_valid(2,3) by (simp add: save_keys_def demo_key_io_def)
  ultimately have run: "create_non_admin demo_sha demo_key_io ''bob'' None ?store demo_key_disk =
      (Inr (snd demo_minted), ?store\<lparr>ks_index := index\<rparr>,
       demo_key_disk\<lparr>disk_main := Some (''2'' @ [CHR 0x0A]), disk_temporary := None\<rparr>)"
    using name load gen ix
    by (simp add: create_non_admin_def demo_key_io_def [THEN arg_cong [where f = kio_readable]]
        demo_before_def demo_record_def [THEN arg_cong [where f = kr_name]] demo_after_def case_prod_beta)
  from create_non_admin_atomic [OF laws demo_key_laws(3) main run] load run show ?thesis
    by (auto simp: demo_before_def)
qed

end
