(* ===== verification/Usage_Sniffer.thy ===== *)
theory Usage_Sniffer
  imports Rust_Strings
begin

text \<open>
  Token accounting (\<open>src/src/usage.rs\<close>): the state machine that scans a response for its
  \<open>usage\<close> object one byte at a time. The JSON decoder of the captured object is the argument
  \<open>from_slice\<close>. \<open>None\<close> is a panic: an index out of range, or an overflow of the depth.
\<close>

subsection \<open>Data\<close>

definition MAX_OBJECT_BYTES :: nat where "MAX_OBJECT_BYTES = 4096"
definition NEEDLE :: string where "NEEDLE = [CHR 0x22, CHR ''u'', CHR ''s'', CHR ''a'', CHR ''g'', CHR ''e'', CHR 0x22]"
definition NULL :: string where "NULL = ''null''"

record Usage =
  input_tokens :: "u64 option"
  output_tokens :: "u64 option"
  total_tokens :: "u64 option"
  cached_tokens :: "u64 option"

definition is_informative :: "Usage \<Rightarrow> bool" where
  "is_informative u \<longleftrightarrow> input_tokens u \<noteq> None \<or> output_tokens u \<noteq> None \<or> total_tokens u \<noteq> None"

record UsageFields =
  uf_prompt_tokens :: "u64 option"
  uf_completion_tokens :: "u64 option"
  uf_input_tokens :: "u64 option"
  uf_output_tokens :: "u64 option"
  uf_total_tokens :: "u64 option"
  uf_prompt_details :: "u64 option option"
  uf_input_details :: "u64 option option"

definition or_else :: "'a option \<Rightarrow> 'a option \<Rightarrow> 'a option" where
  "or_else a b = (case a of None \<Rightarrow> b | Some x \<Rightarrow> Some x)"

definition usage_of :: "UsageFields \<Rightarrow> Usage" where
  "usage_of f =
     \<lparr>input_tokens = or_else (uf_input_tokens f) (uf_prompt_tokens f),
      output_tokens = or_else (uf_output_tokens f) (uf_completion_tokens f),
      total_tokens = uf_total_tokens f,
      cached_tokens = Option.bind (or_else (uf_prompt_details f) (uf_input_details f)) (\<lambda>d. d)\<rparr>"

datatype SnifferState =
    Searching nat
  | AwaitingColon
  | AwaitingValue
  | SkippingNull nat
  | Capturing u32 bool bool

record UsageSniffer =
  us_state :: SnifferState
  us_object :: string
  us_latest :: "Usage option"

definition sniffer_new :: UsageSniffer where
  "sniffer_new = \<lparr>us_state = Searching 0, us_object = [], us_latest = None\<rparr>"

subsection \<open>Operations\<close>

definition restart :: "char \<Rightarrow> UsageSniffer \<Rightarrow> UsageSniffer" where
  "restart b s = s\<lparr>us_object := [], us_state := Searching (if b = CHR 0x22 then 1 else 0)\<rparr>"

definition finish_object :: "(string \<Rightarrow> UsageFields option) \<Rightarrow> UsageSniffer \<Rightarrow> UsageSniffer" where
  "finish_object from_slice s =
     (let latest = (case from_slice (us_object s) of
            Some f \<Rightarrow>
              (let u = usage_of f in if is_informative u then Some u else us_latest s)
          | None \<Rightarrow> us_latest s) in
      s\<lparr>us_latest := latest, us_object := [], us_state := Searching 0\<rparr>)"

definition byte_at :: "string \<Rightarrow> nat \<Rightarrow> char option" where
  "byte_at s n = (if n < length s then Some (s ! n) else None)"

text \<open>One byte of an object: the new depth and string state, then the size check.\<close>

definition capture_scan :: "char \<Rightarrow> u32 \<Rightarrow> bool \<Rightarrow> bool \<Rightarrow> (u32 \<times> bool \<times> bool) option" where
  "capture_scan b depth in_string escaped =
     (if in_string then
        Some (if escaped then (depth, True, False)
              else if b = CHR 0x5C then (depth, True, True)
              else if b = CHR 0x22 then (depth, False, escaped)
              else (depth, True, escaped))
      else if b = CHR 0x22 then Some (depth, True, escaped)
      else if b = CHR 0x7B then do { d \<leftarrow> checked_add depth 1; Some (d, False, escaped) }
      else if b = CHR 0x7D then (if depth = 0 then None else Some (depth - 1, False, escaped))
      else Some (depth, False, escaped))"

definition capture_byte ::
  "(string \<Rightarrow> UsageFields option) \<Rightarrow> char \<Rightarrow> u32 \<Rightarrow> bool \<Rightarrow> bool \<Rightarrow> UsageSniffer \<Rightarrow> UsageSniffer option" where
  "capture_byte from_slice b depth in_string escaped s =
     do {
       (depth', in_string', escaped') \<leftarrow> capture_scan b depth in_string escaped;
       let s' = s\<lparr>us_state := Capturing depth' in_string' escaped', us_object := us_object s @ [b]\<rparr>;
       Some (if depth' = 0 then finish_object from_slice s'
             else if MAX_OBJECT_BYTES \<le> length (us_object s')
               then s'\<lparr>us_object := [], us_state := Searching 0\<rparr>
             else s')
     }"

definition feed_byte ::
  "(string \<Rightarrow> UsageFields option) \<Rightarrow> char \<Rightarrow> UsageSniffer \<Rightarrow> UsageSniffer option" where
  "feed_byte from_slice b s =
     (case us_state s of
        Searching matched \<Rightarrow>
          do {
            n \<leftarrow> byte_at NEEDLE matched;
            Some (s\<lparr>us_state :=
              (if b = n
               then (if Suc matched = length NEEDLE then AwaitingColon else Searching (Suc matched))
               else Searching (if b = CHR 0x22 then 1 else 0))\<rparr>)
          }
      | AwaitingColon \<Rightarrow>
          Some (if b = CHR 0x3A then s\<lparr>us_state := AwaitingValue\<rparr>
                else if \<not> is_ascii_whitespace b then restart b s else s)
      | AwaitingValue \<Rightarrow>
          Some (if b = CHR 0x7B
                then s\<lparr>us_object := [CHR 0x7B], us_state := Capturing 1 False False\<rparr>
                else if b = CHR ''n'' then s\<lparr>us_state := SkippingNull 1\<rparr>
                else if \<not> is_ascii_whitespace b then restart b s else s)
      | SkippingNull matched \<Rightarrow>
          do {
            n \<leftarrow> byte_at NULL matched;
            Some (if b = n
                  then s\<lparr>us_state := (if Suc matched = length NULL then Searching 0 else SkippingNull (Suc matched))\<rparr>
                  else restart b s)
          }
      | Capturing depth in_string escaped \<Rightarrow> capture_byte from_slice b depth in_string escaped s)"

abbreviation feed :: "(string \<Rightarrow> UsageFields option) \<Rightarrow> string \<Rightarrow> UsageSniffer \<Rightarrow> UsageSniffer option" where
  "feed from_slice \<equiv> run_all (feed_byte from_slice)"

subsection \<open>Invariant\<close>

text \<open>The machine stays inside its tables and its buffer.\<close>

definition sniffer_inv :: "UsageSniffer \<Rightarrow> bool" where
  "sniffer_inv s \<longleftrightarrow>
     (case us_state s of
        Searching m \<Rightarrow> m < 7 \<and> us_object s = []
      | AwaitingColon \<Rightarrow> us_object s = []
      | AwaitingValue \<Rightarrow> us_object s = []
      | SkippingNull m \<Rightarrow> m < 4 \<and> us_object s = []
      | Capturing depth in_string escaped \<Rightarrow>
          0 < unat depth \<and> unat depth \<le> length (us_object s) \<and> length (us_object s) < MAX_OBJECT_BYTES)"

lemma depth_step:
  fixes d :: u32
  assumes "unat d < 4096"
  shows "checked_add d 1 = Some (d + 1)" and "unat (d + 1) = Suc (unat d)" and "d + 1 \<noteq> 0"
proof -
  show c: "checked_add d 1 = Some (d + 1)" using assms by (intro checked_add_eq_Some) simp
  show u: "unat (d + 1) = Suc (unat d)" using checked_add_Some_unat [OF c] by simp
  show "d + 1 \<noteq> 0"
  proof
    assume "d + 1 = 0"
    then have "unat (d + 1) = 0" by (simp only: unat_0)
    with u show False by simp
  qed
qed

lemma capture_scan_total:
  assumes "0 < unat depth" and "unat depth < 4096"
  shows "\<exists>r. capture_scan b depth ins esc = Some r \<and> unat (fst r) \<le> Suc (unat depth)"
proof -
  note step = depth_step [OF assms(2)]
  have ne: "depth \<noteq> 0" using assms(1) by auto
  have d: "depth \<noteq> 0" "unat (depth - 1) \<le> Suc (unat depth)"
    using ne unat_minus_one [OF ne] by simp_all
  show ?thesis
  proof (cases "\<not> ins \<and> b = CHR 0x7B")
    case True
    then show ?thesis using step by (auto simp: capture_scan_def)
  next
    case False
    then show ?thesis
      using d by (cases ins; cases esc; cases "b = CHR 0x22"; cases "b = CHR 0x7D"; cases "b = CHR 0x5C")
        (simp_all add: capture_scan_def)
  qed
qed

lemma feed_byte_inv:
  assumes "sniffer_inv s"
  shows "\<exists>s'. feed_byte from_slice b s = Some s' \<and> sniffer_inv s'"
proof (cases "us_state s")
  case (Capturing depth ins esc)
  with assms have len: "0 < unat depth" "unat depth \<le> length (us_object s)" "length (us_object s) < 4096"
    by (simp_all add: sniffer_inv_def MAX_OBJECT_BYTES_def)
  then obtain d i e where scan: "capture_scan b depth ins esc = Some (d, i, e)" "unat d \<le> Suc (unat depth)"
    using capture_scan_total [of depth b ins esc] by (metis fst_conv le_less_trans prod_cases3)
  have "d \<noteq> 0 \<Longrightarrow> 0 < unat d" by (simp add: unat_gt_0)
  with scan len Capturing show ?thesis
    by (auto simp: feed_byte_def capture_byte_def sniffer_inv_def finish_object_def MAX_OBJECT_BYTES_def Let_def)
qed (use assms in \<open>auto simp: feed_byte_def byte_at_def NEEDLE_def NULL_def sniffer_inv_def restart_def
    MAX_OBJECT_BYTES_def\<close>)

lemma feed_inv:
  assumes "sniffer_inv s"
  shows "\<exists>s'. feed from_slice bytes s = Some s' \<and> sniffer_inv s'"
  using assms
proof (induction bytes arbitrary: s)
  case (Cons b bytes)
  then show ?case using feed_byte_inv [OF Cons.prems, of from_slice b] by auto
qed simp

subsection \<open>What counts as an object\<close>

text \<open>
  The inside of a string literal, and text whose braces balance outside of string literals.
\<close>

inductive string_body :: "string \<Rightarrow> bool" where
  string_end: "string_body []"
| plain: "string_body t \<Longrightarrow> c \<noteq> CHR 0x22 \<Longrightarrow> c \<noteq> CHR 0x5C \<Longrightarrow> string_body (c # t)"
| escape: "string_body t \<Longrightarrow> string_body (CHR 0x5C # c # t)"

inductive balanced :: "string \<Rightarrow> bool" where
  empty_text: "balanced []"
| other: "balanced t \<Longrightarrow> c \<notin> {CHR 0x22, CHR 0x7B, CHR 0x7D} \<Longrightarrow> balanced (c # t)"
| literal: "string_body l \<Longrightarrow> balanced t \<Longrightarrow> balanced (CHR 0x22 # l @ CHR 0x22 # t)"
| nested: "balanced l \<Longrightarrow> balanced t \<Longrightarrow> balanced (CHR 0x7B # l @ CHR 0x7D # t)"

subsection \<open>Lemmas: capturing\<close>

lemma feed_append: "feed from_slice (a @ b) s = Option.bind (feed from_slice a s) (feed from_slice b)"
  by (rule run_all_append)

definition grown :: "UsageSniffer \<Rightarrow> SnifferState \<Rightarrow> string \<Rightarrow> UsageSniffer" where
  "grown s st t = s\<lparr>us_state := st, us_object := us_object s @ t\<rparr>"

lemma grown_fields [simp]:
  "us_state (grown s st t) = st" "us_object (grown s st t) = us_object s @ t"
  "us_latest (grown s st t) = us_latest s" "grown (grown s st t) st' t' = grown s st' (t @ t')"
  by (simp_all add: grown_def)

text \<open>A byte that neither closes the object nor fills the buffer is appended.\<close>

lemma capture_one:
  assumes "us_state s = Capturing d ins esc" and "capture_scan b d ins esc = Some (d', ins', esc')"
    and "d' \<noteq> 0" and "Suc (length (us_object s)) < 4096"
  shows "feed_byte from_slice b s = Some (grown s (Capturing d' ins' esc') [b])"
  using assms by (simp add: feed_byte_def capture_byte_def MAX_OBJECT_BYTES_def grown_def Let_def)

lemma capture_string:
  assumes "string_body t" and "us_state s = Capturing d True False" and "d \<noteq> 0"
    and "length (us_object s) + length t < 4096"
  shows "feed from_slice t s = Some (grown s (Capturing d True False) t)"
  using assms
proof (induction arbitrary: s rule: string_body.induct)
  case string_end
  then show ?case by (simp add: grown_def)
next
  case (plain t c)
  have "feed_byte from_slice c s = Some (grown s (Capturing d True False) [c])"
    by (rule capture_one [OF plain.prems(1)]) (use plain in \<open>simp_all add: capture_scan_def\<close>)
  with plain.IH [of "grown s (Capturing d True False) [c]"] plain.prems show ?case by simp
next
  case (escape t c)
  let ?s1 = "grown s (Capturing d True True) [CHR 0x5C]"
  have "feed_byte from_slice (CHR 0x5C) s = Some ?s1"
    by (rule capture_one [OF escape.prems(1)]) (use escape.prems in \<open>simp_all add: capture_scan_def\<close>)
  moreover have "feed_byte from_slice c ?s1 = Some (grown ?s1 (Capturing d True False) [c])"
    by (rule capture_one [of _ d True True]) (use escape.prems in \<open>simp_all add: capture_scan_def\<close>)
  ultimately show ?case
    using escape.IH [of "grown s (Capturing d True False) [CHR 0x5C, c]"] escape.prems by simp
qed

lemma capture_balanced:
  assumes "balanced t" and "us_state s = Capturing d False False" and "0 < unat d"
    and "unat d \<le> length (us_object s)" and "length (us_object s) + length t < 4096"
  shows "feed from_slice t s = Some (grown s (Capturing d False False) t)"
  using assms
proof (induction arbitrary: s d rule: balanced.induct)
  case empty_text
  then show ?case by (simp add: grown_def)
next
  case (other t c)
  have "feed_byte from_slice c s = Some (grown s (Capturing d False False) [c])"
    by (rule capture_one [OF other.prems(1)]) (use other in \<open>auto simp: capture_scan_def\<close>)
  with other.IH [of "grown s (Capturing d False False) [c]" d] other.prems show ?case by simp
next
  case (literal l t)
  have d: "d \<noteq> 0" using literal.prems(2) by auto
  let ?s1 = "grown s (Capturing d True False) [CHR 0x22]"
  let ?s2 = "grown s (Capturing d True False) (CHR 0x22 # l)"
  let ?s3 = "grown s (Capturing d False False) (CHR 0x22 # l @ [CHR 0x22])"
  have "feed_byte from_slice (CHR 0x22) s = Some ?s1"
    by (rule capture_one [OF literal.prems(1)]) (use literal.prems d in \<open>simp_all add: capture_scan_def\<close>)
  moreover have "feed from_slice l ?s1 = Some ?s2"
    using capture_string [OF literal.hyps(1), of ?s1 d from_slice] d literal.prems by simp
  moreover have "feed_byte from_slice (CHR 0x22) ?s2 = Some ?s3"
    using capture_one [of ?s2 d True False "CHR 0x22" d False False from_slice] d literal.prems
    by (simp add: capture_scan_def)
  ultimately show ?case
    using literal.IH [of ?s3 d] literal.prems by (simp add: feed_append)
next
  case (nested l t)
  have small: "unat d < 4096" using nested.prems by simp
  note step = depth_step [OF small]
  let ?s1 = "grown s (Capturing (d + 1) False False) [CHR 0x7B]"
  let ?s2 = "grown s (Capturing (d + 1) False False) (CHR 0x7B # l)"
  let ?s3 = "grown s (Capturing d False False) (CHR 0x7B # l @ [CHR 0x7D])"
  have d: "d \<noteq> 0" using nested.prems(2) by auto
  have "feed_byte from_slice (CHR 0x7B) s = Some ?s1"
    by (rule capture_one [OF nested.prems(1)]) (use nested.prems step in \<open>simp_all add: capture_scan_def\<close>)
  moreover have "feed from_slice l ?s1 = Some ?s2"
    using nested.IH(1) [of ?s1 "d + 1"] nested.prems step by simp
  moreover have "feed_byte from_slice (CHR 0x7D) ?s2 = Some ?s3"
    using capture_one [of ?s2 "d + 1" False False "CHR 0x7D" d False False from_slice] d nested.prems step(3)
    by (simp add: capture_scan_def)
  ultimately show ?case
    using nested.IH(2) [of ?s3 d] nested.prems by (simp add: feed_append)
qed

lemma feed_whitespace:
  assumes "list_all is_ascii_whitespace ws" and "us_state s \<in> {AwaitingColon, AwaitingValue}"
  shows "feed from_slice ws s = Some s"
  using assms(1)
proof (induction ws)
  case (Cons b ws)
  have w: "is_ascii_whitespace b" using Cons.prems by simp
  have "\<not> is_ascii_whitespace (CHR 0x3A)" "\<not> is_ascii_whitespace (CHR 0x7B)" "\<not> is_ascii_whitespace (CHR ''n'')"
    by (simp_all add: is_ascii_whitespace_def byte_def)
  with w have "b \<noteq> CHR 0x3A" "b \<noteq> CHR 0x7B" "b \<noteq> CHR ''n''" by metis+
  with w assms(2) have "feed_byte from_slice b s = Some s"
    by (cases "us_state s") (simp_all add: feed_byte_def)
  with Cons show ?case by simp
qed simp

lemma feed_needle:
  assumes "us_state s = Searching m" and "m < 6"
  shows "feed from_slice NEEDLE s = Some (s\<lparr>us_state := AwaitingColon\<rparr>)"
proof -
  have "m = 0 \<or> m = 1 \<or> m = 2 \<or> m = 3 \<or> m = 4 \<or> m = 5" using assms(2) by presburger
  then have start: "feed_byte from_slice (CHR 0x22) s = Some (s\<lparr>us_state := Searching 1\<rparr>)"
    using assms(1) by (elim disjE) (simp_all add: feed_byte_def byte_at_def NEEDLE_def)
  have step: "feed_byte from_slice (NEEDLE ! k) (s\<lparr>us_state := Searching k\<rparr>) =
      Some (s\<lparr>us_state := (if k = 6 then AwaitingColon else Searching (Suc k))\<rparr>)" if "k < 7" for k
    using that by (simp add: feed_byte_def byte_at_def) (simp add: NEEDLE_def)
  have needle: "NEEDLE = CHR 0x22 # map ((!) NEEDLE) [1, 2, 3, 4, 5, 6]" by (simp add: NEEDLE_def)
  have "feed from_slice (map ((!) NEEDLE) [1, 2, 3, 4, 5, 6]) (s\<lparr>us_state := Searching 1\<rparr>) =
      Some (s\<lparr>us_state := AwaitingColon\<rparr>)"
    using step [of 1] step [of 2] step [of 3] step [of 4] step [of 5] step [of 6] by (simp add: numeral_eq_Suc)
  with start show ?thesis by (subst needle) simp
qed

subsection \<open>Properties\<close>

text \<open>
  C28. Whatever a backend sends, the scanner neither panics nor grows: on every byte
  sequence every table access is in range, the depth neither underflows nor overflows, and
  fewer than 4096 bytes are buffered. How the body is cut into frames makes no difference.
\<close>

theorem sniffer_bounded:
  "(\<exists>s. feed from_slice bytes sniffer_new = Some s \<and> sniffer_inv s \<and> length (us_object s) < 4096) \<and>
   run_all (feed from_slice) frames s0 = feed from_slice (concat frames) s0"
proof
  have "sniffer_inv sniffer_new" by (simp add: sniffer_inv_def sniffer_new_def)
  then obtain s where s: "feed from_slice bytes sniffer_new = Some s" "sniffer_inv s" using feed_inv by blast
  moreover have "length (us_object s) < 4096"
    using s(2) by (auto simp: sniffer_inv_def MAX_OBJECT_BYTES_def split: SnifferState.splits)
  ultimately show "\<exists>s. feed from_slice bytes sniffer_new = Some s \<and> sniffer_inv s \<and> length (us_object s) < 4096"
    by blast
  show "run_all (feed from_slice) frames s0 = feed from_slice (concat frames) s0"
  proof (induction frames arbitrary: s0)
    case (Cons a frames)
    then show ?case by (cases "feed from_slice a s0") (simp_all add: feed_append)
  qed simp
qed

text \<open>
  C29. The scanner finds the token counts. Wherever a response reaches the field name
  \<open>"usage"\<close> followed by a colon, with any white space around it, and an object of at most
  4096 bytes whose braces balance outside of string literals, exactly that object is handed
  to the decoder; if it decodes to counts they become the latest ones, otherwise the latest
  ones stay, and the scan goes on.
\<close>

theorem sniffer_finds_usage:
  assumes "feed from_slice before sniffer_new = Some s" and "us_state s = Searching m" and "m < 6"
    and "list_all is_ascii_whitespace ws1" and "list_all is_ascii_whitespace ws2"
    and "balanced body" and "length body \<le> 4094"
  shows "\<exists>s'. feed from_slice (before @ NEEDLE @ ws1 @ '':'' @ ws2 @ CHR 0x7B # body @ [CHR 0x7D]) sniffer_new = Some s' \<and>
    us_state s' = Searching 0 \<and>
    us_latest s' = (case from_slice (CHR 0x7B # body @ [CHR 0x7D]) of
        None \<Rightarrow> us_latest s
      | Some f \<Rightarrow> if is_informative (usage_of f) then Some (usage_of f) else us_latest s)"
proof -
  let ?s1 = "s\<lparr>us_state := AwaitingColon\<rparr>" and ?s2 = "s\<lparr>us_state := AwaitingValue\<rparr>"
  let ?s3 = "s\<lparr>us_state := Capturing 1 False False, us_object := [CHR 0x7B]\<rparr>"
  let ?s4 = "grown ?s3 (Capturing 1 False False) body"
  have "feed_byte from_slice (CHR 0x3A) ?s1 = Some ?s2" by (simp add: feed_byte_def)
  moreover have "feed_byte from_slice (CHR 0x7B) ?s2 = Some ?s3" by (simp add: feed_byte_def)
  moreover have "feed from_slice body ?s3 = Some ?s4"
    by (rule capture_balanced [OF assms(6)]) (use assms(7) in simp_all)
  moreover have "feed_byte from_slice (CHR 0x7D) ?s4 =
      Some (finish_object from_slice (grown ?s4 (Capturing 0 False False) [CHR 0x7D]))"
    by (simp add: feed_byte_def capture_byte_def capture_scan_def grown_def Let_def)
  ultimately have "feed from_slice (before @ NEEDLE @ ws1 @ '':'' @ ws2 @ CHR 0x7B # body @ [CHR 0x7D]) sniffer_new =
      Some (finish_object from_slice (grown ?s4 (Capturing 0 False False) [CHR 0x7D]))"
    using assms(1) feed_needle [OF assms(2,3)] feed_whitespace [OF assms(4), of ?s1] feed_whitespace [OF assms(5), of ?s2]
    by (simp add: feed_append)
  then show ?thesis by (simp add: finish_object_def Let_def split: option.split)
qed

theorem sniffer_finds_usage_witness:
  "\<exists>s'. feed (\<lambda>_. Some \<lparr>uf_prompt_tokens = Some 3, uf_completion_tokens = Some 4, uf_input_tokens = None,
        uf_output_tokens = None, uf_total_tokens = Some 7, uf_prompt_details = None, uf_input_details = None\<rparr>)
      (''{'' @ NEEDLE @ '':'' @ '' '' @ CHR 0x7B # ''x'' @ [CHR 0x7D]) sniffer_new = Some s' \<and>
     map_option total_tokens (us_latest s') = Some (Some 7)"
proof -
  let ?p = "\<lambda>_ :: string. Some \<lparr>uf_prompt_tokens = Some (3 :: u64), uf_completion_tokens = Some 4, uf_input_tokens = None,
        uf_output_tokens = None, uf_total_tokens = Some 7, uf_prompt_details = None, uf_input_details = None\<rparr>"
  have a: "feed ?p ''{'' sniffer_new = Some sniffer_new" "us_state sniffer_new = Searching 0"
    by (simp_all add: feed_byte_def sniffer_new_def byte_at_def NEEDLE_def)
  have "balanced ''x''" by (intro balanced.intros) simp
  with sniffer_finds_usage [OF a, of "[]" "'' ''" "''x''"] show ?thesis
    by (auto simp: is_ascii_whitespace_def byte_def is_informative_def usage_of_def)
qed

end
