(* ===== verification/Timestamps.thy ===== *)
theory Timestamps
  imports Rust_Strings
begin

text \<open>
  The text of a point in time in the audit log (\<open>format_timestamp\<close> and \<open>civil_from_days\<close> of
  \<open>src/src/logging.rs\<close>), and the calendar it is checked against. The 64-bit values are
  integers here: the largest time divided by the length of a day is far from the bounds.
\<close>

subsection \<open>The code\<close>

definition civil_from_days :: "int \<Rightarrow> int \<times> int \<times> int" where
  "civil_from_days days =
     (let shifted = days + 719468;
          era = shifted div 146097;
          day_of_era = shifted mod 146097;
          year_of_era =
            (day_of_era - day_of_era div 1460 + day_of_era div 36524 - day_of_era div 146096) div 365;
          year = year_of_era + era * 400;
          day_of_year = day_of_era - (365 * year_of_era + year_of_era div 4 - year_of_era div 100);
          shifted_month = (5 * day_of_year + 2) div 153;
          day = day_of_year - (153 * shifted_month + 2) div 5 + 1;
          month = (if shifted_month < 10 then shifted_month + 3 else shifted_month - 9) in
      (year + (if month \<le> 2 then 1 else 0), month, day))"

text \<open>A number of at least that many digits: the format \<open>{:0w}\<close>.\<close>

definition padded :: "nat \<Rightarrow> nat \<Rightarrow> string" where
  "padded w n = replicate (w - length (show_nat n)) (CHR ''0'') @ show_nat n"

definition format_timestamp :: "u64 \<Rightarrow> string" where
  "format_timestamp unix_ms =
     (let seconds = unat unix_ms div 1000;
          millis = unat unix_ms mod 1000;
          (year, month, day) = civil_from_days (int (seconds div 86400));
          time = seconds mod 86400 in
      padded 4 (nat year) @ ''-'' @ padded 2 (nat month) @ ''-'' @ padded 2 (nat day) @ ''T'' @
      padded 2 (time div 3600) @ '':'' @ padded 2 (time mod 3600 div 60) @ '':'' @
      padded 2 (time mod 60) @ ''.'' @ padded 3 millis @ ''Z'')"

subsection \<open>The calendar\<close>

definition leap :: "int \<Rightarrow> bool" where
  "leap y \<longleftrightarrow> y mod 4 = 0 \<and> (y mod 100 \<noteq> 0 \<or> y mod 400 = 0)"

definition month_length :: "int \<Rightarrow> int \<Rightarrow> int" where
  "month_length y m = (if m = 2 then (if leap y then 29 else 28)
     else if m \<in> {4, 6, 9, 11} then 30 else 31)"

definition next_day :: "int \<times> int \<times> int \<Rightarrow> int \<times> int \<times> int" where
  "next_day = (\<lambda>(y, m, d).
     if d < month_length y m then (y, m, d + 1)
     else if m < 12 then (y, m + 1, 1)
     else (y + 1, 1, 1))"

subsection \<open>Years\<close>

text \<open>The first day of a year of an era of 400 years beginning in March, and the day after it.\<close>

definition year_begin :: "int \<Rightarrow> int" where
  "year_begin y = 365 * y + y div 4 - y div 100"

definition year_end :: "int \<Rightarrow> int" where
  "year_end y = (if y = 399 then 146097 else year_begin (y + 1))"

definition numerator :: "int \<Rightarrow> int" where
  "numerator d = d - d div 1460 + d div 36524 - d div 146096"

lemma step_le:
  fixes d a a' b b' c c' :: int
  assumes "a' \<le> a + 1" and "b \<le> b'" and "c = 0" and "c' = 0"
  shows "d - a + b - c \<le> d + 1 - a' + b' - c'"
  using assms by simp

lemma numerator_step:
  assumes "0 \<le> d" and "d < 146096"
  shows "numerator d \<le> numerator (d + 1)"
proof (cases "d + 1 = 146096")
  case True
  then have d: "d = 146095" by simp
  show ?thesis unfolding d numerator_def by simp
next
  case False
  with assms have "d div 146096 = 0" "(d + 1) div 146096 = 0" by simp_all
  moreover have "(d + 1) div 1460 \<le> d div 1460 + 1"
    using zdiv_mono1 [of "d + 1" "d + 1460" 1460] by simp
  moreover have "d div 36524 \<le> (d + 1) div 36524" by (rule zdiv_mono1) simp_all
  ultimately show ?thesis unfolding numerator_def by (rule step_le [rotated 2])
qed

lemma numerator_mono:
  assumes "0 \<le> a" and "a \<le> b" and "b \<le> 146096"
  shows "numerator a \<le> numerator b"
  using assms(2,3,1)
proof (induction rule: int_ge_induct)
  case (step i)
  then show ?case using numerator_step [of i] by simp
qed simp

text \<open>The two ends of each of the 400 years, by computation.\<close>

lemma year_ends:
  "list_all (\<lambda>y. numerator (year_begin y) div 365 = y \<and> numerator (year_end y - 1) div 365 = y \<and>
     0 \<le> year_begin y \<and> year_end y \<le> 146097 \<and>
     (year_end y - year_begin y = (if leap (y + 1) then 366 else 365))) (map int [0..<400])"
  by code_simp


lemma year_facts:
  assumes "0 \<le> y" and "y < 400"
  shows "numerator (year_begin y) div 365 = y" "numerator (year_end y - 1) div 365 = y"
    "0 \<le> year_begin y" "year_end y \<le> 146097"
    "year_end y - year_begin y = (if leap (y + 1) then 366 else 365)"
proof -
  from assms have "y \<in> set (map int [0..<400])"
    using zero_le_imp_eq_int [of y] by auto
  then show "numerator (year_begin y) div 365 = y" "numerator (year_end y - 1) div 365 = y"
    "0 \<le> year_begin y" "year_end y \<le> 146097"
    "year_end y - year_begin y = (if leap (y + 1) then 366 else 365)"
    using year_ends unfolding list_all_iff by blast+
qed

text \<open>The division finds the year a day of the era lies in.\<close>

lemma year_of_era:
  assumes "0 \<le> doe" and "doe < 146097"
  defines "y \<equiv> numerator doe div 365"
  shows "0 \<le> y" "y < 400" "year_begin y \<le> doe" "doe < year_end y"
proof -
  have mono: "numerator a div 365 \<le> numerator b div 365" if "0 \<le> a" "a \<le> b" "b \<le> 146096" for a b
    using numerator_mono [OF that] by (rule zdiv_mono1) simp
  have "numerator 0 div 365 = 0" "numerator 146096 div 365 = 399" by (simp_all add: numerator_def)
  with mono [of 0 doe] mono [of doe 146096] assms show y: "0 \<le> y" "y < 400" by simp_all
  show "year_begin y \<le> doe"
  proof (rule ccontr)
    assume less: "\<not> year_begin y \<le> doe"
    have "y \<noteq> 0" using less assms(1) by (auto simp: year_begin_def)
    then have p: "0 \<le> y - 1" "y - 1 < 400" "year_end (y - 1) = year_begin y"
      using y by (auto simp: year_end_def)
    with less have "doe \<le> year_end (y - 1) - 1" by simp
    with assms(1) year_facts(4) [OF p(1,2)] have "y \<le> numerator (year_end (y - 1) - 1) div 365"
      unfolding y_def by (intro mono) simp_all
    then show False using year_facts(2) [OF p(1,2)] by simp
  qed
  show "doe < year_end y"
  proof (rule ccontr)
    assume less: "\<not> doe < year_end y"
    then have "y \<noteq> 399" using assms(2) by (auto simp: year_end_def)
    then have p: "0 \<le> y + 1" "y + 1 < 400" "year_end y = year_begin (y + 1)"
      using y by (auto simp: year_end_def)
    with less assms(2) year_facts(3) [OF p(1,2)] have "numerator (year_begin (y + 1)) div 365 \<le> y"
      unfolding y_def by (intro mono) simp_all
    then show False using year_facts(1) [OF p(1,2)] by simp
  qed
qed

text \<open>A year of the era and the day in it determine the day.\<close>

lemma year_of_day:
  assumes "0 \<le> y" and "y < 400" and "year_begin y \<le> doe" and "doe < year_end y"
  shows "numerator doe div 365 = y"
proof (rule antisym)
  have "numerator doe \<le> numerator (year_end y - 1)" "numerator (year_begin y) \<le> numerator doe"
    using assms year_facts(3,4) [OF assms(1,2)] by (auto intro: numerator_mono)
  then have "numerator doe div 365 \<le> numerator (year_end y - 1) div 365"
    "numerator (year_begin y) div 365 \<le> numerator doe div 365"
    by (auto intro: zdiv_mono1)
  then show "numerator doe div 365 \<le> y" "y \<le> numerator doe div 365"
    using year_facts(1,2) [OF assms(1,2)] by simp_all
qed

subsection \<open>Days of a year\<close>

text \<open>Month and day of a day of a year that begins in March.\<close>

definition month_day :: "int \<Rightarrow> int \<times> int" where
  "month_day doy =
     (let sm = (5 * doy + 2) div 153 in
      (if sm < 10 then sm + 3 else sm - 9, doy - (153 * sm + 2) div 5 + 1))"

definition follows :: "int \<Rightarrow> int \<times> int \<Rightarrow> int \<times> int \<Rightarrow> bool" where
  "follows doy = (\<lambda>(m, d) (m', d').
     if m = 2 then doy = 336 + d \<and> 1 \<le> d \<and> d \<le> 29 \<and> (doy < 365 \<longrightarrow> m' = 2 \<and> d' = d + 1)
     else if m = 1 \<and> d = 31 then m' = 2 \<and> d' = 1
     else if d < month_length 1 m then m' = m \<and> d' = d + 1 \<and> 1 \<le> m \<and> m \<le> 12
     else d = month_length 1 m \<and>
       (if m < 12 then 3 \<le> m \<and> m' = m + 1 \<and> d' = 1 else m = 12 \<and> m' = 1 \<and> d' = 1))"

lemma month_days: "list_all (\<lambda>doy. follows doy (month_day doy) (month_day (doy + 1))) (map int [0..<366])"
  by code_simp

lemma month_day_follows:
  assumes "0 \<le> doy" and "doy < 366"
  shows "follows doy (month_day doy) (month_day (doy + 1))"
proof -
  from assms have "doy \<in> set (map int [0..<366])" using zero_le_imp_eq_int [of doy] by auto
  with month_days show ?thesis unfolding list_all_iff by (rule bspec)
qed

definition civil_of :: "int \<Rightarrow> int \<Rightarrow> int \<times> int \<times> int" where
  "civil_of y doy = (case month_day doy of (m, d) \<Rightarrow> (y + (if m \<le> 2 then 1 else 0), m, d))"

lemma month_length_other: "m \<noteq> 2 \<Longrightarrow> month_length y m = month_length 1 m"
  by (simp add: month_length_def)

lemma civil_of_next:
  assumes "0 \<le> doy" and "doy + 1 < (if leap (y + 1) then 366 else 365)"
  shows "next_day (civil_of y doy) = civil_of y (doy + 1)"
proof -
  obtain m d m' d' where md: "month_day doy = (m, d)" "month_day (doy + 1) = (m', d')" by fastforce
  have doy: "doy < 366" using assms(2) by (simp split: if_splits)
  have facts: "follows doy (m, d) (m', d')" using month_day_follows [OF assms(1) doy] by (simp only: md)
  have civil: "civil_of y doy = (y + (if m \<le> 2 then 1 else 0), m, d)"
    "civil_of y (doy + 1) = (y + (if m' \<le> 2 then 1 else 0), m', d')"
    by (simp_all add: civil_of_def md)
  consider "m = 2" | "m = 1" "d = 31" | "m \<noteq> 2" "\<not> (m = 1 \<and> d = 31)" by blast
  then show ?thesis
  proof cases
    case 1
    with facts assms(2) have "d < month_length (y + 1) 2" "doy < 365"
      by (auto simp: month_length_def follows_def split: if_splits)
    with 1 facts show ?thesis unfolding civil by (simp add: next_day_def follows_def)
  next
    case 2
    with facts show ?thesis unfolding civil by (simp add: next_day_def month_length_def follows_def)
  next
    case 3
    with facts month_length_other [OF 3(1), of y] month_length_other [OF 3(1), of "y + 1"] show ?thesis
      unfolding civil by (auto simp: next_day_def follows_def split: if_splits)
  qed
qed

lemma civil_of_last:
  assumes "doy + 1 = (if leap (y + 1) then 366 else 365)"
  shows "next_day (civil_of y doy) = civil_of (y + 1) 0"
proof (cases "leap (y + 1)")
  case True
  then have "doy = 365" using assms by simp
  then have "month_day doy = (2, 29)" by (simp add: month_day_def)
  with True show ?thesis by (simp add: civil_of_def next_day_def month_length_def month_day_def)
next
  case False
  then have "doy = 364" using assms by simp
  then have "month_day doy = (2, 28)" by (simp add: month_day_def)
  with False show ?thesis by (simp add: civil_of_def next_day_def month_length_def month_day_def)
qed

lemma leap_era: "leap (y + era * 400) = leap y"
proof -
  have "(y + era * 400) mod 400 = y mod 400" by simp
  moreover have "(y + era * 400) mod 100 = y mod 100"
    using mod_mult_self2 [of y 100 "era * 4"] by (simp add: algebra_simps)
  moreover have "(y + era * 400) mod 4 = y mod 4"
    using mod_mult_self2 [of y 4 "era * 100"] by (simp add: algebra_simps)
  ultimately show ?thesis by (simp only: leap_def)
qed

text \<open>The code on a day given by its era, its year in the era and its day in the era.\<close>

lemma civil_from_era:
  assumes "days + 719468 = era * 146097 + doe" and "0 \<le> doe" and "doe < 146097"
    and "0 \<le> y" and "y < 400" and "year_begin y \<le> doe" and "doe < year_end y"
  shows "civil_from_days days = civil_of (y + era * 400) (doe - year_begin y)"
proof -
  have d: "(days + 719468) div 146097 = era" "(days + 719468) mod 146097 = doe"
    unfolding assms(1) using assms(2,3) by (simp_all add: mod_pos_pos_trivial div_pos_pos_trivial)
  have y: "(doe - doe div 1460 + doe div 36524 - doe div 146096) div 365 = y"
    using year_of_day [OF assms(4-7)] by (simp only: numerator_def)
  show ?thesis
    unfolding civil_from_days_def Let_def d y civil_of_def month_day_def year_begin_def
    by (simp only: prod.case)
qed

lemma civil_from_days_next: "civil_from_days (days + 1) = next_day (civil_from_days days)"
proof -
  define era where "era = (days + 719468) div 146097"
  define doe where "doe = (days + 719468) mod 146097"
  define y where "y = numerator doe div 365"
  have days: "days + 719468 = era * 146097 + doe" by (simp add: era_def doe_def)
  have doe: "0 \<le> doe" "doe < 146097" by (simp_all add: doe_def)
  note y = year_of_era [OF doe, folded y_def]
  note here = civil_from_era [OF days doe y]
  have len: "year_end y - year_begin y = (if leap (y + era * 400 + 1) then 366 else 365)"
    using year_facts(5) [OF y(1,2)] leap_era [of "y + 1" era] by (simp add: algebra_simps)
  show ?thesis
  proof (cases "doe + 1 < year_end y")
    case True
    have "civil_from_days (days + 1) = civil_of (y + era * 400) (doe + 1 - year_begin y)"
      using days doe y True year_facts(4) [OF y(1,2)] by (intro civil_from_era) simp_all
    with here len True y(3) show ?thesis
      using civil_of_next [of "doe - year_begin y" "y + era * 400"] by (simp add: algebra_simps)
  next
    case False
    with y(4) have last: "doe + 1 = year_end y" by simp
    with len have e: "next_day (civil_from_days days) = civil_of (y + era * 400 + 1) 0"
      unfolding here by (intro civil_of_last) simp
    show ?thesis
    proof (cases "y = 399")
      case True
      have "civil_from_days (days + 1) = civil_of (0 + (era + 1) * 400) (0 - year_begin 0)"
        using days last True
        by (intro civil_from_era) (simp_all add: year_begin_def year_end_def)
      with e True show ?thesis by (simp add: year_begin_def algebra_simps)
    next
      case False
      then have n: "0 \<le> y + 1" "y + 1 < 400" "year_end y = year_begin (y + 1)"
        using y by (auto simp: year_end_def)
      have "year_begin (y + 1) < year_end (y + 1)"
        using year_facts(5) [OF n(1,2)] by (simp split: if_splits)
      then have "civil_from_days (days + 1) = civil_of (y + 1 + era * 400) (year_begin (y + 1) - year_begin (y + 1))"
        using days last n year_facts(3,4) [OF n(1,2)] by (intro civil_from_era) simp_all
      with e show ?thesis by (simp add: algebra_simps)
    qed
  qed
qed

lemma civil_from_days_iterate: "civil_from_days (int n) = (next_day ^^ n) (1970, 1, 1)"
proof (induction n)
  case 0
  have "civil_from_days 0 = civil_of (369 + 4 * 400) (135080 - year_begin 369)"
    by (rule civil_from_era) (simp_all add: year_begin_def year_end_def)
  then show ?case by (simp add: civil_of_def month_day_def year_begin_def)
next
  case (Suc n)
  then show ?case using civil_from_days_next [of "int n"] by (simp add: algebra_simps)
qed

lemma time_of_day:
  fixes n :: nat
  defines "t \<equiv> n div 1000 mod 86400"
  shows "n mod 86400000 = ((t div 3600 * 60 + t mod 3600 div 60) * 60 + t mod 60) * 1000 + n mod 1000"
proof -
  have "n mod (1000 * 86400) = 1000 * t + n mod 1000" unfolding t_def by (rule mod_mult2_eq)
  moreover have "t = t div 3600 * 3600 + t mod 3600" by (simp only: div_mult_mod_eq)
  moreover have "t mod 3600 = t mod 3600 div 60 * 60 + t mod 3600 mod 60" by (simp only: div_mult_mod_eq)
  moreover have "t mod 3600 mod 60 = t mod 60" by (simp add: mod_mod_cancel)
  ultimately have "n mod 86400000 = 1000 * (t div 3600 * 3600 + (t mod 3600 div 60 * 60 + t mod 60)) + n mod 1000"
    by simp
  then show ?thesis by (simp only: algebra_simps)
qed

subsection \<open>Property\<close>

text \<open>
  C24. A timestamp names the right moment: the date is the one reached from 1970-01-01 by
  walking the Gregorian calendar one day at a time, with its rule for leap years, and the
  hours, minutes, seconds and milliseconds are those of the rest of the day.
\<close>

theorem format_timestamp_calendar:
  "\<exists>y mo d h mi s ms.
     (next_day ^^ (unat t div 86400000)) (1970, 1, 1) = (y, mo, d) \<and>
     unat t mod 86400000 = ((h * 60 + mi) * 60 + s) * 1000 + ms \<and>
     h < 24 \<and> mi < 60 \<and> s < 60 \<and> ms < 1000 \<and>
     format_timestamp t = padded 4 (nat y) @ ''-'' @ padded 2 (nat mo) @ ''-'' @ padded 2 (nat d) @
       ''T'' @ padded 2 h @ '':'' @ padded 2 mi @ '':'' @ padded 2 s @ ''.'' @ padded 3 ms @ ''Z''"
proof -
  let ?n = "unat t" and ?time = "unat t div 1000 mod 86400"
  have day: "?n div 1000 div 86400 = ?n div 86400000" by (simp add: div_mult2_eq [symmetric])
  obtain y mo d where civil: "(next_day ^^ (?n div 86400000)) (1970, 1, 1) = (y, mo, d)"
    by (cases "(next_day ^^ (?n div 86400000)) (1970, 1, 1)")
  have fmt: "format_timestamp t = padded 4 (nat y) @ ''-'' @ padded 2 (nat mo) @ ''-'' @ padded 2 (nat d) @
       ''T'' @ padded 2 (?time div 3600) @ '':'' @ padded 2 (?time mod 3600 div 60) @ '':'' @
       padded 2 (?time mod 60) @ ''.'' @ padded 3 (?n mod 1000) @ ''Z''"
    unfolding format_timestamp_def Let_def day civil_from_days_iterate civil by (simp only: prod.case)
  show ?thesis
  proof (intro exI conjI)
    show "(next_day ^^ (?n div 86400000)) (1970, 1, 1) = (y, mo, d)" by (rule civil)
    show "?n mod 86400000 =
      ((?time div 3600 * 60 + ?time mod 3600 div 60) * 60 + ?time mod 60) * 1000 + ?n mod 1000"
      by (rule time_of_day)
    show "?time div 3600 < 24" by (rule less_mult_imp_div_less) simp
    show "?time mod 3600 div 60 < 60" by (rule less_mult_imp_div_less) simp
    show "?time mod 60 < 60" "?n mod 1000 < 1000" by simp_all
  qed (rule fmt)
qed

end
