(* ===== verification/Logging.thy ===== *)
theory Logging
  imports Routing Auth Usage_Sniffer Timestamps
begin

text \<open>
  The audit log (\<open>src/src/logging.rs\<close>): what is recorded of a request, the bounded channel
  from the request handlers to the writer thread with its admission limit, the bookkeeping of
  a response body, and the writer. Exactly one record is to be written per admitted request.

  Atomics and the channel are operated one call at a time; what other threads do between two
  calls of \<open>request_started\<close> is its argument \<open>env\<close>. The number of admitted requests is a
  64-bit word that wraps, as \<open>fetch_sub\<close> does. A permit is dropped with the value that
  carries it: with an event that is refused, or with an entry of the writer's map.
\<close>

subsection \<open>Text of header fields\<close>

text \<open>
  \<open>String::from_utf8_lossy\<close>: the number of bytes of the next sequence and whether it is well
  formed; a sequence that is not becomes one replacement character.
\<close>

definition utf8_sequence :: "nat \<Rightarrow> nat list \<Rightarrow> nat \<times> bool" where
  "utf8_sequence b rest =
     (if b < 128 then (1, True)
      else if 194 \<le> b \<and> b < 224 then
        (case rest of c # _ \<Rightarrow> if continuation c then (2, True) else (1, False) | [] \<Rightarrow> (1, False))
      else if 224 \<le> b \<and> b < 240 then
        (case rest of
           c # cs \<Rightarrow>
             if continuation c \<and> (b = 224 \<longrightarrow> 160 \<le> c) \<and> (b = 237 \<longrightarrow> c < 160)
             then (case cs of d # _ \<Rightarrow> if continuation d then (3, True) else (2, False) | [] \<Rightarrow> (2, False))
             else (1, False)
         | [] \<Rightarrow> (1, False))
      else if 240 \<le> b \<and> b < 245 then
        (case rest of
           c # cs \<Rightarrow>
             if continuation c \<and> (b = 240 \<longrightarrow> 144 \<le> c) \<and> (b = 244 \<longrightarrow> c < 144)
             then (case cs of
                 d # ds \<Rightarrow>
                   if continuation d
                   then (case ds of e # _ \<Rightarrow> if continuation e then (4, True) else (3, False) | [] \<Rightarrow> (3, False))
                   else (2, False)
               | [] \<Rightarrow> (2, False))
             else (1, False)
         | [] \<Rightarrow> (1, False))
      else (1, False))"

definition REPLACEMENT :: string where
  "REPLACEMENT = [CHR 0xEF, CHR 0xBF, CHR 0xBD]"

function from_utf8_lossy :: "string \<Rightarrow> string" where
  "from_utf8_lossy [] = []"
| "from_utf8_lossy (c # cs) =
     (let (n, ok) = utf8_sequence (byte c) (map byte cs) in
      (if ok then take n (c # cs) else REPLACEMENT) @ from_utf8_lossy (drop (n - 1) cs))"
  by pat_completeness auto
termination by (relation "measure length") auto

definition header_get :: "HeaderMap \<Rightarrow> string \<Rightarrow> string option" where
  "header_get headers name = (case get_all headers name of [] \<Rightarrow> None | v # _ \<Rightarrow> Some v)"

definition header_string :: "string option \<Rightarrow> string option" where
  "header_string v = map_option from_utf8_lossy v"

text \<open>\<open>u8::from_str_radix(hex, 16)\<close> on two bytes: a plus sign is allowed before a digit.\<close>

definition from_hex_pair :: "char \<Rightarrow> char \<Rightarrow> u8 option" where
  "from_hex_pair a b =
     (if from_utf8 [a, b] = None then None
      else if a = CHR ''+'' then hex_value b
      else do { hi \<leftarrow> hex_value a; lo \<leftarrow> hex_value b; Some (16 * hi + lo) })"

definition escaped_byte :: "char \<Rightarrow> string \<Rightarrow> char option" where
  "escaped_byte c rest =
     (if c = CHR 0x25
      then (case rest of a # b # _ \<Rightarrow> map_option (\<lambda>v. char_of (unat v)) (from_hex_pair a b) | _ \<Rightarrow> None)
      else None)"

function percent_bytes :: "string \<Rightarrow> string" where
  "percent_bytes [] = []"
| "percent_bytes (c # rest) =
     (case escaped_byte c rest of
        Some b \<Rightarrow> b # percent_bytes (drop 2 rest)
      | None \<Rightarrow> c # percent_bytes rest)"
  by pat_completeness auto
termination by (relation "measure length") auto

definition percent_decode :: "string \<Rightarrow> string" where
  "percent_decode value = from_utf8_lossy (percent_bytes value)"

text \<open>\<open>str::parse::<u64>\<close>.\<close>

definition parse_u64 :: "string \<Rightarrow> u64 option" where
  "parse_u64 s =
     (let ds = (case s of c # cs \<Rightarrow> if c = CHR ''+'' then cs else s | [] \<Rightarrow> []) in
      if ds \<noteq> [] \<and> all_digits ds \<and> digits_value ds < 2 ^ 64 then Some (of_nat (digits_value ds)) else None)"

subsection \<open>What is recorded of a request\<close>

type_synonym request_id = "128 word"
type_synonym socket_addr = "string \<times> 16 word"

datatype HttpVersion = HTTP_09 | HTTP_10 | HTTP_11 | HTTP_2 | HTTP_3 | HTTP_unknown

record 'u RequestParts =
  rp_method :: string
  rp_uri :: 'u
  rp_version :: HttpVersion
  rp_headers :: HeaderMap

record ResponseParts =
  rs_status :: nat
  rs_version :: HttpVersion
  rs_headers :: HeaderMap

datatype AuditAdmissionError = AuditUnavailable | AuditSaturated

datatype BodyOutcome = BodyComplete | BodyAborted | BodyAbandoned | BodyError string

fun describe :: "BodyOutcome \<Rightarrow> bool \<times> string \<times> string option" where
  "describe BodyComplete = (True, ''complete'', None)"
| "describe BodyAborted = (False, ''body_dropped'', None)"
| "describe BodyAbandoned = (False, ''client_disconnected'', None)"
| "describe (BodyError e) = (False, ''body_error'', Some e)"

record OpenWebUiUser =
  ow_name :: "string option"
  ow_id :: "string option"
  ow_chat_id :: "string option"

record 'u RequestInfo =
  ri_peer :: socket_addr
  ri_method :: string
  ri_uri :: 'u
  ri_version :: HttpVersion
  ri_host :: "string option"
  ri_user_agent :: "string option"
  ri_content_length :: "u64 option"
  ri_key_sha256 :: "string option"
  ri_identity :: "KeyIdentity option"
  ri_authorized :: bool
  ri_auth_error :: "string option"
  ri_openwebui_user :: "OpenWebUiUser option"

definition request_info :: "'u uri_api \<Rightarrow> socket_addr \<Rightarrow> 'u RequestParts \<Rightarrow> Authentication \<Rightarrow> 'u RequestInfo" where
  "request_info U peer parts auth =
     \<lparr>ri_peer = peer,
      ri_method = rp_method parts,
      ri_uri = rp_uri parts,
      ri_version = rp_version parts,
      ri_host = (case header_string (header_get (rp_headers parts) ''host'') of
          Some h \<Rightarrow> Some h | None \<Rightarrow> uri_authority U (rp_uri parts)),
      ri_user_agent = header_string (header_get (rp_headers parts) ''user-agent''),
      ri_content_length =
        Option.bind (header_string (header_get (rp_headers parts) ''content-length'')) parse_u64,
      ri_key_sha256 = au_key_sha256 auth,
      ri_identity = au_identity auth,
      ri_authorized = (au_result auth = Inr ()),
      ri_auth_error = (case au_result auth of Inl e \<Rightarrow> Some (auth_code e) | Inr _ \<Rightarrow> None),
      ri_openwebui_user = None\<rparr>"

definition with_openwebui_user :: "HeaderMap \<Rightarrow> string option \<Rightarrow> 'u RequestInfo \<Rightarrow> 'u RequestInfo" where
  "with_openwebui_user headers trusted_key info =
     (let trusted = (ri_authorized info \<and>
            (case trusted_key of
               None \<Rightarrow> False
             | Some name \<Rightarrow> (case ri_identity info of None \<Rightarrow> False | Some i \<Rightarrow> ki_name i = name))) in
      if \<not> trusted then info
      else
        (let user = \<lparr>ow_name = map_option percent_decode
                        (header_string (header_get headers ''x-openwebui-user-name'')),
                     ow_id = header_string (header_get headers ''x-openwebui-user-id''),
                     ow_chat_id = header_string (header_get headers ''x-openwebui-chat-id'')\<rparr> in
         if ow_name user \<noteq> None \<or> ow_id user \<noteq> None
         then info\<lparr>ri_openwebui_user := Some user\<rparr> else info))"

text \<open>\<open>None\<close>: the slice of the digest is not at a character boundary.\<close>

definition principal :: "'u RequestInfo \<Rightarrow> string option" where
  "principal info =
     (case (ri_identity info, ri_key_sha256 info) of
        (Some i, _) \<Rightarrow>
          Some (ki_name i @ ''['' @ ki_identifier i @ '']'' @
            (case Option.bind (ri_openwebui_user info) (\<lambda>u. or_else (ow_name u) (ow_id u)) of
               Some user \<Rightarrow> '':'' @ user
             | None \<Rightarrow> []))
      | (None, Some digest) \<Rightarrow>
          (let n = min 8 (length digest) in
           if is_char_boundary digest n then Some (''unknown['' @ take n digest @ '']'') else None)
      | (None, None) \<Rightarrow> Some ''anonymous'')"

record RoutingInfo =
  rf_backend_id :: "string option"
  rf_routing_policy :: "string option"
  rf_routing_reason :: "string option"
  rf_eligible_backend_count :: "nat option"
  rf_pressure :: "f64 option"
  rf_running :: "u64 option"
  rf_waiting :: "u64 option"
  rf_capacity :: "u64 option"
  rf_kv_pressure :: "f64 option"
  rf_metrics_age_ms :: "u64 option"
  rf_proxy_active :: "nat option"

definition routing_info_of :: "RoutingDecision \<Rightarrow> RoutingInfo" where
  "routing_info_of d =
     \<lparr>rf_backend_id = Some (dec_backend_id d),
      rf_routing_policy = Some (dec_policy d),
      rf_routing_reason = Some (dec_reason d),
      rf_eligible_backend_count = Some (dec_eligible d),
      rf_pressure = dec_pressure d,
      rf_running = dec_running d,
      rf_waiting = dec_waiting d,
      rf_capacity = dec_capacity d,
      rf_kv_pressure = dec_kv_pressure d,
      rf_metrics_age_ms = dec_metrics_age_ms d,
      rf_proxy_active = Some (dec_proxy_active d)\<rparr>"

definition routing_unavailable :: "string \<Rightarrow> RoutingInfo" where
  "routing_unavailable reason =
     \<lparr>rf_backend_id = None, rf_routing_policy = Some ''least-pressure-v1'',
      rf_routing_reason = Some reason, rf_eligible_backend_count = Some 0, rf_pressure = None,
      rf_running = None, rf_waiting = None, rf_capacity = None, rf_kv_pressure = None,
      rf_metrics_age_ms = None, rf_proxy_active = None\<rparr>"

fun version_string :: "HttpVersion \<Rightarrow> string" where
  "version_string HTTP_09 = ''HTTP/0.9''"
| "version_string HTTP_10 = ''HTTP/1.0''"
| "version_string HTTP_11 = ''HTTP/1.1''"
| "version_string HTTP_2 = ''HTTP/2.0''"
| "version_string HTTP_3 = ''HTTP/3.0''"
| "version_string HTTP_unknown = ''unknown''"

definition is_event_stream :: "(string \<Rightarrow> string option) \<Rightarrow> HeaderMap \<Rightarrow> bool" where
  "is_event_stream to_str headers =
     (case Option.bind (header_get headers ''content-type'') to_str of
        None \<Rightarrow> False
      | Some value \<Rightarrow>
          eq_ignore_ascii_case (trim (takeWhile (\<lambda>c. c \<noteq> CHR 0x3B) value)) ''text/event-stream'')"

subsection \<open>Events and the sender\<close>

definition AUDIT_REQUEST_SLOTS :: u64 where "AUDIT_REQUEST_SLOTS = 4096"
definition MAX_EVENTS_PER_REQUEST :: nat where "MAX_EVENTS_PER_REQUEST = 5"
definition FLUSH_INTERVAL :: duration where "FLUSH_INTERVAL = 100000000"

record BodyObservation =
  bo_first_byte_at_unix_ms :: "u64 option"
  bo_response_bytes :: u64
  bo_usage :: Usage

definition default_usage :: Usage where
  "default_usage = \<lparr>input_tokens = None, output_tokens = None, total_tokens = None, cached_tokens = None\<rparr>"

definition default_observation :: BodyObservation where
  "default_observation = \<lparr>bo_first_byte_at_unix_ms = None, bo_response_bytes = 0, bo_usage = default_usage\<rparr>"

text \<open>A \<open>RequestStarted\<close> event carries the permit of its request.\<close>

datatype 'u LogEvent =
    RequestStarted (event_id: request_id) u64 "'u RequestInfo"
  | ResponseStarted (event_id: request_id) nat bool
  | RequestError (event_id: request_id) string
  | RequestRouted (event_id: request_id) u64 RoutingInfo
  | ResponseFinished (event_id: request_id) u64 BodyOutcome BodyObservation

record 'u LogSender =
  tx_queue :: "'u LogEvent list"
  tx_connected :: bool
  lg_healthy :: bool
  lg_notified :: bool
  lg_admitted :: u64
  lg_request_slots :: u64
  lg_event_slots :: nat

text \<open>\<open>None\<close>: the assertion on the limit, or the exhausted capacity.\<close>

definition sender_new :: "u64 \<Rightarrow> 'u LogSender option" where
  "sender_new request_slots =
     (if request_slots = 0 then None
      else if 2 ^ 64 \<le> unat request_slots * MAX_EVENTS_PER_REQUEST then None
      else Some \<lparr>tx_queue = [], tx_connected = True, lg_healthy = True, lg_notified = False,
                 lg_admitted = 0, lg_request_slots = request_slots,
                 lg_event_slots = unat request_slots * MAX_EVENTS_PER_REQUEST\<rparr>)"

definition mark_failed :: "'u LogSender \<Rightarrow> 'u LogSender" where
  "mark_failed s = (if lg_healthy s then s\<lparr>lg_healthy := False, lg_notified := True\<rparr> else s)"

definition drop_audit_permit :: "'u LogSender \<Rightarrow> 'u LogSender" where
  "drop_audit_permit s = s\<lparr>lg_admitted := lg_admitted s - 1\<rparr>"

definition reserve_slot :: "'u LogSender \<Rightarrow> 'u LogSender option" where
  "reserve_slot s =
     (if lg_admitted s < lg_request_slots s then Some (s\<lparr>lg_admitted := lg_admitted s + 1\<rparr>) else None)"

datatype TrySend = Sent | ChannelFull | ChannelDisconnected

definition try_send :: "'u LogEvent \<Rightarrow> 'u LogSender \<Rightarrow> TrySend \<times> 'u LogSender" where
  "try_send ev s =
     (if \<not> tx_connected s then (ChannelDisconnected, s)
      else if length (tx_queue s) < lg_event_slots s then (Sent, s\<lparr>tx_queue := tx_queue s @ [ev]\<rparr>)
      else (ChannelFull, s))"

definition send :: "'u LogEvent \<Rightarrow> 'u LogSender \<Rightarrow> 'u LogSender" where
  "send ev s = (case try_send ev s of (r, s') \<Rightarrow> if r \<noteq> Sent then mark_failed s' else s')"

record RequestGuard =
  rg_id :: request_id
  rg_armed :: bool

text \<open>The end of \<open>request_started\<close>: the permit is reserved and the writer looked healthy.\<close>

definition enqueue_started ::
  "u64 \<Rightarrow> request_id \<Rightarrow> 'u RequestInfo \<Rightarrow> 'u LogSender
    \<Rightarrow> (AuditAdmissionError + RequestGuard) \<times> 'u LogSender" where
  "enqueue_started now i info s =
     (case try_send (RequestStarted i now info) s of
        (Sent, s') \<Rightarrow> (Inr \<lparr>rg_id = i, rg_armed = True\<rparr>, s')
      | (_, s') \<Rightarrow> (Inl AuditUnavailable, drop_audit_permit (mark_failed s')))"

definition request_started ::
  "(nat \<Rightarrow> 'u LogSender \<Rightarrow> 'u LogSender) \<Rightarrow> u64 \<Rightarrow> request_id \<Rightarrow> 'u RequestInfo \<Rightarrow> 'u LogSender
    \<Rightarrow> (AuditAdmissionError + RequestGuard) \<times> 'u LogSender" where
  "request_started env now i info s =
     (if \<not> lg_healthy s then (Inl AuditUnavailable, s)
      else case reserve_slot (env 0 s) of
        None \<Rightarrow> (Inl AuditSaturated, env 0 s)
      | Some s1 \<Rightarrow>
          (let s2 = env 1 s1 in
           if \<not> lg_healthy s2 then (Inl AuditUnavailable, drop_audit_permit s2)
           else enqueue_started now i info (env 2 s2)))"

definition response_started ::
  "(string \<Rightarrow> string option) \<Rightarrow> request_id \<Rightarrow> ResponseParts \<Rightarrow> 'u LogSender \<Rightarrow> 'u LogSender" where
  "response_started to_str i parts s =
     send (ResponseStarted i (rs_status parts) (is_event_stream to_str (rs_headers parts))) s"

definition request_error :: "request_id \<Rightarrow> string \<Rightarrow> 'u LogSender \<Rightarrow> 'u LogSender" where
  "request_error i error s = send (RequestError i error) s"

definition request_routed :: "u64 \<Rightarrow> request_id \<Rightarrow> RoutingInfo \<Rightarrow> 'u LogSender \<Rightarrow> 'u LogSender" where
  "request_routed now i routing s = send (RequestRouted i now routing) s"

definition response_finished ::
  "u64 \<Rightarrow> request_id \<Rightarrow> BodyOutcome \<Rightarrow> BodyObservation \<Rightarrow> 'u LogSender \<Rightarrow> 'u LogSender" where
  "response_finished now i outcome observation s = send (ResponseFinished i now outcome observation) s"

definition disarm :: "RequestGuard \<Rightarrow> RequestGuard" where
  "disarm g = g\<lparr>rg_armed := False\<rparr>"

definition drop_request_guard :: "u64 \<Rightarrow> RequestGuard \<Rightarrow> 'u LogSender \<Rightarrow> 'u LogSender" where
  "drop_request_guard now g s =
     (if rg_armed g then response_finished now (rg_id g) BodyAbandoned default_observation s else s)"

subsection \<open>The response body\<close>

record CompletionGuard =
  cg_id :: request_id
  cg_finished :: bool
  cg_first_byte_at_unix_ms :: "u64 option"
  cg_response_bytes :: u64
  cg_sniffer :: UsageSniffer

definition completion_finish ::
  "u64 \<Rightarrow> BodyOutcome \<Rightarrow> CompletionGuard \<Rightarrow> 'u LogSender \<Rightarrow> CompletionGuard \<times> 'u LogSender" where
  "completion_finish now outcome g s =
     (if cg_finished g then (g, s)
      else
        (g\<lparr>cg_finished := True\<rparr>,
         response_finished now (cg_id g) outcome
           \<lparr>bo_first_byte_at_unix_ms = cg_first_byte_at_unix_ms g,
            bo_response_bytes = cg_response_bytes g,
            bo_usage = (case us_latest (cg_sniffer g) of Some u \<Rightarrow> u | None \<Rightarrow> default_usage)\<rparr> s))"

text \<open>\<open>already_finished\<close> and \<open>ended\<close> are what \<open>is_end_stream\<close> of the inner body says.\<close>

definition observed_new ::
  "u64 \<Rightarrow> bool \<Rightarrow> request_id \<Rightarrow> 'u LogSender \<Rightarrow> CompletionGuard \<times> 'u LogSender" where
  "observed_new now already_finished i s =
     (let g = \<lparr>cg_id = i, cg_finished = False, cg_first_byte_at_unix_ms = None,
               cg_response_bytes = 0, cg_sniffer = sniffer_new\<rparr> in
      if already_finished then completion_finish now BodyComplete g s else (g, s))"

datatype Frame = DataFrame string | TrailersFrame HeaderMap

datatype Poll = PollPending | PollReady "(string + Frame) option"

definition count_frame ::
  "(string \<Rightarrow> UsageFields option) \<Rightarrow> u64 \<Rightarrow> Frame \<Rightarrow> CompletionGuard \<Rightarrow> CompletionGuard option" where
  "count_frame from_slice now frame g =
     (case frame of
        TrailersFrame _ \<Rightarrow> Some g
      | DataFrame bytes \<Rightarrow> do {
          sniffer \<leftarrow> feed from_slice bytes (cg_sniffer g);
          Some (g\<lparr>cg_first_byte_at_unix_ms :=
                     (case cg_first_byte_at_unix_ms g of None \<Rightarrow> Some now | Some t \<Rightarrow> Some t),
                  cg_response_bytes := saturating_add (cg_response_bytes g) (of_nat (length bytes)),
                  cg_sniffer := sniffer\<rparr>)
        })"

text \<open>\<open>poll_frame\<close>, given the frame of the inner body and whether it has then ended.\<close>

definition observed_poll ::
  "(string \<Rightarrow> UsageFields option) \<Rightarrow> u64 \<Rightarrow> Poll \<Rightarrow> bool \<Rightarrow> CompletionGuard \<Rightarrow> 'u LogSender
    \<Rightarrow> (CompletionGuard \<times> 'u LogSender) option" where
  "observed_poll from_slice now polled ended g s =
     (case polled of
        PollReady (Some (Inr frame)) \<Rightarrow> do {
          g' \<leftarrow> count_frame from_slice now frame g;
          Some (if ended then completion_finish now BodyComplete g' s else (g', s))
        }
      | PollReady (Some (Inl error)) \<Rightarrow> Some (completion_finish now (BodyError error) g s)
      | PollReady None \<Rightarrow> Some (completion_finish now BodyComplete g s)
      | PollPending \<Rightarrow> Some (g, s))"

definition drop_completion ::
  "u64 \<Rightarrow> CompletionGuard \<Rightarrow> 'u LogSender \<Rightarrow> CompletionGuard \<times> 'u LogSender" where
  "drop_completion now g s = completion_finish now BodyAborted g s"

subsection \<open>The writer\<close>

record 'u PendingRequest =
  pe_started_at_unix_ms :: u64
  pe_info :: "'u RequestInfo"
  pe_status :: "nat option"
  pe_streaming :: bool
  pe_first_byte_at_unix_ms :: "u64 option"
  pe_response_bytes :: u64
  pe_usage :: Usage
  pe_error :: "string option"
  pe_routing :: "RoutingInfo option"
  pe_routed_at_unix_ms :: "u64 option"

record RequestRecord =
  rr_event :: string
  rr_request_id :: string
  rr_started_at :: string
  rr_started_at_unix_ms :: u64
  rr_finished_at_unix_ms :: u64
  rr_duration_ms :: u64
  rr_time_to_first_byte_ms :: "u64 option"
  rr_client_ip :: string
  rr_client_port :: "16 word"
  rr_host :: "string option"
  rr_user_agent :: "string option"
  rr_method :: string
  rr_uri :: string
  rr_http_version :: string
  rr_request_content_length :: "u64 option"
  rr_authorized :: bool
  rr_auth_error :: "string option"
  rr_key_name :: "string option"
  rr_key_identifier :: "string option"
  rr_key_sha256 :: "string option"
  rr_key_admin :: "bool option"
  rr_openwebui_user :: "string option \<times> string option \<times> string option"
  rr_routing :: RoutingInfo
  rr_proxy_queue_ms :: "u64 option"
  rr_status :: "nat option"
  rr_streaming :: bool
  rr_response_bytes :: u64
  rr_usage :: Usage
  rr_complete :: bool
  rr_termination :: string
  rr_error :: "string option"

text \<open>
  Three groups of fields of the same names are nested here: the Open WebUI user (name, id,
  chat), the routing fields, all absent without a decision, and the token counts.
\<close>

definition no_routing :: RoutingInfo where
  "no_routing =
     \<lparr>rf_backend_id = None, rf_routing_policy = None, rf_routing_reason = None,
      rf_eligible_backend_count = None, rf_pressure = None, rf_running = None, rf_waiting = None,
      rf_capacity = None, rf_kv_pressure = None, rf_metrics_age_ms = None, rf_proxy_active = None\<rparr>"

record 'u log_text =
  show_id :: "request_id \<Rightarrow> string"
  show_uri :: "'u \<Rightarrow> string"

definition record_of ::
  "'u log_text \<Rightarrow> request_id \<Rightarrow> 'u PendingRequest \<Rightarrow> u64 \<Rightarrow> BodyOutcome \<Rightarrow> RequestRecord" where
  "record_of T i entry finished outcome =
     (let (complete, termination, outcome_error) = describe outcome;
          info = pe_info entry;
          user = ri_openwebui_user info in
      \<lparr>rr_event = ''request'',
       rr_request_id = show_id T i,
       rr_started_at = format_timestamp (pe_started_at_unix_ms entry),
       rr_started_at_unix_ms = pe_started_at_unix_ms entry,
       rr_finished_at_unix_ms = finished,
       rr_duration_ms = saturating_sub finished (pe_started_at_unix_ms entry),
       rr_time_to_first_byte_ms = map_option
         (\<lambda>t. saturating_sub t (pe_started_at_unix_ms entry)) (pe_first_byte_at_unix_ms entry),
       rr_client_ip = fst (ri_peer info),
       rr_client_port = snd (ri_peer info),
       rr_host = ri_host info,
       rr_user_agent = ri_user_agent info,
       rr_method = ri_method info,
       rr_uri = show_uri T (ri_uri info),
       rr_http_version = version_string (ri_version info),
       rr_request_content_length = ri_content_length info,
       rr_authorized = ri_authorized info,
       rr_auth_error = ri_auth_error info,
       rr_key_name = map_option ki_name (ri_identity info),
       rr_key_identifier = map_option ki_identifier (ri_identity info),
       rr_key_sha256 = ri_key_sha256 info,
       rr_key_admin = map_option ki_admin (ri_identity info),
       rr_openwebui_user =
         (Option.bind user ow_name, Option.bind user ow_id, Option.bind user ow_chat_id),
       rr_routing = (case pe_routing entry of Some r \<Rightarrow> r | None \<Rightarrow> no_routing),
       rr_proxy_queue_ms = map_option
         (\<lambda>t. saturating_sub t (pe_started_at_unix_ms entry)) (pe_routed_at_unix_ms entry),
       rr_status = pe_status entry,
       rr_streaming = pe_streaming entry,
       rr_response_bytes = pe_response_bytes entry,
       rr_usage = pe_usage entry,
       rr_complete = complete,
       rr_termination = termination,
       rr_error = or_else (pe_error entry) outcome_error\<rparr>)"

text \<open>
  The state of the writer thread: the requests it has begun, the records it has handed to the
  buffer, how many of them are flushed, and the lines on the terminal. A write that fails may
  leave part of a line behind, which is not counted as a record.
\<close>

record 'u LogWriter =
  wr_pending :: "(request_id, 'u PendingRequest) hashmap"
  wr_records :: "RequestRecord list"
  wr_flushed :: nat
  wr_dirty :: bool
  wr_last_flush :: instant
  wr_terminal :: "string list"

definition writer_new :: "instant \<Rightarrow> 'u LogWriter" where
  "writer_new now = \<lparr>wr_pending = [], wr_records = [], wr_flushed = 0, wr_dirty = False,
     wr_last_flush = now, wr_terminal = []\<rparr>"

datatype writer_call = WriteLine | FlushWriter

definition show_tokens :: "u64 option \<Rightarrow> string" where
  "show_tokens t = (case t of Some n \<Rightarrow> show_nat (unat n) | None \<Rightarrow> ''-'')"

definition completion_line ::
  "'u log_text \<Rightarrow> request_id \<Rightarrow> 'u PendingRequest \<Rightarrow> u64 \<Rightarrow> BodyOutcome \<Rightarrow> string option" where
  "completion_line T i entry finished outcome =
     do {
       who \<leftarrow> principal (pe_info entry);
       let usage = pe_usage entry;
       Some (format_timestamp finished @ ''  <  '' @ show_id T i @ ''  '' @
         (case pe_status entry of Some n \<Rightarrow> show_nat n | None \<Rightarrow> ''---'') @ ''  '' @
         show_nat (unat (saturating_sub finished (pe_started_at_unix_ms entry))) @ ''ms  in='' @
         show_tokens (input_tokens usage) @ '' out='' @ show_tokens (output_tokens usage) @
         (case cached_tokens usage of Some n \<Rightarrow> '' cached='' @ show_nat (unat n) | None \<Rightarrow> []) @
         ''  '' @ who @ (if fst (describe outcome) then [] else ''  (incomplete)''))
     }"

definition arrival_line :: "'u log_text \<Rightarrow> request_id \<Rightarrow> u64 \<Rightarrow> 'u RequestInfo \<Rightarrow> string option" where
  "arrival_line T i at_ms info =
     do {
       who \<leftarrow> principal info;
       Some (format_timestamp at_ms @ ''  >  '' @ show_id T i @ ''  '' @ ri_method info @ '' '' @
         show_uri T (ri_uri info) @ ''  '' @ who @ ''  from '' @ fst (ri_peer info))
     }"

text \<open>The line printed when \<open>terminal_log\<close> is set; \<open>None\<close> is a panic of the thread.\<close>

definition print_line :: "bool \<Rightarrow> string option \<Rightarrow> 'u LogWriter \<Rightarrow> 'u LogWriter option" where
  "print_line terminal_log line w =
     (if terminal_log then do { l \<leftarrow> line; Some (w\<lparr>wr_terminal := wr_terminal w @ [l]\<rparr>) } else Some w)"

definition write_record ::
  "'u log_text \<Rightarrow> (writer_call \<Rightarrow> bool) \<Rightarrow> bool \<Rightarrow> request_id \<Rightarrow> 'u PendingRequest \<Rightarrow> u64 \<Rightarrow> BodyOutcome
    \<Rightarrow> 'u LogWriter \<Rightarrow> (bool \<times> 'u LogWriter) option" where
  "write_record T fails terminal_log i entry finished outcome w =
     do {
       w1 \<leftarrow> print_line terminal_log (completion_line T i entry finished outcome) w;
       Some (if fails WriteLine then (False, w1)
             else (True, w1\<lparr>wr_records := wr_records w1 @ [record_of T i entry finished outcome]\<rparr>))
     }"

text \<open>
  One event. The result is \<open>None\<close> for an error of the writer, otherwise whether something was
  written; the number is that of the permits dropped with entries of the map.
\<close>

definition update_pending ::
  "request_id \<Rightarrow> ('u PendingRequest \<Rightarrow> 'u PendingRequest) \<Rightarrow> 'u LogWriter \<Rightarrow> 'u LogWriter" where
  "update_pending i f w =
     (case hget (wr_pending w) i of
        None \<Rightarrow> w
      | Some entry \<Rightarrow> w\<lparr>wr_pending := hset i (f entry) (wr_pending w)\<rparr>)"

definition pending_new :: "u64 \<Rightarrow> 'u RequestInfo \<Rightarrow> 'u PendingRequest" where
  "pending_new at_ms info =
     \<lparr>pe_started_at_unix_ms = at_ms, pe_info = info, pe_status = None, pe_streaming = False,
      pe_first_byte_at_unix_ms = None, pe_response_bytes = 0, pe_usage = default_usage,
      pe_error = None, pe_routing = None, pe_routed_at_unix_ms = None\<rparr>"

definition entry_observed :: "BodyObservation \<Rightarrow> 'u PendingRequest \<Rightarrow> 'u PendingRequest" where
  "entry_observed ob entry =
     entry\<lparr>pe_first_byte_at_unix_ms := bo_first_byte_at_unix_ms ob,
           pe_response_bytes := bo_response_bytes ob,
           pe_usage := bo_usage ob\<rparr>"

definition handle_event ::
  "'u log_text \<Rightarrow> (writer_call \<Rightarrow> bool) \<Rightarrow> bool \<Rightarrow> 'u LogEvent \<Rightarrow> 'u LogWriter
    \<Rightarrow> (bool option \<times> 'u LogWriter \<times> nat) option" where
  "handle_event T fails terminal_log ev w =
     (case ev of
        RequestStarted i at_ms info \<Rightarrow> do {
          w1 \<leftarrow> print_line terminal_log (arrival_line T i at_ms info) w;
          Some (Some False,
                w1\<lparr>wr_pending := hset i (pending_new at_ms info) (wr_pending w1)\<rparr>,
                if hcontains (wr_pending w1) i then 1 else 0)
        }
      | ResponseStarted i code streaming \<Rightarrow>
          Some (Some False,
                update_pending i (\<lambda>e. e\<lparr>pe_status := Some code, pe_streaming := streaming\<rparr>) w, 0)
      | RequestError i error \<Rightarrow>
          Some (Some False, update_pending i (\<lambda>e. e\<lparr>pe_error := Some error\<rparr>) w, 0)
      | RequestRouted i at_ms routing \<Rightarrow>
          Some (Some False,
                update_pending i (\<lambda>e. e\<lparr>pe_routing := Some routing, pe_routed_at_unix_ms := Some at_ms\<rparr>) w, 0)
      | ResponseFinished i at_ms outcome observation \<Rightarrow>
          (case hget (wr_pending w) i of
             None \<Rightarrow> Some (Some False, w, 0)
           | Some entry \<Rightarrow> do {
               (written, w1) \<leftarrow> write_record T fails terminal_log i (entry_observed observation entry)
                  at_ms outcome (w\<lparr>wr_pending := hdel i (wr_pending w)\<rparr>);
               Some (if written then Some True else None, w1, 1)
             }))"

definition flush_writer :: "(writer_call \<Rightarrow> bool) \<Rightarrow> 'u LogWriter \<Rightarrow> bool \<times> 'u LogWriter" where
  "flush_writer fails w =
     (if fails FlushWriter then (False, w)
      else (True, w\<lparr>wr_flushed := length (wr_records w), wr_dirty := False\<rparr>))"

text \<open>
  One turn of the loop of \<open>run_worker\<close> with a received event, or none before the timeout. The
  first result is whether the loop goes on.
\<close>

definition worker_event ::
  "'u log_text \<Rightarrow> (writer_call \<Rightarrow> bool) \<Rightarrow> bool \<Rightarrow> instant \<Rightarrow> instant \<Rightarrow> 'u LogEvent \<Rightarrow> 'u LogWriter
    \<Rightarrow> (bool \<times> 'u LogWriter \<times> nat) option" where
  "worker_event T fails terminal_log now later ev w =
     do {
       (r, w1, dropped) \<leftarrow> handle_event T fails terminal_log ev w;
       Some (case r of
           None \<Rightarrow> (False, w1, dropped)
         | Some written \<Rightarrow>
             (let w2 = w1\<lparr>wr_dirty := wr_dirty w1 \<or> written\<rparr> in
              if wr_dirty w2 \<and> FLUSH_INTERVAL \<le> saturating_duration_since now (wr_last_flush w2)
              then (case flush_writer fails w2 of
                  (False, w3) \<Rightarrow> (False, w3, dropped)
                | (True, w3) \<Rightarrow> (True, w3\<lparr>wr_last_flush := later\<rparr>, dropped))
              else (True, w2, dropped)))
     }"

definition worker_timeout ::
  "(writer_call \<Rightarrow> bool) \<Rightarrow> instant \<Rightarrow> 'u LogWriter \<Rightarrow> bool \<times> 'u LogWriter" where
  "worker_timeout fails now w =
     (if wr_dirty w
      then (case flush_writer fails w of
          (False, w1) \<Rightarrow> (False, w1)
        | (True, w1) \<Rightarrow> (True, w1\<lparr>wr_last_flush := now\<rparr>))
      else (True, w\<lparr>wr_last_flush := now\<rparr>))"

text \<open>
  After all senders are gone: a record for every request that is still pending, then a flush.
\<close>

fun drain_pending ::
  "'u log_text \<Rightarrow> (writer_call \<Rightarrow> bool) \<Rightarrow> bool \<Rightarrow> u64 \<Rightarrow> request_id list \<Rightarrow> 'u LogWriter
    \<Rightarrow> (bool \<times> 'u LogWriter) option" where
  "drain_pending T fails terminal_log now [] w = Some (flush_writer fails w)"
| "drain_pending T fails terminal_log now (i # ids) w =
     do {
       entry \<leftarrow> hget (wr_pending w) i;
       (written, w1) \<leftarrow> write_record T fails terminal_log i entry now
         (BodyError ''the logger shut down before the response finished'')
         (w\<lparr>wr_pending := hdel i (wr_pending w)\<rparr>);
       if written then drain_pending T fails terminal_log now ids w1 else Some (False, w1)
     }"

end
