(* ===== verification/Audit_Log.thy ===== *)
theory Audit_Log
  imports Logging
begin

text \<open>
  The audit log as a system: any number of requests that report to the log and the writer
  thread, in every interleaving of their calls. A request is known by its identifier, which
  no two requests share; what it may report next is its phase.
\<close>

subsection \<open>The protocol of one request\<close>

text \<open>
  A request reserves a permit, checks the health of the writer again, enqueues its start and
  then reports: at most once the routing decision, after it at most once an error, then either
  the start of the response and its end, or, when the handler is dropped, the end at once.
\<close>

datatype phase = PhaseFresh | PhaseReserved | PhaseChecked | PhaseHandling bool bool
  | PhaseResponding | PhaseEnded

datatype log_call = CallRouted | CallError | CallResponse | CallFinished

fun next_phase :: "phase \<Rightarrow> log_call \<Rightarrow> phase option" where
  "next_phase (PhaseHandling False False) CallRouted = Some (PhaseHandling True False)"
| "next_phase (PhaseHandling True False) CallError = Some (PhaseHandling True True)"
| "next_phase (PhaseHandling _ _) CallResponse = Some PhaseResponding"
| "next_phase (PhaseHandling _ _) CallFinished = Some PhaseEnded"
| "next_phase PhaseResponding CallFinished = Some PhaseEnded"
| "next_phase _ _ = None"

fun run_calls :: "phase \<Rightarrow> log_call list \<Rightarrow> phase option" where
  "run_calls p [] = Some p"
| "run_calls p (c # cs) = Option.bind (next_phase p c) (\<lambda>p'. run_calls p' cs)"

fun call_of :: "'u LogEvent \<Rightarrow> log_call option" where
  "call_of (RequestStarted _ _ _) = None"
| "call_of (RequestRouted _ _ _) = Some CallRouted"
| "call_of (RequestError _ _) = Some CallError"
| "call_of (ResponseStarted _ _ _) = Some CallResponse"
| "call_of (ResponseFinished _ _ _ _) = Some CallFinished"

subsection \<open>The system\<close>

text \<open>\<open>as_handled\<close> is the history of the events the writer has taken from the channel.\<close>

record 'u audit_sys =
  as_log :: "'u LogSender"
  as_writer :: "'u LogWriter"
  as_phase :: "request_id \<Rightarrow> phase"
  as_handled :: "'u LogEvent list"

definition audit_start :: "u64 \<Rightarrow> instant \<Rightarrow> 'u audit_sys option" where
  "audit_start slots now =
     do {
       log_sender \<leftarrow> sender_new slots;
       Some \<lparr>as_log = log_sender, as_writer = writer_new now, as_phase = (\<lambda>_. PhaseFresh),
             as_handled = []\<rparr>
     }"

abbreviation set_phase :: "request_id \<Rightarrow> phase \<Rightarrow> 'u audit_sys \<Rightarrow> 'u audit_sys" where
  "set_phase i p s \<equiv> s\<lparr>as_phase := (as_phase s)(i := p)\<rparr>"

text \<open>
  The writer thread returns: the receiver is dropped with the events in the channel, and the
  map with its entries. \<open>dropped\<close> permits went with the event at hand.
\<close>

definition stop_writer :: "nat \<Rightarrow> 'u LogWriter \<Rightarrow> 'u LogSender \<Rightarrow> 'u LogSender" where
  "stop_writer dropped w s =
     s\<lparr>tx_queue := [], tx_connected := False,
       lg_admitted := lg_admitted s -
         of_nat (dropped + length (filter (\<lambda>e. call_of e = None) (tx_queue s)) + length (wr_pending w))\<rparr>"

text \<open>
  Taking an event from the channel and handling it is one step, at the moment its permits are
  dropped: until then the channel is at least as full here as it is in the program.
\<close>

inductive audit_step :: "'u log_text \<Rightarrow> bool \<Rightarrow> 'u audit_sys \<Rightarrow> 'u audit_sys \<Rightarrow> bool" for T terminal_log where
  reserve: "as_phase s i = PhaseFresh \<Longrightarrow> reserve_slot (as_log s) = Some l \<Longrightarrow>
    audit_step T terminal_log s (set_phase i PhaseReserved (s\<lparr>as_log := l\<rparr>))"
| unhealthy: "as_phase s i = PhaseReserved \<Longrightarrow> \<not> lg_healthy (as_log s) \<Longrightarrow>
    audit_step T terminal_log s (set_phase i PhaseEnded (s\<lparr>as_log := drop_audit_permit (as_log s)\<rparr>))"
| checked: "as_phase s i = PhaseReserved \<Longrightarrow> lg_healthy (as_log s) \<Longrightarrow>
    audit_step T terminal_log s (set_phase i PhaseChecked s)"
| admitted: "as_phase s i = PhaseChecked \<Longrightarrow> enqueue_started now i info (as_log s) = (Inr g, l) \<Longrightarrow>
    audit_step T terminal_log s (set_phase i (PhaseHandling False False) (s\<lparr>as_log := l\<rparr>))"
| refused: "as_phase s i = PhaseChecked \<Longrightarrow> enqueue_started now i info (as_log s) = (Inl e, l) \<Longrightarrow>
    audit_step T terminal_log s (set_phase i PhaseEnded (s\<lparr>as_log := l\<rparr>))"
| report: "call_of ev = Some c \<Longrightarrow> next_phase (as_phase s (event_id ev)) c = Some p \<Longrightarrow>
    audit_step T terminal_log s (set_phase (event_id ev) p (s\<lparr>as_log := send ev (as_log s)\<rparr>))"
| handled: "tx_connected (as_log s) \<Longrightarrow> tx_queue (as_log s) = ev # rest \<Longrightarrow>
    worker_event T fails terminal_log now later ev (as_writer s) = Some (True, w, n) \<Longrightarrow>
    audit_step T terminal_log s
      (s\<lparr>as_log := (as_log s)\<lparr>tx_queue := rest, lg_admitted := lg_admitted (as_log s) - of_nat n\<rparr>,
         as_writer := w, as_handled := as_handled s @ [ev]\<rparr>)"
| idle: "tx_connected (as_log s) \<Longrightarrow> tx_queue (as_log s) = [] \<Longrightarrow>
    worker_timeout fails now (as_writer s) = (True, w) \<Longrightarrow>
    audit_step T terminal_log s (s\<lparr>as_writer := w\<rparr>)"
| failed: "tx_connected (as_log s) \<Longrightarrow>
    audit_step T terminal_log s (s\<lparr>as_log := stop_writer n w (as_log s), as_writer := w\<rparr>)"
| health_guard: "\<not> tx_connected (as_log s) \<Longrightarrow>
    audit_step T terminal_log s (s\<lparr>as_log := mark_failed (as_log s)\<rparr>)"

inductive audit_reachable :: "'u log_text \<Rightarrow> bool \<Rightarrow> u64 \<Rightarrow> 'u audit_sys \<Rightarrow> bool" for T terminal_log slots where
  start: "audit_start slots now = Some s \<Longrightarrow> audit_reachable T terminal_log slots s"
| step: "audit_reachable T terminal_log slots s \<Longrightarrow> audit_step T terminal_log s s' \<Longrightarrow>
    audit_reachable T terminal_log slots s'"

subsection \<open>The protocol bounds the events\<close>

fun rank :: "phase \<Rightarrow> nat" where
  "rank (PhaseHandling r e) = (if r then 1 else 0) + (if e then 1 else 0)"
| "rank PhaseResponding = 3"
| "rank PhaseEnded = 4"
| "rank _ = 0"

lemma next_phase_rank: "next_phase p c = Some p' \<Longrightarrow> rank p < rank p'"
  by (cases "(p, c)" rule: next_phase.cases) auto

lemma run_calls_rank: "run_calls p cs = Some p' \<Longrightarrow> length cs + rank p \<le> rank p'"
proof (induction cs arbitrary: p)
  case (Cons c cs)
  then obtain q where q: "next_phase p c = Some q" "run_calls q cs = Some p'"
    by (auto split: bind_splits)
  with Cons.IH [OF q(2)] next_phase_rank [OF q(1)] show ?case by simp
qed simp

lemma run_calls_snoc: "run_calls p (cs @ [c]) = Option.bind (run_calls p cs) (\<lambda>q. next_phase q c)"
proof (induction cs arbitrary: p)
  case Nil
  show ?case by (cases "next_phase p c") simp_all
next
  case (Cons a cs)
  then show ?case by (cases "next_phase p a") simp_all
qed

lemma rank_le: "rank p \<le> 4"
  by (cases p rule: rank.cases) auto

lemma next_phase_live: "next_phase p c = Some p' \<Longrightarrow> p \<noteq> PhaseEnded"
  by auto

lemma rank_live: "p \<noteq> PhaseEnded \<Longrightarrow> rank p \<le> 3"
  by (cases p rule: rank.cases) auto

subsection \<open>What the writer does with one event\<close>

text \<open>The entry of a request after an event of that request.\<close>

fun entry_step :: "'u PendingRequest option \<Rightarrow> 'u LogEvent \<Rightarrow> 'u PendingRequest option" where
  "entry_step m (RequestStarted _ at_ms info) = Some (pending_new at_ms info)"
| "entry_step m (ResponseStarted _ code streaming) =
     map_option (\<lambda>e. e\<lparr>pe_status := Some code, pe_streaming := streaming\<rparr>) m"
| "entry_step m (RequestError _ error) = map_option (\<lambda>e. e\<lparr>pe_error := Some error\<rparr>) m"
| "entry_step m (RequestRouted _ at_ms routing) =
     map_option (\<lambda>e. e\<lparr>pe_routing := Some routing, pe_routed_at_unix_ms := Some at_ms\<rparr>) m"
| "entry_step m (ResponseFinished _ _ _ _) = None"

text \<open>The record an event completes, given the entry of its request before it.\<close>

fun completed :: "'u log_text \<Rightarrow> 'u PendingRequest option \<Rightarrow> 'u LogEvent \<Rightarrow> RequestRecord list" where
  "completed T (Some entry) (ResponseFinished i at_ms outcome ob) =
     [record_of T i (entry_observed ob entry) at_ms outcome]"
| "completed T m ev = []"

definition permits_dropped :: "'u PendingRequest option \<Rightarrow> 'u LogEvent \<Rightarrow> nat" where
  "permits_dropped m ev = (if m \<noteq> None \<and> call_of ev \<in> {None, Some CallFinished} then 1 else 0)"

lemma print_line_Some:
  "print_line t l w = Some w' \<Longrightarrow> wr_pending w' = wr_pending w \<and> wr_records w' = wr_records w"
  by (auto simp: print_line_def split: if_splits bind_splits)

lemma update_pending_get:
  "hget (wr_pending (update_pending i f w)) k =
     (if k = i then map_option f (hget (wr_pending w) i) else hget (wr_pending w) k)"
  by (auto simp: update_pending_def split: option.split)

lemma update_pending_other:
  "wr_records (update_pending i f w) = wr_records w"
  "distinct (keys_of (wr_pending w)) \<Longrightarrow> distinct (keys_of (wr_pending (update_pending i f w)))"
  by (auto simp: update_pending_def distinct_hset split: option.split)

lemma handle_event_effect:
  assumes "handle_event T fails t ev w = Some (Some written, w', n)"
  shows "hget (wr_pending w') k = (if k = event_id ev then entry_step (hget (wr_pending w) k) ev
      else hget (wr_pending w) k)"
    and "wr_records w' = wr_records w @ completed T (hget (wr_pending w) (event_id ev)) ev"
    and "n = permits_dropped (hget (wr_pending w) (event_id ev)) ev"
    and "distinct (keys_of (wr_pending w)) \<Longrightarrow> distinct (keys_of (wr_pending w'))"
proof -
  show "hget (wr_pending w') k = (if k = event_id ev then entry_step (hget (wr_pending w) k) ev
      else hget (wr_pending w) k)"
    using assms by (cases ev)
      (auto simp: handle_event_def write_record_def update_pending_get dest!: print_line_Some
        split: option.splits bind_splits if_splits)
  show "wr_records w' = wr_records w @ completed T (hget (wr_pending w) (event_id ev)) ev"
    using assms by (cases ev)
      (auto simp: handle_event_def write_record_def update_pending_other dest!: print_line_Some
        split: option.splits bind_splits if_splits)
  show "n = permits_dropped (hget (wr_pending w) (event_id ev)) ev"
    using assms by (cases ev)
      (auto simp: handle_event_def write_record_def permits_dropped_def hcontains_hget dest!: print_line_Some
        split: option.splits bind_splits if_splits)
  show "distinct (keys_of (wr_pending w)) \<Longrightarrow> distinct (keys_of (wr_pending w'))"
    using assms by (cases ev)
      (auto simp: handle_event_def write_record_def update_pending_other distinct_hset distinct_hdel
        dest!: print_line_Some split: option.splits bind_splits if_splits)
qed

lemma flush_writer_keeps:
  "flush_writer fails w = (b, w') \<Longrightarrow> wr_pending w' = wr_pending w \<and> wr_records w' = wr_records w"
  by (auto simp: flush_writer_def split: if_splits)

lemma worker_event_handled:
  assumes "worker_event T fails t now later ev w = Some (True, w', n)"
  obtains written w1 where "handle_event T fails t ev w = Some (Some written, w1, n)"
    and "wr_pending w' = wr_pending w1" and "wr_records w' = wr_records w1"
  using assms
  by (auto simp: worker_event_def Let_def dest!: flush_writer_keeps
      split: bind_splits option.splits if_splits prod.splits bool.splits)

lemma worker_timeout_keeps:
  "worker_timeout fails now w = (b, w') \<Longrightarrow> wr_pending w' = wr_pending w \<and> wr_records w' = wr_records w"
  by (auto simp: worker_timeout_def dest!: flush_writer_keeps split: if_splits prod.splits bool.splits)

subsection \<open>The trace of one request\<close>

abbreviation own :: "request_id \<Rightarrow> 'u LogEvent list \<Rightarrow> 'u LogEvent list" where
  "own i es \<equiv> filter (\<lambda>e. event_id e = i) es"

abbreviation is_finished :: "'u LogEvent \<Rightarrow> bool" where
  "is_finished e \<equiv> call_of e = Some CallFinished"

fun trace_ok :: "phase \<Rightarrow> 'u LogEvent list \<Rightarrow> bool" where
  "trace_ok p [] \<longleftrightarrow> p \<in> {PhaseFresh, PhaseReserved, PhaseChecked, PhaseEnded}"
| "trace_ok p (e # es) \<longleftrightarrow> call_of e = None \<and>
     (\<exists>cs. map call_of es = map Some cs \<and> run_calls (PhaseHandling False False) cs = Some p)"

lemma trace_ok_length:
  assumes "trace_ok p es"
  shows "length es \<le> 5" and "p \<noteq> PhaseEnded \<Longrightarrow> length es \<le> 4"
proof -
  have "length es \<le> Suc (rank p)"
  proof (cases es)
    case (Cons e es')
    with assms obtain cs where "map call_of es' = map Some cs" "run_calls (PhaseHandling False False) cs = Some p"
      by auto
    with run_calls_rank [OF this(2)] Cons show ?thesis by (auto dest: map_eq_imp_length_eq)
  qed simp
  with rank_le [of p] rank_live [of p] show "length es \<le> 5" "p \<noteq> PhaseEnded \<Longrightarrow> length es \<le> 4" by auto
qed

lemma run_calls_ended: "run_calls PhaseEnded cs = Some p \<Longrightarrow> cs = [] \<and> p = PhaseEnded"
  by (cases cs) auto

lemma run_calls_append:
  "run_calls p (cs @ ds) = Option.bind (run_calls p cs) (\<lambda>q. run_calls q ds)"
proof (induction cs arbitrary: p)
  case (Cons c cs)
  then show ?case by (cases "next_phase p c") simp_all
qed simp

lemma next_phase_finished: "next_phase p CallFinished = Some q \<Longrightarrow> q = PhaseEnded"
  by (cases p rule: rank.cases) auto

lemma calls_split:
  "map call_of (xs @ e # ys) = map Some cs \<Longrightarrow>
   \<exists>as c bs. cs = as @ c # bs \<and> map call_of xs = map Some as \<and> call_of e = Some c \<and> map call_of ys = map Some bs"
  by (auto simp: append_eq_map_conv Cons_eq_map_conv)

text \<open>The start comes first and only first, the end last and only last.\<close>

lemma trace_ok_finished:
  assumes "trace_ok p (xs @ e # ys)" and "is_finished e"
  shows "ys = []" and "p = PhaseEnded" and "xs \<noteq> []"
proof -
  from assms obtain e0 xs' where xs: "xs = e0 # xs'" by (cases xs) auto
  with assms(1) obtain cs where cs: "map call_of (xs' @ e # ys) = map Some cs"
    "run_calls (PhaseHandling False False) cs = Some p" by auto
  from calls_split [OF cs(1)] assms(2) obtain as bs where
    "cs = as @ CallFinished # bs" "map call_of ys = map Some bs" by auto
  with cs(2) obtain q r where "next_phase q CallFinished = Some r" "run_calls r bs = Some p"
    by (auto simp: run_calls_append split: bind_splits)
  with next_phase_finished [of q r] run_calls_ended [of bs p] \<open>map call_of ys = map Some bs\<close>
  show "ys = []" "p = PhaseEnded" by auto
  show "xs \<noteq> []" using xs by simp
qed

lemma trace_ok_started:
  assumes "trace_ok p (xs @ e # ys)"
  shows "call_of e = None \<longleftrightarrow> xs = []"
proof (cases xs)
  case Nil
  with assms show ?thesis by simp
next
  case (Cons x xs')
  with assms obtain cs where "map call_of (xs' @ e # ys) = map Some cs" by auto
  from calls_split [OF this] Cons show ?thesis by auto
qed

lemma trace_ok_snoc:
  assumes "trace_ok p es" and "call_of ev = Some c" and "next_phase p c = Some q"
  shows "trace_ok q (es @ [ev])" and "es \<noteq> []"
proof -
  have "es \<noteq> []" using assms by (cases es) auto
  then obtain e es' where es: "es = e # es'" by (cases es) auto
  with assms(1) obtain cs where "map call_of es' = map Some cs" "run_calls (PhaseHandling False False) cs = Some p"
    by auto
  then have "map call_of (es' @ [ev]) = map Some (cs @ [c])"
    "run_calls (PhaseHandling False False) (cs @ [c]) = Some q"
    using assms(2,3) by (simp_all add: run_calls_snoc)
  then have "\<exists>ds. map call_of (es' @ [ev]) = map Some ds \<and> run_calls (PhaseHandling False False) ds = Some q"
    by blast
  then show "trace_ok q (es @ [ev])" using es assms(1) by simp
  show "es \<noteq> []" by fact
qed

lemma trace_ok_unstarted: "trace_ok p es \<Longrightarrow> p \<in> {PhaseFresh, PhaseReserved, PhaseChecked} \<Longrightarrow> es = []"
proof (cases es)
  case (Cons e es')
  assume "trace_ok p es" and p: "p \<in> {PhaseFresh, PhaseReserved, PhaseChecked}"
  with Cons obtain cs where "run_calls (PhaseHandling False False) cs = Some p" by auto
  then show ?thesis using p by (induction cs rule: rev_induct)
      (auto simp: run_calls_snoc split: bind_splits elim!: next_phase.elims)
qed

subsection \<open>The entry and the record of one request\<close>

definition own_entry :: "'u LogEvent list \<Rightarrow> 'u PendingRequest option" where
  "own_entry es = foldl entry_step None es"

definition own_record :: "'u log_text \<Rightarrow> 'u LogEvent list \<Rightarrow> RequestRecord list" where
  "own_record T es = (if es = [] then [] else completed T (own_entry (butlast es)) (last es))"

lemma own_entry_snoc: "own_entry (es @ [e]) = entry_step (own_entry es) e"
  by (simp add: own_entry_def)

lemma own_record_snoc: "own_record T (es @ [e]) = completed T (own_entry es) e"
  by (simp add: own_record_def)

lemma entry_step_kept: "m \<noteq> None \<Longrightarrow> \<not> is_finished e \<Longrightarrow> entry_step m e \<noteq> None"
  by (cases e) auto

lemma own_entry_started:
  assumes "call_of e = None" and "list_all (\<lambda>e. \<not> is_finished e) es"
  shows "own_entry (e # es) \<noteq> None"
  using assms(2)
proof (induction es rule: rev_induct)
  case Nil
  from assms(1) show ?case by (cases e) (simp_all add: own_entry_def)
next
  case (snoc x es)
  then show ?case using entry_step_kept [of "own_entry (e # es)" x]
    by (simp add: own_entry_snoc [of "e # es" x, simplified])
qed

lemma own_entry_live:
  assumes "trace_ok p (xs @ ys)" and "xs \<noteq> []" and "list_all (\<lambda>e. \<not> is_finished e) xs"
  shows "own_entry xs \<noteq> None"
proof -
  from assms(2) obtain e xs' where xs: "xs = e # xs'" by (cases xs) auto
  with assms(1,3) own_entry_started [of e xs'] show ?thesis by simp
qed

subsection \<open>The invariant\<close>

definition accepted :: "'u audit_sys \<Rightarrow> 'u LogEvent list" where
  "accepted s = as_handled s @ tx_queue (as_log s)"

definition ended_in :: "'u LogEvent list \<Rightarrow> request_id set" where
  "ended_in es = event_id ` {e \<in> set es. is_finished e}"

text \<open>The requests whose permit is not dropped yet.\<close>

definition holders :: "'u audit_sys \<Rightarrow> request_id set" where
  "holders s = {i. as_phase s i \<in> {PhaseReserved, PhaseChecked} \<or>
     own i (accepted s) \<noteq> [] \<and> i \<notin> ended_in (as_handled s)}"

definition traces_ok :: "'u audit_sys \<Rightarrow> bool" where
  "traces_ok s \<longleftrightarrow> (\<forall>i. trace_ok (as_phase s i) (own i (accepted s)))"

definition permits_ok :: "'u audit_sys \<Rightarrow> bool" where
  "permits_ok s \<longleftrightarrow> finite (holders s) \<and> unat (lg_admitted (as_log s)) = card (holders s) \<and>
     card (holders s) \<le> unat (lg_request_slots (as_log s))"

definition writer_ok :: "'u log_text \<Rightarrow> 'u audit_sys \<Rightarrow> bool" where
  "writer_ok T s \<longleftrightarrow>
     (\<forall>i. hget (wr_pending (as_writer s)) i = own_entry (own i (as_handled s))) \<and>
     distinct (keys_of (wr_pending (as_writer s))) \<and>
     wr_records (as_writer s) =
       concat (map (\<lambda>e. own_record T (own (event_id e) (as_handled s))) (filter is_finished (as_handled s)))"

definition audit_inv :: "'u log_text \<Rightarrow> u64 \<Rightarrow> 'u audit_sys \<Rightarrow> bool" where
  "audit_inv T slots s \<longleftrightarrow>
     lg_request_slots (as_log s) = slots \<and> lg_event_slots (as_log s) = unat slots * 5 \<and>
     (tx_connected (as_log s) \<longrightarrow> traces_ok s \<and> permits_ok s \<and> writer_ok T s)"

lemma length_by_owner:
  assumes "finite A" and "event_id ` set es \<subseteq> A"
  shows "length es = (\<Sum>i \<in> A. length (own i es))"
  using assms(2)
proof (induction es)
  case (Cons e es)
  have "(\<Sum>i \<in> A. length (own i (e # es))) = (\<Sum>i \<in> A. (if event_id e = i then 1 else 0) + length (own i es))"
    by (rule sum.cong) simp_all
  also have "\<dots> = 1 + (\<Sum>i \<in> A. length (own i es))"
    using assms(1) Cons.prems by (simp add: sum.distrib)
  finally show ?case using Cons by simp
qed simp

lemma owners_bound:
  assumes "finite A" and "event_id ` set es \<subseteq> A" and "j \<in> A" and "length (own j es) \<le> 4"
    and "\<And>i. length (own i es) \<le> 5"
  shows "length es < 5 * card A"
proof -
  have "length es = length (own j es) + (\<Sum>i \<in> A - {j}. length (own i es))"
    unfolding length_by_owner [OF assms(1,2)] by (rule sum.remove [OF assms(1,3)])
  moreover have "(\<Sum>i \<in> A - {j}. length (own i es)) \<le> card (A - {j}) * 5"
    using sum_bounded_above [of "A - {j}" "\<lambda>i. length (own i es)" 5] assms(5) by simp
  moreover have "card A = Suc (card (A - {j}))" by (rule card.remove [OF assms(1,3)])
  ultimately show ?thesis using assms(4) by linarith
qed

lemma accepted_split:
  assumes "traces_ok s" and "e \<in> set (as_handled s)" and "is_finished e"
  shows "own (event_id e) (tx_queue (as_log s)) = []" and "as_phase s (event_id e) = PhaseEnded"
proof -
  let ?i = "event_id e"
  from assms(2) have "e \<in> set (own ?i (as_handled s))" by simp
  then obtain xs ys where xs: "own ?i (as_handled s) = xs @ e # ys" by (meson split_list)
  have "trace_ok (as_phase s ?i) (own ?i (accepted s))" using assms(1) by (simp add: traces_ok_def)
  then have "trace_ok (as_phase s ?i) (xs @ e # (ys @ own ?i (tx_queue (as_log s))))"
    by (simp add: accepted_def xs)
  from trace_ok_finished(1,2) [OF this assms(3)]
  show "own ?i (tx_queue (as_log s)) = []" "as_phase s ?i = PhaseEnded" by simp_all
qed

lemma queue_holders:
  assumes "traces_ok s"
  shows "event_id ` set (tx_queue (as_log s)) \<subseteq> holders s"
proof
  fix i
  assume "i \<in> event_id ` set (tx_queue (as_log s))"
  then have q: "own i (tx_queue (as_log s)) \<noteq> []" by (auto simp: filter_empty_conv)
  then have "i \<notin> ended_in (as_handled s)"
    using accepted_split(1) [OF assms] by (auto simp: ended_in_def)
  with q show "i \<in> holders s" by (simp add: holders_def accepted_def)
qed

text \<open>A request that may still report finds room in the channel.\<close>

lemma room_in_channel:
  assumes "audit_inv T slots s" and "tx_connected (as_log s)"
    and "as_phase s i \<notin> {PhaseFresh, PhaseEnded}"
  shows "length (tx_queue (as_log s)) < lg_event_slots (as_log s)"
proof -
  have inv: "traces_ok s" "permits_ok s" "lg_event_slots (as_log s) = unat (lg_request_slots (as_log s)) * 5"
    using assms(1,2) by (simp_all add: audit_inv_def)
  have tr: "trace_ok (as_phase s k) (own k (accepted s))" for k using inv(1) by (simp add: traces_ok_def)
  have le: "length (own k (tx_queue (as_log s))) \<le> length (own k (accepted s))" for k
    by (simp add: accepted_def)
  have "i \<in> holders s"
  proof (cases "as_phase s i \<in> {PhaseReserved, PhaseChecked}")
    case False
    with tr [of i] assms(3) have "own i (accepted s) \<noteq> []" by (cases "own i (accepted s)") auto
    moreover have "i \<notin> ended_in (as_handled s)"
      using accepted_split(2) [OF inv(1)] assms(3) by (auto simp: ended_in_def)
    ultimately show ?thesis by (simp add: holders_def)
  qed (auto simp: holders_def)
  moreover have "length (own i (tx_queue (as_log s))) \<le> 4"
    using trace_ok_length(2) [OF tr [of i]] le [of i] assms(3) by simp
  moreover have "length (own k (tx_queue (as_log s))) \<le> 5" for k
    using trace_ok_length(1) [OF tr [of k]] le [of k] by simp
  ultimately have "length (tx_queue (as_log s)) < 5 * card (holders s)"
    using inv(2) queue_holders [OF inv(1)] by (intro owners_bound) (auto simp: permits_ok_def)
  with inv(2,3) show ?thesis by (simp add: permits_ok_def)
qed

subsection \<open>Every step keeps the invariant\<close>

lemmas audit_defs = audit_inv_def traces_ok_def permits_ok_def writer_ok_def accepted_def holders_def

lemma unat_count_up: "(a :: u64) < b \<Longrightarrow> unat (a + 1) = Suc (unat a)"
proof -
  assume "a < b"
  then have "unat a < unat b" by (simp add: word_less_nat_alt)
  moreover have "unat b < 2 ^ 64" using unsigned_less [of b] by simp
  ultimately have "unat a + 1 < 2 ^ 64" by linarith
  then show ?thesis by (simp add: unat_word_ariths)
qed

lemma unat_count_down: "0 < unat (a :: u64) \<Longrightarrow> unat (a - 1) = unat a - 1"
  by (rule unat_minus_one) auto

lemma traceD: "traces_ok s \<Longrightarrow> trace_ok (as_phase s i) (own i (accepted s))"
  by (simp add: traces_ok_def)

lemma unstarted_own:
  assumes "traces_ok s" and "as_phase s i \<in> {PhaseFresh, PhaseReserved, PhaseChecked}"
  shows "own i (accepted s) = []"
  by (rule trace_ok_unstarted [OF traceD [OF assms(1)] assms(2)])

text \<open>A request without events changes its phase, and the counter with it.\<close>

lemma traces_phase:
  assumes "traces_ok s" and "own i (accepted s) = []"
    and "p \<in> {PhaseFresh, PhaseReserved, PhaseChecked, PhaseEnded}" and "tx_queue l = tx_queue (as_log s)"
  shows "traces_ok (set_phase i p (s\<lparr>as_log := l\<rparr>))"
  using assms by (auto simp: traces_ok_def accepted_def)

lemma holders_phase:
  assumes "own i (accepted s) = []" and "tx_queue l = tx_queue (as_log s)"
  shows "holders (set_phase i p (s\<lparr>as_log := l\<rparr>)) =
    (if p \<in> {PhaseReserved, PhaseChecked} then insert i (holders s) else holders s - {i})"
  using assms by (auto simp: holders_def accepted_def)

lemma writer_ok_log: "writer_ok T (set_phase i p (s\<lparr>as_log := l\<rparr>)) = writer_ok T s"
  by (simp add: writer_ok_def)

lemma inv_reserve:
  assumes "audit_inv T slots s" and "as_phase s i = PhaseFresh" and "reserve_slot (as_log s) = Some l"
  shows "audit_inv T slots (set_phase i PhaseReserved (s\<lparr>as_log := l\<rparr>))"
proof -
  let ?a = "lg_admitted (as_log s)"
  have less: "?a < lg_request_slots (as_log s)" and l: "l = (as_log s)\<lparr>lg_admitted := ?a + 1\<rparr>"
    using assms(3) by (auto simp: reserve_slot_def split: if_splits)
  {
    assume c: "tx_connected (as_log s)"
    then have inv: "traces_ok s" "permits_ok s" "writer_ok T s" using assms(1) by (simp_all add: audit_inv_def)
    have none: "own i (accepted s) = []" using unstarted_own [OF inv(1), of i] assms(2) by simp
    have q: "tx_queue l = tx_queue (as_log s)" by (simp add: l)
    have "i \<notin> holders s" using none assms(2) by (simp add: holders_def)
    then have "permits_ok (set_phase i PhaseReserved (s\<lparr>as_log := l\<rparr>))"
      using inv(2) less unat_count_up [OF less] holders_phase [OF none q, of PhaseReserved]
      by (simp add: permits_ok_def l word_less_nat_alt)
    moreover have "traces_ok (set_phase i PhaseReserved (s\<lparr>as_log := l\<rparr>))"
      by (rule traces_phase [OF inv(1) none _ q]) simp
    moreover have "writer_ok T (set_phase i PhaseReserved (s\<lparr>as_log := l\<rparr>))"
      unfolding writer_ok_log by (rule inv(3))
    ultimately have "traces_ok (set_phase i PhaseReserved (s\<lparr>as_log := l\<rparr>)) \<and>
      permits_ok (set_phase i PhaseReserved (s\<lparr>as_log := l\<rparr>)) \<and>
      writer_ok T (set_phase i PhaseReserved (s\<lparr>as_log := l\<rparr>))" by blast
  }
  then show ?thesis using assms(1) by (simp add: audit_inv_def l)
qed

lemma inv_drop:
  assumes "audit_inv T slots s" and "as_phase s i \<in> {PhaseReserved, PhaseChecked}"
  shows "audit_inv T slots (set_phase i PhaseEnded (s\<lparr>as_log := drop_audit_permit (as_log s)\<rparr>))"
proof -
  let ?l = "drop_audit_permit (as_log s)"
  {
    assume c: "tx_connected (as_log s)"
    then have inv: "traces_ok s" "permits_ok s" "writer_ok T s" using assms(1) by (simp_all add: audit_inv_def)
    have none: "own i (accepted s) = []" using unstarted_own [OF inv(1), of i] assms(2) by auto
    have q: "tx_queue ?l = tx_queue (as_log s)" by (simp add: drop_audit_permit_def)
    have i: "i \<in> holders s" using assms(2) by (auto simp: holders_def)
    have p: "finite (holders s)" "unat (lg_admitted (as_log s)) = card (holders s)"
      "card (holders s) \<le> unat (lg_request_slots (as_log s))"
      using inv(2) by (simp_all add: permits_ok_def)
    from i p(1) have "0 < card (holders s)" by (auto simp: card_gt_0_iff)
    then have "unat (lg_admitted (as_log s) - 1) = card (holders s) - 1"
      using unat_count_down [of "lg_admitted (as_log s)"] p(2) by simp
    moreover have "card (holders s - {i}) = card (holders s) - 1" using i p(1) by simp
    moreover have "card (holders s) - 1 \<le> unat (lg_request_slots (as_log s))" using p(3) by linarith
    ultimately have "permits_ok (set_phase i PhaseEnded (s\<lparr>as_log := ?l\<rparr>))"
      unfolding permits_ok_def holders_phase [OF none q, of PhaseEnded] using p(1)
      by (simp add: drop_audit_permit_def)
    moreover have "traces_ok (set_phase i PhaseEnded (s\<lparr>as_log := ?l\<rparr>))"
      by (rule traces_phase [OF inv(1) none _ q]) simp
    moreover have "writer_ok T (set_phase i PhaseEnded (s\<lparr>as_log := ?l\<rparr>))"
      unfolding writer_ok_log by (rule inv(3))
    ultimately have "traces_ok (set_phase i PhaseEnded (s\<lparr>as_log := ?l\<rparr>)) \<and>
      permits_ok (set_phase i PhaseEnded (s\<lparr>as_log := ?l\<rparr>)) \<and>
      writer_ok T (set_phase i PhaseEnded (s\<lparr>as_log := ?l\<rparr>))" by blast
  }
  then show ?thesis using assms(1) by (simp add: audit_inv_def drop_audit_permit_def)
qed

lemma inv_checked:
  assumes "audit_inv T slots s" and "as_phase s i = PhaseReserved"
  shows "audit_inv T slots (set_phase i PhaseChecked s)"
proof -
  {
    assume c: "tx_connected (as_log s)"
    then have inv: "traces_ok s" "permits_ok s" "writer_ok T s" using assms(1) by (simp_all add: audit_inv_def)
    have none: "own i (accepted s) = []" using unstarted_own [OF inv(1), of i] assms(2) by simp
    have "holders (set_phase i PhaseChecked s) = holders s"
      using assms(2) by (auto simp: holders_def accepted_def)
    moreover have "traces_ok (set_phase i PhaseChecked (s\<lparr>as_log := as_log s\<rparr>))"
      by (rule traces_phase [OF inv(1) none]) simp_all
    ultimately have "traces_ok (set_phase i PhaseChecked s) \<and> permits_ok (set_phase i PhaseChecked s) \<and>
      writer_ok T (set_phase i PhaseChecked s)"
      using inv(2,3) by (simp add: permits_ok_def writer_ok_def)
  }
  then show ?thesis using assms(1) by (simp add: audit_inv_def)
qed

text \<open>An event of a holder enters the channel.\<close>

lemma inv_sent:
  assumes "audit_inv T slots s" and "tx_connected (as_log s)" and "event_id ev \<in> holders s"
    and "trace_ok p (own (event_id ev) (accepted s) @ [ev])"
    and "event_id ev \<notin> ended_in (as_handled s)"
  shows "audit_inv T slots (set_phase (event_id ev) p
    (s\<lparr>as_log := (as_log s)\<lparr>tx_queue := tx_queue (as_log s) @ [ev]\<rparr>\<rparr>))" (is "audit_inv T slots ?s")
proof -
  have inv: "traces_ok s" "permits_ok s" "writer_ok T s" using assms(1,2) by (simp_all add: audit_inv_def)
  have own: "own k (accepted ?s) = (if k = event_id ev then own k (accepted s) @ [ev] else own k (accepted s))" for k
    by (simp add: accepted_def)
  have "trace_ok (as_phase ?s k) (own k (accepted ?s))" for k
    unfolding own using traceD [OF inv(1), of k] assms(4) by simp
  then have "traces_ok ?s" unfolding traces_ok_def by blast
  moreover have "holders ?s = holders s"
  proof -
    have "i \<in> holders ?s \<longleftrightarrow> i \<in> holders s" for i
      unfolding holders_def mem_Collect_eq own using assms(3,5)
      by (cases "i = event_id ev") (simp_all add: holders_def)
    then show ?thesis by blast
  qed
  ultimately show ?thesis using assms(1,2) inv(2,3)
    by (simp add: audit_inv_def permits_ok_def writer_ok_def)
qed

lemma try_send_room:
  "tx_connected l \<Longrightarrow> length (tx_queue l) < lg_event_slots l \<Longrightarrow>
   try_send ev l = (Sent, l\<lparr>tx_queue := tx_queue l @ [ev]\<rparr>)"
  by (simp add: try_send_def)

lemma inv_admitted:
  assumes "audit_inv T slots s" and "as_phase s i = PhaseChecked"
    and "enqueue_started now i info (as_log s) = (Inr g, l)"
  shows "audit_inv T slots (set_phase i (PhaseHandling False False) (s\<lparr>as_log := l\<rparr>))"
proof -
  have c: "tx_connected (as_log s)"
    and l: "l = (as_log s)\<lparr>tx_queue := tx_queue (as_log s) @ [RequestStarted i now info]\<rparr>"
    using assms(3) by (auto simp: enqueue_started_def try_send_def split: if_splits prod.splits TrySend.splits)
  have inv: "traces_ok s" using assms(1) c by (simp add: audit_inv_def)
  have none: "own i (accepted s) = []" using unstarted_own [OF inv, of i] assms(2) by simp
  then have "i \<notin> ended_in (as_handled s)" by (auto simp: accepted_def ended_in_def filter_empty_conv)
  then show ?thesis
    using inv_sent [OF assms(1) c, of "RequestStarted i now info" "PhaseHandling False False"] none assms(2)
    by (simp add: l holders_def)
qed

lemma inv_refused:
  assumes "audit_inv T slots s" and "as_phase s i = PhaseChecked"
    and "enqueue_started now i info (as_log s) = (Inl e, l)"
  shows "audit_inv T slots (set_phase i PhaseEnded (s\<lparr>as_log := l\<rparr>))"
proof -
  have "\<not> tx_connected (as_log s)"
    using assms(3) room_in_channel [OF assms(1), of i] assms(2)
    by (auto simp: enqueue_started_def try_send_room)
  then have "l = drop_audit_permit (mark_failed (as_log s))"
    using assms(3) by (simp add: enqueue_started_def try_send_def)
  with assms(1) \<open>\<not> tx_connected (as_log s)\<close> show ?thesis
    by (simp add: audit_inv_def mark_failed_def drop_audit_permit_def)
qed

lemma inv_report:
  assumes "audit_inv T slots s" and "call_of ev = Some c"
    and "next_phase (as_phase s (event_id ev)) c = Some p"
  shows "audit_inv T slots (set_phase (event_id ev) p (s\<lparr>as_log := send ev (as_log s)\<rparr>))"
proof (cases "tx_connected (as_log s)")
  case True
  let ?i = "event_id ev"
  have inv: "traces_ok s" using assms(1) True by (simp add: audit_inv_def)
  have live: "as_phase s ?i \<notin> {PhaseFresh, PhaseEnded}" using assms(3) by auto
  have "send ev (as_log s) = (as_log s)\<lparr>tx_queue := tx_queue (as_log s) @ [ev]\<rparr>"
    using try_send_room [OF True room_in_channel [OF assms(1) True live]] by (simp add: send_def)
  moreover have "?i \<notin> ended_in (as_handled s)"
    using accepted_split(2) [OF inv] live by (auto simp: ended_in_def)
  moreover note trace_ok_snoc [OF traceD [OF inv] assms(2,3)]
  ultimately show ?thesis using inv_sent [OF assms(1) True, of ev p] by (simp add: holders_def)
next
  case False
  with assms(1) show ?thesis by (simp add: audit_inv_def send_def try_send_def mark_failed_def)
qed

text \<open>The writer takes an event: what it means for the entry of its request.\<close>

lemma head_of_channel:
  assumes "traces_ok s" and "tx_queue (as_log s) = ev # rest" and "writer_ok T s"
  defines "i \<equiv> event_id ev"
  shows "permits_dropped (hget (wr_pending (as_writer s)) i) ev = (if is_finished ev then 1 else 0)"
    and "i \<notin> ended_in (as_handled s)"
proof -
  let ?H = "as_handled s"
  have tr: "trace_ok (as_phase s i) (own i ?H @ ev # own i rest)"
    using traceD [OF assms(1), of i] by (simp add: accepted_def assms(2) i_def)
  have "event_id e \<noteq> i" if "e \<in> set ?H" "is_finished e" for e
    using accepted_split(1) [OF assms(1) that] by (auto simp: assms(2) i_def split: if_splits)
  then show no: "i \<notin> ended_in ?H" by (auto simp: ended_in_def)
  have entry: "hget (wr_pending (as_writer s)) i = own_entry (own i ?H)"
    using assms(3) by (simp add: writer_ok_def)
  show "permits_dropped (hget (wr_pending (as_writer s)) i) ev = (if is_finished ev then 1 else 0)"
  proof (cases "is_finished ev")
    case True
    have "own i ?H \<noteq> []" by (rule trace_ok_finished(3) [OF tr True])
    moreover have "list_all (\<lambda>e. \<not> is_finished e) (own i ?H)"
      using no by (auto simp: list_all_iff ended_in_def)
    ultimately have "own_entry (own i ?H) \<noteq> None" by (rule own_entry_live [OF tr])
    with True entry show ?thesis by (simp add: permits_dropped_def)
  next
    case False
    have "own_entry (own i ?H) = None" if "call_of ev = None"
    proof -
      have "own i ?H = []" using trace_ok_started [OF tr] that by simp
      then show ?thesis by (simp add: own_entry_def)
    qed
    with False entry show ?thesis by (auto simp: permits_dropped_def)
  qed
qed

lemma completed_unfinished: "\<not> is_finished ev \<Longrightarrow> completed T m ev = []"
  by (cases "(T, m, ev)" rule: completed.cases) auto

lemma writer_ok_handled:
  assumes "traces_ok s" and "tx_queue (as_log s) = ev # rest" and "writer_ok T s"
    and "worker_event T fails t now later ev (as_writer s) = Some (True, w, n)"
  shows "writer_ok T (s\<lparr>as_log := l, as_writer := w, as_handled := as_handled s @ [ev]\<rparr>)"
proof -
  let ?H = "as_handled s" and ?i = "event_id ev"
  have no: "?i \<notin> ended_in ?H" using head_of_channel(2) [OF assms(1,2,3)] .
  have entry: "hget (wr_pending (as_writer s)) k = own_entry (own k ?H)" for k
    using assms(3) by (simp add: writer_ok_def)
  have dist: "distinct (keys_of (wr_pending (as_writer s)))" using assms(3) by (simp add: writer_ok_def)
  obtain written w1 where h: "handle_event T fails t ev (as_writer s) = Some (Some written, w1, n)"
    and w: "wr_pending w = wr_pending w1" "wr_records w = wr_records w1"
    by (rule worker_event_handled [OF assms(4)])
  note eff = handle_event_effect [OF h]
  have "hget (wr_pending w) k = own_entry (own k (?H @ [ev]))" for k
    using eff(1) [of k] w(1) entry [of k] by (cases "k = ?i") (simp_all add: own_entry_snoc)
  moreover have "distinct (keys_of (wr_pending w))" using eff(4) [OF dist] w(1) by simp
  moreover have "wr_records w =
      concat (map (\<lambda>e. own_record T (own (event_id e) (?H @ [ev]))) (filter is_finished (?H @ [ev])))"
  proof -
    have same: "own (event_id e) (?H @ [ev]) = own (event_id e) ?H" if "e \<in> set (filter is_finished ?H)" for e
      using that no by (auto simp: ended_in_def)
    have old: "map (\<lambda>e. own_record T (own (event_id e) (?H @ [ev]))) (filter is_finished ?H) =
        map (\<lambda>e. own_record T (own (event_id e) ?H)) (filter is_finished ?H)"
      by (rule map_cong [OF refl]) (simp only: same)
    have records: "wr_records (as_writer s) =
        concat (map (\<lambda>e. own_record T (own (event_id e) ?H)) (filter is_finished ?H))"
      using assms(3) by (simp add: writer_ok_def)
    have new: "wr_records w = wr_records (as_writer s) @ completed T (own_entry (own ?i ?H)) ev"
      using eff(2) w(2) entry [of ?i] by simp
    show ?thesis
    proof (cases "is_finished ev")
      case True
      then have "filter is_finished (?H @ [ev]) = filter is_finished ?H @ [ev]" by simp
      then show ?thesis unfolding new records by (simp only: map_append concat_append old)
          (simp add: own_record_snoc)
    next
      case False
      then have "filter is_finished (?H @ [ev]) = filter is_finished ?H" by simp
      then show ?thesis unfolding new records by (simp only: old) (simp add: completed_unfinished [OF False])
    qed
  qed
  ultimately show ?thesis by (simp add: writer_ok_def)
qed

lemma inv_handled:
  assumes "audit_inv T slots s" and "tx_connected (as_log s)" and "tx_queue (as_log s) = ev # rest"
    and "worker_event T fails t now later ev (as_writer s) = Some (True, w, n)"
  shows "audit_inv T slots
    (s\<lparr>as_log := (as_log s)\<lparr>tx_queue := rest, lg_admitted := lg_admitted (as_log s) - of_nat n\<rparr>,
       as_writer := w, as_handled := as_handled s @ [ev]\<rparr>)" (is "audit_inv T slots ?s")
proof -
  let ?i = "event_id ev" and ?a = "lg_admitted (as_log s)"
  have inv: "traces_ok s" "permits_ok s" "writer_ok T s" using assms(1,2) by (simp_all add: audit_inv_def)
  have p: "finite (holders s)" "unat ?a = card (holders s)"
    "card (holders s) \<le> unat (lg_request_slots (as_log s))"
    using inv(2) by (simp_all add: permits_ok_def)
  note head = head_of_channel [OF inv(1) assms(3) inv(3)]
  have acc: "accepted ?s = accepted s" by (simp add: accepted_def assms(3))
  have "traces_ok ?s" using inv(1) unfolding traces_ok_def acc by simp
  moreover have "writer_ok T ?s" by (rule writer_ok_handled [OF inv(1) assms(3) inv(3) assms(4)])
  moreover have "permits_ok ?s"
  proof -
    obtain written w1 where "handle_event T fails t ev (as_writer s) = Some (Some written, w1, n)"
      by (rule worker_event_handled [OF assms(4)])
    from handle_event_effect(3) [OF this] head(1) have n: "n = (if is_finished ev then 1 else 0)" by simp
    have ended: "ended_in (as_handled ?s) = (if is_finished ev then insert ?i (ended_in (as_handled s))
        else ended_in (as_handled s))"
      by (auto simp: ended_in_def)
    have own: "own ?i (accepted s) \<noteq> []" by (simp add: accepted_def assms(3))
    with head(2) have i: "?i \<in> holders s" by (simp add: holders_def)
    show ?thesis
    proof (cases "is_finished ev")
      case True
      have "as_phase s ?i \<notin> {PhaseReserved, PhaseChecked}"
        using unstarted_own [OF inv(1), of ?i] own by auto
      then have h: "holders ?s = holders s - {?i}"
        unfolding holders_def acc ended using True by auto
      have pos: "0 < card (holders s)" using i p(1) by (auto simp: card_gt_0_iff)
      have down: "unat (?a - 1) = card (holders s) - 1" using unat_count_down [of ?a] p(2) pos by simp
      have "card (holders s - {?i}) = card (holders s) - 1" using i p(1) by simp
      moreover have "card (holders s) - 1 \<le> unat (lg_request_slots (as_log s))" using p(3) by linarith
      ultimately show ?thesis unfolding permits_ok_def h using p(1) down True n by simp
    next
      case False
      then have "holders ?s = holders s" unfolding holders_def acc ended by simp
      then show ?thesis using p False n by (simp add: permits_ok_def)
    qed
  qed
  ultimately show ?thesis using assms(1) by (simp add: audit_inv_def)
qed

lemma audit_step_inv: "audit_step T t s s' \<Longrightarrow> audit_inv T slots s \<Longrightarrow> audit_inv T slots s'"
proof (induction rule: audit_step.induct)
  case (reserve s i l)
  then show ?case by (intro inv_reserve)
next
  case (unhealthy s i)
  then show ?case by (intro inv_drop) simp_all
next
  case (checked s i)
  then show ?case by (intro inv_checked)
next
  case (admitted s i now info g l)
  then show ?case by (intro inv_admitted)
next
  case (refused s i now info e l)
  then show ?case by (intro inv_refused)
next
  case (report ev c s p)
  then show ?case by (intro inv_report)
next
  case (handled s ev rest fails now later w n)
  then show ?case by (intro inv_handled)
next
  case (idle s fails now w)
  have "traces_ok (s\<lparr>as_writer := w\<rparr>) = traces_ok s" "permits_ok (s\<lparr>as_writer := w\<rparr>) = permits_ok s"
    "writer_ok T (s\<lparr>as_writer := w\<rparr>) = writer_ok T s"
    using worker_timeout_keeps [OF idle(3)] by (simp_all add: audit_defs)
  with idle show ?case by (simp add: audit_inv_def)
next
  case (failed s n w)
  then show ?case by (simp add: audit_inv_def stop_writer_def)
next
  case (health_guard s)
  then show ?case by (simp add: audit_inv_def mark_failed_def)
qed

lemma audit_start_inv: "audit_start slots now = Some s \<Longrightarrow> audit_inv T slots s"
  by (auto simp: audit_start_def sender_new_def writer_new_def audit_defs own_entry_def
      MAX_EVENTS_PER_REQUEST_def split: if_splits bind_splits)

lemma audit_reachable_inv: "audit_reachable T t slots s \<Longrightarrow> audit_inv T slots s"
  by (induction rule: audit_reachable.induct) (auto intro: audit_start_inv audit_step_inv)

subsection \<open>Consequences\<close>

lemma next_phase_ended: "next_phase p c = Some PhaseEnded \<Longrightarrow> c = CallFinished"
  by (cases "(p, c)" rule: next_phase.cases) auto

lemma ended_trace_finished:
  assumes "trace_ok PhaseEnded es" and "es \<noteq> []"
  shows "is_finished (last es)"
proof -
  from assms(2) obtain e es' where es: "es = e # es'" by (cases es) auto
  with assms(1) obtain cs where cs: "map call_of es' = map Some cs"
    "run_calls (PhaseHandling False False) cs = Some PhaseEnded" by auto
  then have "cs \<noteq> []" by auto
  then obtain ds c where ds: "cs = ds @ [c]" by (cases cs rule: rev_cases) auto
  with cs(2) have "c = CallFinished" by (auto simp: run_calls_snoc split: bind_splits dest: next_phase_ended)
  with cs(1) ds have "map call_of es' = map Some ds @ [Some CallFinished]" by simp
  then have "last (map call_of es') = Some CallFinished" "es' \<noteq> []" by auto
  then show ?thesis by (simp add: es last_map)
qed

lemma finished_distinct:
  assumes "\<And>i. trace_ok (p i) (own i (es @ qs))"
  shows "distinct (map event_id (filter is_finished es))"
  using assms
proof (induction es arbitrary: qs rule: rev_induct)
  case (snoc e es)
  have "distinct (map event_id (filter is_finished es))"
    using snoc.IH [of "e # qs"] snoc.prems by simp
  moreover have "event_id e \<notin> event_id ` set (filter is_finished es)" if "is_finished e"
  proof
    assume "event_id e \<in> event_id ` set (filter is_finished es)"
    then obtain x where x: "x \<in> set es" "is_finished x" "event_id x = event_id e" by auto
    then obtain xs ys where "es = xs @ x # ys" by (meson split_list)
    with x(3) have "own (event_id e) ((es @ [e]) @ qs) = own (event_id e) xs @ x #
        (own (event_id e) ys @ e # own (event_id e) qs)" by simp
    with snoc.prems [of "event_id e"] trace_ok_finished(1) [OF _ x(2)] show False by fastforce
  qed
  ultimately show ?case by auto
qed simp

lemma completed_once:
  assumes "is_finished e" and "m \<noteq> None"
  shows "\<exists>at_ms outcome ob entry. e = ResponseFinished (event_id e) at_ms outcome ob \<and> m = Some entry \<and>
    completed T m e = [record_of T (event_id e) (entry_observed ob entry) at_ms outcome]"
  using assms by (cases e) auto

text \<open>The record of a request whose end was handled: one, made of its own events.\<close>

lemma own_record_once:
  assumes "traces_ok s" and "e \<in> set (as_handled s)" and "is_finished e"
  shows "\<exists>at_ms outcome ob entry. e = ResponseFinished (event_id e) at_ms outcome ob \<and>
     own_entry (butlast (own (event_id e) (as_handled s))) = Some entry \<and>
     own_record T (own (event_id e) (as_handled s)) =
       [record_of T (event_id e) (entry_observed ob entry) at_ms outcome]"
proof -
  let ?i = "event_id e" and ?H = "as_handled s"
  from assms(2) have "e \<in> set (own ?i ?H)" by simp
  then obtain xs ys where xs: "own ?i ?H = xs @ e # ys" by (meson split_list)
  have tr: "trace_ok (as_phase s ?i) (xs @ e # (ys @ own ?i (tx_queue (as_log s))))"
    using traceD [OF assms(1), of ?i] by (simp add: accepted_def xs)
  note fin = trace_ok_finished [OF tr assms(3)]
  have own: "own ?i ?H = xs @ [e]" using xs fin(1) by simp
  have "list_all (\<lambda>e. \<not> is_finished e) xs"
  proof -
    have False if "xs = as @ x # bs" "is_finished x" for as x bs
      using trace_ok_finished(1) [of "as_phase s ?i" as x "bs @ e # (ys @ own ?i (tx_queue (as_log s)))"]
        tr that by simp
    then show ?thesis unfolding list_all_iff by (metis split_list)
  qed
  then have "own_entry xs \<noteq> None" using own_entry_live [OF tr] fin(3) by blast
  from completed_once [OF assms(3) this, of T] show ?thesis
    unfolding own own_record_snoc butlast_snoc by blast
qed

lemma concat_singletons:
  "(\<And>x. x \<in> set xs \<Longrightarrow> \<exists>r. f x = [r] \<and> P x r) \<Longrightarrow> list_all2 P xs (concat (map f xs))"
proof (induction xs)
  case (Cons x xs)
  from Cons.prems [of x] obtain r where "f x = [r]" "P x r" by auto
  with Cons show ?case by simp
qed simp

text \<open>What a stopped writer and an empty channel mean.\<close>

lemma stopped_step:
  assumes "audit_step T t s s'" and "\<not> tx_connected (as_log s)"
  shows "\<not> tx_connected (as_log s') \<and>
    (\<forall>r e. as_phase s' i = PhaseHandling r e \<longrightarrow> (\<exists>r e. as_phase s i = PhaseHandling r e))"
  using assms
proof (induction rule: audit_step.induct)
  case (report ev c s p)
  have "\<exists>r e. q = PhaseHandling r e" if "next_phase q c = Some (PhaseHandling a b)" for q a b
    using that by (cases "(q, c)" rule: next_phase.cases) auto
  with report show ?case by (auto simp: send_def try_send_def mark_failed_def)
qed (auto simp: reserve_slot_def drop_audit_permit_def enqueue_started_def try_send_def mark_failed_def
    split: if_splits)

lemma quiet_ended:
  assumes "traces_ok s"
  shows "tx_queue (as_log s) = [] \<Longrightarrow> as_phase s i = PhaseEnded \<and> own i (as_handled s) \<noteq> [] \<Longrightarrow>
    i \<in> event_id ` set (filter is_finished (as_handled s))"
proof -
  assume "tx_queue (as_log s) = []" and i: "as_phase s i = PhaseEnded \<and> own i (as_handled s) \<noteq> []"
  then have "trace_ok PhaseEnded (own i (as_handled s))" using traceD [OF assms, of i] by (simp add: accepted_def)
  with i have "is_finished (last (own i (as_handled s)))" using ended_trace_finished by blast
  moreover have "last (own i (as_handled s)) \<in> set (own i (as_handled s))" using i last_in_set by blast
  ultimately show ?thesis by (auto intro!: image_eqI [of _ _ "last (own i (as_handled s))"])
qed

lemma quiet_idle:
  assumes "traces_ok s" and "permits_ok s" and "writer_ok T s"
  shows "tx_queue (as_log s) = [] \<Longrightarrow> (\<forall>i. as_phase s i \<in> {PhaseFresh, PhaseEnded}) \<Longrightarrow>
    wr_pending (as_writer s) = [] \<and> lg_admitted (as_log s) = 0"
proof -
  assume q: "tx_queue (as_log s) = []" and ph: "\<forall>i. as_phase s i \<in> {PhaseFresh, PhaseEnded}"
  have ended: "own i (as_handled s) = [] \<or> i \<in> ended_in (as_handled s)" for i
    using quiet_ended [OF assms(1) q, of i] ph unstarted_own [OF assms(1), of i] q
    by (fastforce simp: accepted_def ended_in_def)
  then have "i \<notin> holders s" for i using ph [rule_format, of i] q by (auto simp: holders_def accepted_def)
  then have "holders s = {}" by blast
  then have "unat (lg_admitted (as_log s)) = 0" using assms(2) by (simp add: permits_ok_def)
  then have zero: "lg_admitted (as_log s) = 0" by (simp add: unat_eq_zero)
  have "hget (wr_pending (as_writer s)) i = None" for i
  proof (cases "own i (as_handled s) = []")
    case True
    then show ?thesis using assms(3) by (simp add: writer_ok_def own_entry_def)
  next
    case False
    then have "as_phase s i = PhaseEnded" using ph unstarted_own [OF assms(1), of i] q
      by (auto simp: accepted_def)
    then have "is_finished (last (own i (as_handled s)))"
      using traceD [OF assms(1), of i] q False ended_trace_finished by (simp add: accepted_def)
    then have "own_entry (butlast (own i (as_handled s)) @ [last (own i (as_handled s))]) = None"
      unfolding own_entry_snoc by (cases "last (own i (as_handled s))") simp_all
    then show ?thesis using assms(3) False by (simp add: writer_ok_def)
  qed
  then have "i \<notin> set (keys_of (wr_pending (as_writer s)))" for i unfolding hget_None_iff .
  then have "wr_pending (as_writer s) = []" by (cases "wr_pending (as_writer s)") fastforce+
  with zero show ?thesis by simp
qed

definition demo_text :: "unit log_text" where
  "demo_text = \<lparr>show_id = (\<lambda>_. ''r''), show_uri = (\<lambda>_. ''/'')\<rparr>"

definition demo_info :: "unit RequestInfo" where
  "demo_info = \<lparr>ri_peer = (''::1'', 1), ri_method = ''GET'', ri_uri = (), ri_version = HTTP_11,
     ri_host = None, ri_user_agent = None, ri_content_length = None, ri_key_sha256 = None,
     ri_identity = None, ri_authorized = False, ri_auth_error = None, ri_openwebui_user = None\<rparr>"

text \<open>A system with room for one request, whose client left before a response.\<close>

lemma demo_run:
  obtains s where "audit_reachable demo_text False 1 s" "tx_connected (as_log s)"
    "as_phase s 7 = PhaseHandling False False" "as_handled s = []"
    "tx_queue (as_log s) = [RequestStarted 7 0 demo_info]" "wr_pending (as_writer s) = []"
    "lg_event_slots (as_log s) = 5" "lg_admitted (as_log s) = 1"
    "\<And>i. i \<noteq> 7 \<Longrightarrow> as_phase s i = PhaseFresh"
proof -
  define s0 :: "unit audit_sys" where
    "s0 = \<lparr>as_log = \<lparr>tx_queue = [], tx_connected = True, lg_healthy = True, lg_notified = False,
              lg_admitted = 0, lg_request_slots = 1, lg_event_slots = 5\<rparr>,
           as_writer = writer_new 0, as_phase = (\<lambda>_. PhaseFresh), as_handled = []\<rparr>"
  define s1 where "s1 = set_phase 7 PhaseReserved (s0\<lparr>as_log := (as_log s0)\<lparr>lg_admitted := 1\<rparr>\<rparr>)"
  define s2 where "s2 = set_phase 7 PhaseChecked s1"
  define s3 where "s3 = set_phase 7 (PhaseHandling False False)
    (s2\<lparr>as_log := (as_log s2)\<lparr>tx_queue := [RequestStarted 7 0 demo_info]\<rparr>\<rparr>)"
  have "audit_start 1 0 = Some s0"
    by (simp add: audit_start_def sender_new_def s0_def MAX_EVENTS_PER_REQUEST_def)
  then have r0: "audit_reachable demo_text False 1 s0" by (rule audit_reachable.start)
  have "audit_step demo_text False s0 s1" unfolding s1_def
    by (rule audit_step.reserve) (simp_all add: s0_def reserve_slot_def)
  note r1 = audit_reachable.step [OF r0 this]
  have "audit_step demo_text False s1 s2" unfolding s2_def
    by (rule audit_step.checked) (simp_all add: s0_def s1_def)
  note r2 = audit_reachable.step [OF r1 this]
  have "audit_step demo_text False s2 s3" unfolding s3_def
    by (rule audit_step.admitted [of _ _ 0 demo_info "\<lparr>rg_id = 7, rg_armed = True\<rparr>"])
      (simp_all add: s0_def s1_def s2_def enqueue_started_def try_send_def)
  note r3 = audit_reachable.step [OF r2 this]
  show thesis by (rule that [OF r3]) (simp_all add: s3_def s2_def s1_def s0_def writer_new_def)
qed

lemma demo_run_done:
  obtains s where "audit_reachable demo_text False 1 s" "tx_connected (as_log s)"
    "as_handled s = [RequestStarted 7 0 demo_info, ResponseFinished 7 5 BodyAbandoned default_observation]"
    "tx_queue (as_log s) = []" "\<And>i. as_phase s i \<in> {PhaseFresh, PhaseEnded}"
proof -
  obtain s where s: "audit_reachable demo_text False 1 s" "tx_connected (as_log s)"
    "as_phase s 7 = PhaseHandling False False" "as_handled s = []"
    "tx_queue (as_log s) = [RequestStarted 7 0 demo_info]" "wr_pending (as_writer s) = []"
    "lg_event_slots (as_log s) = 5" "lg_admitted (as_log s) = 1"
    "\<And>i. i \<noteq> 7 \<Longrightarrow> as_phase s i = PhaseFresh"
    by (rule demo_run) blast
  define fin :: "unit LogEvent" where "fin = ResponseFinished 7 5 BodyAbandoned default_observation"
  define s1 where "s1 = set_phase 7 PhaseEnded (s\<lparr>as_log := send fin (as_log s)\<rparr>)"
  have "audit_step demo_text False s s1"
    using audit_step.report [of fin CallFinished s PhaseEnded] s(3) by (simp add: fin_def s1_def)
  note r1 = audit_reachable.step [OF s(1) this]
  have q1: "tx_queue (as_log s1) = [RequestStarted 7 0 demo_info, fin]" "tx_connected (as_log s1)"
    using s by (simp_all add: s1_def send_def try_send_def)
  define w where "w = (as_writer s1)\<lparr>wr_pending := hset 7 (pending_new 0 demo_info) (wr_pending (as_writer s1))\<rparr>"
  have p1: "wr_pending (as_writer s1) = []" using s by (simp add: s1_def)
  have "\<exists>w n. worker_event demo_text (\<lambda>_. False) False 0 0 (RequestStarted 7 0 demo_info) (as_writer s1) = Some (True, w, n)"
    by (simp add: worker_event_def handle_event_def print_line_def Let_def flush_writer_def)
  then obtain w n where e1: "worker_event demo_text (\<lambda>_. False) False 0 0 (RequestStarted 7 0 demo_info)
      (as_writer s1) = Some (True, w, n)" by blast
  define s2 where "s2 = s1\<lparr>as_log := (as_log s1)\<lparr>tx_queue := [fin], lg_admitted := lg_admitted (as_log s1) - of_nat n\<rparr>,
    as_writer := w, as_handled := as_handled s1 @ [RequestStarted 7 0 demo_info]\<rparr>"
  have "audit_step demo_text False s1 s2" unfolding s2_def by (rule audit_step.handled [OF q1(2,1) e1])
  note r2 = audit_reachable.step [OF r1 this]
  have q2: "tx_queue (as_log s2) = [fin]" "tx_connected (as_log s2)" using q1 by (simp_all add: s2_def)
  have "\<exists>w n. worker_event demo_text (\<lambda>_. False) False 0 0 fin (as_writer s2) = Some (True, w, n)"
    by (simp add: worker_event_def handle_event_def print_line_def write_record_def Let_def flush_writer_def
        fin_def split: option.split)
  then obtain w' n' where e2: "worker_event demo_text (\<lambda>_. False) False 0 0 fin (as_writer s2) = Some (True, w', n')"
    by blast
  note r3 = audit_reachable.step [OF r2 audit_step.handled [OF q2(2,1) e2]]
  show thesis
    by (rule that [OF r3]) (use s q1 in \<open>auto simp: s2_def s1_def fin_def\<close>)
qed

subsection \<open>Properties\<close>

text \<open>
  C22. The channel to the audit writer never fills up and the log fails closed. In every
  interleaving of requests and writer, while the writer lives, at most as many requests hold a
  permit as there are slots, and every event a request may still report finds room, whatever
  the writer's delay. Once the writer has stopped, no request is admitted any more.
\<close>

theorem audit_channel_never_full:
  assumes "audit_reachable T terminal_log slots s"
  shows "(tx_connected (as_log s) \<longrightarrow>
      unat (lg_admitted (as_log s)) \<le> unat slots \<and>
      (\<forall>i ev. as_phase s i \<notin> {PhaseFresh, PhaseEnded} \<longrightarrow> fst (try_send ev (as_log s)) = Sent)) \<and>
    (\<not> tx_connected (as_log s) \<longrightarrow>
      (\<forall>s' i. audit_step T terminal_log s s' \<longrightarrow> \<not> tx_connected (as_log s') \<and>
         (\<forall>r e. as_phase s' i = PhaseHandling r e \<longrightarrow> (\<exists>r e. as_phase s i = PhaseHandling r e))))"
proof -
  note inv = audit_reachable_inv [OF assms]
  have "unat (lg_admitted (as_log s)) \<le> unat slots" if "tx_connected (as_log s)"
    using inv that by (auto simp: audit_inv_def permits_ok_def)
  moreover have "fst (try_send ev (as_log s)) = Sent"
    if "tx_connected (as_log s)" "as_phase s i \<notin> {PhaseFresh, PhaseEnded}" for i ev
    using try_send_room [OF that(1) room_in_channel [OF inv that]] by simp
  moreover have "\<not> tx_connected (as_log s') \<and>
      (\<forall>r e. as_phase s' i = PhaseHandling r e \<longrightarrow> (\<exists>r e. as_phase s i = PhaseHandling r e))"
    if "audit_step T terminal_log s s'" "\<not> tx_connected (as_log s)" for s' i
    using that by (rule stopped_step)
  ultimately show ?thesis by blast
qed

theorem audit_channel_never_full_witness:
  "\<exists>s. audit_reachable demo_text False 1 s \<and> as_phase s 7 = PhaseHandling False False \<and>
     fst (try_send (RequestError 7 ''e'') (as_log s)) = Sent"
proof -
  obtain s where "audit_reachable demo_text False 1 s" "tx_connected (as_log s)"
    "as_phase s 7 = PhaseHandling False False"
    by (rule demo_run) blast
  moreover have "fst (try_send (RequestError 7 ''e'') (as_log s)) = Sent"
    using audit_channel_never_full [of demo_text False 1 s] calculation by (metis insert_iff phase.distinct empty_iff)
  ultimately show ?thesis by blast
qed

text \<open>
  C23. Exactly one record is written per admitted request. In every interleaving, while the
  writer lives, the records are those of the ends it has taken, in that order and for
  different requests, and each is made of that request's own events only, whatever came in
  between. When the channel is empty every admitted request that ended has its record; when
  moreover no request is under way, nothing is pending and every permit is back.
\<close>

theorem one_record_per_request:
  assumes "audit_reachable T terminal_log slots s" and "tx_connected (as_log s)"
  defines "H \<equiv> as_handled s"
  shows "distinct (map event_id (filter is_finished H)) \<and>
    list_all2 (\<lambda>e r. \<exists>at_ms outcome ob entry. e = ResponseFinished (event_id e) at_ms outcome ob \<and>
        own_entry (butlast (own (event_id e) H)) = Some entry \<and>
        r = record_of T (event_id e) (entry_observed ob entry) at_ms outcome)
      (filter is_finished H) (wr_records (as_writer s)) \<and>
    (tx_queue (as_log s) = [] \<longrightarrow>
      (\<forall>i. as_phase s i = PhaseEnded \<and> own i H \<noteq> [] \<longrightarrow> i \<in> event_id ` set (filter is_finished H)) \<and>
      ((\<forall>i. as_phase s i \<in> {PhaseFresh, PhaseEnded}) \<longrightarrow>
        wr_pending (as_writer s) = [] \<and> lg_admitted (as_log s) = 0))"
proof -
  have inv: "traces_ok s" "permits_ok s" "writer_ok T s"
    using audit_reachable_inv [OF assms(1)] assms(2) by (simp_all add: audit_inv_def)
  have "distinct (map event_id (filter is_finished H))"
    using finished_distinct [of "as_phase s" H "tx_queue (as_log s)"] inv(1)
    by (simp add: traces_ok_def accepted_def H_def)
  moreover have "list_all2 (\<lambda>e r. \<exists>at_ms outcome ob entry. e = ResponseFinished (event_id e) at_ms outcome ob \<and>
        own_entry (butlast (own (event_id e) H)) = Some entry \<and>
        r = record_of T (event_id e) (entry_observed ob entry) at_ms outcome)
      (filter is_finished H) (concat (map (\<lambda>e. own_record T (own (event_id e) H)) (filter is_finished H)))"
    using own_record_once [OF inv(1), of _ T] unfolding H_def by (intro concat_singletons) fastforce
  moreover have "wr_records (as_writer s) =
      concat (map (\<lambda>e. own_record T (own (event_id e) H)) (filter is_finished H))"
    using inv(3) by (simp add: writer_ok_def H_def)
  moreover note quiet_ended [OF inv(1), folded H_def] quiet_idle [OF inv, folded H_def]
  ultimately show ?thesis by simp
qed

theorem one_record_per_request_witness:
  "\<exists>s r. audit_reachable demo_text False 1 s \<and> wr_records (as_writer s) = [r] \<and>
     rr_termination r = ''client_disconnected'' \<and> lg_admitted (as_log s) = 0"
proof -
  obtain s where s: "audit_reachable demo_text False 1 s" "tx_connected (as_log s)"
    "as_handled s = [RequestStarted 7 0 demo_info, ResponseFinished 7 5 BodyAbandoned default_observation]"
    "tx_queue (as_log s) = []" "\<And>i. as_phase s i \<in> {PhaseFresh, PhaseEnded}"
    by (rule demo_run_done) blast
  from one_record_per_request [OF s(1,2)] s(3-5)
  have "lg_admitted (as_log s) = 0" "\<exists>r. wr_records (as_writer s) = [r] \<and> rr_termination r = ''client_disconnected''"
    by (auto simp: list_all2_Cons1 record_of_def Let_def)
  with s(1) show ?thesis by blast
qed

end
