(* ===== verification/Proxy.thy ===== *)
theory Proxy
  imports Audit_Log
begin

text \<open>
  The proxy handler (\<open>src/src/proxy.rs\<close>): admission, authentication, selection of a backend,
  rewriting of the request, and the response body that holds the lease of its backend until
  the stream ends. What the HTTP client delivers is an argument, and so is the time the
  handler waits for it: \<open>fw_waiting\<close> is what other threads do meanwhile, and the client of the
  proxy may disconnect, which drops the handler where it waits.
\<close>

subsection \<open>Headers\<close>

definition hm_insert :: "string \<Rightarrow> string \<Rightarrow> HeaderMap \<Rightarrow> HeaderMap" where
  "hm_insert name v headers = filter (\<lambda>(n, _). n \<noteq> name) headers @ [(name, v)]"

definition hm_remove :: "string \<Rightarrow> HeaderMap \<Rightarrow> HeaderMap" where
  "hm_remove name headers = filter (\<lambda>(n, _). n \<noteq> name) headers"

fun split_on :: "char \<Rightarrow> string \<Rightarrow> string list" where
  "split_on c [] = [[]]"
| "split_on c (x # xs) =
     (if x = c then [] # split_on c xs
      else case split_on c xs of y # ys \<Rightarrow> (x # y) # ys | [] \<Rightarrow> [[x]])"

definition trim_ascii :: "string \<Rightarrow> string" where
  "trim_ascii s = rev (dropWhile is_ascii_whitespace (rev (dropWhile is_ascii_whitespace s)))"

text \<open>\<open>header_name\<close> is \<open>HeaderName::from_bytes\<close>.\<close>

definition connection_headers :: "(string \<Rightarrow> string option) \<Rightarrow> HeaderMap \<Rightarrow> string list" where
  "connection_headers header_name headers =
     List.map_filter (\<lambda>name. if trim_ascii name = [] then None else header_name (trim_ascii name))
       (concat (map (split_on (CHR 0x2C)) (get_all headers ''connection'')))"

definition HOP_BY_HOP :: "string list" where
  "HOP_BY_HOP = [''connection'', ''keep-alive'', ''proxy-authenticate'', ''proxy-authorization'',
     ''te'', ''trailer'', ''transfer-encoding'', ''upgrade'', ''proxy-connection'']"

definition remove_hop_by_hop_headers :: "(string \<Rightarrow> string option) \<Rightarrow> HeaderMap \<Rightarrow> HeaderMap" where
  "remove_hop_by_hop_headers header_name headers =
     fold hm_remove HOP_BY_HOP (fold hm_remove (connection_headers header_name headers) headers)"

subsection \<open>The address of the upstream request\<close>

text \<open>The outer \<open>None\<close> is a missing scheme or authority, which panics.\<close>

definition upstream_uri :: "'u uri_api \<Rightarrow> 'u \<Rightarrow> 'u \<Rightarrow> (string + 'u) option" where
  "upstream_uri U upstream incoming =
     (let base_path = trim_end_matches (CHR ''/'') (uri_path U upstream);
          incoming_path = uri_path U incoming;
          path = (if base_path = [] then incoming_path
                  else if incoming_path = ''/'' then base_path @ ''/''
                  else base_path @ incoming_path);
          path_and_query = (case uri_query U incoming of
              Some query \<Rightarrow> path @ ''?'' @ query
            | None \<Rightarrow> path) in
      do {
        scheme \<leftarrow> uri_scheme U upstream;
        authority \<leftarrow> uri_authority U upstream;
        Some (uri_build U scheme authority path_and_query)
      })"

definition set_upstream_host ::
  "'u uri_api \<Rightarrow> (string \<Rightarrow> bool) \<Rightarrow> 'u \<Rightarrow> HeaderMap \<Rightarrow> HeaderMap option" where
  "set_upstream_host U header_value upstream headers =
     do {
       authority \<leftarrow> uri_authority U upstream;
       if header_value authority then Some (hm_insert ''host'' authority headers) else None
     }"

subsection \<open>Responses\<close>

text \<open>The body of the upstream response, as the client delivers it.\<close>

record 'b body_api =
  body_poll :: "'b \<Rightarrow> Poll \<times> 'b"
  body_ended :: "'b \<Rightarrow> bool"

record 'b LeasedBody =
  lb_inner :: 'b
  lb_guard :: "BackendResponseGuard option"

text \<open>An error is a JSON object with its message, type and code.\<close>

datatype 'b ResponseBody = ErrorBody string string string | Streamed "'b LeasedBody"

type_synonym 'b Response = "ResponseParts \<times> 'b ResponseBody"

definition json_error_body :: "nat \<Rightarrow> string \<Rightarrow> string \<Rightarrow> string \<Rightarrow> 'b Response" where
  "json_error_body code error_type error_code message =
     (\<lparr>rs_status = code, rs_version = HTTP_11, rs_headers = [(''content-type'', ''application/json'')]\<rparr>,
      ErrorBody message error_type error_code)"

definition with_header :: "string \<Rightarrow> string \<Rightarrow> 'b Response \<Rightarrow> 'b Response" where
  "with_header name v = (\<lambda>(parts, body). (parts\<lparr>rs_headers := hm_insert name v (rs_headers parts)\<rparr>, body))"

definition service_unavailable :: "'b Response" where
  "service_unavailable =
     with_header ''retry-after'' ''1''
       (json_error_body 503 ''api_error'' ''service_unavailable''
          ''The service is temporarily unavailable. Please retry shortly.'')"

definition authentication_error :: "AuthError \<Rightarrow> 'b Response" where
  "authentication_error e =
     with_header ''www-authenticate'' ''Bearer''
       (json_error_body (if e = AuthDisabled then 403 else 401) ''invalid_request_error''
          (auth_code e) (auth_message e))"

subsection \<open>The leased body\<close>

definition leased_new ::
  "'b body_api \<Rightarrow> 'b \<Rightarrow> BackendResponseGuard \<Rightarrow> 'u RoutingState \<Rightarrow> ('b LeasedBody \<times> 'u RoutingState) option" where
  "leased_new B inner guard s =
     (if body_ended B inner
      then do { s' \<leftarrow> drop_guard guard s; Some (\<lparr>lb_inner = inner, lb_guard = None\<rparr>, s') }
      else Some (\<lparr>lb_inner = inner, lb_guard = Some guard\<rparr>, s))"

definition leased_poll ::
  "'b body_api \<Rightarrow> instant \<Rightarrow> 'b LeasedBody \<Rightarrow> 'u RoutingState
    \<Rightarrow> (Poll \<times> 'b LeasedBody \<times> 'u RoutingState) option" where
  "leased_poll B now lb s =
     (case body_poll B (lb_inner lb) of
        (PollPending, inner) \<Rightarrow> Some (PollPending, lb\<lparr>lb_inner := inner\<rparr>, s)
      | (PollReady frame, inner) \<Rightarrow>
          (let failed = (case frame of Some (Inl _) \<Rightarrow> True | _ \<Rightarrow> False);
               ended = (frame = None \<or> body_ended B inner) in
           if failed \<or> ended
           then (case lb_guard lb of
               None \<Rightarrow> Some (PollReady frame, lb\<lparr>lb_inner := inner\<rparr>, s)
             | Some guard \<Rightarrow> do {
                 (guard', s1) \<leftarrow> (if failed then guard_body_error now guard s else Some (guard, s));
                 s2 \<leftarrow> drop_guard guard' s1;
                 Some (PollReady frame, \<lparr>lb_inner = inner, lb_guard = None\<rparr>, s2)
               })
           else Some (PollReady frame, lb\<lparr>lb_inner := inner\<rparr>, s)))"

definition drop_leased :: "'b LeasedBody \<Rightarrow> 'u RoutingState \<Rightarrow> 'u RoutingState option" where
  "drop_leased lb s = (case lb_guard lb of None \<Rightarrow> Some s | Some guard \<Rightarrow> drop_guard guard s)"

subsection \<open>Forwarding\<close>

datatype 'b client_outcome =
    HandlerDropped
  | ClientFailed string
  | ClientResponse ResponseParts 'b

record ('u, 'b) forward_io =
  fw_now :: instant
  fw_clock :: "nat \<Rightarrow> instant"
  fw_env :: "nat \<Rightarrow> 'u RoutingState \<Rightarrow> 'u RoutingState"
  fw_unix_ms :: u64
  fw_client :: "'u RequestParts \<Rightarrow> 'b client_outcome"
  fw_waiting :: "'u RoutingState \<Rightarrow> 'u RoutingState"
  fw_later :: instant

record 'u proxy_api =
  px_uri :: "'u uri_api"
  px_header_name :: "string \<Rightarrow> string option"
  px_header_value :: "string \<Rightarrow> bool"
  px_to_str :: "string \<Rightarrow> string option"
  px_sha :: "string \<Rightarrow> u8 list"
  px_show_id :: "request_id \<Rightarrow> string"

definition upstream_parts :: "'u proxy_api \<Rightarrow> 'u \<Rightarrow> 'u RequestParts \<Rightarrow> 'u RequestParts option" where
  "upstream_parts P uri parts =
     do {
       headers \<leftarrow> set_upstream_host (px_uri P) (px_header_value P) uri
         (remove_hop_by_hop_headers (px_header_name P) (rp_headers parts));
       Some (parts\<lparr>rp_uri := uri, rp_version := HTTP_11,
                   rp_headers := hm_insert ''accept-encoding'' ''identity'' headers\<rparr>)
     }"

text \<open>The response is \<open>None\<close> when the handler was dropped.\<close>

definition forward ::
  "'u proxy_api \<Rightarrow> 'b body_api \<Rightarrow> ('u, 'b) forward_io \<Rightarrow> request_id \<Rightarrow> 'u RequestParts \<Rightarrow> 'u RoutingState
    \<Rightarrow> 'u LogSender \<Rightarrow> ('b Response option \<times> 'u RoutingState \<times> 'u LogSender) option" where
  "forward P B io i parts s log_tx =
     do {
       (selected, s0) \<leftarrow> select (fw_now io) (fw_clock io) (fw_env io) s;
       case selected of
         None \<Rightarrow>
           Some (Some service_unavailable, s0,
                 request_routed (fw_unix_ms io) i (routing_unavailable ''no_eligible_backend'') log_tx)
       | Some selection \<Rightarrow> do {
           let log1 = request_routed (fw_unix_ms io) i (routing_info_of (sel_decision selection)) log_tx;
           upstream \<leftarrow> ok (uri_parse (px_uri P) (spec_endpoint (lease_spec (sel_lease selection))));
           built \<leftarrow> upstream_uri (px_uri P) upstream (rp_uri parts);
           case built of
             Inl error \<Rightarrow> do {
               s1 \<leftarrow> drop_selection (fw_now io) selection s0;
               Some (Some (json_error_body 400 ''invalid_request_error'' ''invalid_proxy_uri''
                             (''Could not construct upstream URI: '' @ error)), s1, log1)
             }
           | Inr uri \<Rightarrow> do {
               outgoing \<leftarrow> upstream_parts P uri parts;
               let s1 = fw_waiting io s0;
               case fw_client io outgoing of
                 HandlerDropped \<Rightarrow> do {
                   s2 \<leftarrow> drop_selection (fw_later io) selection s1;
                   Some (None, s2, log1)
                 }
               | ClientFailed error \<Rightarrow> do {
                   s2 \<leftarrow> record_transport_failure (fw_later io) selection s1;
                   Some (Some service_unavailable, s2,
                         request_error i (''backend request failed: '' @ error) log1)
                 }
               | ClientResponse response body \<Rightarrow> do {
                   (guard, s2) \<leftarrow> into_response_guard (fw_later io) (rs_status response) selection s1;
                   (leased, s3) \<leftarrow> leased_new B body guard s2;
                   Some (Some (response\<lparr>rs_version := HTTP_11,
                                 rs_headers := remove_hop_by_hop_headers (px_header_name P) (rs_headers response)\<rparr>,
                               Streamed leased), s3, log1)
                 }
             }
         }
     }"

subsection \<open>The handler\<close>

definition response_ended :: "'b body_api \<Rightarrow> 'b ResponseBody \<Rightarrow> bool" where
  "response_ended B body = (case body of ErrorBody _ _ _ \<Rightarrow> False | Streamed lb \<Rightarrow> body_ended B (lb_inner lb))"

definition insert_request_id :: "'u proxy_api \<Rightarrow> request_id \<Rightarrow> 'b Response \<Rightarrow> 'b Response option" where
  "insert_request_id P i response =
     (if px_header_value P (px_show_id P i)
      then Some (with_header ''x-proxy-request-id'' (px_show_id P i) response) else None)"

text \<open>\<open>finish\<close>: the response with the guard that observes its body.\<close>

definition finish ::
  "'u proxy_api \<Rightarrow> 'b body_api \<Rightarrow> u64 \<Rightarrow> request_id \<Rightarrow> 'b Response \<Rightarrow> 'u LogSender
    \<Rightarrow> (('b Response \<times> CompletionGuard) \<times> 'u LogSender) option" where
  "finish P B now i response log_tx =
     do {
       response' \<leftarrow> insert_request_id P i response;
       let log1 = response_started (px_to_str P) i (fst response') log_tx;
       let (guard, log2) = observed_new now (response_ended B (snd response')) i log1;
       Some ((response', guard), log2)
     }"

definition admission_error :: "AuditAdmissionError \<Rightarrow> 'b Response" where
  "admission_error e =
     (case e of
        AuditSaturated \<Rightarrow>
          json_error_body 503 ''api_error'' ''logger_saturated''
            ''The audit log is at its admitted-request limit; retry shortly.''
      | AuditUnavailable \<Rightarrow>
          json_error_body 503 ''api_error'' ''logger_unavailable''
            ''The audit log writer is unavailable; the proxy is failing closed.'')"

datatype 'b handled = Abandoned | Refused "'b Response" | Answered "'b Response" CompletionGuard

definition proxy ::
  "'u proxy_api \<Rightarrow> 'b body_api \<Rightarrow> ('u, 'b) forward_io \<Rightarrow> (nat \<Rightarrow> 'u LogSender \<Rightarrow> 'u LogSender)
    \<Rightarrow> request_id \<Rightarrow> socket_addr \<Rightarrow> KeyStore \<Rightarrow> 'u RequestParts \<Rightarrow> 'u RoutingState \<Rightarrow> 'u LogSender
    \<Rightarrow> ('b handled \<times> 'u RoutingState \<times> 'u LogSender) option" where
  "proxy P B io admit_env i peer store parts s log_tx =
     do {
       authentication \<leftarrow> authenticate (px_sha P) (px_to_str P) (rp_headers parts) store;
       let info = with_openwebui_user (rp_headers parts)
             (key_name (cfg_openwebui (pub_config (published (rt_runtime s)))))
             (request_info (px_uri P) peer parts authentication);
       case request_started admit_env (fw_unix_ms io) i info log_tx of
         (Inl e, log1) \<Rightarrow> Some (Refused (admission_error e), s, log1)
       | (Inr guard, log1) \<Rightarrow> do {
           (response, s1, log2) \<leftarrow> (case au_result authentication of
               Inr _ \<Rightarrow> forward P B io i parts s log1
             | Inl e \<Rightarrow> Some (Some (authentication_error e), s, log1));
           case response of
             None \<Rightarrow> Some (Abandoned, s1, drop_request_guard (fw_unix_ms io) guard log2)
           | Some response \<Rightarrow> do {
               ((response', observer), log3) \<leftarrow> finish P B (fw_unix_ms io) i response log2;
               Some (Answered response' observer, s1, drop_request_guard (fw_unix_ms io) (disarm guard) log3)
             }
         }
     }"

subsection \<open>The leases of all backends\<close>

definition leases_of :: "'u RoutingState \<Rightarrow> string \<Rightarrow> LeaseKey list" where
  "leases_of s i = (case hget (registry (rt_runtime s)) i of
     None \<Rightarrow> [] | Some slot \<Rightarrow> st_leases (slot_state slot))"

definition has_lease :: "BackendLease \<Rightarrow> 'u RoutingState \<Rightarrow> bool" where
  "has_lease lease s \<longleftrightarrow>
     (\<exists>key. lease_key lease = Some key \<and> key \<in> set (leases_of s (spec_id (lease_spec lease))))"

text \<open>The leases without one of them.\<close>

definition returned :: "BackendLease \<Rightarrow> (string \<Rightarrow> LeaseKey list) \<Rightarrow> string \<Rightarrow> LeaseKey list" where
  "returned lease f =
     (case lease_key lease of
        None \<Rightarrow> f
      | Some key \<Rightarrow> f(spec_id (lease_spec lease) := removeAll key (f (spec_id (lease_spec lease)))))"

text \<open>No counter that a release or a circuit outcome advances is exhausted.\<close>

definition epochs_room :: "'u RoutingState \<Rightarrow> bool" where
  "epochs_room s \<longleftrightarrow> (\<forall>i live. get_live s i = Some live \<longrightarrow> unat (circuit_epoch live) + 1 < 2 ^ 64)"

definition counters_room :: "'u RoutingState \<Rightarrow> bool" where
  "counters_room s \<longleftrightarrow> epochs_room s \<and>
     (\<forall>i slot. hget (registry (rt_runtime s)) i = Some slot \<longrightarrow> unat (st_sequence (slot_state slot)) + 1 < 2 ^ 64)"

lemma drop_route_lease_returns:
  assumes "has_lease lease s" and "counters_room s"
  shows "\<exists>s'. drop_route_lease lease s = Some s' \<and> leases_of s' = returned lease (leases_of s) \<and>
    rt_inner s' = rt_inner s"
proof -
  let ?i = "spec_id (lease_spec lease)"
  from assms(1) obtain key where k: "lease_key lease = Some key" "key \<in> set (leases_of s ?i)"
    by (auto simp: has_lease_def)
  then obtain slot where "hget (registry (rt_runtime s)) ?i = Some slot"
    by (cases "hget (registry (rt_runtime s)) ?i") (auto simp: leases_of_def)
  with k have key: "lease_key lease = Some key" "hget (registry (rt_runtime s)) ?i = Some slot"
    "key \<in> set (st_leases (slot_state slot))"
    by (simp_all add: leases_of_def)
  from assms(2) key(2) have "unat (st_sequence (slot_state slot)) + 1 < 2 ^ 64"
    by (auto simp: counters_room_def)
  then obtain slot' where rel: "release key slot = Some slot'"
    "st_leases (slot_state slot') = removeAll key (st_leases (slot_state slot))"
    using key(3) by (auto simp: release_def publish_locked_def next_sequence_def checked_add_def Let_def)
  define s' where "s' = s\<lparr>rt_runtime := (rt_runtime s)\<lparr>registry := hset ?i slot' (registry (rt_runtime s))\<rparr>\<rparr>"
  have "drop_route_lease lease s = Some s'"
    using key rel(1) by (simp add: drop_route_lease_def with_slot_def drop_lease_def s'_def)
  moreover have "leases_of s' = returned lease (leases_of s)"
    using key rel(2) by (auto simp: fun_eq_iff s'_def leases_of_def returned_def)
  ultimately show ?thesis by (auto simp: s'_def)
qed

lemma put_live_runtime: "rt_runtime (put_live i live s) = rt_runtime s"
  by (simp add: put_live_def)

lemma leases_of_runtime: "rt_runtime s' = rt_runtime s \<Longrightarrow> leases_of s' = leases_of s"
  by (simp add: leases_of_def fun_eq_iff)

lemma has_lease_runtime: "rt_runtime s' = rt_runtime s \<Longrightarrow> has_lease lease s' = has_lease lease s"
  by (simp add: has_lease_def leases_of_def)

text \<open>The circuit never panics with room in its epochs, and leaves the registry alone.\<close>

lemma live_calls_total:
  assumes "unat (circuit_epoch live) + 1 < 2 ^ 64"
  shows "\<exists>live'. live_outcome now epoch trial outcome live = Some live'"
    and "\<exists>ob live'. live_success i epoch trial live = Some (ob, live')"
    and "\<exists>live'. live_body_failure now epoch immediately live = Some live'"
  using assms
  by (auto simp: live_outcome_def live_success_def live_body_failure_def open_circuit_def bump_circuit_epoch_def
      checked_add_def Let_def split: CircuitOutcome.splits)

lemma circuit_calls_total:
  assumes "epochs_room s"
  shows "\<exists>p s'. permit_resolve now outcome permit s = Some (p, s') \<and> rt_runtime s' = rt_runtime s"
    and "\<exists>ob p s'. success_with_body_observer permit s = Some (ob, p, s') \<and> rt_runtime s' = rt_runtime s"
    and "\<exists>s'. drop_permit now permit s = Some s' \<and> rt_runtime s' = rt_runtime s"
    and "\<exists>g' s'. guard_body_error now g s = Some (g', s') \<and> guard_lease g' = guard_lease g \<and>
      rt_runtime s' = rt_runtime s"
proof -
  have room: "unat (circuit_epoch live) + 1 < 2 ^ 64" if "get_live s i = Some live" for i live
    using assms that by (auto simp: epochs_room_def)
  show resolve: "\<exists>p s'. permit_resolve now outcome permit s = Some (p, s') \<and> rt_runtime s' = rt_runtime s"
    for outcome
  proof (cases "get_live s (permit_backend_id permit)")
    case (Some live)
    obtain live' where "live_outcome now (permit_epoch permit) (permit_trial permit) outcome live = Some live'"
      using live_calls_total(1) [OF room [OF Some]] by blast
    with Some show ?thesis by (simp add: permit_resolve_def record_circuit_outcome_def put_live_runtime)
  qed (simp add: permit_resolve_def record_circuit_outcome_def)
  show "\<exists>ob p s'. success_with_body_observer permit s = Some (ob, p, s') \<and> rt_runtime s' = rt_runtime s"
  proof (cases "get_live s (permit_backend_id permit)")
    case (Some live)
    obtain ob live' where
      "live_success (permit_backend_id permit) (permit_epoch permit) (permit_trial permit) live = Some (ob, live')"
      using live_calls_total(2) [OF room [OF Some]] by blast
    with Some show ?thesis
      by (simp add: success_with_body_observer_def record_success_and_observer_def put_live_runtime)
  qed (simp add: success_with_body_observer_def record_success_and_observer_def)
  show "\<exists>s'. drop_permit now permit s = Some s' \<and> rt_runtime s' = rt_runtime s"
    using resolve [of Neutral] by (auto simp: drop_permit_def)
  show "\<exists>g' s'. guard_body_error now g s = Some (g', s') \<and> guard_lease g' = guard_lease g \<and>
      rt_runtime s' = rt_runtime s"
  proof (cases "guard_body_failure g")
    case (Some ob)
    show ?thesis
    proof (cases "get_live s (observer_backend_id ob)")
      case (Some live)
      obtain live' where
        "live_body_failure now (observer_epoch ob) (open_immediately ob) live = Some live'"
        using live_calls_total(3) [OF room [OF Some]] by blast
      with Some \<open>guard_body_failure g = Some ob\<close> show ?thesis
        by (simp add: guard_body_error_def record_body_failure_def put_live_runtime)
    qed (simp add: guard_body_error_def record_body_failure_def \<open>guard_body_failure g = Some ob\<close>)
  qed (simp add: guard_body_error_def)
qed

lemma epochs_room_inner: "rt_inner s' = rt_inner s \<Longrightarrow> epochs_room s' = epochs_room s"
  by (simp add: epochs_room_def get_live_def)

text \<open>After a circuit outcome only the registry matters for the release.\<close>

lemma drop_route_lease_after:
  assumes "has_lease lease s" and "counters_room s" and "rt_runtime s' = rt_runtime s"
  shows "\<exists>s''. drop_route_lease lease s' = Some s'' \<and> leases_of s'' = returned lease (leases_of s)"
proof -
  obtain u where u: "drop_route_lease lease s = Some u" "leases_of u = returned lease (leases_of s)"
    using drop_route_lease_returns [OF assms(1,2)] by blast
  then show ?thesis
    using assms(3) by (auto simp: drop_route_lease_def leases_of_def fun_eq_iff split: bind_splits)
qed

lemma drop_selection_returns:
  assumes "has_lease (sel_lease sel) s" and "counters_room s"
  shows "\<exists>s'. drop_selection now sel s = Some s' \<and> leases_of s' = returned (sel_lease sel) (leases_of s)"
proof -
  obtain s1 where s1: "drop_route_lease (sel_lease sel) s = Some s1"
    "leases_of s1 = returned (sel_lease sel) (leases_of s)" "rt_inner s1 = rt_inner s"
    using drop_route_lease_returns [OF assms] by blast
  then have "epochs_room s1" using assms(2) epochs_room_inner [of s1 s] by (simp add: counters_room_def)
  then obtain s2 where "drop_permit now (sel_permit sel) s1 = Some s2" "rt_runtime s2 = rt_runtime s1"
    using circuit_calls_total(3) by blast
  with s1 show ?thesis using leases_of_runtime [of s2 s1] by (simp add: drop_selection_def)
qed

lemma transport_failure_returns:
  assumes "has_lease (sel_lease sel) s" and "counters_room s"
  shows "\<exists>s'. record_transport_failure now sel s = Some s' \<and>
    leases_of s' = returned (sel_lease sel) (leases_of s)"
proof -
  have "epochs_room s" using assms(2) by (simp add: counters_room_def)
  then obtain p s1 where s1: "permit_resolve now Failure (sel_permit sel) s = Some (p, s1)"
    "rt_runtime s1 = rt_runtime s"
    using circuit_calls_total(1) by blast
  with drop_route_lease_after [OF assms s1(2)] show ?thesis by (auto simp: record_transport_failure_def)
qed

lemma response_guard_keeps:
  assumes "counters_room s"
  shows "\<exists>g s'. into_response_guard now code sel s = Some (g, s') \<and> guard_lease g = sel_lease sel \<and>
    rt_runtime s' = rt_runtime s"
proof -
  have room: "epochs_room s" using assms by (simp add: counters_room_def)
  obtain p s1 where "permit_resolve now Failure (sel_permit sel) s = Some (p, s1)" "rt_runtime s1 = rt_runtime s"
    using circuit_calls_total(1) [OF room] by blast
  moreover obtain p' s2 where "permit_resolve now Neutral (sel_permit sel) s = Some (p', s2)"
    "rt_runtime s2 = rt_runtime s"
    using circuit_calls_total(1) [OF room] by blast
  moreover obtain ob p'' s3 where "success_with_body_observer (sel_permit sel) s = Some (ob, p'', s3)"
    "rt_runtime s3 = rt_runtime s"
    using circuit_calls_total(2) [OF room] by blast
  ultimately show ?thesis by (simp add: into_response_guard_def)
qed

lemma leased_new_keeps:
  assumes "has_lease (guard_lease g) s" and "counters_room s" and "rt_runtime s' = rt_runtime s"
  shows "\<exists>lb s''. leased_new B inner g s' = Some (lb, s'') \<and>
    (case lb_guard lb of
       Some g' \<Rightarrow> g' = g \<and> leases_of s'' = leases_of s
     | None \<Rightarrow> leases_of s'' = returned (guard_lease g) (leases_of s))"
proof (cases "body_ended B inner")
  case True
  obtain s'' where "drop_route_lease (guard_lease g) s' = Some s''"
    "leases_of s'' = returned (guard_lease g) (leases_of s)"
    using drop_route_lease_after [OF assms] by blast
  with True show ?thesis by (simp add: leased_new_def drop_guard_def)
next
  case False
  then show ?thesis using leases_of_runtime [OF assms(3)] by (simp add: leased_new_def)
qed

lemma demo_select:
  "\<exists>sel s0. select 5 (\<lambda>_. 5) (\<lambda>_ t. t) demo_routing = Some (Some sel, s0) \<and>
     has_lease (sel_lease sel) s0 \<and> counters_room s0 \<and>
     spec_endpoint (lease_spec (sel_lease sel)) = ''http://a/''"
  by (simp add: select_def eligible_candidates_def Let_def ensure_backends_def configured_generations_def
      backend_instances_def runtime_backends_def demo_routing_def demo_runtime_def demo_config_def
      demo_backend_def hset_def ensure_one_def hcontains_def live_new_def instance_map_def
      List.map_filter_simps candidate_of_def snapshots_def slot_snapshot_def state_snapshot_def
      snapshot_id_def score_candidate_def get_live_def order_candidates_def sort_by_def attempt_def
      try_circuit_permit_def live_permit_def put_live_def registry_try_acquire_def get_retained_def
      try_acquire_def checked_add_def publish_locked_def next_sequence_def has_lease_def leases_of_def
      counters_room_def epochs_room_def hget_def set_insort_insert)

definition demo_proxy_api :: "demo_uri proxy_api" where
  "demo_proxy_api = \<lparr>px_uri = demo_uri_api, px_header_name = Some, px_header_value = (\<lambda>_. True),
     px_to_str = Some, px_sha = demo_sha, px_show_id = (\<lambda>_. ''r'')\<rparr>"

text \<open>A body is the list of its frames.\<close>

definition demo_body_api :: "Frame list body_api" where
  "demo_body_api =
     \<lparr>body_poll = (\<lambda>fs. case fs of [] \<Rightarrow> (PollReady None, []) | f # fs \<Rightarrow> (PollReady (Some (Inr f)), fs)),
      body_ended = (\<lambda>fs. fs = [])\<rparr>"

definition demo_forward_io :: "Frame list client_outcome \<Rightarrow> (demo_uri, Frame list) forward_io" where
  "demo_forward_io outcome =
     \<lparr>fw_now = 5, fw_clock = (\<lambda>_. 5), fw_env = (\<lambda>_ t. t), fw_unix_ms = 0, fw_client = (\<lambda>_. outcome),
      fw_waiting = (\<lambda>t. t), fw_later = 6\<rparr>"

definition demo_parts :: "demo_uri RequestParts" where
  "demo_parts = \<lparr>rp_method = ''GET'', rp_uri = (''http'', ''p'', ''/v1/models''), rp_version = HTTP_2,
     rp_headers = [(''te'', ''trailers''), (''accept'', ''*/*'')]\<rparr>"

definition demo_sender :: "demo_uri LogSender" where
  "demo_sender = \<lparr>tx_queue = [], tx_connected = True, lg_healthy = True, lg_notified = False,
     lg_admitted = 0, lg_request_slots = 1, lg_event_slots = 5\<rparr>"

subsection \<open>Properties: leases\<close>

text \<open>
  C18. A forwarded request returns its lease on every path. The handler never panics, and
  when the upstream address cannot be built, the client of the proxy disconnects, or the
  upstream fails, exactly the lease of this request is removed and every other lease stays; a
  response without a body gives it back at once; otherwise the response body holds it, and
  nothing else changed.
\<close>

theorem forward_returns_lease:
  assumes "select (fw_now io) (fw_clock io) (fw_env io) s = Some (Some sel, s0)"
    and "has_lease (sel_lease sel) s0" and "counters_room s0"
    and "has_lease (sel_lease sel) (fw_waiting io s0)" and "counters_room (fw_waiting io s0)"
    and "uri_parse (px_uri P) (spec_endpoint (lease_spec (sel_lease sel))) = Inr upstream"
    and "uri_scheme (px_uri P) upstream = Some scheme" and "uri_authority (px_uri P) upstream = Some authority"
    and "uri_builder_laws (px_uri P)" and "px_header_value P authority"
  shows "\<exists>out s' l'. forward P B io i parts s l = Some (out, s', l') \<and>
    (case out of
       Some (_, Streamed lb) \<Rightarrow>
         (case lb_guard lb of
            Some g \<Rightarrow> guard_lease g = sel_lease sel \<and> leases_of s' = leases_of (fw_waiting io s0)
          | None \<Rightarrow> leases_of s' = returned (sel_lease sel) (leases_of (fw_waiting io s0)))
     | _ \<Rightarrow> \<exists>t \<in> {s0, fw_waiting io s0}. leases_of s' = returned (sel_lease sel) (leases_of t))"
proof -
  let ?U = "px_uri P" and ?w = "fw_waiting io s0"
  let ?l = "request_routed (fw_unix_ms io) i (routing_info_of (sel_decision sel)) l"
  obtain built where built: "upstream_uri ?U upstream (rp_uri parts) = Some built"
    and from_upstream: "\<And>uri. built = Inr uri \<Longrightarrow> uri_authority ?U uri = Some authority"
    using assms(7-9) by (auto simp: upstream_uri_def Let_def uri_builder_laws_def)
  show ?thesis
  proof (cases built)
    case (Inl e)
    obtain s' where "drop_selection (fw_now io) sel s0 = Some s'" "leases_of s' = returned (sel_lease sel) (leases_of s0)"
      using drop_selection_returns [OF assms(2,3)] by blast
    with assms(1,6) built Inl show ?thesis by (simp add: forward_def ok_def json_error_body_def)
  next
    case (Inr uri)
    obtain out where out: "upstream_parts P uri parts = Some out"
      using from_upstream [OF Inr] assms(10) by (simp add: upstream_parts_def set_upstream_host_def)
    note run = assms(1,6) built Inr out
    show ?thesis
    proof (cases "fw_client io out")
      case HandlerDropped
      obtain s' where "drop_selection (fw_later io) sel ?w = Some s'"
        "leases_of s' = returned (sel_lease sel) (leases_of ?w)"
        using drop_selection_returns [OF assms(4,5)] by blast
      with run HandlerDropped show ?thesis by (simp add: forward_def ok_def)
    next
      case (ClientFailed e)
      obtain s' where "record_transport_failure (fw_later io) sel ?w = Some s'"
        "leases_of s' = returned (sel_lease sel) (leases_of ?w)"
        using transport_failure_returns [OF assms(4,5)] by blast
      with run ClientFailed show ?thesis
        by (simp add: forward_def ok_def service_unavailable_def with_header_def json_error_body_def)
    next
      case (ClientResponse response body)
      obtain g s2 where g: "into_response_guard (fw_later io) (rs_status response) sel ?w = Some (g, s2)"
        "guard_lease g = sel_lease sel" "rt_runtime s2 = rt_runtime ?w"
        using response_guard_keeps [OF assms(5)] by blast
      obtain lb s3 where lb: "leased_new B body g s2 = Some (lb, s3)"
        "case lb_guard lb of Some g' \<Rightarrow> g' = g \<and> leases_of s3 = leases_of ?w
          | None \<Rightarrow> leases_of s3 = returned (guard_lease g) (leases_of ?w)"
        using leased_new_keeps [of g ?w s2 B body] assms(4,5) g(2,3) by auto
      with run ClientResponse g show ?thesis by (auto simp: forward_def ok_def split: option.splits)
    qed
  qed
qed

theorem forward_returns_lease_witness:
  "\<exists>sel s0 out s' l'. select 5 (\<lambda>_. 5) (\<lambda>_ t. t) demo_routing = Some (Some sel, s0) \<and>
     forward demo_proxy_api demo_body_api (demo_forward_io (ClientFailed ''refused'')) 7 demo_parts demo_routing demo_sender =
       Some (out, s', l')"
proof -
  obtain sel s0 where sel: "select 5 (\<lambda>_. 5) (\<lambda>_ t. t) demo_routing = Some (Some sel, s0)"
    "has_lease (sel_lease sel) s0" "counters_room s0" "spec_endpoint (lease_spec (sel_lease sel)) = ''http://a/''"
    using demo_select by blast
  have "\<exists>out s' l'. forward demo_proxy_api demo_body_api (demo_forward_io (ClientFailed ''refused'')) 7 demo_parts
      demo_routing demo_sender = Some (out, s', l')"
    using forward_returns_lease [of "demo_forward_io (ClientFailed ''refused'')" demo_routing sel s0
        demo_proxy_api "(''http'', ''a'', ''/'')" "''http''" "''a''" demo_body_api 7 demo_parts demo_sender] sel demo_uri_laws
    by (fastforce simp: demo_forward_io_def demo_proxy_api_def demo_uri_api_def)
  with sel(1) show ?thesis by blast
qed

text \<open>
  C19. A streamed response gives its lease back exactly once. In whatever state other threads
  have left the router, a poll either keeps the lease and the guard, which it does exactly
  while the stream goes on, or, on the last frame, the end or an error of the stream, removes
  exactly this lease and forgets the guard; dropping the body removes it if it is still held.
  Without the guard neither a poll nor the drop changes a lease.
\<close>

theorem leased_body_returns_once:
  assumes "\<forall>g. lb_guard lb = Some g \<longrightarrow> has_lease (guard_lease g) s" and "counters_room s"
  shows "\<exists>polled lb' s' s''. leased_poll B now lb s = Some (polled, lb', s') \<and> drop_leased lb s = Some s'' \<and>
    (case lb_guard lb of
       None \<Rightarrow> lb_guard lb' = None \<and> leases_of s' = leases_of s \<and> leases_of s'' = leases_of s
     | Some g \<Rightarrow>
         leases_of s'' = returned (guard_lease g) (leases_of s) \<and>
         (if polled = PollPending \<or> (\<exists>frame. polled = PollReady (Some (Inr frame))) \<and> \<not> body_ended B (lb_inner lb')
          then lb_guard lb' = Some g \<and> leases_of s' = leases_of s
          else lb_guard lb' = None \<and> leases_of s' = returned (guard_lease g) (leases_of s)))"
proof -
  obtain polled inner where poll: "body_poll B (lb_inner lb) = (polled, inner)" by fastforce
  show ?thesis
  proof (cases "lb_guard lb")
    case None
    with poll show ?thesis
      by (cases polled) (auto simp: leased_poll_def drop_leased_def Let_def)
  next
    case (Some g)
    then have held: "has_lease (guard_lease g) s" using assms(1) by simp
    have room: "epochs_room s" using assms(2) by (simp add: counters_room_def)
    obtain s1 where s1: "drop_route_lease (guard_lease g) s = Some s1"
      "leases_of s1 = returned (guard_lease g) (leases_of s)"
      using drop_route_lease_returns [OF held assms(2)] by blast
    obtain g' t where t: "guard_body_error now g s = Some (g', t)" "guard_lease g' = guard_lease g"
      "rt_runtime t = rt_runtime s"
      using circuit_calls_total(4) [OF room] by blast
    obtain s2 where s2: "drop_route_lease (guard_lease g) t = Some s2"
      "leases_of s2 = returned (guard_lease g) (leases_of s)"
      using drop_route_lease_after [OF held assms(2) t(3)] by blast
    consider "polled = PollPending" | "polled = PollReady None"
      | e where "polled = PollReady (Some (Inl e))" | f where "polled = PollReady (Some (Inr f))"
      by (metis Poll.exhaust option.exhaust sum.exhaust)
    then show ?thesis
      by cases (use poll Some s1 s2 t in \<open>simp_all add: leased_poll_def drop_leased_def drop_guard_def Let_def\<close>)
  qed
qed

theorem leased_body_returns_once_witness:
  "\<exists>sel s0 s'. select 5 (\<lambda>_. 5) (\<lambda>_ t. t) demo_routing = Some (Some sel, s0) \<and>
     drop_leased \<lparr>lb_inner = [DataFrame ''x''], lb_guard = Some \<lparr>guard_lease = sel_lease sel, guard_body_failure = None\<rparr>\<rparr> s0 =
       Some s' \<and> leases_of s' = returned (sel_lease sel) (leases_of s0)"
proof -
  obtain sel s0 where sel: "select 5 (\<lambda>_. 5) (\<lambda>_ t. t) demo_routing = Some (Some sel, s0)"
    "has_lease (sel_lease sel) s0" "counters_room s0"
    using demo_select by blast
  let ?lb = "\<lparr>lb_inner = [DataFrame ''x''], lb_guard = Some \<lparr>guard_lease = sel_lease sel, guard_body_failure = None\<rparr>\<rparr>"
  obtain s' where "drop_leased ?lb s0 = Some s'" "leases_of s' = returned (sel_lease sel) (leases_of s0)"
    using leased_body_returns_once [of ?lb s0 demo_body_api 6] sel(2,3) by auto
  with sel(1) show ?thesis by blast
qed

subsection \<open>Property: what is sent upstream\<close>

lemma fold_hm_remove: "fold hm_remove names headers = filter (\<lambda>(n, _). n \<notin> set names) headers"
  by (induction names arbitrary: headers)
    (auto simp: hm_remove_def intro!: filter_cong)

lemma remove_hop_by_hop_filter:
  "remove_hop_by_hop_headers header_name headers =
     filter (\<lambda>(n, _). n \<notin> set HOP_BY_HOP \<union> set (connection_headers header_name headers)) headers"
  by (auto simp: remove_hop_by_hop_headers_def fold_hm_remove intro!: filter_cong)

lemma get_all_filter:
  "get_all (filter (\<lambda>(n, _). n \<notin> A) headers) name = (if name \<in> A then [] else get_all headers name)"
  by (auto simp: get_all_def filter_empty_conv intro!: filter_cong arg_cong [where f = "map snd"])

lemma get_all_insert:
  "get_all (hm_insert n v headers) name = (if name = n then [v] else get_all headers name)"
  by (auto simp: get_all_def hm_insert_def filter_empty_conv intro!: filter_cong arg_cong [where f = "map snd"])

text \<open>The field names that the values of \<open>Connection\<close> list.\<close>

definition named_by_connection :: "(string \<Rightarrow> string option) \<Rightarrow> HeaderMap \<Rightarrow> string set" where
  "named_by_connection header_name headers =
     {n. \<exists>v \<in> set (get_all headers ''connection''). \<exists>token \<in> set (split_on (CHR 0x2C) v).
        trim_ascii token \<noteq> [] \<and> header_name (trim_ascii token) = Some n}"

lemma set_connection_headers:
  "set (connection_headers header_name headers) = named_by_connection header_name headers"
  by (auto simp: connection_headers_def named_by_connection_def map_filter_set split: if_splits) blast+

lemma get_all_end_to_end:
  "get_all (remove_hop_by_hop_headers header_name headers) name =
     (if name \<in> set HOP_BY_HOP \<union> named_by_connection header_name headers then [] else get_all headers name)"
  unfolding remove_hop_by_hop_filter set_connection_headers by (rule get_all_filter)



subsection \<open>Property: what a request reports to the audit log\<close>

definition log_room :: "nat \<Rightarrow> 'u LogSender \<Rightarrow> bool" where
  "log_room n l \<longleftrightarrow> tx_connected l \<and> length (tx_queue l) + n \<le> lg_event_slots l"

definition reported :: "'u LogSender \<Rightarrow> 'u LogEvent list \<Rightarrow> 'u LogSender \<Rightarrow> bool" where
  "reported l es l' \<longleftrightarrow> tx_queue l' = tx_queue l @ es \<and> tx_connected l' = tx_connected l \<and>
     lg_event_slots l' = lg_event_slots l"

lemma reported_refl: "reported l [] l"
  by (simp add: reported_def)

lemma reported_trans: "reported l es l' \<Longrightarrow> reported l' fs l'' \<Longrightarrow> reported l (es @ fs) l''"
  by (simp add: reported_def)

lemma reported_room: "reported l es l' \<Longrightarrow> log_room (length es + n) l \<Longrightarrow> log_room n l'"
  by (auto simp: reported_def log_room_def)

lemma send_reported: "log_room 1 l \<Longrightarrow> reported l [ev] (send ev l)"
  by (simp add: log_room_def reported_def send_def try_send_def)

text \<open>The body is polled some number of times and then dropped.\<close>

fun observe_body ::
  "(string \<Rightarrow> UsageFields option) \<Rightarrow> (u64 \<times> Poll \<times> bool) list \<Rightarrow> u64 \<Rightarrow> CompletionGuard \<Rightarrow> 'u LogSender
    \<Rightarrow> 'u LogSender option" where
  "observe_body from_slice [] now g l = Some (snd (drop_completion now g l))"
| "observe_body from_slice ((t, polled, ended) # turns) now g l =
     do { (g', l') \<leftarrow> observed_poll from_slice t polled ended g l;
          observe_body from_slice turns now g' l' }"

definition guard_ok :: "request_id \<Rightarrow> CompletionGuard \<Rightarrow> bool" where
  "guard_ok i g \<longleftrightarrow> cg_id g = i \<and> sniffer_inv (cg_sniffer g)"

definition ends :: "request_id \<Rightarrow> 'u LogEvent list \<Rightarrow> bool" where
  "ends i es \<longleftrightarrow> (\<exists>e. es = [e] \<and> is_finished e \<and> event_id e = i)"

lemma ends_ids: "ends i es \<Longrightarrow> \<forall>e \<in> set es. event_id e = i"
  by (auto simp: ends_def)

lemma completion_finish_reports:
  assumes "guard_ok i g" and "completion_finish now outcome g l = (g', l')" and "\<not> cg_finished g \<longrightarrow> log_room 1 l"
  shows "guard_ok i g' \<and> cg_finished g' \<and>
    (if cg_finished g then reported l [] l' else \<exists>es. ends i es \<and> reported l es l')"
proof (cases "cg_finished g")
  case True
  with assms show ?thesis by (simp add: completion_finish_def reported_refl)
next
  case False
  let ?ob = "\<lparr>bo_first_byte_at_unix_ms = cg_first_byte_at_unix_ms g, bo_response_bytes = cg_response_bytes g,
    bo_usage = (case us_latest (cg_sniffer g) of Some u \<Rightarrow> u | None \<Rightarrow> default_usage)\<rparr>"
  have "g' = g\<lparr>cg_finished := True\<rparr>" "l' = send (ResponseFinished i now outcome ?ob) l"
    using assms(1,2) False by (auto simp: completion_finish_def response_finished_def guard_ok_def)
  moreover have "reported l [ResponseFinished i now outcome ?ob] (send (ResponseFinished i now outcome ?ob) l)"
    using assms(3) False by (intro send_reported) simp
  moreover have "ends i [ResponseFinished i now outcome ?ob]" by (simp add: ends_def)
  ultimately have "\<exists>es. ends i es \<and> reported l es l'" by blast
  with \<open>g' = g\<lparr>cg_finished := True\<rparr>\<close> assms(1) False show ?thesis by (simp add: guard_ok_def)
qed

lemma count_frame_total:
  assumes "guard_ok i g"
  shows "\<exists>g'. count_frame from_slice now frame g = Some g' \<and> guard_ok i g' \<and> cg_finished g' = cg_finished g"
proof (cases frame)
  case (DataFrame bytes)
  obtain sniffer where "feed from_slice bytes (cg_sniffer g) = Some sniffer" "sniffer_inv sniffer"
    using feed_inv [of "cg_sniffer g" from_slice bytes] assms by (auto simp: guard_ok_def)
  with DataFrame assms show ?thesis by (simp add: count_frame_def guard_ok_def)
qed (use assms in \<open>simp add: count_frame_def\<close>)

lemma observed_poll_reports:
  assumes "guard_ok i g" and "\<not> cg_finished g \<longrightarrow> log_room 1 l"
  shows "\<exists>g' l'. observed_poll from_slice now polled ended g l = Some (g', l') \<and> guard_ok i g' \<and>
    (if cg_finished g then cg_finished g' \<and> reported l [] l'
     else if cg_finished g' then \<exists>es. ends i es \<and> reported l es l' else reported l [] l')"
proof -
  have fin: "\<exists>g' l'. completion_finish now outcome h l = (g', l') \<and> guard_ok i g' \<and> cg_finished g' \<and>
      (if cg_finished g then reported l [] l' else \<exists>es. ends i es \<and> reported l es l')"
    if "guard_ok i h" "cg_finished h = cg_finished g" for outcome h
    using completion_finish_reports [OF that(1), of now outcome l] that(2) assms(2)
    by (cases "completion_finish now outcome h l") simp
  have finished: ?thesis
    if obs: "observed_poll from_slice now polled ended g l = Some (completion_finish now outcome h l)"
      and h: "guard_ok i h" "cg_finished h = cg_finished g" for outcome h
  proof -
    obtain g' l' where r: "completion_finish now outcome h l = (g', l')" "guard_ok i g'" "cg_finished g'"
      "if cg_finished g then reported l [] l' else \<exists>es. ends i es \<and> reported l es l'"
      using fin [OF h] by blast
    show ?thesis unfolding obs r(1) by (rule exI [of _ g'], rule exI [of _ l']) (use r in simp)
  qed
  consider "polled = PollPending" | "polled = PollReady None"
    | e where "polled = PollReady (Some (Inl e))" | f where "polled = PollReady (Some (Inr f))"
    by (metis Poll.exhaust option.exhaust sum.exhaust)
  then show ?thesis
  proof cases
    case (4 f)
    obtain h where h: "count_frame from_slice now f g = Some h" "guard_ok i h" "cg_finished h = cg_finished g"
      using count_frame_total [OF assms(1)] by blast
    show ?thesis
    proof (cases ended)
      case True
      with 4 h(1) show ?thesis by (intro finished [OF _ h(2,3), of BodyComplete]) (simp add: observed_poll_def)
    next
      case False
      with 4 h show ?thesis by (auto simp: observed_poll_def reported_refl)
    qed
  next
    case 1
    with assms(1) show ?thesis by (auto simp: observed_poll_def reported_refl)
  next
    case 2
    then show ?thesis by (intro finished [OF _ assms(1) refl, of BodyComplete]) (simp add: observed_poll_def)
  next
    case (3 e)
    then show ?thesis by (intro finished [OF _ assms(1) refl, of "BodyError e"]) (simp add: observed_poll_def)
  qed
qed

lemma observe_body_reports:
  assumes "guard_ok i g" and "\<not> cg_finished g \<longrightarrow> log_room 1 l"
  shows "\<exists>l' es. observe_body from_slice turns now g l = Some l' \<and> reported l es l' \<and>
    (if cg_finished g then es = [] else ends i es)"
  using assms
proof (induction turns arbitrary: g l)
  case Nil
  obtain g' l' where "completion_finish now BodyAborted g l = (g', l')" by fastforce
  with completion_finish_reports [OF Nil(1) this Nil(2)] show ?case
    by (auto simp: drop_completion_def split: if_splits)
next
  case (Cons turn turns)
  obtain t polled ended where turn: "turn = (t, polled, ended)" by (cases turn)
  obtain g' l' where g': "observed_poll from_slice t polled ended g l = Some (g', l')" "guard_ok i g'"
    and rep: "if cg_finished g then cg_finished g' \<and> reported l [] l'
     else if cg_finished g' then \<exists>es. ends i es \<and> reported l es l' else reported l [] l'"
    using observed_poll_reports [OF Cons.prems] by blast
  obtain es where es: "reported l es l'" "if cg_finished g then cg_finished g' \<and> es = []
      else if cg_finished g' then ends i es else es = []"
    using rep by (auto split: if_splits)
  have "\<not> cg_finished g' \<longrightarrow> log_room 1 l'"
    using es Cons.prems(2) reported_room [OF es(1), of 1] by (auto split: if_splits)
  from Cons.IH [OF g'(2) this] obtain l'' fs where l'': "observe_body from_slice turns now g' l' = Some l''"
    "reported l' fs l''" "if cg_finished g' then fs = [] else ends i fs" by blast
  have "if cg_finished g then es @ fs = [] else ends i (es @ fs)" using es(2) l''(3) by (auto split: if_splits)
  with turn g'(1) l''(1) reported_trans [OF es(1) l''(2)] show ?case by (auto simp del: append_is_Nil_conv)
qed

text \<open>What the handler reports between the start and the response.\<close>

definition handling :: "request_id \<Rightarrow> 'u LogEvent list \<Rightarrow> bool" where
  "handling i es \<longleftrightarrow> (\<forall>e \<in> set es. event_id e = i) \<and>
     (\<exists>cs \<in> {[], [CallRouted], [CallRouted, CallError]}. map call_of es = map Some cs)"

lemma handling_length: "handling i es \<Longrightarrow> length es \<le> 2"
  by (auto simp: handling_def dest!: arg_cong [where f = length])

lemma forward_reports:
  assumes "forward P B io i parts s l = Some (out, s', l')" and "log_room 2 l"
  shows "\<exists>es. handling i es \<and> reported l es l'"
proof -
  have room: "log_room 1 l" using assms(2) by (simp add: log_room_def)
  have routed: "reported l [RequestRouted i (fw_unix_ms io) r] (request_routed (fw_unix_ms io) i r l)" for r
    unfolding request_routed_def by (rule send_reported [OF room])
  have failed: "reported l [RequestRouted i (fw_unix_ms io) r, RequestError i e]
      (request_error i e (request_routed (fw_unix_ms io) i r l))" for r e
  proof -
    have "log_room 1 (request_routed (fw_unix_ms io) i r l)"
      using reported_room [OF routed [of r], of 1] assms(2) by (simp add: numeral_2_eq_2)
    from send_reported [OF this] reported_trans [OF routed [of r]] show ?thesis
      unfolding request_error_def by fastforce
  qed
  have "(\<exists>r. l' = request_routed (fw_unix_ms io) i r l) \<or>
      (\<exists>r e. l' = request_error i e (request_routed (fw_unix_ms io) i r l))"
    using assms(1) unfolding forward_def
    by (auto simp: Let_def split: bind_splits option.splits sum.splits client_outcome.splits) blast+
  then show ?thesis
  proof (elim disjE exE)
    fix r
    assume "l' = request_routed (fw_unix_ms io) i r l"
    with routed [of r] show ?thesis
      by (intro exI [of _ "[RequestRouted i (fw_unix_ms io) r]"]) (simp add: handling_def)
  next
    fix r e
    assume "l' = request_error i e (request_routed (fw_unix_ms io) i r l)"
    with failed [of r e] show ?thesis
      by (intro exI [of _ "[RequestRouted i (fw_unix_ms io) r, RequestError i e]"]) (simp add: handling_def)
  qed
qed

lemma finish_reports:
  fixes l :: "'u LogSender"
  assumes "finish P B now i response l = Some ((response', g), l')" and "log_room 2 l"
  shows "guard_ok i g \<and> (\<exists>e es. call_of e = Some CallResponse \<and> event_id e = i \<and> reported l (e # es) l' \<and>
    (if cg_finished g then ends i es else es = []))"
proof -
  define e :: "'u LogEvent" where "e = ResponseStarted i (rs_status (fst response'))
    (is_event_stream (px_to_str P) (rs_headers (fst response')))"
  define l1 where "l1 = send e l"
  have e: "l1 = send e l" "call_of e = Some CallResponse" "event_id e = i" by (simp_all add: l1_def e_def)
  from assms(1) have new: "observed_new now (response_ended B (snd response')) i l1 = (g, l')"
    by (auto simp: l1_def e_def finish_def response_started_def Let_def split: bind_splits prod.splits)
  have r1: "reported l [e] l1" unfolding e(1) by (rule send_reported) (use assms(2) in \<open>simp add: log_room_def\<close>)
  then have room: "log_room 1 l1" using reported_room [of l "[e]" l1 1] assms(2) by (simp add: numeral_2_eq_2)
  let ?g = "\<lparr>cg_id = i, cg_finished = False, cg_first_byte_at_unix_ms = None, cg_response_bytes = 0,
    cg_sniffer = sniffer_new\<rparr>"
  have ok: "guard_ok i ?g" by (simp add: guard_ok_def sniffer_inv_def sniffer_new_def)
  show ?thesis
  proof (cases "response_ended B (snd response')")
    case True
    with new have "completion_finish now BodyComplete ?g l1 = (g, l')" by (simp add: observed_new_def)
    from completion_finish_reports [OF ok this] room obtain es where
      "guard_ok i g" "cg_finished g" "ends i es" "reported l1 es l'" by auto
    with e(2,3) reported_trans [OF r1] show ?thesis by fastforce
  next
    case False
    with new have "g = ?g" "l' = l1" by (simp_all add: observed_new_def)
    with ok e(2,3) r1 show ?thesis by auto
  qed
qed

lemma started_reports:
  assumes "request_started (\<lambda>_ l. l) now i info l = (Inr g, l')"
  shows "reported l [RequestStarted i now info] l'" and "g = \<lparr>rg_id = i, rg_armed = True\<rparr>"
  using assms
  by (auto simp: request_started_def reserve_slot_def enqueue_started_def try_send_def reported_def Let_def
      split: if_splits option.splits prod.splits TrySend.splits)

lemma started_refused:
  "request_started (\<lambda>_ l. l) now i info l = (Inl e, l') \<Longrightarrow> tx_queue l' = tx_queue l"
  by (auto simp: request_started_def reserve_slot_def enqueue_started_def try_send_def Let_def mark_failed_def
      drop_audit_permit_def split: if_splits option.splits prod.splits TrySend.splits)

text \<open>The parts put together are a whole trace.\<close>

lemma handling_calls:
  "handling i es \<Longrightarrow> \<exists>cs. map call_of es = map Some cs \<and> cs \<in> {[], [CallRouted], [CallRouted, CallError]}"
  unfolding handling_def by blast

lemma trace_abandoned:
  assumes "call_of e0 = None" and "handling i es" and "ends i fs"
  shows "trace_ok PhaseEnded (e0 # es @ fs)"
proof -
  obtain cs where cs: "map call_of es = map Some cs" "cs \<in> {[], [CallRouted], [CallRouted, CallError]}"
    using handling_calls [OF assms(2)] by blast
  have "map call_of (es @ fs) = map Some (cs @ [CallFinished])" using cs(1) assms(3) by (auto simp: ends_def)
  moreover have "run_calls (PhaseHandling False False) (cs @ [CallFinished]) = Some PhaseEnded"
    using cs(2) by auto
  ultimately have "\<exists>ds. map call_of (es @ fs) = map Some ds \<and> run_calls (PhaseHandling False False) ds = Some PhaseEnded"
    by blast
  with assms(1) show ?thesis by simp
qed

lemma trace_answered:
  assumes "call_of e0 = None" and "handling i es" and "call_of e1 = Some CallResponse" and "ends i fs"
  shows "trace_ok PhaseEnded (e0 # es @ e1 # fs)"
proof -
  obtain cs where cs: "map call_of es = map Some cs" "cs \<in> {[], [CallRouted], [CallRouted, CallError]}"
    using handling_calls [OF assms(2)] by blast
  have "map call_of (es @ e1 # fs) = map Some (cs @ [CallResponse, CallFinished])"
    using cs(1) assms(3,4) by (auto simp: ends_def)
  moreover have "run_calls (PhaseHandling False False) (cs @ [CallResponse, CallFinished]) = Some PhaseEnded"
    using cs(2) by auto
  ultimately have "\<exists>ds. map call_of (es @ e1 # fs) = map Some ds \<and> run_calls (PhaseHandling False False) ds = Some PhaseEnded"
    by blast
  with assms(1) show ?thesis by simp
qed

definition whole_trace :: "request_id \<Rightarrow> 'u LogEvent list \<Rightarrow> bool" where
  "whole_trace i es \<longleftrightarrow> trace_ok PhaseEnded es \<and> es \<noteq> [] \<and> (\<forall>e \<in> set es. event_id e = i)"

lemma abandoned_reports:
  fixes l :: "'u LogSender"
  assumes "call_of e0 = None" and "event_id e0 = i" and "handling i es" and "reported l (e0 # es) l2"
    and "log_room 2 l2"
  shows "\<exists>fs. tx_queue (drop_request_guard now \<lparr>rg_id = i, rg_armed = True\<rparr> l2) = tx_queue l @ fs \<and> whole_trace i fs"
proof -
  define e1 :: "'u LogEvent" where "e1 = ResponseFinished i now BodyAbandoned default_observation"
  have e1: "ends i [e1]" by (simp add: ends_def e1_def)
  have "reported l2 [e1] (send e1 l2)" by (rule send_reported) (use assms(5) in \<open>simp add: log_room_def\<close>)
  from reported_trans [OF assms(4) this] have "tx_queue (send e1 l2) = tx_queue l @ (e0 # es @ [e1])"
    by (simp add: reported_def)
  moreover have "whole_trace i (e0 # es @ [e1])"
    using trace_abandoned [OF assms(1,3) e1] assms(2,3) by (simp add: whole_trace_def handling_def e1_def)
  ultimately show ?thesis by (auto simp: drop_request_guard_def response_finished_def e1_def)
qed

lemma answered_reports:
  fixes l :: "'u LogSender"
  assumes "call_of e0 = None" and "event_id e0 = i" and "handling i es" and "reported l (e0 # es) l2"
    and "log_room 2 l2" and "finish P B t i response l2 = Some ((response', g), l3)"
  shows "\<exists>l4 fs. observe_body from_slice turns now g l3 = Some l4 \<and> tx_queue l4 = tx_queue l @ fs \<and> whole_trace i fs"
proof -
  obtain e1 fs where g: "guard_ok i g" "call_of e1 = Some CallResponse" "event_id e1 = i"
    "reported l2 (e1 # fs) l3" "if cg_finished g then ends i fs else fs = []"
    using finish_reports [OF assms(6,5)] by blast
  have room3: "\<not> cg_finished g \<longrightarrow> log_room 1 l3"
    using reported_room [OF g(4), of 1] assms(5) g(5) by (auto simp: numeral_2_eq_2)
  obtain l4 hs where h: "observe_body from_slice turns now g l3 = Some l4" "reported l3 hs l4"
    "if cg_finished g then hs = [] else ends i hs"
    using observe_body_reports [OF g(1) room3] by blast
  have e: "ends i (fs @ hs)" using g(5) h(3) by (auto split: if_splits)
  from reported_trans [OF reported_trans [OF assms(4) g(4)] h(2)]
  have "tx_queue l4 = tx_queue l @ (e0 # es @ e1 # (fs @ hs))" by (simp add: reported_def)
  moreover have "\<forall>e \<in> set (fs @ hs). event_id e = i" by (rule ends_ids [OF e])
  then have "whole_trace i (e0 # es @ e1 # (fs @ hs))"
    using trace_answered [OF assms(1,3) g(2) e] assms(2,3) g(3) by (auto simp: whole_trace_def handling_def)
  ultimately show ?thesis using h(1) by blast
qed

text \<open>The handler after admission: what it reports before it responds.\<close>

lemma proxy_admitted:
  assumes "proxy P B io (\<lambda>_ l. l) i peer store parts s l = Some (outcome, s', l')" and "log_room 5 l"
    and "\<And>response. outcome \<noteq> Refused response"
  shows "\<exists>e0 es l2. call_of e0 = None \<and> event_id e0 = i \<and> handling i es \<and> reported l (e0 # es) l2 \<and> log_room 2 l2 \<and>
    (case outcome of
       Answered response g \<Rightarrow> \<exists>t resp. finish P B t i resp l2 = Some ((response, g), l')
     | _ \<Rightarrow> \<exists>t. l' = drop_request_guard t \<lparr>rg_id = i, rg_armed = True\<rparr> l2)"
proof -
  obtain a where auth: "authenticate (px_sha P) (px_to_str P) (rp_headers parts) store = Some a"
    using assms(1) by (auto simp: proxy_def Let_def split: bind_splits)
  define info where "info = with_openwebui_user (rp_headers parts)
      (key_name (cfg_openwebui (pub_config (published (rt_runtime s))))) (request_info (px_uri P) peer parts a)"
  obtain r l1 where r: "request_started (\<lambda>_ l. l) (fw_unix_ms io) i info l = (r, l1)" by (metis surj_pair)
  have "\<exists>guard. r = Inr guard"
    using assms(1) r assms(3) [of "admission_error (projl r)"]
    by (cases r) (simp_all add: proxy_def Let_def auth info_def [symmetric])
  with r obtain guard where start: "request_started (\<lambda>_ l. l) (fw_unix_ms io) i info l = (Inr guard, l1)" by blast
  have "(do { (response, s1, l2) \<leftarrow> (case au_result a of Inr _ \<Rightarrow> forward P B io i parts s l1
        | Inl e \<Rightarrow> Some (Some (authentication_error e), s, l1));
      (case response of None \<Rightarrow> Some (Abandoned, s1, drop_request_guard (fw_unix_ms io) guard l2)
        | Some response \<Rightarrow> do { ((response', observer), log3) \<leftarrow> finish P B (fw_unix_ms io) i response l2;
            Some (Answered response' observer, s1, drop_request_guard (fw_unix_ms io) (disarm guard) log3) }) }) =
        Some (outcome, s', l')"
    using assms(1) start by (simp add: proxy_def Let_def auth info_def [symmetric])
  then obtain response s1 l2 where
    fw: "(case au_result a of Inr _ \<Rightarrow> forward P B io i parts s l1
        | Inl e \<Rightarrow> Some (Some (authentication_error e), s, l1)) = Some (response, s1, l2)"
    and rest: "(case response of None \<Rightarrow> Some (Abandoned, s1, drop_request_guard (fw_unix_ms io) guard l2)
        | Some response \<Rightarrow> do { ((response', observer), log3) \<leftarrow> finish P B (fw_unix_ms io) i response l2;
            Some (Answered response' observer, s1, drop_request_guard (fw_unix_ms io) (disarm guard) log3) }) =
        Some (outcome, s', l')"
    unfolding Option.bind_eq_Some_conv by (auto split: prod.splits)
  define e0 where "e0 = RequestStarted i (fw_unix_ms io) info"
  have e0: "call_of e0 = None" "event_id e0 = i" by (simp_all add: e0_def)
  have r0: "reported l [e0] l1" and guard: "guard = \<lparr>rg_id = i, rg_armed = True\<rparr>"
    using started_reports [OF start] by (simp_all add: e0_def)
  have room1: "log_room 4 l1" using reported_room [OF r0, of 4] assms(2) by simp
  have "\<exists>es. handling i es \<and> reported l1 es l2"
  proof (cases "au_result a")
    case (Inl e)
    with fw have "handling i [] \<and> reported l1 [] l2" by (simp add: handling_def reported_refl)
    then show ?thesis by blast
  next
    case (Inr u)
    then have "forward P B io i parts s l1 = Some (response, s1, l2)" using fw by simp
    then show ?thesis by (rule forward_reports) (use room1 in \<open>simp add: log_room_def\<close>)
  qed
  then obtain es where es: "handling i es" "reported l1 es l2" by blast
  have room2: "log_room 2 l2"
    using reported_room [OF es(2), of 2] handling_length [OF es(1)] room1 by (simp add: log_room_def)
  have "case outcome of
       Answered response g \<Rightarrow> \<exists>t resp. finish P B t i resp l2 = Some ((response, g), l')
     | _ \<Rightarrow> \<exists>t. l' = drop_request_guard t \<lparr>rg_id = i, rg_armed = True\<rparr> l2"
    using rest guard by (cases response) (auto simp: drop_request_guard_def disarm_def split: bind_splits, blast)
  with e0 es(1) reported_trans [OF r0 es(2)] room2 show ?thesis
    by (intro exI [of _ e0] exI [of _ es] exI [of _ l2]) simp
qed

lemma proxy_unchanged:
  assumes "proxy P B io (\<lambda>_ l. l) i peer store parts s l = Some (outcome, s', l')"
  shows "outcome = Refused response \<Longrightarrow> tx_queue l' = tx_queue l \<and> s' = s"
    and "authenticate (px_sha P) (px_to_str P) (rp_headers parts) store = Some a \<Longrightarrow> au_result a \<noteq> Inr () \<Longrightarrow> s' = s"
  using assms
  by (auto simp: proxy_def Let_def dest!: started_refused split: bind_splits prod.splits sum.splits option.splits)



end
