(* ===== verification/Register.thy ===== *)
theory Register
  imports Proxy
begin

text \<open>
  The key registration page (\<open>src/src/register.rs\<close>): the availability of registration, the
  refusal of cross-site requests, the creation of a key and the headers every response
  carries. The text of the page and the decoder of the request body are arguments.
\<close>

subsection \<open>Responses\<close>

datatype register_body = PageBody string | KeyBody string | RegisterErrorBody string string "string option" string

type_synonym register_response = "ResponseParts \<times> register_body"

definition UNAVAILABLE_MESSAGE :: string where
  "UNAVAILABLE_MESSAGE = ''Key registration unavailable.''"

definition DUPLICATE_NAME_MESSAGE :: string where
  "DUPLICATE_NAME_MESSAGE = ''That name is already registered.''"

definition SECURE_HEADERS :: "(string \<times> string) list" where
  "SECURE_HEADERS =
     [(''cache-control'', ''no-store, max-age=0''),
      (''pragma'', ''no-cache''),
      (''referrer-policy'', ''no-referrer''),
      (''content-security-policy'',
       ''default-src '' @ [CHR 0x27] @ ''none'' @ [CHR 0x27] @ ''; style-src '' @ [CHR 0x27] @ ''unsafe-inline'' @
       [CHR 0x27] @ ''; script-src '' @ [CHR 0x27] @ ''unsafe-inline'' @ [CHR 0x27] @ ''; connect-src '' @
       [CHR 0x27] @ ''self'' @ [CHR 0x27] @ ''; base-uri '' @ [CHR 0x27] @ ''none'' @ [CHR 0x27] @
       ''; form-action '' @ [CHR 0x27] @ ''self'' @ [CHR 0x27] @ ''; frame-ancestors '' @ [CHR 0x27] @ ''none'' @
       [CHR 0x27]),
      (''x-content-type-options'', ''nosniff''),
      (''x-frame-options'', ''DENY''),
      (''permissions-policy'', ''clipboard-write=(self)'')]"

definition secure_response :: "register_response \<Rightarrow> register_response" where
  "secure_response = (\<lambda>(parts, body).
     (parts\<lparr>rs_headers := fold (\<lambda>(name, v). hm_insert name v) SECURE_HEADERS (rs_headers parts)\<rparr>, body))"

definition json_response :: "nat \<Rightarrow> register_body \<Rightarrow> register_response" where
  "json_response code body =
     (\<lparr>rs_status = code, rs_version = HTTP_11, rs_headers = [(''content-type'', ''application/json'')]\<rparr>, body)"

definition unavailable :: "nat \<Rightarrow> register_response" where
  "unavailable code =
     secure_response (json_response code
       (RegisterErrorBody UNAVAILABLE_MESSAGE ''api_error'' None ''registration_unavailable''))"

definition duplicate_name :: register_response where
  "duplicate_name =
     secure_response (json_response 409
       (RegisterErrorBody DUPLICATE_NAME_MESSAGE ''invalid_request_error'' (Some ''name'') ''name_already_registered''))"

subsection \<open>The page\<close>

definition AVAILABILITY_PLACEHOLDER :: string where
  "AVAILABILITY_PLACEHOLDER = ''__REGISTRATION_AVAILABLE__''"

text \<open>\<open>replacen(pattern, to, 1)\<close>.\<close>

fun replace_first :: "string \<Rightarrow> string \<Rightarrow> string \<Rightarrow> string" where
  "replace_first pat to [] = (if pat = [] then to else [])"
| "replace_first pat to (c # cs) =
     (if take (length pat) (c # cs) = pat then to @ drop (length pat) (c # cs)
      else c # replace_first pat to cs)"

definition register_page :: "string \<Rightarrow> RegistrationConfig \<Rightarrow> KeyStore \<Rightarrow> register_response" where
  "register_page PAGE registration store =
     (let available = (enabled registration \<and> can_register store (max_keys registration)) in
      secure_response
        (\<lparr>rs_status = 200, rs_version = HTTP_11, rs_headers = [(''content-type'', ''text/html; charset=utf-8'')]\<rparr>,
         PageBody (replace_first AVAILABILITY_PLACEHOLDER (if available then ''true'' else ''false'') PAGE)))"

subsection \<open>Creating a key\<close>

definition is_cross_site :: "HeaderMap \<Rightarrow> bool" where
  "is_cross_site headers =
     (case header_get headers ''sec-fetch-site'' of
        None \<Rightarrow> False
      | Some v \<Rightarrow> eq_ignore_ascii_case v ''cross-site'')"

text \<open>The payload is the status of the rejection or the name that was asked for.\<close>

definition register_create ::
  "(string \<Rightarrow> u8 list) \<Rightarrow> key_io \<Rightarrow> RegistrationConfig \<Rightarrow> HeaderMap \<Rightarrow> nat + string \<Rightarrow> KeyStore \<Rightarrow> disk
    \<Rightarrow> register_response \<times> KeyStore \<times> disk" where
  "register_create sha io registration headers payload store d =
     (if is_cross_site headers \<or> \<not> enabled registration \<or> \<not> can_register store (max_keys registration)
      then (unavailable 503, store, d)
      else (case payload of
          Inl rejection \<Rightarrow> (unavailable rejection, store, d)
        | Inr name \<Rightarrow>
            (case create_non_admin sha io name (max_keys registration) store d of
               (Inr api_key, store', d') \<Rightarrow> (secure_response (json_response 201 (KeyBody api_key)), store', d')
             | (Inl (InvalidName _), store', d') \<Rightarrow> (unavailable 400, store', d')
             | (Inl DuplicateName, store', d') \<Rightarrow> (duplicate_name, store', d')
             | (Inl LimitReached, store', d') \<Rightarrow> (unavailable 503, store', d')
             | (Inl (KeysUnavailable _), store', d') \<Rightarrow> (unavailable 503, store', d'))))"

subsection \<open>Properties\<close>

definition secured :: "register_response \<Rightarrow> bool" where
  "secured response \<longleftrightarrow> (\<forall>(name, v) \<in> set SECURE_HEADERS. get_all (rs_headers (fst response)) name = [v])"

lemma get_all_hm_insert: "get_all (hm_insert n v headers) m = (if m = n then [v] else get_all headers m)"
  by (auto simp: get_all_def hm_insert_def filter_empty_conv intro!: arg_cong [where f = "map snd"] filter_cong)

lemma get_all_inserts:
  "distinct (map fst fs) \<Longrightarrow>
     get_all (fold (\<lambda>(n, v). hm_insert n v) fs headers) m =
       (case map_of fs m of Some v \<Rightarrow> [v] | None \<Rightarrow> get_all headers m)"
proof (induction fs arbitrary: headers)
  case (Cons f fs)
  obtain n v where f: "f = (n, v)" by (cases f)
  have "map_of fs n = None" using Cons.prems f by (simp add: map_of_eq_None_iff)
  with Cons f show ?case by (simp add: get_all_hm_insert split: option.splits)
qed simp

lemma secure_names: "distinct (map fst SECURE_HEADERS)"
  by (simp add: SECURE_HEADERS_def)

lemma secured_response: "secured (secure_response r)"
  unfolding secured_def
proof (clarify)
  fix name v assume "(name, v) \<in> set SECURE_HEADERS"
  then have "map_of SECURE_HEADERS name = Some v" using secure_names by (simp add: map_of_eq_Some_iff)
  then show "get_all (rs_headers (fst (secure_response r))) name = [v]"
    by (simp add: secure_response_def get_all_inserts [OF secure_names] case_prod_beta)
qed

lemma create_refused_keeps:
  "create_non_admin sha io raw limit store d = (Inl e, store', d') \<Longrightarrow> store' = store \<and> disk_main d' = disk_main d"
  using save_keys_cases
  by (auto simp: create_non_admin_def Let_def split: sum.splits if_splits option.splits prod.splits)



end
