(* ===== verification/Log_Tail.thy ===== *)
theory Log_Tail
  imports Rust_Strings "HOL-Library.Sublist"
begin

text \<open>
  Following the audit log (\<open>Tail\<close> of \<open>src/src/logs.rs\<close>): a second process polls the file the
  proxy appends to, parses the complete lines and holds back a partial one. The file system
  may change at every system call of a poll, and every call may fail; \<open>from_slice\<close> is the
  JSON decoder of a line.
\<close>

subsection \<open>The file and its handle\<close>

text \<open>What the path names, and the contents of the files by device and inode.\<close>

record log_fs =
  fs_path :: "nat option"
  fs_data :: "nat \<Rightarrow> string"

datatype tail_call = StatPath | StatOpen | OpenPath | StatLength | SeekStart | ReadFile

datatype log_io_error = LogNotFound | LogIo string

text \<open>
  The calls of one poll see the file system \<open>ti_fs\<close> at the times 0 (metadata of the path),
  1 (open), 2 (length) and 3 (read); a read that fails has consumed some bytes.
\<close>

record tail_io =
  ti_fs :: "nat \<Rightarrow> log_fs"
  ti_fail :: "tail_call \<Rightarrow> string option"
  ti_part :: nat

record Tail =
  tl_file :: "(nat \<times> nat) option"
  tl_offset :: u64
  tl_partial :: string
  tl_malformed :: u64

record 'r Appended =
  ap_records :: "'r list"
  ap_restarted :: bool

definition tail_new :: Tail where
  "tail_new = \<lparr>tl_file = None, tl_offset = 0, tl_partial = [], tl_malformed = 0\<rparr>"

subsection \<open>Lines\<close>

fun position :: "('a \<Rightarrow> bool) \<Rightarrow> 'a list \<Rightarrow> nat option" where
  "position P [] = None"
| "position P (x # xs) = (if P x then Some 0 else map_option Suc (position P xs))"

definition newline :: char where
  "newline = CHR 0x0A"

lemma position_Some: "position P xs = Some i \<Longrightarrow> i < length xs \<and> P (xs ! i) \<and> (\<forall>x \<in> set (take i xs). \<not> P x)"
proof (induction xs arbitrary: i)
  case (Cons x xs)
  then show ?case by (cases i) (auto split: if_splits)
qed simp

lemma position_None: "position P xs = None \<longleftrightarrow> (\<forall>x \<in> set xs. \<not> P x)"
  by (induction xs) auto

text \<open>The loop over the complete lines; what is left is the partial line.\<close>

function consume_lines ::
  "(string \<Rightarrow> 'r option) \<Rightarrow> string \<Rightarrow> 'r list \<Rightarrow> u64 \<Rightarrow> 'r list \<times> u64 \<times> string" where
  "consume_lines from_slice rest records malformed =
     (case position (\<lambda>b. b = newline) rest of
        None \<Rightarrow> (records, malformed, rest)
      | Some index \<Rightarrow>
          let line = take index rest; rest' = drop (Suc index) rest in
          if list_all is_ascii_whitespace line
          then consume_lines from_slice rest' records malformed
          else (case from_slice line of
              Some record \<Rightarrow> consume_lines from_slice rest' (records @ [record]) malformed
            | None \<Rightarrow> consume_lines from_slice rest' records (saturating_add malformed 1)))"
  by pat_completeness auto
termination by (relation "measure (\<lambda>(_, rest, _, _). length rest)") (auto dest: position_Some)

declare consume_lines.simps [simp del]

subsection \<open>One poll\<close>

definition open_log :: "tail_io \<Rightarrow> log_io_error + nat \<times> nat" where
  "open_log io =
     (case ti_fail io OpenPath of
        Some e \<Rightarrow> Inl (LogIo e)
      | None \<Rightarrow> (case fs_path (ti_fs io 1) of None \<Rightarrow> Inl LogNotFound | Some inode \<Rightarrow> Inr (inode, 0)))"

definition reset_to :: "nat \<times> nat \<Rightarrow> Tail \<Rightarrow> Tail" where
  "reset_to handle t = t\<lparr>tl_file := Some handle, tl_offset := 0, tl_partial := []\<rparr>"

text \<open>The file was replaced under its path: open the new one.\<close>

definition follow_replacement :: "tail_io \<Rightarrow> Tail \<Rightarrow> log_io_error + bool \<times> Tail" where
  "follow_replacement io t =
     (case tl_file t of
        None \<Rightarrow> Inr (False, t)
      | Some (inode, _) \<Rightarrow>
          (case ti_fail io StatPath of
             Some e \<Rightarrow> Inl (LogIo e)
           | None \<Rightarrow>
               (case fs_path (ti_fs io 0) of
                  None \<Rightarrow> Inr (False, t)
                | Some named \<Rightarrow>
                    (case ti_fail io StatOpen of
                       Some e \<Rightarrow> Inl (LogIo e)
                     | None \<Rightarrow>
                         if named \<noteq> inode
                         then (case open_log io of
                             Inl e \<Rightarrow> Inl e
                           | Inr handle \<Rightarrow> Inr (True, reset_to handle t))
                         else Inr (False, t)))))"

definition read_appended ::
  "(string \<Rightarrow> 'r option) \<Rightarrow> tail_io \<Rightarrow> bool \<Rightarrow> nat \<times> nat \<Rightarrow> Tail \<Rightarrow> (log_io_error + 'r Appended) \<times> Tail" where
  "read_appended from_slice io restarted handle t =
     (let (inode, cursor) = handle; content = fs_data (ti_fs io 3) inode in
      case ti_fail io ReadFile of
        Some e \<Rightarrow>
          (Inl (LogIo e), t\<lparr>tl_file := Some (inode, min (cursor + ti_part io) (max cursor (length content)))\<rparr>)
      | None \<Rightarrow>
          let appended = drop cursor content;
              (records, malformed, rest) =
                consume_lines from_slice (tl_partial t @ appended) [] (tl_malformed t) in
          (Inr \<lparr>ap_records = records, ap_restarted = restarted\<rparr>,
           \<lparr>tl_file = Some (inode, cursor + length appended),
            tl_offset = saturating_add (tl_offset t) (of_nat (length appended)),
            tl_partial = rest, tl_malformed = malformed\<rparr>))"

definition poll :: "(string \<Rightarrow> 'r option) \<Rightarrow> tail_io \<Rightarrow> Tail \<Rightarrow> (log_io_error + 'r Appended) \<times> Tail" where
  "poll from_slice io t =
     (case follow_replacement io t of
        Inl e \<Rightarrow> (Inl e, t)
      | Inr (restarted, t1) \<Rightarrow>
          (case (case tl_file t1 of
                   Some handle \<Rightarrow> Inr (Some (handle, t1))
                 | None \<Rightarrow>
                     (case open_log io of
                        Inr handle \<Rightarrow> Inr (Some (handle, reset_to handle t1))
                      | Inl LogNotFound \<Rightarrow> Inr None
                      | Inl e \<Rightarrow> Inl e)) of
             Inl e \<Rightarrow> (Inl e, t1)
           | Inr None \<Rightarrow> (Inr \<lparr>ap_records = [], ap_restarted = False\<rparr>, t1)
           | Inr (Some ((inode, cursor), t2)) \<Rightarrow>
               (case ti_fail io StatLength of
                  Some e \<Rightarrow> (Inl (LogIo e), t2)
                | None \<Rightarrow>
                    if of_nat (length (fs_data (ti_fs io 2) inode)) < tl_offset t2
                    then (case ti_fail io SeekStart of
                        Some e \<Rightarrow> (Inl (LogIo e), t2)
                      | None \<Rightarrow> read_appended from_slice io True (inode, 0) (reset_to (inode, 0) t2))
                    else read_appended from_slice io restarted (inode, cursor) t2)))"

subsection \<open>The lines of a text\<close>

text \<open>The reference: a text cut into its complete lines and the unfinished rest.\<close>

fun cut_lines :: "string \<Rightarrow> string list \<times> string" where
  "cut_lines [] = ([], [])"
| "cut_lines (c # cs) =
     (let (ls, r) = cut_lines cs in
      if c = newline then ([] # ls, r)
      else case ls of [] \<Rightarrow> ([], c # r) | l # ls' \<Rightarrow> ((c # l) # ls', r))"

definition log_lines :: "string \<Rightarrow> string list" where
  "log_lines text = filter (\<lambda>l. \<not> list_all is_ascii_whitespace l) (fst (cut_lines text))"

definition records_of :: "(string \<Rightarrow> 'r option) \<Rightarrow> string \<Rightarrow> 'r list" where
  "records_of from_slice text = List.map_filter from_slice (log_lines text)"

definition unfinished :: "string \<Rightarrow> string" where
  "unfinished text = snd (cut_lines text)"

definition unreadable :: "(string \<Rightarrow> 'r option) \<Rightarrow> string \<Rightarrow> nat" where
  "unreadable from_slice text = length (filter (\<lambda>l. from_slice l = None) (log_lines text))"

lemma cut_no_newline: "\<forall>c \<in> set s. c \<noteq> newline \<Longrightarrow> cut_lines s = ([], s)"
  by (induction s) auto

lemma cut_line: "\<forall>c \<in> set l. c \<noteq> newline \<Longrightarrow>
    cut_lines (l @ newline # s) = (l # fst (cut_lines s), snd (cut_lines s))"
  by (induction l) (auto split: prod.splits)

lemma cut_append:
  "cut_lines (a @ b) = (fst (cut_lines a) @ fst (cut_lines (snd (cut_lines a) @ b)), snd (cut_lines (snd (cut_lines a) @ b)))"
proof (induction a)
  case (Cons c cs)
  then show ?case
    by (cases "fst (cut_lines cs)") (auto split: prod.splits list.splits)
qed simp

text \<open>Reading on from the unfinished line is reading the whole text.\<close>

lemma records_append: "records_of P (a @ b) = records_of P a @ records_of P (unfinished a @ b)"
  by (simp add: records_of_def log_lines_def cut_append [of a b] List.map_filter_def unfinished_def)

lemma unfinished_append: "unfinished (a @ b) = unfinished (unfinished a @ b)"
  by (simp add: unfinished_def cut_append [of a b])

lemma unreadable_append: "unreadable P (a @ b) = unreadable P a + unreadable P (unfinished a @ b)"
  by (simp add: unreadable_def log_lines_def cut_append [of a b] unfinished_def)

lemma split_at_position:
  assumes "position (\<lambda>b. b = newline) s = Some i"
  shows "cut_lines s = (take i s # fst (cut_lines (drop (Suc i) s)), unfinished (drop (Suc i) s))"
proof -
  have i: "i < length s" "s ! i = newline" "\<forall>c \<in> set (take i s). c \<noteq> newline"
    using position_Some [OF assms] by auto
  have "s = take i s @ newline # drop (Suc i) s" using i(1,2) by (metis id_take_nth_drop)
  then show ?thesis using cut_line [OF i(3), of "drop (Suc i) s"] by (simp add: unfinished_def)
qed

lemma bumps:
  "((\<lambda>m. saturating_add m 1) ^^ n) (saturating_add m 1) = saturating_add (((\<lambda>m. saturating_add m 1) ^^ n) m) 1"
  by (rule funpow_swap1 [symmetric])

lemma consume_lines_spec:
  "consume_lines P s rs m =
     (rs @ records_of P s, ((\<lambda>m. saturating_add m 1) ^^ unreadable P s) m, unfinished s)"
proof (induction P s rs m rule: consume_lines.induct)
  case (1 P s rs m)
  show ?case
  proof (cases "position (\<lambda>b. b = newline) s")
    case None
    then have "cut_lines s = ([], s)" using cut_no_newline [of s] by (simp add: position_None)
    with None show ?thesis
      by (subst consume_lines.simps) (simp add: records_of_def unreadable_def log_lines_def unfinished_def map_filter_simps)
  next
    case (Some i)
    note cut = split_at_position [OF Some]
    have line: "records_of P s = (if list_all is_ascii_whitespace (take i s) then []
        else (case P (take i s) of None \<Rightarrow> [] | Some r \<Rightarrow> [r])) @ records_of P (drop (Suc i) s)"
      "unreadable P s = (if \<not> list_all is_ascii_whitespace (take i s) \<and> P (take i s) = None then 1 else 0) +
        unreadable P (drop (Suc i) s)"
      "unfinished s = unfinished (drop (Suc i) s)"
      by (simp_all add: records_of_def unreadable_def log_lines_def cut unfinished_def map_filter_simps split: option.splits)
    show ?thesis
      using "1.IH" [OF Some refl refl] unfolding line
      by (subst consume_lines.simps) (auto simp: Some Let_def bumps split: option.splits)
  qed
qed

subsection \<open>Following the file\<close>

text \<open>
  The tail has read exactly the text \<open>c\<close> of its file, and a caller that drops its records
  when told of a restart holds \<open>v\<close>.
\<close>

definition tracks :: "(string \<Rightarrow> 'r option) \<Rightarrow> Tail \<Rightarrow> 'r list \<Rightarrow> string \<Rightarrow> bool" where
  "tracks P t v c \<longleftrightarrow> v = records_of P c \<and> tl_partial t = unfinished c \<and> unat (tl_offset t) = length c \<and>
     (case tl_file t of None \<Rightarrow> c = [] | Some (_, cursor) \<Rightarrow> cursor = length c)"

text \<open>
  Between polls anything may happen to the files. At a poll, the open file still begins with
  what was read or is shorter (a truncated file that has grown past the offset again cannot
  be told from an appended one), and from the look at its length to the read it only grows.
\<close>

definition undisturbed :: "tail_io \<Rightarrow> Tail \<Rightarrow> string \<Rightarrow> bool" where
  "undisturbed io t c \<longleftrightarrow>
     (\<forall>inode cursor. tl_file t = Some (inode, cursor) \<longrightarrow>
        prefix c (fs_data (ti_fs io 2) inode) \<or> length (fs_data (ti_fs io 2) inode) < length c) \<and>
     (\<forall>inode. prefix (fs_data (ti_fs io 2) inode) (fs_data (ti_fs io 3) inode) \<and>
        length (fs_data (ti_fs io 3) inode) < 2 ^ 64)"

definition seen :: "tail_io \<Rightarrow> Tail \<Rightarrow> string" where
  "seen io t = (case tl_file t of None \<Rightarrow> [] | Some (inode, _) \<Rightarrow> fs_data (ti_fs io 3) inode)"

definition with_appended :: "'r list \<Rightarrow> 'r Appended \<Rightarrow> 'r list" where
  "with_appended v ap = (if ap_restarted ap then ap_records ap else v @ ap_records ap)"

inductive tail_run :: "(string \<Rightarrow> 'r option) \<Rightarrow> Tail \<Rightarrow> 'r list \<Rightarrow> string \<Rightarrow> bool" for P where
  start: "tail_run P tail_new [] []"
| polled: "tail_run P t v c \<Longrightarrow> undisturbed io t c \<Longrightarrow> poll P io t = (Inr ap, t') \<Longrightarrow>
    tail_run P t' (with_appended v ap) (seen io t')"
| failed: "tail_run P t v c \<Longrightarrow> poll P io t = (Inl e, t') \<Longrightarrow>
    ti_fail io StatLength = None \<Longrightarrow> ti_fail io ReadFile = None \<Longrightarrow> tail_run P t' v c"

lemma unat_of_length: "length (xs :: 'a list) < 2 ^ 64 \<Longrightarrow> unat (of_nat (length xs) :: u64) = length xs"
  by (simp add: unat_of_nat)

lemma read_appended_tracks:
  assumes "read_appended P io restarted (inode, length c) t = (Inr ap, t')"
    and "prefix c (fs_data (ti_fs io 3) inode)" and "length (fs_data (ti_fs io 3) inode) < 2 ^ 64"
    and "tl_partial t = unfinished c" and "unat (tl_offset t) = length c"
  shows "tracks P t' (records_of P c @ ap_records ap) (seen io t') \<and> ap_restarted ap = restarted"
proof -
  obtain x where d: "fs_data (ti_fs io 3) inode = c @ x" using assms(2) by (auto simp: prefix_def)
  have off: "unat (saturating_add (tl_offset t) (of_nat (length x))) = length (c @ x)"
    using assms(3,5) d unat_of_length [of x] by (simp add: unat_saturating_add)
  have "ap = \<lparr>ap_records = records_of P (unfinished c @ x), ap_restarted = restarted\<rparr>"
    "tl_file t' = Some (inode, length (c @ x))" "tl_partial t' = unfinished (c @ x)"
    "tl_offset t' = saturating_add (tl_offset t) (of_nat (length x))"
    using assms(1,4)
    by (auto simp: read_appended_def Let_def d consume_lines_spec unfinished_append [of c x] split: option.splits)
  with off show ?thesis by (simp add: tracks_def seen_def d records_append [of P c x])
qed

lemma follow_replacement_cases:
  assumes "follow_replacement io t = Inr (restarted, t1)"
  shows "\<not> restarted \<and> t1 = t \<or> (restarted \<and> (\<exists>inode. t1 = reset_to (inode, 0) t))"
  using assms
  by (auto simp: follow_replacement_def open_log_def split: option.splits if_splits sum.splits prod.splits)

text \<open>What a poll does once it has a file: it reads from its position or from the start.\<close>

lemma poll_Inr:
  assumes "poll P io t = (Inr ap, t')"
  obtains (none) "tl_file t = None" "t' = t" "ap = \<lparr>ap_records = [], ap_restarted = False\<rparr>"
  | (fresh) restarted inode where "tl_file t = None \<or> restarted"
      "read_appended P io restarted (inode, 0) (reset_to (inode, 0) t) = (Inr ap, t')"
  | (shrunk) inode cursor where "tl_file t = Some (inode, cursor)"
      "of_nat (length (fs_data (ti_fs io 2) inode)) < tl_offset t"
      "read_appended P io True (inode, 0) (reset_to (inode, 0) t) = (Inr ap, t')"
  | (grown) inode cursor where "tl_file t = Some (inode, cursor)"
      "\<not> of_nat (length (fs_data (ti_fs io 2) inode)) < tl_offset t"
      "read_appended P io False (inode, cursor) t = (Inr ap, t')"
proof -
  obtain restarted t1 where f: "follow_replacement io t = Inr (restarted, t1)"
    using assms by (auto simp: poll_def split: sum.splits)
  consider (kept) "\<not> restarted" "t1 = t" | (replaced) inode where "restarted" "t1 = reset_to (inode, 0) t"
    using follow_replacement_cases [OF f] by blast
  then show ?thesis
  proof cases
    case kept
    show ?thesis
    proof (cases "tl_file t")
      case None
      note run = assms [unfolded poll_def f]
      show ?thesis
      proof (cases "open_log io")
        case (Inl e)
        with run None kept show ?thesis by (cases e) (auto intro!: none)
      next
        case (Inr handle)
        then obtain inode where h: "handle = (inode, 0)" by (auto simp: open_log_def split: option.splits)
        show ?thesis
          by (rule fresh [of False inode])
            (use run None kept Inr h in \<open>auto simp: reset_to_def split: option.splits if_splits\<close>)
      qed
    next
      case (Some handle)
      obtain inode cursor where h: "handle = (inode, cursor)" by (cases handle)
      note run = assms [unfolded poll_def f]
      show ?thesis
      proof (cases "of_nat (length (fs_data (ti_fs io 2) inode)) < tl_offset t")
        case True
        show ?thesis by (rule shrunk [of inode cursor]) (use run Some kept h True in \<open>auto split: option.splits\<close>)
      next
        case False
        show ?thesis by (rule grown [of inode cursor]) (use run Some kept h False in \<open>auto split: option.splits\<close>)
      qed
    qed
  next
    case replaced
    show ?thesis
      by (rule fresh [of True inode])
        (use assms [unfolded poll_def f] replaced in \<open>auto simp: reset_to_def split: option.splits\<close>)
  qed
qed

lemma nothing_read [simp]: "records_of P [] = []" "unfinished [] = []"
  by (simp_all add: records_of_def log_lines_def unfinished_def map_filter_simps)

lemma read_appended_start:
  assumes "read_appended P io restarted (inode, 0) (reset_to (inode, 0) t) = (Inr ap, t')" and "undisturbed io t c"
  shows "tracks P t' (ap_records ap) (seen io t') \<and> ap_restarted ap = restarted"
  using read_appended_tracks [of P io restarted inode "[]"] assms by (auto simp: reset_to_def undisturbed_def)

lemma poll_tracks:
  assumes "tracks P t v c" and "undisturbed io t c" and "poll P io t = (Inr ap, t')"
  shows "tracks P t' (with_appended v ap) (seen io t')"
  using assms(3)
proof (cases rule: poll_Inr)
  case none
  with assms(1) show ?thesis by (simp add: tracks_def with_appended_def seen_def)
next
  case (fresh restarted inode)
  have "tracks P t' (ap_records ap) (seen io t')" "ap_restarted ap = restarted"
    using read_appended_start [OF fresh(2) assms(2)] by simp_all
  moreover have "v = []" if "tl_file t = None"
    using assms(1) that by (simp add: tracks_def)
  ultimately show ?thesis using fresh(1) by (auto simp: with_appended_def)
next
  case (shrunk inode cursor)
  have "tracks P t' (ap_records ap) (seen io t')" "ap_restarted ap"
    using read_appended_start [OF shrunk(3) assms(2)] by simp_all
  then show ?thesis by (simp add: with_appended_def)
next
  case (grown inode cursor)
  let ?d = "\<lambda>n. fs_data (ti_fs io n) inode"
  have c: "v = records_of P c" "tl_partial t = unfinished c" "unat (tl_offset t) = length c" "cursor = length c"
    using assms(1) grown(1) by (simp_all add: tracks_def)
  have grows: "prefix (?d 2) (?d 3)" "length (?d 3) < 2 ^ 64" using assms(2) by (simp_all add: undisturbed_def)
  then have "length (?d 2) < 2 ^ 64" using prefix_length_le by (meson le_less_trans)
  then have "\<not> length (?d 2) < length c"
    using grown(2) c(3) unat_of_length [of "?d 2"] by (simp add: word_less_nat_alt)
  then have "prefix c (?d 3)" using assms(2) grown(1) grows(1) by (auto simp: undisturbed_def intro: prefix_order.trans)
  from read_appended_tracks [OF grown(3) [unfolded c(4)] this grows(2) c(2,3)] show ?thesis
    by (simp add: c(1) with_appended_def)
qed

lemma failed_poll_keeps:
  assumes "poll P io t = (Inl e, t')" and "ti_fail io StatLength = None" and "ti_fail io ReadFile = None"
    and "tracks P t v c"
  shows "tracks P t' v c"
proof (cases "follow_replacement io t")
  case (Inl e)
  with assms show ?thesis by (simp add: poll_def)
next
  case (Inr rt)
  then obtain restarted t1 where f: "follow_replacement io t = Inr (restarted, t1)" by (cases rt) simp
  from follow_replacement_cases [OF f] consider "t1 = t" | inode where "t1 = reset_to (inode, 0) t" by blast
  then have "t' = t"
  proof cases
    case 1
    with assms(1-3) f show ?thesis
      by (auto simp: poll_def read_appended_def reset_to_def Let_def open_log_def
          split: option.splits if_splits sum.splits prod.splits log_io_error.splits)
  next
    case 2
    with assms(1-3) f show ?thesis
      by (auto simp: poll_def read_appended_def reset_to_def Let_def split: option.splits if_splits prod.splits)
  qed
  with assms(4) show ?thesis by simp
qed

lemma tail_run_tracks: "tail_run P t v c \<Longrightarrow> tracks P t v c"
proof (induction rule: tail_run.induct)
  case start
  show ?case
    by (simp add: tracks_def tail_new_def)
qed (blast intro: poll_tracks failed_poll_keeps)+

subsection \<open>Properties\<close>

text \<open>A beginning of a log written line by line holds the first lines and part of the next.\<close>

lemma cut_beginning:
  assumes "prefix c (concat (map (\<lambda>l. l @ [newline]) ls))" and "\<forall>l \<in> set ls. newline \<notin> set l"
  shows "\<exists>n. fst (cut_lines c) = take n ls"
  using assms
proof (induction ls arbitrary: c)
  case (Cons l ls)
  have l: "\<forall>x \<in> set l. x \<noteq> newline" using Cons.prems(2) by auto
  show ?case
  proof (cases "prefix c l")
    case True
    then have "\<forall>x \<in> set c. x \<noteq> newline" using l by (auto simp: prefix_def)
    then have "fst (cut_lines c) = take 0 (l # ls)" by (simp add: cut_no_newline)
    then show ?thesis by blast
  next
    case False
    with Cons.prems(1) obtain c' where c: "c = l @ newline # c'" "prefix c' (concat (map (\<lambda>l. l @ [newline]) ls))"
      by (auto simp: prefix_append prefix_Cons)
    with Cons.IH [OF c(2)] Cons.prems(2) obtain n where "fst (cut_lines c') = take n ls" by auto
    then have "fst (cut_lines c) = take (Suc n) (l # ls)" by (simp add: c(1) cut_line [OF l])
    then show ?thesis by blast
  qed
qed simp


definition demo_log_io :: "string \<Rightarrow> tail_io" where
  "demo_log_io text =
     \<lparr>ti_fs = (\<lambda>_. \<lparr>fs_path = Some 7, fs_data = (\<lambda>_. text)\<rparr>), ti_fail = (\<lambda>_. None), ti_part = 0\<rparr>"


text \<open>
  A read that fails loses what it had read. The bytes a failed read consumed are in
  neither the buffer nor the offset, and the next poll goes on after them: with the text
  \<open>c\<close> read, \<open>a @ b\<close> appended and a failure after \<open>a\<close>, the records are those of the rest of
  \<open>c\<close> followed by \<open>b\<close>, and no restart is reported.
\<close>

theorem failed_read_loses_bytes:
  assumes "tracks P t v c" and "tl_file t = Some (inode, length c)"
    and "fs_path w = Some inode" and "fs_data w inode = c @ a @ b" and "length (c @ a @ b) < 2 ^ 64"
  shows "\<exists>t1 t2.
    poll P \<lparr>ti_fs = \<lambda>_. w, ti_fail = \<lambda>call. if call = ReadFile then Some e else None, ti_part = length a\<rparr> t =
      (Inl (LogIo e), t1) \<and>
    poll P \<lparr>ti_fs = \<lambda>_. w, ti_fail = \<lambda>_. None, ti_part = 0\<rparr> t1 =
      (Inr \<lparr>ap_records = records_of P (unfinished c @ b), ap_restarted = False\<rparr>, t2)"
proof -
  have t: "tl_partial t = unfinished c" "unat (tl_offset t) = length c" using assms(1) by (simp_all add: tracks_def)
  have "\<not> (of_nat (length (c @ a @ b)) :: u64) < tl_offset t"
    unfolding word_less_nat_alt unat_of_length [OF assms(5)] t(2) by simp
  with assms(2-4) t(1) show ?thesis
    by (simp add: poll_def follow_replacement_def read_appended_def Let_def consume_lines_spec)
qed

theorem failed_read_loses_bytes_witness:
  "\<exists>t1 t2 w.
    poll Some \<lparr>ti_fs = \<lambda>_. w, ti_fail = \<lambda>call. if call = ReadFile then Some ''EIO'' else None, ti_part = length ''ab''\<rparr>
      (tail_new\<lparr>tl_file := Some (7, 0)\<rparr>) = (Inl (LogIo ''EIO''), t1) \<and>
    poll Some \<lparr>ti_fs = \<lambda>_. w, ti_fail = \<lambda>_. None, ti_part = 0\<rparr> t1 =
      (Inr \<lparr>ap_records = [''c''], ap_restarted = False\<rparr>, t2)"
proof -
  let ?w = "\<lparr>fs_path = Some 7, fs_data = \<lambda>_. [] @ ''ab'' @ [CHR ''c'', newline]\<rparr>"
  have one: "records_of Some (unfinished [] @ [CHR ''c'', newline]) = [''c'']"
    by (simp add: records_of_def log_lines_def unfinished_def newline_def is_ascii_whitespace_def byte_def map_filter_simps)
  have "tracks Some (tail_new\<lparr>tl_file := Some (7, 0)\<rparr>) [] []" by (simp add: tracks_def tail_new_def)
  from failed_read_loses_bytes [OF this, of 7 ?w "''ab''" "[CHR ''c'', newline]" "''EIO''"]
  obtain t1 t2 where
    "poll Some \<lparr>ti_fs = \<lambda>_. ?w, ti_fail = \<lambda>call. if call = ReadFile then Some ''EIO'' else None,
       ti_part = length ''ab''\<rparr> (tail_new\<lparr>tl_file := Some (7, 0)\<rparr>) = (Inl (LogIo ''EIO''), t1)"
    "poll Some \<lparr>ti_fs = \<lambda>_. ?w, ti_fail = \<lambda>_. None, ti_part = 0\<rparr> t1 =
       (Inr \<lparr>ap_records = [''c''], ap_restarted = False\<rparr>, t2)"
    unfolding one by auto
  then show ?thesis by blast
qed

end
