(* ===== verification/Log_Report.thy ===== *)
theory Log_Report
  imports Log_Tail Logging
begin

text \<open>
  The report over the audit log (\<open>src/src/logs.rs\<close>): the records as the reader decodes them,
  the totals per key, user, endpoint and backend, the latency distributions, the text filter
  and the lines of the summary. Counters of machine integers saturate where the code says so
  and wrap where it uses plain arithmetic.
\<close>

subsection \<open>Records\<close>

record LogRecord =
  lr_request_id :: string
  lr_started_at :: string
  lr_started_at_unix_ms :: u64
  lr_finished_at_unix_ms :: u64
  lr_duration_ms :: u64
  lr_time_to_first_byte_ms :: "u64 option"
  lr_client_ip :: string
  lr_client_port :: "16 word"
  lr_host :: "string option"
  lr_user_agent :: "string option"
  lr_method :: string
  lr_uri :: string
  lr_http_version :: string
  lr_request_content_length :: "u64 option"
  lr_authorized :: bool
  lr_auth_error :: "string option"
  lr_key_name :: "string option"
  lr_key_identifier :: "string option"
  lr_key_sha256 :: "string option"
  lr_key_admin :: "bool option"
  lr_openwebui_user_name :: "string option"
  lr_openwebui_user_id :: "string option"
  lr_openwebui_chat_id :: "string option"
  lr_backend_id :: "string option"
  lr_routing_policy :: "string option"
  lr_routing_reason :: "string option"
  lr_eligible_backend_count :: "nat option"
  lr_backend_pressure :: "f64 option"
  lr_backend_running :: "u64 option"
  lr_backend_waiting :: "u64 option"
  lr_backend_capacity :: "u64 option"
  lr_backend_kv_pressure :: "f64 option"
  lr_backend_metrics_age_ms :: "u64 option"
  lr_backend_proxy_active :: "nat option"
  lr_proxy_queue_ms :: "u64 option"
  lr_status :: "nat option"
  lr_streaming :: bool
  lr_response_bytes :: u64
  lr_input_tokens :: "u64 option"
  lr_output_tokens :: "u64 option"
  lr_total_tokens :: "u64 option"
  lr_cached_tokens :: "u64 option"
  lr_complete :: bool
  lr_termination :: string
  lr_error :: "string option"

definition openwebui_user :: "LogRecord \<Rightarrow> string option" where
  "openwebui_user r = or_else (lr_openwebui_user_name r) (lr_openwebui_user_id r)"

text \<open>\<open>None\<close>: the slice of the digest is not at a character boundary.\<close>

definition record_principal :: "LogRecord \<Rightarrow> string option" where
  "record_principal r =
     do {
       key \<leftarrow> (case (lr_key_name r, lr_key_identifier r, lr_key_sha256 r) of
           (Some name, Some identifier, _) \<Rightarrow> Some (name @ ''['' @ identifier @ '']'')
         | (Some name, None, _) \<Rightarrow> Some name
         | (None, _, Some digest) \<Rightarrow>
             (let n = min 8 (length digest) in
              if is_char_boundary digest n then Some (''unknown['' @ take n digest @ '']'') else None)
         | (None, _, None) \<Rightarrow> Some ''anonymous'');
       Some (case openwebui_user r of Some user \<Rightarrow> key @ '':'' @ user | None \<Rightarrow> key)
     }"

definition UNATTRIBUTED :: string where
  "UNATTRIBUTED = ''(unattributed)''"

definition key_bucket :: "LogRecord \<Rightarrow> string" where
  "key_bucket r = (case lr_key_name r of Some name \<Rightarrow> name | None \<Rightarrow> ''(unauthenticated)'')"

definition principal_bucket :: "string list \<Rightarrow> LogRecord \<Rightarrow> string" where
  "principal_bucket openwebui_keys r =
     (let key = key_bucket r in
      case openwebui_user r of
        Some user \<Rightarrow> key @ '':'' @ user
      | None \<Rightarrow> if List.member openwebui_keys key then key @ '':'' @ UNATTRIBUTED else key)"

definition record_path :: "LogRecord \<Rightarrow> string" where
  "record_path r =
     (case position (\<lambda>c. c = CHR ''?'') (lr_uri r) of
        Some i \<Rightarrow> take i (lr_uri r)
      | None \<Rightarrow> lr_uri r)"

definition is_error :: "LogRecord \<Rightarrow> bool" where
  "is_error r \<longleftrightarrow> \<not> lr_complete r \<or> (case lr_status r of None \<Rightarrow> True | Some code \<Rightarrow> code \<ge> 400)"

fun contains :: "string \<Rightarrow> string \<Rightarrow> bool" where
  "contains [] needle = (needle = [])"
| "contains (c # cs) needle = (take (length needle) (c # cs) = needle \<or> contains cs needle)"

definition or_empty :: "string option \<Rightarrow> string" where
  "or_empty x = (case x of Some s \<Rightarrow> s | None \<Rightarrow> [])"

definition search_fields :: "LogRecord \<Rightarrow> string list" where
  "search_fields r =
     [lr_request_id r, lr_method r, lr_uri r, lr_client_ip r, lr_termination r,
      or_empty (lr_key_name r), or_empty (lr_key_identifier r),
      or_empty (lr_openwebui_user_name r), or_empty (lr_openwebui_user_id r),
      or_empty (lr_auth_error r), or_empty (lr_backend_id r), or_empty (lr_routing_reason r),
      lr_started_at r]"

definition matches :: "string \<Rightarrow> LogRecord \<Rightarrow> bool" where
  "matches needle r \<longleftrightarrow>
     list_ex (\<lambda>field. contains (map to_ascii_lowercase field) needle) (search_fields r) \<or>
     (case lr_status r of None \<Rightarrow> False | Some code \<Rightarrow> contains (show_nat code) needle)"

definition filter_records :: "LogRecord list \<Rightarrow> string \<Rightarrow> bool \<Rightarrow> LogRecord list" where
  "filter_records records needle errors_only =
     (let needle' = map to_ascii_lowercase (trim needle) in
      filter (\<lambda>r. needle' = [] \<or> matches needle' r)
        (filter (\<lambda>r. \<not> errors_only \<or> is_error r) records))"

subsection \<open>Totals\<close>

record KeyTotals =
  kt_requests :: nat
  kt_errors :: nat
  kt_input_tokens :: u64
  kt_output_tokens :: u64
  kt_cached_tokens :: u64
  kt_prefilled_tokens :: u64
  kt_last_seen_unix_ms :: u64
  kt_openwebui_users :: nat

record PathTotals =
  pt_requests :: nat
  pt_errors :: nat
  pt_input_tokens :: u64
  pt_output_tokens :: u64
  pt_cached_tokens :: u64
  pt_prefilled_tokens :: u64

record Distribution =
  ds_samples :: nat
  ds_p50 :: u64
  ds_p95 :: u64
  ds_max :: u64

record BackendTotals =
  bt_requests :: nat
  bt_errors :: nat
  bt_input_tokens :: u64
  bt_output_tokens :: u64
  bt_cached_tokens :: u64
  bt_prefilled_tokens :: u64
  bt_queue_ms :: Distribution
  bt_first_byte_ms :: Distribution
  bt_latency_ms :: Distribution

record BackendAccumulator =
  ba_requests :: nat
  ba_errors :: nat
  ba_input_tokens :: u64
  ba_output_tokens :: u64
  ba_cached_tokens :: u64
  ba_prefilled_tokens :: u64
  ba_queues :: "u64 list"
  ba_first_bytes :: "u64 list"
  ba_latencies :: "u64 list"

definition key_totals_default :: KeyTotals where
  "key_totals_default = \<lparr>kt_requests = 0, kt_errors = 0, kt_input_tokens = 0, kt_output_tokens = 0,
     kt_cached_tokens = 0, kt_prefilled_tokens = 0, kt_last_seen_unix_ms = 0, kt_openwebui_users = 0\<rparr>"

definition path_totals_default :: PathTotals where
  "path_totals_default = \<lparr>pt_requests = 0, pt_errors = 0, pt_input_tokens = 0, pt_output_tokens = 0,
     pt_cached_tokens = 0, pt_prefilled_tokens = 0\<rparr>"

definition accumulator_default :: BackendAccumulator where
  "accumulator_default = \<lparr>ba_requests = 0, ba_errors = 0, ba_input_tokens = 0, ba_output_tokens = 0,
     ba_cached_tokens = 0, ba_prefilled_tokens = 0, ba_queues = [], ba_first_bytes = [], ba_latencies = []\<rparr>"

text \<open>Nearest-rank percentile over an ascending list.\<close>

definition percentile :: "u64 list \<Rightarrow> nat \<Rightarrow> u64" where
  "percentile sorted_values percent =
     (if sorted_values = [] then 0
      else
        (let rank = max ((length sorted_values * percent + 99) div 100) 1 in
         sorted_values ! (min rank (length sorted_values) - 1)))"

definition from_values :: "u64 list \<Rightarrow> Distribution" where
  "from_values samples =
     (let samples' = sort samples in
      \<lparr>ds_samples = length samples', ds_p50 = percentile samples' 50, ds_p95 = percentile samples' 95,
       ds_max = (if samples' = [] then 0 else last samples')\<rparr>)"

definition accumulator_finish :: "BackendAccumulator \<Rightarrow> BackendTotals" where
  "accumulator_finish a =
     \<lparr>bt_requests = ba_requests a, bt_errors = ba_errors a, bt_input_tokens = ba_input_tokens a,
      bt_output_tokens = ba_output_tokens a, bt_cached_tokens = ba_cached_tokens a,
      bt_prefilled_tokens = ba_prefilled_tokens a, bt_queue_ms = from_values (ba_queues a),
      bt_first_byte_ms = from_values (ba_first_bytes a), bt_latency_ms = from_values (ba_latencies a)\<rparr>"

definition tokens_or_0 :: "u64 option \<Rightarrow> u64" where
  "tokens_or_0 x = (case x of Some n \<Rightarrow> n | None \<Rightarrow> 0)"

definition record_prefilled :: "LogRecord \<Rightarrow> u64" where
  "record_prefilled r = saturating_sub (tokens_or_0 (lr_input_tokens r)) (tokens_or_0 (lr_cached_tokens r))"

definition add_prefilled :: "LogRecord \<Rightarrow> u64 \<Rightarrow> u64" where
  "add_prefilled r n = (if lr_input_tokens r \<noteq> None then saturating_add n (record_prefilled r) else n)"

definition error_count :: "LogRecord \<Rightarrow> nat" where
  "error_count r = (if is_error r then 1 else 0)"

definition add_request :: "LogRecord \<Rightarrow> KeyTotals \<Rightarrow> KeyTotals" where
  "add_request r t =
     t\<lparr>kt_requests := kt_requests t + 1,
       kt_errors := kt_errors t + error_count r,
       kt_input_tokens := saturating_add (kt_input_tokens t) (tokens_or_0 (lr_input_tokens r)),
       kt_output_tokens := saturating_add (kt_output_tokens t) (tokens_or_0 (lr_output_tokens r)),
       kt_cached_tokens := saturating_add (kt_cached_tokens t) (tokens_or_0 (lr_cached_tokens r)),
       kt_prefilled_tokens := add_prefilled r (kt_prefilled_tokens t),
       kt_last_seen_unix_ms := max (kt_last_seen_unix_ms t) (lr_started_at_unix_ms r)\<rparr>"

definition add_path :: "LogRecord \<Rightarrow> PathTotals \<Rightarrow> PathTotals" where
  "add_path r t =
     t\<lparr>pt_requests := pt_requests t + 1,
       pt_errors := pt_errors t + error_count r,
       pt_input_tokens := saturating_add (pt_input_tokens t) (tokens_or_0 (lr_input_tokens r)),
       pt_output_tokens := saturating_add (pt_output_tokens t) (tokens_or_0 (lr_output_tokens r)),
       pt_cached_tokens := saturating_add (pt_cached_tokens t) (tokens_or_0 (lr_cached_tokens r)),
       pt_prefilled_tokens := add_prefilled r (pt_prefilled_tokens t)\<rparr>"

definition add_backend :: "LogRecord \<Rightarrow> BackendAccumulator \<Rightarrow> BackendAccumulator" where
  "add_backend r t =
     t\<lparr>ba_requests := ba_requests t + 1,
       ba_errors := ba_errors t + error_count r,
       ba_input_tokens := saturating_add (ba_input_tokens t) (tokens_or_0 (lr_input_tokens r)),
       ba_output_tokens := saturating_add (ba_output_tokens t) (tokens_or_0 (lr_output_tokens r)),
       ba_cached_tokens := saturating_add (ba_cached_tokens t) (tokens_or_0 (lr_cached_tokens r)),
       ba_prefilled_tokens := add_prefilled r (ba_prefilled_tokens t),
       ba_latencies := ba_latencies t @ [lr_duration_ms r],
       ba_queues := ba_queues t @ (case lr_proxy_queue_ms r of Some ms \<Rightarrow> [ms] | None \<Rightarrow> []),
       ba_first_bytes := ba_first_bytes t @ (case lr_time_to_first_byte_ms r of Some ms \<Rightarrow> [ms] | None \<Rightarrow> [])\<rparr>"

text \<open>\<open>entry(k).or_default()\<close>, then an update in place.\<close>

definition entry_update :: "'k \<Rightarrow> 'v \<Rightarrow> ('v \<Rightarrow> 'v) \<Rightarrow> ('k, 'v) hashmap \<Rightarrow> ('k, 'v) hashmap" where
  "entry_update k d f m = hset k (f (case hget m k of Some v \<Rightarrow> v | None \<Rightarrow> d)) m"

definition row_le :: "('v \<Rightarrow> nat) \<Rightarrow> string \<times> 'v \<Rightarrow> string \<times> 'v \<Rightarrow> bool" where
  "row_le requests left right \<longleftrightarrow>
     requests (snd right) < requests (snd left) \<or>
     (requests (snd right) = requests (snd left) \<and> fst left \<le> fst right)"

definition sorted_by_requests :: "('v \<Rightarrow> nat) \<Rightarrow> (string, 'v) hashmap \<Rightarrow> (string \<times> 'v) list" where
  "sorted_by_requests requests m = sort_by (row_le requests) m"

subsection \<open>The summary\<close>

record Summary =
  sm_requests :: nat
  sm_authorized :: nat
  sm_rejected :: nat
  sm_incomplete :: nat
  sm_streaming :: nat
  sm_non_streaming :: nat
  sm_informational :: nat
  sm_successful :: nat
  sm_redirected :: nat
  sm_client_errors :: nat
  sm_server_errors :: nat
  sm_no_status :: nat
  sm_input_tokens :: u64
  sm_output_tokens :: u64
  sm_cached_tokens :: u64
  sm_prefilled_tokens :: u64
  sm_response_bytes :: u64
  sm_first_at :: "string option"
  sm_last_at :: "string option"
  sm_input_tokens_seen :: Distribution
  sm_output_tokens_seen :: Distribution
  sm_cache_hit_pct_seen :: Distribution
  sm_first_token_ms :: Distribution
  sm_per_output_token_us :: Distribution
  sm_latency_ms :: Distribution
  sm_by_key :: "(string \<times> KeyTotals) list"
  sm_by_principal :: "(string \<times> KeyTotals) list"
  sm_openwebui_keys :: "string list"
  sm_by_path :: "(string \<times> PathTotals) list"
  sm_by_backend :: "(string \<times> BackendTotals) list"

definition summary_default :: Summary where
  "summary_default =
     (let none = from_values [] in
      \<lparr>sm_requests = 0, sm_authorized = 0, sm_rejected = 0, sm_incomplete = 0, sm_streaming = 0,
       sm_non_streaming = 0, sm_informational = 0, sm_successful = 0, sm_redirected = 0,
       sm_client_errors = 0, sm_server_errors = 0, sm_no_status = 0, sm_input_tokens = 0,
       sm_output_tokens = 0, sm_cached_tokens = 0, sm_prefilled_tokens = 0, sm_response_bytes = 0,
       sm_first_at = None, sm_last_at = None, sm_input_tokens_seen = none,
       sm_output_tokens_seen = none, sm_cache_hit_pct_seen = none, sm_first_token_ms = none,
       sm_per_output_token_us = none, sm_latency_ms = none, sm_by_key = [], sm_by_principal = [],
       sm_openwebui_keys = [], sm_by_path = [], sm_by_backend = []\<rparr>)"

definition cache_hit_pct :: "Summary \<Rightarrow> f64 option" where
  "cache_hit_pct s =
     (if sm_cached_tokens s > 0 \<and> sm_input_tokens s > 0
      then Some (f64_div (f64_mul (Finite 100) (u64_as_f64 (sm_cached_tokens s))) (u64_as_f64 (sm_input_tokens s)))
      else None)"

text \<open>The local variables of \<open>summarize\<close> during its loop.\<close>

record summary_loop =
  lp_summary :: Summary
  lp_keys :: "(string, KeyTotals) hashmap"
  lp_principals :: "(string, KeyTotals) hashmap"
  lp_key_users :: "(string, string list) hashmap"
  lp_paths :: "(string, PathTotals) hashmap"
  lp_backends :: "(string, BackendAccumulator) hashmap"
  lp_latencies :: "u64 list"
  lp_inputs :: "u64 list"
  lp_outputs :: "u64 list"
  lp_first_tokens :: "u64 list"
  lp_per_token :: "u64 list"
  lp_cache_hit_pct :: "u64 list"

text \<open>Which of the counters of statuses a record belongs to.\<close>

definition count_status :: "nat option \<Rightarrow> Summary \<Rightarrow> Summary" where
  "count_status code s =
     (case code of
        None \<Rightarrow> s\<lparr>sm_no_status := sm_no_status s + 1\<rparr>
      | Some c \<Rightarrow>
          (if c div 100 = 1 then s\<lparr>sm_informational := sm_informational s + 1\<rparr>
           else if c div 100 = 2 then s\<lparr>sm_successful := sm_successful s + 1\<rparr>
           else if c div 100 = 3 then s\<lparr>sm_redirected := sm_redirected s + 1\<rparr>
           else if c div 100 = 4 then s\<lparr>sm_client_errors := sm_client_errors s + 1\<rparr>
           else s\<lparr>sm_server_errors := sm_server_errors s + 1\<rparr>))"

definition count_record :: "LogRecord \<Rightarrow> Summary \<Rightarrow> Summary" where
  "count_record r s =
     (let s1 = (if lr_authorized r then s\<lparr>sm_authorized := sm_authorized s + 1\<rparr>
                else s\<lparr>sm_rejected := sm_rejected s + 1\<rparr>);
          s2 = (if \<not> lr_complete r then s1\<lparr>sm_incomplete := sm_incomplete s1 + 1\<rparr> else s1);
          s3 = (if lr_streaming r then s2\<lparr>sm_streaming := sm_streaming s2 + 1\<rparr>
                else if (case lr_status r of Some code \<Rightarrow> code < 400 | None \<Rightarrow> False)
                then s2\<lparr>sm_non_streaming := sm_non_streaming s2 + 1\<rparr> else s2);
          s4 = count_status (lr_status r) s3 in
      s4\<lparr>sm_input_tokens := saturating_add (sm_input_tokens s4) (tokens_or_0 (lr_input_tokens r)),
         sm_output_tokens := saturating_add (sm_output_tokens s4) (tokens_or_0 (lr_output_tokens r)),
         sm_cached_tokens := saturating_add (sm_cached_tokens s4) (tokens_or_0 (lr_cached_tokens r)),
         sm_prefilled_tokens := add_prefilled r (sm_prefilled_tokens s4),
         sm_response_bytes := saturating_add (sm_response_bytes s4) (lr_response_bytes r)\<rparr>)"

definition saturating_mul :: "u64 \<Rightarrow> u64 \<Rightarrow> u64" where
  "saturating_mul a b = (if unat a * unat b < 2 ^ 64 then a * b else - 1)"

text \<open>The samples one record adds to each distribution.\<close>

definition cache_hit_sample :: "LogRecord \<Rightarrow> u64 list" where
  "cache_hit_sample r =
     (case lr_input_tokens r of
        Some input \<Rightarrow> if input > 0 then [100 * tokens_or_0 (lr_cached_tokens r) div input] else []
      | None \<Rightarrow> [])"

definition first_token_sample :: "LogRecord \<Rightarrow> u64 list" where
  "first_token_sample r =
     (case lr_time_to_first_byte_ms r of Some ms \<Rightarrow> if lr_streaming r then [ms] else [] | None \<Rightarrow> [])"

definition per_token_sample :: "LogRecord \<Rightarrow> u64 list" where
  "per_token_sample r =
     (case lr_output_tokens r of
        Some tokens \<Rightarrow> if tokens > 0 then [saturating_mul (lr_duration_ms r) 1000 div tokens] else []
      | None \<Rightarrow> [])"

definition opt_sample :: "u64 option \<Rightarrow> u64 list" where
  "opt_sample x = (case x of Some n \<Rightarrow> [n] | None \<Rightarrow> [])"

definition add_user :: "LogRecord \<Rightarrow> (string, string list) hashmap \<Rightarrow> (string, string list) hashmap" where
  "add_user r m =
     (case openwebui_user r of
        Some user \<Rightarrow> entry_update (key_bucket r) [] (List.insert user) m
      | None \<Rightarrow> m)"

definition summarize_record :: "string list \<Rightarrow> LogRecord \<Rightarrow> summary_loop \<Rightarrow> summary_loop" where
  "summarize_record openwebui_keys r l =
     \<lparr>lp_summary = count_record r (lp_summary l),
      lp_keys = entry_update (key_bucket r) key_totals_default (add_request r) (lp_keys l),
      lp_principals = entry_update (principal_bucket openwebui_keys r) key_totals_default (add_request r)
        (lp_principals l),
      lp_key_users = add_user r (lp_key_users l),
      lp_paths = entry_update (record_path r) path_totals_default (add_path r) (lp_paths l),
      lp_backends = (case lr_backend_id r of
          Some backend \<Rightarrow> entry_update backend accumulator_default (add_backend r) (lp_backends l)
        | None \<Rightarrow> lp_backends l),
      lp_latencies = lp_latencies l @ [lr_duration_ms r],
      lp_inputs = lp_inputs l @ opt_sample (lr_input_tokens r),
      lp_outputs = lp_outputs l @ opt_sample (lr_output_tokens r),
      lp_first_tokens = lp_first_tokens l @ first_token_sample r,
      lp_per_token = lp_per_token l @ per_token_sample r,
      lp_cache_hit_pct = lp_cache_hit_pct l @ cache_hit_sample r\<rparr>"

text \<open>\<open>min_by_key\<close> returns the first of several minima, \<open>max_by_key\<close> the last of several maxima.\<close>

fun min_by_key :: "('a \<Rightarrow> u64) \<Rightarrow> 'a list \<Rightarrow> 'a option" where
  "min_by_key f [] = None"
| "min_by_key f (x # xs) =
     (case min_by_key f xs of None \<Rightarrow> Some x | Some y \<Rightarrow> if f y < f x then Some y else Some x)"

fun max_by_key :: "('a \<Rightarrow> u64) \<Rightarrow> 'a list \<Rightarrow> 'a option" where
  "max_by_key f [] = None"
| "max_by_key f (x # xs) =
     (case max_by_key f xs of None \<Rightarrow> Some x | Some y \<Rightarrow> if f x \<le> f y then Some y else Some x)"

definition openwebui_keys_of :: "LogRecord list \<Rightarrow> string list" where
  "openwebui_keys_of records = remdups (map key_bucket (filter (\<lambda>r. openwebui_user r \<noteq> None) records))"

definition count_users :: "(string, string list) hashmap \<Rightarrow> (string, KeyTotals) hashmap \<Rightarrow> (string, KeyTotals) hashmap" where
  "count_users key_users keys =
     map (\<lambda>(k, t). (k, case hget key_users k of
         Some users \<Rightarrow> t\<lparr>kt_openwebui_users := length users\<rparr>
       | None \<Rightarrow> t)) keys"

definition summarize :: "LogRecord list \<Rightarrow> Summary" where
  "summarize records =
     (let openwebui_keys = openwebui_keys_of records;
          l = fold (summarize_record openwebui_keys) records
            \<lparr>lp_summary = summary_default\<lparr>sm_requests := length records, sm_openwebui_keys := openwebui_keys\<rparr>,
             lp_keys = [], lp_principals = [], lp_key_users = [], lp_paths = [], lp_backends = [],
             lp_latencies = [], lp_inputs = [], lp_outputs = [], lp_first_tokens = [],
             lp_per_token = [], lp_cache_hit_pct = []\<rparr> in
      (lp_summary l)
        \<lparr>sm_first_at := map_option lr_started_at (min_by_key lr_started_at_unix_ms records),
         sm_last_at := map_option lr_started_at (max_by_key lr_started_at_unix_ms records),
         sm_latency_ms := from_values (lp_latencies l),
         sm_input_tokens_seen := from_values (lp_inputs l),
         sm_output_tokens_seen := from_values (lp_outputs l),
         sm_cache_hit_pct_seen := from_values (lp_cache_hit_pct l),
         sm_first_token_ms := from_values (lp_first_tokens l),
         sm_per_output_token_us := from_values (lp_per_token l),
         sm_by_key := sorted_by_requests kt_requests (count_users (lp_key_users l) (lp_keys l)),
         sm_by_principal := sorted_by_requests kt_requests (lp_principals l),
         sm_by_path := sorted_by_requests pt_requests (lp_paths l),
         sm_by_backend := sort_by (row_le bt_requests)
           (map (\<lambda>(backend, a). (backend, accumulator_finish a)) (lp_backends l))\<rparr>)"

subsection \<open>Text\<close>

text \<open>The characters of a string of UTF-8 bytes are its bytes that continue no other.\<close>

definition chars_count :: "string \<Rightarrow> nat" where
  "chars_count s = length (filter (\<lambda>c. \<not> continuation (byte c)) s)"

fun take_chars :: "nat \<Rightarrow> string \<Rightarrow> string" where
  "take_chars n [] = []"
| "take_chars n (c # cs) =
     (if continuation (byte c) then c # take_chars n cs
      else case n of 0 \<Rightarrow> [] | Suc m \<Rightarrow> c # take_chars m cs)"

definition ELLIPSIS :: string where
  "ELLIPSIS = [CHR 0xE2, CHR 0x80, CHR 0xA6]"

definition truncate_text :: "string \<Rightarrow> nat \<Rightarrow> string" where
  "truncate_text s width = (if chars_count s \<le> width then s else take_chars (width - 1) s @ ELLIPSIS)"

text \<open>\<open>{:>n}\<close> and \<open>{:<n}\<close>.\<close>

definition pad_left :: "nat \<Rightarrow> string \<Rightarrow> string" where
  "pad_left width s = replicate (width - chars_count s) CHR '' '' @ s"

definition pad_right :: "nat \<Rightarrow> string \<Rightarrow> string" where
  "pad_right width s = s @ replicate (width - chars_count s) CHR '' ''"

text \<open>\<open>{:.p}\<close> of a float rounds its exact value to \<open>p\<close> decimal places, ties to even.\<close>

definition format_fixed :: "nat \<Rightarrow> f64 \<Rightarrow> string" where
  "format_fixed p v =
     (case v of
        NaN \<Rightarrow> ''NaN''
      | Infinity neg \<Rightarrow> if neg then ''-inf'' else ''inf''
      | Finite x \<Rightarrow>
          (let n = nat \<bar>round_half_even (x * 10 ^ p)\<bar> in
           (if x < 0 then ''-'' else []) @ show_nat (n div 10 ^ p) @
           (if p = 0 then [] else ''.'' @ padded p (n mod 10 ^ p))))"

fun group_digits :: "string \<Rightarrow> string" where
  "group_digits [] = []"
| "group_digits (d # ds) = d # (if ds \<noteq> [] \<and> length ds mod 3 = 0 then '','' @ group_digits ds else group_digits ds)"

definition thousands :: "u64 \<Rightarrow> string" where
  "thousands n = group_digits (show_nat (unat n))"

definition MICRO :: string where
  "MICRO = [CHR 0xC2, CHR 0xB5]"

definition show_rate :: "u64 \<Rightarrow> string" where
  "show_rate micros =
     (if micros < 1000 then show_nat (unat micros) @ MICRO @ ''s''
      else if micros < 1000000 then format_fixed 1 (f64_div (u64_as_f64 micros) (Finite 1000)) @ ''ms''
      else format_fixed 1 (f64_div (u64_as_f64 micros) (Finite 1000000)) @ ''s'')"

definition show_duration :: "u64 \<Rightarrow> string" where
  "show_duration ms =
     (if ms < 1000 then show_nat (unat ms) @ ''ms''
      else if ms < 60000 then format_fixed 1 (f64_div (u64_as_f64 ms) (Finite 1000)) @ ''s''
      else show_nat (unat (ms div 60000)) @ ''m'' @ padded 2 (unat (ms mod 60000 div 1000)) @ ''s'')"

definition distribution_p95 :: "Distribution \<Rightarrow> string" where
  "distribution_p95 d = (if ds_samples d = 0 then ''-'' else show_duration (ds_p95 d))"

record PercentileRow =
  pr_p50 :: string
  pr_p95 :: string
  pr_max :: string
  pr_samples :: string

definition formatted :: "Distribution \<Rightarrow> (u64 \<Rightarrow> string) \<Rightarrow> PercentileRow" where
  "formatted d render =
     (if ds_samples d = 0 then \<lparr>pr_p50 = ''-'', pr_p95 = ''-'', pr_max = ''-'', pr_samples = ''0''\<rparr>
      else \<lparr>pr_p50 = render (ds_p50 d), pr_p95 = render (ds_p95 d), pr_max = render (ds_max d),
            pr_samples = thousands (of_nat (ds_samples d))\<rparr>)"

definition percentile_rows :: "Summary \<Rightarrow> (string \<times> PercentileRow) list" where
  "percentile_rows s =
     [(''input tokens'', formatted (sm_input_tokens_seen s) thousands),
      (''output tokens'', formatted (sm_output_tokens_seen s) thousands),
      (''first token'', formatted (sm_first_token_ms s) show_duration),
      (''per output token'', formatted (sm_per_output_token_us s) show_rate),
      (''total latency'', formatted (sm_latency_ms s) show_duration)] @
     (if sm_cached_tokens s > 0
      then [(''cache hit %'', formatted (sm_cache_hit_pct_seen s) (\<lambda>pct. show_nat (unat pct) @ ''%''))]
      else [])"

definition count_text :: "nat \<Rightarrow> string" where
  "count_text n = thousands (of_nat n)"

definition percentile_line :: "string \<times> PercentileRow \<Rightarrow> string" where
  "percentile_line = (\<lambda>(name, row). ''  '' @ pad_right 20 name @ pad_left 12 (pr_p50 row) @
     pad_left 12 (pr_p95 row) @ pad_left 12 (pr_max row) @ pad_left 10 (pr_samples row))"

definition principal_line :: "string \<times> KeyTotals \<Rightarrow> string" where
  "principal_line = (\<lambda>(name, t). ''  '' @ pad_right 24 (truncate_text name 23) @
     pad_left 10 (count_text (kt_requests t)) @ pad_left 12 (thousands (kt_input_tokens t)) @
     pad_left 12 (thousands (kt_cached_tokens t)) @ pad_left 12 (thousands (kt_prefilled_tokens t)) @
     pad_left 12 (thousands (kt_output_tokens t)) @ pad_left 7 (show_nat (kt_errors t)))"

definition path_line :: "string \<times> PathTotals \<Rightarrow> string" where
  "path_line = (\<lambda>(name, t). ''  '' @ pad_right 34 (truncate_text name 33) @
     pad_left 10 (count_text (pt_requests t)) @ pad_left 12 (thousands (pt_input_tokens t)) @
     pad_left 12 (thousands (pt_cached_tokens t)) @ pad_left 12 (thousands (pt_prefilled_tokens t)) @
     pad_left 12 (thousands (pt_output_tokens t)))"

definition request_share :: "nat \<Rightarrow> nat \<Rightarrow> f64" where
  "request_share routed requests =
     (if routed = 0 then Finite 0
      else f64_div (f64_mul (u64_as_f64 (of_nat requests)) (Finite 100)) (u64_as_f64 (of_nat routed)))"

definition backend_line :: "nat \<Rightarrow> string \<times> BackendTotals \<Rightarrow> string" where
  "backend_line routed = (\<lambda>(name, t). ''  '' @ pad_right 18 (truncate_text name 17) @
     pad_left 10 (count_text (bt_requests t)) @
     pad_left 7 (format_fixed 1 (request_share routed (bt_requests t))) @ ''%'' @
     pad_left 12 (thousands (bt_input_tokens t)) @ pad_left 12 (thousands (bt_cached_tokens t)) @
     pad_left 12 (thousands (bt_prefilled_tokens t)) @ pad_left 12 (thousands (bt_output_tokens t)) @
     pad_left 9 (show_nat (bt_errors t)))"

definition overview_lines :: "Summary \<Rightarrow> string list" where
  "overview_lines s =
     [[],
      ''  requests   '' @ pad_left 10 (count_text (sm_requests s)) @ ''   authorized '' @
        show_nat (sm_authorized s) @ ''   rejected '' @ show_nat (sm_rejected s) @ ''   incomplete '' @
        show_nat (sm_incomplete s),
      ''  statuses   2xx '' @ show_nat (sm_successful s) @ ''   3xx '' @ show_nat (sm_redirected s) @
        ''   4xx '' @ show_nat (sm_client_errors s) @ ''   5xx '' @ show_nat (sm_server_errors s) @
        ''   none '' @ show_nat (sm_no_status s),
      ''  tokens     '' @ pad_left 10 (thousands (sm_input_tokens s)) @ '' in   '' @
        thousands (sm_output_tokens s) @ '' out   '' @
        thousands (sm_input_tokens s + sm_output_tokens s) @ '' total'',
      ''  cache      '' @ pad_left 10 (thousands (sm_cached_tokens s)) @ '' cached   '' @
        (case cache_hit_pct s of None \<Rightarrow> ''-'' | Some pct \<Rightarrow> format_fixed 1 pct @ ''%'') @ '' of input   '' @
        thousands (sm_prefilled_tokens s) @ '' prefilled'',
      ''  shape      '' @ pad_left 10 (count_text (sm_streaming s)) @ '' streaming   '' @
        count_text (sm_non_streaming s) @ '' non-streaming'']"

definition summary_lines :: "string \<Rightarrow> Summary \<Rightarrow> u64 \<Rightarrow> string list" where
  "summary_lines path s malformed =
     (let head = path #
            (case (sm_first_at s, sm_last_at s) of
               (Some earliest, Some latest) \<Rightarrow>
                 count_text (sm_requests s) @ '' requests from '' @ earliest @ '' to '' @ latest
             | _ \<Rightarrow> ''no requests recorded'') #
            (if malformed > 0 then [show_nat (unat malformed) @ '' unreadable line(s) skipped''] else []) in
      if sm_requests s = 0 then head
      else head @ overview_lines s @
        [[], ''  '' @ pad_right 20 [] @ pad_left 12 ''P50'' @ pad_left 12 ''P95'' @ pad_left 12 ''MAX'' @
          pad_left 10 ''SAMPLES''] @
        map percentile_line (percentile_rows s) @
        [[], ''  '' @ pad_right 24 ''PRINCIPAL'' @ pad_left 10 ''REQUESTS'' @ pad_left 12 ''IN'' @
          pad_left 12 ''CACHED'' @ pad_left 12 ''PREFILLED'' @ pad_left 12 ''OUT'' @ pad_left 7 ''ERRORS''] @
        map principal_line (sm_by_principal s) @
        [[], ''  '' @ pad_right 34 ''ENDPOINT'' @ pad_left 10 ''REQUESTS'' @ pad_left 12 ''IN'' @
          pad_left 12 ''CACHED'' @ pad_left 12 ''PREFILLED'' @ pad_left 12 ''OUT''] @
        map path_line (sm_by_path s) @
        (if sm_by_backend s = [] then []
         else
           [[], ''  '' @ pad_right 18 ''BACKEND'' @ pad_left 10 ''REQUESTS'' @ pad_left 8 ''SHARE'' @
             pad_left 12 ''IN'' @ pad_left 12 ''CACHED'' @ pad_left 12 ''PREFILLED'' @ pad_left 12 ''OUT'' @
             pad_left 9 ''ERRORS''] @
           map (backend_line (sum_list (map (bt_requests \<circ> snd) (sm_by_backend s)))) (sm_by_backend s)))"

subsection \<open>Output and the command\<close>

datatype pipe_error = BrokenPipe | PipeOther string

definition pipe_ok :: "pipe_error \<Rightarrow> pipe_error + unit" where
  "pipe_ok e = (if e = BrokenPipe then Inr () else Inl e)"

text \<open>\<open>out n\<close> is the failure of the n-th write; the flush follows the last line.\<close>

fun write_lines_from :: "(nat \<Rightarrow> pipe_error option) \<Rightarrow> nat \<Rightarrow> string list \<Rightarrow> (pipe_error + unit) \<times> string list" where
  "write_lines_from out n [] = (case out n of Some e \<Rightarrow> pipe_ok e | None \<Rightarrow> Inr (), [])"
| "write_lines_from out n (line # rest) =
     (case out n of
        Some e \<Rightarrow> (pipe_ok e, [])
      | None \<Rightarrow> (let (result, written) = write_lines_from out (Suc n) rest in (result, line # written)))"

definition write_lines :: "(nat \<Rightarrow> pipe_error option) \<Rightarrow> string list \<Rightarrow> (pipe_error + unit) \<times> string list" where
  "write_lines out = write_lines_from out 0"

datatype logs_error = LogsStdout | LogsMissing string | LogsUnreadable log_io_error | LogsPipe pipe_error

datatype logs_outcome = LogsPrinted "string list" | LogsExplore Tail "LogRecord list"

definition logs_run ::
  "(string \<Rightarrow> LogRecord option) \<Rightarrow> tail_io \<Rightarrow> bool \<Rightarrow> (nat \<Rightarrow> pipe_error option) \<Rightarrow> string \<Rightarrow> bool
    \<Rightarrow> logs_error + logs_outcome" where
  "logs_run from_slice io exists out path summary_only =
     (if path = ''-'' then Inl LogsStdout
      else if \<not> exists then Inl (LogsMissing path)
      else
        (case poll from_slice io tail_new of
           (Inl e, _) \<Rightarrow> Inl (LogsUnreadable e)
         | (Inr ap, tail) \<Rightarrow>
             if summary_only
             then (case write_lines out (summary_lines path (summarize (ap_records ap)) (tl_malformed tail)) of
                 (Inl e, _) \<Rightarrow> Inl (LogsPipe e)
               | (Inr _, written) \<Rightarrow> Inr (LogsPrinted written))
             else Inr (LogsExplore tail (ap_records ap))))"

subsection \<open>Tables\<close>

text \<open>A table groups the records by a bucket and folds each group.\<close>

definition group_by :: "('r \<Rightarrow> 'k) \<Rightarrow> 'v \<Rightarrow> ('r \<Rightarrow> 'v \<Rightarrow> 'v) \<Rightarrow> 'r list \<Rightarrow> ('k, 'v) hashmap" where
  "group_by bucket d upd rs = fold (\<lambda>r. entry_update (bucket r) d (upd r)) rs []"

definition in_bucket :: "('r \<Rightarrow> 'k) \<Rightarrow> 'k \<Rightarrow> 'r list \<Rightarrow> 'r list" where
  "in_bucket bucket k rs = filter (\<lambda>r. bucket r = k) rs"

lemma group_by_snoc: "group_by bucket d upd (rs @ [r]) = entry_update (bucket r) d (upd r) (group_by bucket d upd rs)"
  by (simp add: group_by_def)

lemma group_by_get:
  "hget (group_by bucket d upd rs) k = (if k \<in> bucket ` set rs then Some (fold upd (in_bucket bucket k rs) d) else None)"
proof (induction rs rule: rev_induct)
  case (snoc r rs)
  have "in_bucket bucket k rs = []" if "k \<notin> bucket ` set rs" using that by (auto simp: in_bucket_def filter_empty_conv)
  with snoc show ?case by (auto simp: group_by_snoc entry_update_def in_bucket_def)
qed (simp add: group_by_def)

lemma group_by_distinct: "distinct (keys_of (group_by bucket d upd rs))"
proof (induction rs rule: rev_induct)
  case (snoc r rs)
  then show ?case by (simp add: group_by_snoc entry_update_def)
qed (simp add: group_by_def)

lemma group_by_rows:
  "(k, t) \<in> set (group_by bucket d upd rs) \<longleftrightarrow> k \<in> bucket ` set rs \<and> t = fold upd (in_bucket bucket k rs) d"
  using hget_Some_iff [OF group_by_distinct, of bucket d upd rs k t] by (auto simp: group_by_get split: if_splits)

lemma group_by_keys: "set (keys_of (group_by bucket d upd rs)) = bucket ` set rs"
proof -
  have "k \<in> fst ` set (group_by bucket d upd rs) \<longleftrightarrow> k \<in> bucket ` set rs" for k
    using hget_None_iff [of "group_by bucket d upd rs" k] by (simp add: group_by_get split: if_splits)
  then show ?thesis by auto
qed

lemma sum_buckets:
  "finite K \<Longrightarrow> bucket ` set rs \<subseteq> K \<Longrightarrow> (\<Sum>k\<in>K. length (in_bucket bucket k rs)) = length rs"
proof (induction rs)
  case (Cons r rs)
  have "length (in_bucket bucket k (r # rs)) = (if bucket r = k then 1 else 0) + length (in_bucket bucket k rs)" for k
    by (simp add: in_bucket_def)
  with Cons show ?case by (simp add: sum.distrib)
qed (simp add: in_bucket_def)

text \<open>Rows are ordered by the number of requests, and by name among equals.\<close>

interpretation rows: sort_order "row_le requests" for requests
  by unfold_locales (auto simp: row_le_def)

lemma mset_sort_by: "mset (sort_by le xs) = mset xs"
proof -
  have "mset (insert_by le x ys) = add_mset x (mset ys)" for x ys by (induction ys) auto
  then show ?thesis unfolding sort_by_def by (induction xs) auto
qed

definition table_ok :: "('v \<Rightarrow> nat) \<Rightarrow> (string \<times> 'v) list \<Rightarrow> bool" where
  "table_ok requests rows \<longleftrightarrow> distinct (map fst rows) \<and> sorted_wrt (row_le requests) rows"

lemma sort_by_table: "distinct (keys_of m) \<Longrightarrow> table_ok requests (sort_by (row_le requests) m)"
  using mset_eq_imp_distinct_iff [of "map fst (sort_by (row_le requests) m)" "map fst m"]
  by (simp add: table_ok_def rows.sorted_sort_by mset_sort_by)

text \<open>The fields of the loop are folds of their own.\<close>

lemma fold_field: "(\<And>r a. f (g r a) = h r (f a)) \<Longrightarrow> f (fold g rs a) = fold h rs (f a)"
  by (induction rs arbitrary: a) simp_all

lemma fold_append: "fold (\<lambda>r a. a @ f r) rs a = a @ concat (map f rs)"
  by (induction rs arbitrary: a) simp_all

lemma fold_some:
  "fold (\<lambda>r m. case f r of Some b \<Rightarrow> g r b m | None \<Rightarrow> m) rs a = fold (\<lambda>r. g r (the (f r))) (filter (\<lambda>r. f r \<noteq> None) rs) a"
  by (induction rs arbitrary: a) auto

abbreviation routed :: "LogRecord list \<Rightarrow> LogRecord list" where
  "routed rs \<equiv> filter (\<lambda>r. lr_backend_id r \<noteq> None) rs"

lemma summarize_tables:
  "sm_by_key (summarize rs) = sort_by (row_le kt_requests)
     (count_users (fold add_user rs []) (group_by key_bucket key_totals_default add_request rs))"
  "sm_by_principal (summarize rs) = sort_by (row_le kt_requests)
     (group_by (principal_bucket (openwebui_keys_of rs)) key_totals_default add_request rs)"
  "sm_by_path (summarize rs) = sort_by (row_le pt_requests) (group_by record_path path_totals_default add_path rs)"
  "sm_by_backend (summarize rs) = sort_by (row_le bt_requests)
     (map (\<lambda>(b, a). (b, accumulator_finish a))
       (group_by (the \<circ> lr_backend_id) accumulator_default add_backend (routed rs)))"
  by (simp_all add: summarize_def Let_def sorted_by_requests_def group_by_def comp_def
      fold_field [where f = lp_keys and h = "\<lambda>r. entry_update (key_bucket r) key_totals_default (add_request r)"]
      fold_field [where f = lp_key_users and h = add_user]
      fold_field [where f = lp_principals and
        h = "\<lambda>r. entry_update (principal_bucket (openwebui_keys_of rs) r) key_totals_default (add_request r)"]
      fold_field [where f = lp_paths and h = "\<lambda>r. entry_update (record_path r) path_totals_default (add_path r)"]
      fold_field [where f = lp_backends and h = "\<lambda>r m. case lr_backend_id r of
        Some b \<Rightarrow> entry_update b accumulator_default (add_backend r) m | None \<Rightarrow> m"]
      fold_some summarize_record_def)

text \<open>What the tables share: every record counts once in the row of its bucket.\<close>

locale request_table =
  fixes requests :: "'v \<Rightarrow> nat" and d :: 'v and upd :: "'r \<Rightarrow> 'v \<Rightarrow> 'v"
  assumes requests_default: "requests d = 0"
    and requests_step: "requests (upd r v) = Suc (requests v)"
begin

lemma requests_fold: "requests (fold upd rs v) = length rs + requests v"
  by (induction rs arbitrary: v) (simp_all add: requests_step)

lemma row_requests: "requests (fold upd rs d) = length rs"
  by (simp add: requests_fold requests_default)

lemma group_total: "sum_list (map (requests \<circ> snd) (group_by bucket d upd rs)) = length rs"
proof -
  let ?m = "group_by bucket d upd rs"
  have "sum_list (map (requests \<circ> snd) ?m) = sum_list (map (\<lambda>k. length (in_bucket bucket k rs)) (keys_of ?m))"
    by (rule arg_cong [where f = sum_list]) (auto simp: group_by_rows row_requests)
  also have "\<dots> = (\<Sum>k \<in> bucket ` set rs. length (in_bucket bucket k rs))"
    unfolding sum_list_distinct_conv_sum_set [OF group_by_distinct] group_by_keys ..
  also have "\<dots> = length rs" by (rule sum_buckets) auto
  finally show ?thesis .
qed

lemma rows_total:
  "sum_list (map (requests \<circ> snd) (sort_by (row_le requests) (group_by bucket d upd rs))) = length rs"
proof -
  have "mset (map (requests \<circ> snd) (sort_by (row_le requests) (group_by bucket d upd rs))) =
      mset (map (requests \<circ> snd) (group_by bucket d upd rs))" by (simp add: mset_sort_by)
  from arg_cong [OF this, of sum_mset] show ?thesis using group_total by (simp only: sum_mset_sum_list)
qed

end

interpretation key_table: request_table kt_requests key_totals_default add_request
  by unfold_locales (simp_all add: key_totals_default_def add_request_def)

interpretation path_table: request_table pt_requests path_totals_default add_path
  by unfold_locales (simp_all add: path_totals_default_def add_path_def)

interpretation backend_table: request_table ba_requests accumulator_default add_backend
  by unfold_locales (simp_all add: accumulator_default_def add_backend_def)

definition users_of :: "LogRecord list \<Rightarrow> string \<Rightarrow> string set" where
  "users_of rs k = {u. \<exists>r \<in> set rs. key_bucket r = k \<and> openwebui_user r = Some u}"

lemma key_users:
  "case hget (fold add_user rs []) k of Some us \<Rightarrow> distinct us \<and> set us = users_of rs k | None \<Rightarrow> users_of rs k = {}"
proof (induction rs rule: rev_induct)
  case (snoc r rs)
  then show ?case
    by (cases "openwebui_user r")
      (auto simp: add_user_def entry_update_def users_of_def split: option.splits)
qed (simp add: users_of_def)

text \<open>The row of a key: its records, and the number of Open WebUI users they name.\<close>

definition key_row :: "LogRecord list \<Rightarrow> string \<Rightarrow> KeyTotals" where
  "key_row rs k = (fold add_request (in_bucket key_bucket k rs) key_totals_default)
     \<lparr>kt_openwebui_users := card (users_of rs k)\<rparr>"

lemma fold_add_request_users: "kt_openwebui_users (fold add_request rs t) = kt_openwebui_users t"
  by (induction rs arbitrary: t) (simp_all add: add_request_def)

lemma count_users_row:
  "(case hget (fold add_user rs []) k of Some us \<Rightarrow> t\<lparr>kt_openwebui_users := length us\<rparr> | None \<Rightarrow> t) =
     t\<lparr>kt_openwebui_users := card (users_of rs k)\<rparr>" if "kt_openwebui_users t = 0" for t :: KeyTotals
proof (cases "hget (fold add_user rs []) k")
  case (Some us)
  then have "card (users_of rs k) = length us" using key_users [of rs k] distinct_card [of us] by simp
  with Some show ?thesis by simp
qed (use key_users [of rs k] that in simp)

lemma key_rows:
  "count_users (fold add_user rs []) (group_by key_bucket key_totals_default add_request rs) =
     map (\<lambda>(k, t). (k, t\<lparr>kt_openwebui_users := card (users_of rs k)\<rparr>))
       (group_by key_bucket key_totals_default add_request rs)"
  unfolding count_users_def
  by (rule map_cong) (auto simp: count_users_row group_by_rows fold_add_request_users key_totals_default_def)

text \<open>Rows mapped in place keep the order of a table and its sum.\<close>

lemma sum_sort_by: "sum_list (map f (sort_by le m)) = sum_list (map f m)" for f :: "'a \<Rightarrow> nat"
proof -
  have "mset (map f (sort_by le m)) = mset (map f m)" by (simp add: mset_sort_by)
  from arg_cong [OF this, of sum_mset] show ?thesis by (simp only: sum_mset_sum_list)
qed

lemma mapped_table:
  fixes f :: "string \<Rightarrow> 'v \<Rightarrow> 'w"
  assumes "distinct (keys_of m)" and "\<And>k v. requests' (f k v) = requests v"
  defines "rows \<equiv> sort_by (row_le requests') (map (\<lambda>(k, v). (k, f k v)) m)"
  shows "table_ok requests' rows" and "sum_list (map (requests' \<circ> snd) rows) = sum_list (map (requests \<circ> snd) m)"
    and "(k, t) \<in> set rows \<longleftrightarrow> (\<exists>v. (k, v) \<in> set m \<and> t = f k v)"
proof -
  show "table_ok requests' rows" unfolding rows_def by (rule sort_by_table) (use assms(1) in \<open>simp only: keys_map_values\<close>)
  have "map (requests' \<circ> snd) (map (\<lambda>(k, v). (k, f k v)) m) = map (requests \<circ> snd) m"
    using assms(2) by (simp add: case_prod_beta)
  then show "sum_list (map (requests' \<circ> snd) rows) = sum_list (map (requests \<circ> snd) m)"
    by (simp only: rows_def sum_sort_by)
  show "(k, t) \<in> set rows \<longleftrightarrow> (\<exists>v. (k, v) \<in> set m \<and> t = f k v)"
    unfolding rows_def rows.set_sort_by by force
qed

lemma by_key_exact:
  "table_ok kt_requests (sm_by_key (summarize rs))"
  "(k, t) \<in> set (sm_by_key (summarize rs)) \<longleftrightarrow> k \<in> key_bucket ` set rs \<and> t = key_row rs k"
  "sum_list (map (kt_requests \<circ> snd) (sm_by_key (summarize rs))) = length rs"
  unfolding summarize_tables key_rows
  by (auto simp: mapped_table [OF group_by_distinct, where requests = kt_requests] key_table.group_total
      group_by_rows key_row_def)

lemma by_principal_exact:
  "table_ok kt_requests (sm_by_principal (summarize rs))"
  "(k, t) \<in> set (sm_by_principal (summarize rs)) \<longleftrightarrow>
     k \<in> principal_bucket (openwebui_keys_of rs) ` set rs \<and>
     t = fold add_request (in_bucket (principal_bucket (openwebui_keys_of rs)) k rs) key_totals_default"
  "sum_list (map (kt_requests \<circ> snd) (sm_by_principal (summarize rs))) = length rs"
  unfolding summarize_tables
  by (simp_all add: sort_by_table group_by_distinct rows.set_sort_by group_by_rows sum_sort_by key_table.group_total)

lemma by_path_exact:
  "table_ok pt_requests (sm_by_path (summarize rs))"
  "(k, t) \<in> set (sm_by_path (summarize rs)) \<longleftrightarrow>
     k \<in> record_path ` set rs \<and> t = fold add_path (in_bucket record_path k rs) path_totals_default"
  "sum_list (map (pt_requests \<circ> snd) (sm_by_path (summarize rs))) = length rs"
  unfolding summarize_tables
  by (simp_all add: sort_by_table group_by_distinct rows.set_sort_by group_by_rows sum_sort_by path_table.group_total)

lemma routed_bucket: "in_bucket (the \<circ> lr_backend_id) k (routed rs) = in_bucket lr_backend_id (Some k) rs"
  by (induction rs) (auto simp: in_bucket_def)

lemma routed_names: "k \<in> (the \<circ> lr_backend_id) ` set (routed rs) \<longleftrightarrow> (\<exists>r \<in> set rs. lr_backend_id r = Some k)"
  by force

lemma by_backend_exact:
  "table_ok bt_requests (sm_by_backend (summarize rs))"
  "(k, t) \<in> set (sm_by_backend (summarize rs)) \<longleftrightarrow> (\<exists>r \<in> set rs. lr_backend_id r = Some k) \<and>
     t = accumulator_finish (fold add_backend (in_bucket lr_backend_id (Some k) rs) accumulator_default)"
  "sum_list (map (bt_requests \<circ> snd) (sm_by_backend (summarize rs))) = length (routed rs)"
proof -
  have req: "bt_requests (accumulator_finish a) = ba_requests a" for a by (simp add: accumulator_finish_def)
  note table = mapped_table [where f = "\<lambda>_. accumulator_finish" and requests' = bt_requests, OF group_by_distinct req,
      folded summarize_tables]
  show "table_ok bt_requests (sm_by_backend (summarize rs))"
    "(k, t) \<in> set (sm_by_backend (summarize rs)) \<longleftrightarrow> (\<exists>r \<in> set rs. lr_backend_id r = Some k) \<and>
       t = accumulator_finish (fold add_backend (in_bucket lr_backend_id (Some k) rs) accumulator_default)"
    "sum_list (map (bt_requests \<circ> snd) (sm_by_backend (summarize rs))) = length (routed rs)"
    unfolding summarize_tables table(2,3) group_by_rows routed_bucket routed_names backend_table.group_total
    by (rule table(1), blast, rule refl)
qed

text \<open>
  C31. The tables of the report partition the records. Each table has one row per bucket that
  occurs, in the order of falling request counts and then of names; a row holds the totals of
  exactly the records of its bucket (for a key with the number of Open WebUI users it
  forwarded), and the request counts of a table add up to the number of records (for the
  backends, of the routed ones).
\<close>

theorem summary_tables_exact:
  "table_ok kt_requests (sm_by_key (summarize rs)) \<and>
   (\<forall>k t. (k, t) \<in> set (sm_by_key (summarize rs)) \<longleftrightarrow> k \<in> key_bucket ` set rs \<and> t = key_row rs k) \<and>
   sum_list (map (kt_requests \<circ> snd) (sm_by_key (summarize rs))) = length rs \<and>
   table_ok kt_requests (sm_by_principal (summarize rs)) \<and>
   (\<forall>k t. (k, t) \<in> set (sm_by_principal (summarize rs)) \<longleftrightarrow>
      k \<in> principal_bucket (openwebui_keys_of rs) ` set rs \<and>
      t = fold add_request (in_bucket (principal_bucket (openwebui_keys_of rs)) k rs) key_totals_default) \<and>
   sum_list (map (kt_requests \<circ> snd) (sm_by_principal (summarize rs))) = length rs \<and>
   table_ok pt_requests (sm_by_path (summarize rs)) \<and>
   (\<forall>k t. (k, t) \<in> set (sm_by_path (summarize rs)) \<longleftrightarrow>
      k \<in> record_path ` set rs \<and> t = fold add_path (in_bucket record_path k rs) path_totals_default) \<and>
   sum_list (map (pt_requests \<circ> snd) (sm_by_path (summarize rs))) = length rs \<and>
   table_ok bt_requests (sm_by_backend (summarize rs)) \<and>
   (\<forall>k t. (k, t) \<in> set (sm_by_backend (summarize rs)) \<longleftrightarrow>
      (\<exists>r \<in> set rs. lr_backend_id r = Some k) \<and>
      t = accumulator_finish (fold add_backend (in_bucket lr_backend_id (Some k) rs) accumulator_default)) \<and>
   sum_list (map (bt_requests \<circ> snd) (sm_by_backend (summarize rs))) = length (routed rs)"
  by (intro conjI allI by_key_exact by_principal_exact by_path_exact by_backend_exact)

subsection \<open>Sums and ranks\<close>

lemma fold_keep: "fold (\<lambda>r a. a) rs a = a"
  by (induction rs) simp_all

lemma fold_count: "fold (\<lambda>r n. Suc n) rs a = a + length rs"
  by (induction rs arbitrary: a) simp_all

text \<open>A saturating sum is the sum or the greatest number.\<close>

definition sat_total :: "('r \<Rightarrow> u64) \<Rightarrow> 'r list \<Rightarrow> nat" where
  "sat_total f rs = min (\<Sum>r\<leftarrow>rs. unat (f r)) (2 ^ 64 - 1)"

lemma fold_saturating:
  "unat (fold (\<lambda>r n. saturating_add n (f r)) rs a) = min (unat a + (\<Sum>r\<leftarrow>rs. unat (f r))) (2 ^ 64 - 1)"
  if "unat a \<le> 2 ^ 64 - 1" for a :: u64
  using that
proof (induction rs arbitrary: a)
  case (Cons r rs)
  have "unat (saturating_add a (f r)) = min (unat a + unat (f r)) (2 ^ 64 - 1)"
    by (simp add: unat_saturating_add)
  with Cons.IH [of "saturating_add a (f r)"] show ?case by simp
qed simp

lemma fold_saturating_0: "unat (fold (\<lambda>r n. saturating_add n (f r)) rs (0 :: u64)) = sat_total f rs"
  using fold_saturating [of 0 f rs] by (simp add: sat_total_def)

text \<open>The input tokens a record had to compute: none when it reports no input.\<close>

lemma add_prefilled_sat: "add_prefilled r n = saturating_add n (record_prefilled r)"
proof (cases "lr_input_tokens r")
  case None
  have "unat n < 2 ^ 64" using unsigned_less [of n] by simp
  with None show ?thesis
    by (simp add: add_prefilled_def record_prefilled_def tokens_or_0_def saturating_sub_def saturating_add_def)
qed (simp add: add_prefilled_def)

lemma unat_prefilled:
  "unat (record_prefilled r) = unat (tokens_or_0 (lr_input_tokens r)) - unat (tokens_or_0 (lr_cached_tokens r))"
  by (simp add: record_prefilled_def unat_saturating_sub)

lemma summary_counters:
  "sm_input_tokens (summarize rs) = fold (\<lambda>r n. saturating_add n (tokens_or_0 (lr_input_tokens r))) rs 0"
  "sm_output_tokens (summarize rs) = fold (\<lambda>r n. saturating_add n (tokens_or_0 (lr_output_tokens r))) rs 0"
  "sm_cached_tokens (summarize rs) = fold (\<lambda>r n. saturating_add n (tokens_or_0 (lr_cached_tokens r))) rs 0"
  "sm_prefilled_tokens (summarize rs) = fold (\<lambda>r n. saturating_add n (record_prefilled r)) rs 0"
  "sm_response_bytes (summarize rs) = fold (\<lambda>r n. saturating_add n (lr_response_bytes r)) rs 0"
  "sm_requests (summarize rs) = length rs"
  by (simp_all add: summarize_def Let_def summarize_record_def summary_default_def
      fold_field [where f = lp_summary and h = count_record]
      fold_field [where f = sm_input_tokens and h = "\<lambda>r n. saturating_add n (tokens_or_0 (lr_input_tokens r))"]
      fold_field [where f = sm_output_tokens and h = "\<lambda>r n. saturating_add n (tokens_or_0 (lr_output_tokens r))"]
      fold_field [where f = sm_cached_tokens and h = "\<lambda>r n. saturating_add n (tokens_or_0 (lr_cached_tokens r))"]
      fold_field [where f = sm_prefilled_tokens and h = "\<lambda>r n. saturating_add n (record_prefilled r)"]
      fold_field [where f = sm_response_bytes and h = "\<lambda>r n. saturating_add n (lr_response_bytes r)"]
      fold_field [where f = sm_requests and h = "\<lambda>r n. n"]
      fold_keep add_prefilled_sat count_record_def count_status_def split: option.splits)

definition status_counts :: "Summary \<Rightarrow> nat" where
  "status_counts s = sm_informational s + sm_successful s + sm_redirected s + sm_client_errors s +
     sm_server_errors s + sm_no_status s"

lemma summary_classes:
  "sm_authorized (summarize rs) + sm_rejected (summarize rs) = length rs"
  "status_counts (summarize rs) = length rs"
proof -
  let ?auth = "\<lambda>s. sm_authorized s + sm_rejected s"
  have auth: "?auth (count_record r s) = Suc (?auth s)"
    and codes: "status_counts (count_record r s) = Suc (status_counts s)" for r s
    by (cases "lr_status r"; simp add: count_record_def count_status_def status_counts_def Let_def)+
  show "?auth (summarize rs) = length rs"
    using fold_field [where f = ?auth and g = count_record and h = "\<lambda>r n. Suc n", OF auth]
    by (simp add: summarize_def Let_def summarize_record_def summary_default_def
        fold_field [where f = lp_summary and h = count_record] fold_count)
  show "status_counts (summarize rs) = length rs"
    using fold_field [where f = status_counts and g = count_record and h = "\<lambda>r n. Suc n", OF codes, of rs]
    by (simp add: summarize_def Let_def summarize_record_def summary_default_def status_counts_def
        fold_field [where f = lp_summary and h = count_record] fold_count)
qed

lemma key_totals_sums:
  "unat (kt_input_tokens (fold add_request rs key_totals_default)) = sat_total (tokens_or_0 \<circ> lr_input_tokens) rs"
  "unat (kt_output_tokens (fold add_request rs key_totals_default)) = sat_total (tokens_or_0 \<circ> lr_output_tokens) rs"
  "kt_errors (fold add_request rs key_totals_default) = length (filter is_error rs)"
proof -
  have errors: "fold (\<lambda>r n. n + error_count r) rs a = a + length (filter is_error rs)" for a
    by (induction rs arbitrary: a) (simp_all add: error_count_def)
  show "unat (kt_input_tokens (fold add_request rs key_totals_default)) = sat_total (tokens_or_0 \<circ> lr_input_tokens) rs"
    "unat (kt_output_tokens (fold add_request rs key_totals_default)) = sat_total (tokens_or_0 \<circ> lr_output_tokens) rs"
    "kt_errors (fold add_request rs key_totals_default) = length (filter is_error rs)"
    by (simp_all add: add_request_def key_totals_default_def comp_def errors fold_saturating_0
        fold_field [where f = kt_input_tokens and h = "\<lambda>r n. saturating_add n (tokens_or_0 (lr_input_tokens r))"]
        fold_field [where f = kt_output_tokens and h = "\<lambda>r n. saturating_add n (tokens_or_0 (lr_output_tokens r))"]
        fold_field [where f = kt_errors and h = "\<lambda>r n. n + error_count r"])
qed

text \<open>
  The totals of the report are sums over the records: every record is counted once as
  authorized or rejected and once in one class of statuses, the token and byte totals are
  the sums or, past them, the greatest 64-bit number, the prefilled tokens are the input that
  was not cached, and the row of a key has the sums and the errors of its records.
\<close>

theorem summary_totals_exact:
  "sm_requests (summarize rs) = length rs \<and>
   sm_authorized (summarize rs) + sm_rejected (summarize rs) = length rs \<and>
   status_counts (summarize rs) = length rs \<and>
   unat (sm_input_tokens (summarize rs)) = sat_total (tokens_or_0 \<circ> lr_input_tokens) rs \<and>
   unat (sm_output_tokens (summarize rs)) = sat_total (tokens_or_0 \<circ> lr_output_tokens) rs \<and>
   unat (sm_cached_tokens (summarize rs)) = sat_total (tokens_or_0 \<circ> lr_cached_tokens) rs \<and>
   unat (sm_response_bytes (summarize rs)) = sat_total lr_response_bytes rs \<and>
   unat (sm_prefilled_tokens (summarize rs)) =
     min (\<Sum>r\<leftarrow>rs. unat (tokens_or_0 (lr_input_tokens r)) - unat (tokens_or_0 (lr_cached_tokens r))) (2 ^ 64 - 1) \<and>
   unat (kt_input_tokens (key_row rs k)) = sat_total (tokens_or_0 \<circ> lr_input_tokens) (in_bucket key_bucket k rs) \<and>
   kt_errors (key_row rs k) = length (filter is_error (in_bucket key_bucket k rs))"
proof -
  have "unat (sm_prefilled_tokens (summarize rs)) =
     min (\<Sum>r\<leftarrow>rs. unat (tokens_or_0 (lr_input_tokens r)) - unat (tokens_or_0 (lr_cached_tokens r))) (2 ^ 64 - 1)"
    unfolding summary_counters fold_saturating_0 by (simp add: sat_total_def unat_prefilled)
  then show ?thesis
    by (simp add: summary_classes summary_counters fold_saturating_0 comp_def key_row_def key_totals_sums)
qed

text \<open>
  The nearest-rank percentile \<open>v\<close>: at least \<open>p\<close> percent of the samples are at most \<open>v\<close>, and
  fewer than \<open>p\<close> percent are below it.
\<close>

definition nearest_rank :: "nat \<Rightarrow> u64 list \<Rightarrow> u64 \<Rightarrow> bool" where
  "nearest_rank p samples v \<longleftrightarrow> v \<in> set samples \<and>
     p * length samples \<le> 100 * length (filter (\<lambda>x. x \<le> v) samples) \<and>
     100 * length (filter (\<lambda>x. x < v) samples) < p * length samples"

lemma sorted_counts:
  assumes "sorted xs" and "i < length xs"
  shows "Suc i \<le> length (filter (\<lambda>x. x \<le> xs ! i) xs)" and "length (filter (\<lambda>x. x < xs ! i) xs) \<le> i"
proof -
  have "filter (\<lambda>x. x \<le> xs ! i) (take (Suc i) xs) = take (Suc i) xs"
    using assms by (auto simp: filter_id_conv in_set_conv_nth sorted_nth_mono)
  then have "length (filter (\<lambda>x. x \<le> xs ! i) (take (Suc i) xs)) = Suc i" using assms(2) by simp
  moreover have "filter (\<lambda>x. x \<le> xs ! i) xs =
      filter (\<lambda>x. x \<le> xs ! i) (take (Suc i) xs) @ filter (\<lambda>x. x \<le> xs ! i) (drop (Suc i) xs)"
    by (metis append_take_drop_id filter_append)
  ultimately show "Suc i \<le> length (filter (\<lambda>x. x \<le> xs ! i) xs)" by simp
  have "filter (\<lambda>x. x < xs ! i) (drop i xs) = []"
    using assms by (auto simp: filter_empty_conv in_set_conv_nth not_less sorted_nth_mono)
  moreover have "filter (\<lambda>x. x < xs ! i) xs = filter (\<lambda>x. x < xs ! i) (take i xs) @ filter (\<lambda>x. x < xs ! i) (drop i xs)"
    by (metis append_take_drop_id filter_append)
  ultimately show "length (filter (\<lambda>x. x < xs ! i) xs) \<le> i"
    using length_filter_le [of "\<lambda>x. x < xs ! i" "take i xs"] by simp
qed

lemma filter_length_mono: "(\<And>x. P x \<Longrightarrow> Q x) \<Longrightarrow> length (filter P xs) \<le> length (filter Q xs)"
  by (induction xs) auto

lemma sorted_last_Max: "sorted xs \<Longrightarrow> xs \<noteq> [] \<Longrightarrow> last xs = Max (set xs)"
proof (rule Max_eqI [symmetric])
  fix x assume "sorted xs" "xs \<noteq> []" "x \<in> set xs"
  then show "x \<le> last xs" by (auto simp: in_set_conv_nth last_conv_nth sorted_nth_mono)
qed simp_all

lemma percentile_nearest:
  assumes "samples \<noteq> []" and "0 < p" and "p \<le> 100"
  shows "nearest_rank p samples (percentile (sort samples) p)"
proof -
  let ?n = "length samples" and ?xs = "sort samples"
  define i where "i = (?n * p + 99) div 100 - 1"
  have n: "0 < ?n" using assms(1) by simp
  have np: "?n * p \<le> ?n * 100" "0 < ?n * p" using assms n by simp_all
  have i: "Suc i = (?n * p + 99) div 100" "i < length ?xs" using np n unfolding i_def length_sort by linarith+
  have "?xs \<noteq> []" using assms(1) by (metis length_sort length_0_conv)
  then have rank: "percentile ?xs p = ?xs ! i" using i by (simp add: percentile_def Let_def flip: i(1))
  have same: "length (filter P ?xs) = length (filter P samples)" for P by (simp add: filter_sort)
  have "p * ?n \<le> 100 * Suc i" "100 * i < p * ?n" using i(1) np by (simp_all add: mult.commute)
  moreover have "?xs ! i \<in> set samples" using i(2) nth_mem [of i ?xs] by simp
  ultimately show ?thesis
    using sorted_counts [OF sorted_sort i(2)] unfolding nearest_rank_def rank same
    by (meson le_less_trans le_trans mult_le_mono2)
qed

text \<open>
  The distributions of the report are nearest-rank percentiles of their samples: the
  reported p50 and p95 are samples with at least 50 and 95 percent of the samples at most as
  large and fewer strictly smaller, they are ordered, and the maximum is one.
\<close>

theorem distribution_nearest_rank:
  assumes "samples \<noteq> []"
  shows "ds_samples (from_values samples) = length samples \<and>
    nearest_rank 50 samples (ds_p50 (from_values samples)) \<and>
    nearest_rank 95 samples (ds_p95 (from_values samples)) \<and>
    ds_max (from_values samples) = Max (set samples) \<and>
    ds_p50 (from_values samples) \<le> ds_p95 (from_values samples) \<and>
    ds_p95 (from_values samples) \<le> ds_max (from_values samples)"
proof -
  let ?d = "from_values samples"
  have p: "nearest_rank 50 samples (ds_p50 ?d)" "nearest_rank 95 samples (ds_p95 ?d)"
    using percentile_nearest [OF assms, of 50] percentile_nearest [OF assms, of 95]
    by (simp_all add: from_values_def Let_def)
  have "sort samples \<noteq> []" using assms by (metis length_sort length_0_conv)
  then have max: "ds_max ?d = Max (set samples)"
    using sorted_last_Max [of "sort samples"] by (simp add: from_values_def Let_def)
  have "ds_p50 ?d \<le> ds_p95 ?d"
  proof (rule ccontr)
    assume "\<not> ds_p50 ?d \<le> ds_p95 ?d"
    then have "length (filter (\<lambda>x. x \<le> ds_p95 ?d) samples) \<le> length (filter (\<lambda>x. x < ds_p50 ?d) samples)"
      by (intro filter_length_mono) auto
    with p show False by (simp add: nearest_rank_def)
  qed
  moreover have "ds_p95 ?d \<le> Max (set samples)" using p(2) by (simp add: nearest_rank_def)
  ultimately show ?thesis using p max by (simp add: from_values_def Let_def)
qed

theorem distribution_nearest_rank_witness:
  "nearest_rank 95 [3, 1, 2] (ds_p95 (from_values [3, 1, 2])) \<and> ds_max (from_values [3, 1, 2]) = 3"
  using distribution_nearest_rank [of "[3, 1, 2]"] by simp

subsection \<open>Grouped digits\<close>

lemma show_nat_digits: "c \<in> set (show_nat n) \<Longrightarrow> is_ascii_digit c"
proof (induction n rule: show_nat.induct)
  case (1 n)
  have "is_ascii_digit (char_of (48 + d))" if "d < 10" for d :: nat
    using that by (simp add: is_ascii_digit_def byte_def)
  with 1 show ?case by (subst (asm) show_nat.simps) (auto split: if_splits)
qed

lemma digits_value_show: "digits_value (show_nat n) = n"
proof (induction n rule: show_nat.induct)
  case (1 n)
  show ?case
  proof (cases "n < 10")
    case True
    then show ?thesis by (subst show_nat.simps) (simp add: digits_value_def byte_def)
  next
    case False
    with 1 show ?thesis by (subst show_nat.simps) (simp add: digits_value_def byte_def)
  qed
qed

lemma group_digits_length: "length (group_digits ds) = length ds + (length ds - 1) div 3"
proof (induction ds)
  case (Cons d ds)
  show ?case
  proof (cases "ds \<noteq> [] \<and> length ds mod 3 = 0")
    case True
    then obtain k where "length ds = 3 * Suc k" by (cases "length ds div 3") auto
    with True Cons show ?thesis by simp
  next
    case False
    then have "(length ds - 1) div 3 = length ds div 3" by (cases "ds = []") (simp, presburger)
    with False Cons show ?thesis by auto
  qed
qed simp

lemma no_comma: "l mod 3 \<noteq> 0 \<Longrightarrow> Suc (l + (l - 1) div 3) mod 4 \<noteq> 0" for l :: nat
proof -
  assume l: "l mod 3 \<noteq> 0"
  define q r where "q = l div 3" and "r = l mod 3"
  have "l = 3 * q + r" "r = 1 \<or> r = 2" using l by (auto simp: q_def r_def)
  then have "Suc (l + (l - 1) div 3) = 4 * q + (r + 1)" "(r + 1) mod 4 \<noteq> 0" by auto
  then show ?thesis by (simp only: mod_mult_self4) simp
qed

lemma group_digits_commas:
  assumes "\<forall>d \<in> set ds. d \<noteq> CHR '',''" and "i < length (group_digits ds)"
  shows "group_digits ds ! i = CHR '','' \<longleftrightarrow> (length (group_digits ds) - i) mod 4 = 0"
  using assms
proof (induction ds arbitrary: i)
  case (Cons d ds)
  let ?l = "length ds" and ?g = "length (group_digits ds)"
  have g: "?g = ?l + (?l - 1) div 3" by (rule group_digits_length)
  show ?case
  proof (cases "ds \<noteq> [] \<and> ?l mod 3 = 0")
    case True
    then obtain k where k: "?l = 3 * Suc k" by (cases "?l div 3") auto
    then have "?g = 4 * k + 3" using g by simp
    with True have eq: "group_digits (d # ds) = d # CHR '','' # group_digits ds" by simp
    consider "i = 0" | "i = 1" | j where "i = Suc (Suc j)" by (metis One_nat_def not0_implies_Suc)
    then show ?thesis
    proof cases
      case 1
      have "(4 * k + 5) mod 4 \<noteq> 0" by presburger
      with 1 \<open>?g = 4 * k + 3\<close> Cons.prems(1) show ?thesis unfolding eq by (simp add: add.commute)
    next
      case 2
      with \<open>?g = 4 * k + 3\<close> show ?thesis unfolding eq by simp
    next
      case 3
      with Cons.prems Cons.IH [of j] show ?thesis unfolding eq by simp
    qed
  next
    case False
    then have "Suc ?g mod 4 \<noteq> 0" using g no_comma [of ?l] by (cases "ds = []") simp_all
    moreover from False have eq: "group_digits (d # ds) = d # group_digits ds" by auto
    ultimately show ?thesis using Cons.prems Cons.IH [of "i - 1"] unfolding eq by (cases i) simp_all
  qed
qed simp

lemma group_digits_filter: "\<forall>d \<in> set ds. d \<noteq> CHR '','' \<Longrightarrow> filter (\<lambda>c. c \<noteq> CHR '','') (group_digits ds) = ds"
  by (induction ds) auto

text \<open>
  A grouped number reads back: without its commas it is the decimal notation of the
  number, which denotes it, and its commas stand exactly before the groups of three digits
  counted from the right.
\<close>

theorem thousands_roundtrip:
  "filter (\<lambda>c. c \<noteq> CHR '','') (thousands n) = show_nat (unat n) \<and>
   digits_value (filter (\<lambda>c. c \<noteq> CHR '','') (thousands n)) = unat n \<and>
   list_all (\<lambda>i. thousands n ! i = CHR '','' \<longleftrightarrow> (length (thousands n) - i) mod 4 = 0) [0..<length (thousands n)]"
proof -
  have "\<forall>d \<in> set (show_nat (unat n)). d \<noteq> CHR '',''"
    using show_nat_digits [of "CHR '',''" "unat n"] by (auto simp: is_ascii_digit_def byte_def)
  then show ?thesis
    by (simp add: thousands_def group_digits_filter digits_value_show group_digits_commas list_all_iff)
qed

subsection \<open>Reading back what the proxy wrote\<close>

text \<open>The fields of a written record under the names the reader gives them.\<close>

definition read_back :: "RequestRecord \<Rightarrow> LogRecord" where
  "read_back w =
     \<lparr>lr_request_id = rr_request_id w, lr_started_at = rr_started_at w,
      lr_started_at_unix_ms = rr_started_at_unix_ms w, lr_finished_at_unix_ms = rr_finished_at_unix_ms w,
      lr_duration_ms = rr_duration_ms w, lr_time_to_first_byte_ms = rr_time_to_first_byte_ms w,
      lr_client_ip = rr_client_ip w, lr_client_port = rr_client_port w, lr_host = rr_host w,
      lr_user_agent = rr_user_agent w, lr_method = rr_method w, lr_uri = rr_uri w,
      lr_http_version = rr_http_version w, lr_request_content_length = rr_request_content_length w,
      lr_authorized = rr_authorized w, lr_auth_error = rr_auth_error w, lr_key_name = rr_key_name w,
      lr_key_identifier = rr_key_identifier w, lr_key_sha256 = rr_key_sha256 w, lr_key_admin = rr_key_admin w,
      lr_openwebui_user_name = fst (rr_openwebui_user w),
      lr_openwebui_user_id = fst (snd (rr_openwebui_user w)),
      lr_openwebui_chat_id = snd (snd (rr_openwebui_user w)),
      lr_backend_id = rf_backend_id (rr_routing w), lr_routing_policy = rf_routing_policy (rr_routing w),
      lr_routing_reason = rf_routing_reason (rr_routing w),
      lr_eligible_backend_count = rf_eligible_backend_count (rr_routing w),
      lr_backend_pressure = rf_pressure (rr_routing w), lr_backend_running = rf_running (rr_routing w),
      lr_backend_waiting = rf_waiting (rr_routing w), lr_backend_capacity = rf_capacity (rr_routing w),
      lr_backend_kv_pressure = rf_kv_pressure (rr_routing w),
      lr_backend_metrics_age_ms = rf_metrics_age_ms (rr_routing w),
      lr_backend_proxy_active = rf_proxy_active (rr_routing w), lr_proxy_queue_ms = rr_proxy_queue_ms w,
      lr_status = rr_status w, lr_streaming = rr_streaming w, lr_response_bytes = rr_response_bytes w,
      lr_input_tokens = input_tokens (rr_usage w), lr_output_tokens = output_tokens (rr_usage w),
      lr_total_tokens = total_tokens (rr_usage w), lr_cached_tokens = cached_tokens (rr_usage w),
      lr_complete = rr_complete w, lr_termination = rr_termination w, lr_error = rr_error w\<rparr>"

lemma attributed_identity:
  "ri_openwebui_user (with_openwebui_user headers trusted (request_info U peer parts a)) \<noteq> None \<Longrightarrow>
     ri_identity (with_openwebui_user headers trusted (request_info U peer parts a)) \<noteq> None"
  by (auto simp: with_openwebui_user_def request_info_def Let_def split: option.splits if_splits)

text \<open>
  Reader and writer attribute a request to the same principal: for every request the
  handler describes, the name the reader gives the written record is the one the proxy prints
  on its terminal, whether the key is known, unknown or missing and whether an Open WebUI
  user was forwarded.
\<close>

theorem reader_agrees_with_writer:
  "record_principal (read_back (record_of T i
     (entry\<lparr>pe_info := with_openwebui_user headers trusted (request_info U peer parts a)\<rparr>) finished outcome)) =
   principal (with_openwebui_user headers trusted (request_info U peer parts a))"
proof -
  define info where "info = with_openwebui_user headers trusted (request_info U peer parts a)"
  have "ri_openwebui_user info \<noteq> None \<Longrightarrow> ri_identity info \<noteq> None"
    unfolding info_def by (rule attributed_identity)
  then show ?thesis
    unfolding info_def [symmetric]
    by (cases "ri_identity info"; cases "ri_key_sha256 info"; cases "ri_openwebui_user info"; cases outcome)
      (auto simp: record_principal_def read_back_def record_of_def principal_def openwebui_user_def or_else_def Let_def
        split: option.splits)
qed

end
