(* ===== verification/Terminal.thy ===== *)
theory Terminal
  imports Rust_Strings
begin

text \<open>
  What the terminal interfaces share: the keys the operator presses, and the rendering of a
  table through a horizontal window (\<open>src/src/render.rs\<close>). The widget that draws the whole
  table is an argument: \<open>table w h\<close> is the table drawn at that width and height.
\<close>

type_synonym u16 = "16 word"

text \<open>A character is the string of its UTF-8 bytes.\<close>

datatype KeyCode =
    KeyUp | KeyDown | KeyLeft | KeyRight | KeyHome | KeyEnd | KeyPageUp | KeyPageDown
  | KeyTab | KeyEnter | KeyEsc | KeyBackspace | KeyDelete | KeyOther | KeyChar string

text \<open>An event: a key with whether it was a press and whether control was held, or another one.\<close>

datatype term_event = KeyEvent bool bool KeyCode | OtherEvent

definition SCROLL_STEP :: u16 where
  "SCROLL_STEP = 8"

record Rect =
  rc_x :: u16
  rc_y :: u16
  rc_width :: u16
  rc_height :: u16

type_synonym 'c buffer = "u16 \<times> u16 \<Rightarrow> 'c"

text \<open>The two loops; the inner one stops at the right edge of the table.\<close>

fun blit_row :: "'c buffer \<Rightarrow> Rect \<Rightarrow> u16 \<Rightarrow> u16 \<Rightarrow> u16 \<Rightarrow> nat list \<Rightarrow> 'c buffer \<Rightarrow> 'c buffer" where
  "blit_row offscreen area width scroll y [] buf = buf"
| "blit_row offscreen area width scroll y (x # xs) buf =
     (let source = scroll + of_nat x in
      if width \<le> source then buf
      else blit_row offscreen area width scroll y xs
        (buf((rc_x area + of_nat x, rc_y area + y) := offscreen (source, y))))"

definition blit_rows :: "'c buffer \<Rightarrow> Rect \<Rightarrow> u16 \<Rightarrow> u16 \<Rightarrow> 'c buffer \<Rightarrow> 'c buffer" where
  "blit_rows offscreen area width scroll buf =
     fold (\<lambda>y. blit_row offscreen area width scroll (of_nat y) [0..<unat (rc_width area)])
       [0..<unat (rc_height area)] buf"

definition render_scrolled_table ::
  "(u16 \<Rightarrow> u16 \<Rightarrow> 'c buffer) \<Rightarrow> Rect \<Rightarrow> u16 \<Rightarrow> u16 \<Rightarrow> 'c buffer \<Rightarrow> 'c buffer" where
  "render_scrolled_table table area natural_width scroll buf =
     (if rc_width area = 0 \<or> rc_height area = 0 then buf
      else
        (let width = max natural_width (rc_width area);
             scroll' = min scroll (saturating_sub width (rc_width area)) in
         blit_rows (table width (rc_height area)) area width scroll' buf))"

subsection \<open>The window\<close>

text \<open>The cells an area covers, and what a window shows in them.\<close>

definition covers :: "nat list \<Rightarrow> nat list \<Rightarrow> Rect \<Rightarrow> u16 \<times> u16 \<Rightarrow> bool" where
  "covers xs ys area p \<longleftrightarrow>
     (\<exists>x \<in> set xs. fst p = rc_x area + of_nat x) \<and> (\<exists>y \<in> set ys. snd p = rc_y area + of_nat y)"

lemma blit_row_spec:
  assumes "\<forall>x \<in> set xs. scroll + of_nat x < width"
  shows "blit_row offscreen area width scroll (of_nat y) xs buf p =
    (if covers xs [y] area p then offscreen (scroll + (fst p - rc_x area), snd p - rc_y area) else buf p)"
  using assms
proof (induction xs arbitrary: buf)
  case (Cons x xs)
  have "\<not> width \<le> scroll + of_nat x" using Cons.prems by (simp add: not_le)
  with Cons show ?case by (cases p) (auto simp: covers_def)
qed (simp add: covers_def)

lemma blit_rows_spec:
  assumes "\<forall>x \<in> set xs. scroll + of_nat x < width"
  shows "fold (\<lambda>y. blit_row offscreen area width scroll (of_nat y) xs) ys buf p =
    (if covers xs ys area p then offscreen (scroll + (fst p - rc_x area), snd p - rc_y area) else buf p)"
  by (induction ys arbitrary: buf) (auto simp: blit_row_spec [OF assms] covers_def)

text \<open>
  A scrolled table is a window of the table. Whatever the scroll offset, the cells of the
  area show consecutive columns of the whole table, which is drawn at least as wide as the
  area; the index never leaves the table and never wraps, a large offset ends at the last
  column, a table that fits is shown from its first column, and no cell outside the area
  changes.
\<close>

theorem scrolled_window:
  fixes area :: Rect
  defines "width \<equiv> \<lambda>natural. max natural (rc_width area)"
  shows "\<exists>first. (natural \<le> rc_width area \<longrightarrow> first = 0) \<and>
    unat first + unat (rc_width area) \<le> unat (width natural) \<and>
    (width natural - rc_width area \<le> scroll \<longrightarrow> unat first + unat (rc_width area) = unat (width natural)) \<and>
    (scroll \<le> width natural - rc_width area \<longrightarrow> first = scroll) \<and>
    (\<forall>p. render_scrolled_table table area natural scroll buf p =
      (if covers [0..<unat (rc_width area)] [0..<unat (rc_height area)] area p
       then table (width natural) (rc_height area) (first + (fst p - rc_x area), snd p - rc_y area)
       else buf p))"
proof -
  let ?w = "width natural" and ?a = "rc_width area"
  have le: "?a \<le> ?w" by (simp add: width_def)
  have room: "saturating_sub ?w ?a = ?w - ?a" "unat (?w - ?a) = unat ?w - unat ?a"
    using le by (simp_all add: saturating_sub_def unat_sub not_less)
  define first where "first = min scroll (?w - ?a)"
  have first: "unat first \<le> unat ?w - unat ?a" using room(2) by (metis first_def min.cobounded2 word_le_nat_alt)
  have fits: "unat first + unat ?a \<le> unat ?w" using first le by (simp add: word_le_nat_alt)
  have cells: "\<forall>x \<in> set [0..<unat ?a]. first + of_nat x < ?w"
  proof
    fix x assume "x \<in> set [0..<unat ?a]"
    then have x: "unat first + x < unat ?w" using fits by simp
    moreover have "unat ?w < 65536" using unsigned_less [of ?w] by simp
    ultimately have "unat (first + of_nat x) = unat first + x" by (simp add: unat_word_ariths unat_of_nat)
    with x show "first + of_nat x < ?w" by (simp add: word_less_nat_alt)
  qed
  have shown: "render_scrolled_table table area natural scroll buf p =
      (if covers [0..<unat ?a] [0..<unat (rc_height area)] area p
       then table ?w (rc_height area) (first + (fst p - rc_x area), snd p - rc_y area) else buf p)" for p
  proof (cases "?a = 0 \<or> rc_height area = 0")
    case True
    then show ?thesis by (auto simp: render_scrolled_table_def covers_def)
  next
    case False
    then have "render_scrolled_table table area natural scroll buf =
        blit_rows (table ?w (rc_height area)) area ?w first buf"
      unfolding width_def by (simp add: render_scrolled_table_def Let_def first_def room(1) [unfolded width_def] width_def)
    then show ?thesis by (simp add: blit_rows_def blit_rows_spec [OF cells])
  qed
  have "natural \<le> ?a \<longrightarrow> first = 0" by (auto simp: first_def width_def max_def)
  moreover have "?w - ?a \<le> scroll \<longrightarrow> unat first + unat ?a = unat ?w"
    using room(2) le by (auto simp: first_def min_def word_le_nat_alt)
  moreover have "scroll \<le> ?w - ?a \<longrightarrow> first = scroll" by (simp add: first_def)
  ultimately show ?thesis using fits shown by blast
qed

theorem scrolled_window_witness:
  "render_scrolled_table (\<lambda>w h (x, y). x) \<lparr>rc_x = 1, rc_y = 1, rc_width = 2, rc_height = 1\<rparr> 5 8 (\<lambda>_. 99) (2, 1) = 4"
proof -
  let ?area = "\<lparr>rc_x = 1, rc_y = 1, rc_width = 2, rc_height = 1\<rparr>"
  obtain first where f: "unat first + unat (rc_width ?area) = unat (max 5 (rc_width ?area))"
    "\<forall>p. render_scrolled_table (\<lambda>w h (x, y). x) ?area 5 8 (\<lambda>_. 99) p =
      (if covers [0..<unat (rc_width ?area)] [0..<unat (rc_height ?area)] ?area p
       then first + (fst p - rc_x ?area) else 99)"
    using scrolled_window [of 5 ?area 8 "\<lambda>w h (x, y). x" "\<lambda>_. 99"] by (auto simp: max_def)
  have "unat first = 3" using f(1) by (simp add: max_def)
  then have "first = 3" by (simp add: word_unat_eq_iff)
  moreover have "covers [0..<2] [0..<1] ?area (2, 1)" 
    unfolding covers_def by (rule conjI, rule bexI [of _ 1], simp, simp, rule bexI [of _ 0], simp, simp)
  ultimately show ?thesis using f(2) by simp
qed

end
