(* ===== verification/Key_Manager.thy ===== *)
theory Key_Manager
  imports Auth Log_Report Terminal
begin

text \<open>
  The key commands (\<open>src/src/manage.rs\<close>): issuing a key on the command line, and the
  interactive manager as a state machine over the keys the operator presses, with the key
  file on disk. Drawing is presentation and not modelled, the texts of the status line are;
  \<open>ke_show\<close> writes an error.
\<close>

subsection \<open>Issuing a key\<close>

datatype create_error =
    EmptyKeyName | KeyNameTaken string string | CreateStore KeyFileError | CreateRandom | CreateOutput pipe_error

definition show_bool :: "bool \<Rightarrow> string" where
  "show_bool b = (if b then ''true'' else ''false'')"

definition key_create ::
  "(string \<Rightarrow> u8 list) \<Rightarrow> key_io \<Rightarrow> (nat \<Rightarrow> pipe_error option) \<Rightarrow> string \<Rightarrow> string \<Rightarrow> bool \<Rightarrow> disk
    \<Rightarrow> (create_error + string list) \<times> disk" where
  "key_create sha io out path raw admin d =
     (let name = trim raw in
      if name = [] then (Inl EmptyKeyName, d)
      else
        (case load_or_default (kio_from_json io) (if kio_readable io then Some (disk_main d) else None) of
           Inl e \<Rightarrow> (Inl (CreateStore e), d)
         | Inr file \<Rightarrow>
             if list_ex (\<lambda>k. kr_name k = name) (kf_keys file) then (Inl (KeyNameTaken name path), d)
             else
               (let admin' = (admin \<or> kf_keys file = []) in
                case generate sha (kio_base64 io) (kio_fill1 io) (kio_fill2 io) (kio_unix_ms io) name admin' of
                  None \<Rightarrow> (Inl CreateRandom, d)
                | Some (rec, key) \<Rightarrow>
                    (case save_keys (kio_to_json io) (kio_fails io) (file\<lparr>kf_keys := kf_keys file @ [rec]\<rparr>) d of
                       (Inl e, d') \<Rightarrow> (Inl (CreateStore e), d')
                     | (Inr _, d') \<Rightarrow>
                         (case write_lines out
                            [key, [],
                             ''  name        '' @ name,
                             ''  identifier  '' @ kr_identifier rec,
                             ''  admin       '' @ show_bool admin',
                             ''  stored in   '' @ path,
                             [],
                             ''This is the only time the key is shown; only its digest is stored.'',
                             ''Key created. Restart mistralrs_proxy to apply changes.''] of
                            (Inl e, _) \<Rightarrow> (Inl (CreateOutput e), d')
                          | (Inr _, written) \<Rightarrow> (Inr written, d'))))))"

subsection \<open>The state of the manager\<close>

datatype KeyMode = Browse | ConfirmDelete | ConfirmDiscard

record KeyApp =
  km_path :: string
  km_log_file :: string
  km_usage :: "(string \<times> KeyTotals) list option"
  km_file :: KeyFile
  km_selected :: nat
  km_dirty :: bool
  km_saved :: bool
  km_status :: string
  km_table_scroll :: u16
  km_mode :: KeyMode
  km_quit :: bool

definition read_key_usage ::
  "(string \<Rightarrow> LogRecord option) \<Rightarrow> tail_io \<Rightarrow> bool \<Rightarrow> (string \<times> KeyTotals) list option" where
  "read_key_usage from_slice io exists =
     (if \<not> exists then None
      else (case poll from_slice io tail_new of
          (Inl _, _) \<Rightarrow> None
        | (Inr ap, _) \<Rightarrow> Some (sm_by_key (summarize (ap_records ap)))))"

definition key_app_new :: "KeyFile \<Rightarrow> string \<Rightarrow> string \<Rightarrow> (string \<times> KeyTotals) list option \<Rightarrow> KeyApp" where
  "key_app_new file path log_file usage =
     \<lparr>km_path = path, km_log_file = log_file, km_usage = usage, km_file = file, km_selected = 0,
      km_dirty = False, km_saved = False,
      km_status = (if usage \<noteq> None then ''Loaded '' @ path
        else ''No audit log (pass --log-file); usage columns are empty: '' @ log_file),
      km_table_scroll = 0, km_mode = Browse, km_quit = False\<rparr>"

text \<open>What the manager meets outside when it saves or reloads.\<close>

record key_env =
  ke_from_json :: "string \<Rightarrow> KeyFile option"
  ke_to_json :: "KeyFile \<Rightarrow> string option"
  ke_readable :: bool
  ke_fails :: "save_call \<Rightarrow> bool"
  ke_usage :: "(string \<times> KeyTotals) list option"
  ke_show :: "KeyFileError \<Rightarrow> string"

definition is_enabled_admin :: "KeyRecord \<Rightarrow> bool" where
  "is_enabled_admin k \<longleftrightarrow> kr_admin k \<and> \<not> kr_disabled k"

definition would_orphan_admin :: "KeyApp \<Rightarrow> bool" where
  "would_orphan_admin app =
     (let keys = kf_keys (km_file app) in
      if km_selected app < length keys
      then is_enabled_admin (keys ! km_selected app) \<and> length (filter is_enabled_admin keys) = 1
      else False)"

definition set_key :: "nat \<Rightarrow> KeyRecord \<Rightarrow> KeyFile \<Rightarrow> KeyFile" where
  "set_key i k file = file\<lparr>kf_keys := (kf_keys file)[i := k]\<rparr>"

definition toggle_admin :: "KeyApp \<Rightarrow> KeyApp" where
  "toggle_admin app =
     (if would_orphan_admin app
      then app\<lparr>km_status := ''Refusing to clear the last enabled admin key.''\<rparr>
      else if km_selected app < length (kf_keys (km_file app))
      then
        (let key = kf_keys (km_file app) ! km_selected app;
             key' = key\<lparr>kr_admin := \<not> kr_admin key\<rparr> in
         app\<lparr>km_file := set_key (km_selected app) key' (km_file app), km_dirty := True,
             km_status := kr_name key' @ '': admin = '' @ show_bool (kr_admin key') @ ''. Press s to save.''\<rparr>)
      else app)"

definition toggle_disabled :: "KeyApp \<Rightarrow> KeyApp" where
  "toggle_disabled app =
     (if would_orphan_admin app
      then app\<lparr>km_status := ''Refusing to disable the last enabled admin key.''\<rparr>
      else if km_selected app < length (kf_keys (km_file app))
      then
        (let key = kf_keys (km_file app) ! km_selected app;
             key' = key\<lparr>kr_disabled := \<not> kr_disabled key\<rparr> in
         app\<lparr>km_file := set_key (km_selected app) key' (km_file app), km_dirty := True,
             km_status := kr_name key' @ '': disabled = '' @ show_bool (kr_disabled key') @ ''. Press s to save.''\<rparr>)
      else app)"

definition remove_nth :: "nat \<Rightarrow> 'a list \<Rightarrow> 'a list" where
  "remove_nth i xs = take i xs @ drop (Suc i) xs"

definition delete_key :: "KeyApp \<Rightarrow> KeyApp" where
  "delete_key app0 =
     (let app = app0\<lparr>km_mode := Browse\<rparr>; keys = kf_keys (km_file app) in
      if length keys \<le> km_selected app then app
      else
        (let keys' = remove_nth (km_selected app) keys in
         app\<lparr>km_file := (km_file app)\<lparr>kf_keys := keys'\<rparr>,
             km_selected := min (km_selected app) (length keys' - 1),
             km_dirty := True,
             km_status := ''Deleted '' @ kr_name (keys ! km_selected app) @ ''. Press s to save.''\<rparr>))"

definition save_app :: "key_env \<Rightarrow> KeyApp \<Rightarrow> disk \<Rightarrow> KeyApp \<times> disk" where
  "save_app env app d =
     (if \<not> km_dirty app then (app\<lparr>km_status := ''Nothing to save.''\<rparr>, d)
      else
        (case save_keys (ke_to_json env) (ke_fails env) (km_file app) d of
           (Inr _, d') \<Rightarrow>
             (app\<lparr>km_dirty := False, km_saved := True,
                  km_status := ''Saved '' @ km_path app @ ''. Restart mistralrs_proxy to apply changes.''\<rparr>, d')
         | (Inl e, d') \<Rightarrow> (app\<lparr>km_status := ''Could not save: '' @ ke_show env e\<rparr>, d')))"

definition reload_app :: "key_env \<Rightarrow> disk \<Rightarrow> KeyApp \<Rightarrow> KeyApp" where
  "reload_app env d app =
     (case load_keys (ke_from_json env) (if ke_readable env then Some (disk_main d) else None) of
        Inr file \<Rightarrow>
          app\<lparr>km_file := file, km_selected := min (km_selected app) (length (kf_keys file) - 1),
              km_dirty := False, km_usage := ke_usage env,
              km_status := ''Reloaded keys and usage; unsaved edits discarded.''\<rparr>
      | Inl e \<Rightarrow> app\<lparr>km_status := ''Could not reload: '' @ ke_show env e\<rparr>)"

subsection \<open>Keys\<close>

definition ask_delete :: "KeyApp \<Rightarrow> KeyApp" where
  "ask_delete app =
     (if would_orphan_admin app then app\<lparr>km_status := ''Refusing to delete the last enabled admin key.''\<rparr>
      else if length (kf_keys (km_file app)) = 1 then app\<lparr>km_status := ''Refusing to delete the last key.''\<rparr>
      else app\<lparr>km_mode := ConfirmDelete\<rparr>)"

definition handle_browse :: "key_env \<Rightarrow> KeyCode \<Rightarrow> KeyApp \<Rightarrow> disk \<Rightarrow> KeyApp \<times> disk" where
  "handle_browse env code app d =
     (if code = KeyUp \<or> code = KeyChar ''k'' then (app\<lparr>km_selected := km_selected app - 1\<rparr>, d)
      else if code = KeyDown \<or> code = KeyChar ''j''
        then (app\<lparr>km_selected := min (km_selected app + 1) (length (kf_keys (km_file app)) - 1)\<rparr>, d)
      else if code = KeyHome then (app\<lparr>km_selected := 0\<rparr>, d)
      else if code = KeyEnd then (app\<lparr>km_selected := length (kf_keys (km_file app)) - 1\<rparr>, d)
      else if code = KeyChar ''a'' then (toggle_admin app, d)
      else if code = KeyChar ''d'' then (toggle_disabled app, d)
      else if code = KeyChar ''x'' \<or> code = KeyDelete then (ask_delete app, d)
      else if code = KeyChar ''s'' then save_app env app d
      else if code = KeyChar ''r'' then (reload_app env d app, d)
      else if code = KeyLeft \<or> code = KeyChar ''h''
        then (app\<lparr>km_table_scroll := saturating_sub (km_table_scroll app) SCROLL_STEP\<rparr>, d)
      else if code = KeyRight \<or> code = KeyChar ''l''
        then (app\<lparr>km_table_scroll := saturating_add (km_table_scroll app) SCROLL_STEP\<rparr>, d)
      else if code = KeyChar ''q'' \<or> code = KeyEsc
        then (if km_dirty app then app\<lparr>km_mode := ConfirmDiscard\<rparr> else app\<lparr>km_quit := True\<rparr>, d)
      else (app, d))"

definition is_yes :: "KeyCode \<Rightarrow> bool" where
  "is_yes code \<longleftrightarrow> code = KeyChar ''y'' \<or> code = KeyChar ''Y''"

definition key_handle :: "key_env \<Rightarrow> KeyCode \<Rightarrow> KeyApp \<Rightarrow> disk \<Rightarrow> KeyApp \<times> disk" where
  "key_handle env code app d =
     (case km_mode app of
        ConfirmDelete \<Rightarrow>
          (if is_yes code then delete_key app
           else app\<lparr>km_mode := Browse, km_status := ''Delete cancelled.''\<rparr>, d)
      | ConfirmDiscard \<Rightarrow>
          (if is_yes code then app\<lparr>km_quit := True\<rparr>
           else app\<lparr>km_mode := Browse, km_status := ''Still editing.''\<rparr>, d)
      | Browse \<Rightarrow> handle_browse env code app d)"

text \<open>One turn of the loop, and the loop over the events the terminal delivers.\<close>

definition key_turn :: "key_env \<Rightarrow> term_event \<Rightarrow> KeyApp \<Rightarrow> disk \<Rightarrow> KeyApp \<times> disk" where
  "key_turn env event app d =
     (case event of
        OtherEvent \<Rightarrow> (app, d)
      | KeyEvent press control code \<Rightarrow>
          if \<not> press then (app, d)
          else if control \<and> code = KeyChar ''c'' then (app\<lparr>km_quit := True\<rparr>, d)
          else key_handle env code app d)"

fun key_run :: "(key_env \<times> term_event) list \<Rightarrow> KeyApp \<Rightarrow> disk \<Rightarrow> KeyApp \<times> disk" where
  "key_run [] app d = (app, d)"
| "key_run ((env, event) # events) app d =
     (if km_quit app then (app, d)
      else (let (app', d') = key_turn env event app d in key_run events app' d'))"

datatype manage_error = NoKeys string | NotATerminal | ManageStore KeyFileError

definition key_manage ::
  "key_env \<Rightarrow> bool \<Rightarrow> string \<Rightarrow> string \<Rightarrow> (key_env \<times> term_event) list \<Rightarrow> disk
    \<Rightarrow> (manage_error + KeyApp \<times> string list) \<times> disk" where
  "key_manage env terminal path log_file events d =
     (case load_or_default (ke_from_json env) (if ke_readable env then Some (disk_main d) else None) of
        Inl e \<Rightarrow> (Inl (ManageStore e), d)
      | Inr file \<Rightarrow>
          if kf_keys file = [] then (Inl (NoKeys path), d)
          else if \<not> terminal then (Inl NotATerminal, d)
          else
            (let (app, d') = key_run events (key_app_new file path log_file (ke_usage env)) d in
             (Inr (app, if km_saved app then [''Changes saved. Restart mistralrs_proxy to apply changes.''] else []), d')))"

subsection \<open>Texts of the table\<close>

definition key_usage_of :: "string \<Rightarrow> KeyApp \<Rightarrow> KeyTotals option" where
  "key_usage_of name app = Option.bind (km_usage app) (\<lambda>rows. map_option snd (find (\<lambda>(key, _). key = name) rows))"

definition ago :: "u64 \<Rightarrow> u64 \<Rightarrow> string" where
  "ago now then_ms =
     (let elapsed = saturating_sub now then_ms in
      if elapsed < 60000 then show_nat (unat (elapsed div 1000)) @ ''s ago''
      else if elapsed < 3600000 then show_nat (unat (elapsed div 60000)) @ ''m ago''
      else if elapsed < 86400000 then show_nat (unat (elapsed div 3600000)) @ ''h ago''
      else show_nat (unat (elapsed div 86400000)) @ ''d ago'')"

definition CREATED_DATE_CHARS :: nat where
  "CREATED_DATE_CHARS = 10"

definition key_cells :: "u64 \<Rightarrow> KeyApp \<Rightarrow> KeyRecord \<Rightarrow> string list" where
  "key_cells now app key =
     (let usage = key_usage_of (kr_name key) app in
      [kr_name key, kr_identifier key, (if kr_admin key then ''yes'' else ''no''),
       (if kr_disabled key then ''DISABLED'' else ''active''),
       (case usage of
          None \<Rightarrow> ''-''
        | Some u \<Rightarrow> if kt_last_seen_unix_ms u > 0 then ago now (kt_last_seen_unix_ms u) else ''-''),
       (case usage of
          None \<Rightarrow> ''-''
        | Some u \<Rightarrow> thousands (saturating_add (kt_input_tokens u) (kt_output_tokens u))),
       (case usage of
          None \<Rightarrow> []
        | Some u \<Rightarrow> if kt_openwebui_users u > 0 then show_nat (kt_openwebui_users u) else []),
       (if kr_created_at_unix_ms key = 0 then ''unknown''
        else take_chars CREATED_DATE_CHARS (format_timestamp (kr_created_at_unix_ms key))),
       take_chars 16 (kr_key_sha256 key)])"

definition key_title :: "KeyApp \<Rightarrow> string" where
  "key_title app =
     (let dot = [CHR 0xC2, CHR 0xB7]; n = length (kf_keys (km_file app)) in
      '' mistralrs_proxy keys '' @ dot @ '' '' @ show_nat n @ '' key'' @ (if n = 1 then [] else ''s'') @
      (if km_dirty app then '' '' @ dot @ '' UNSAVED'' else []) @ '' '' @ dot @ '' '' @ km_path app @ '' '')"

definition key_help :: "KeyApp \<Rightarrow> string" where
  "key_help app =
     (case km_mode app of
        Browse \<Rightarrow> [CHR 0xE2, CHR 0x86, CHR 0x91] @ ''/'' @ [CHR 0xE2, CHR 0x86, CHR 0x93] @ '' move '' @
          [CHR 0xE2, CHR 0x86, CHR 0x90] @ ''/'' @ [CHR 0xE2, CHR 0x86, CHR 0x92] @
          '' scroll   a admin   d disable   x delete   s save   r reload   q quit''
      | ConfirmDelete \<Rightarrow> ''Delete this key permanently? y / n''
      | ConfirmDiscard \<Rightarrow> ''Quit and discard unsaved changes? y / n'')"

subsection \<open>Lemmas: the keys that remain\<close>

lemma around_nth: "i < length xs \<Longrightarrow> xs = take i xs @ xs ! i # drop (Suc i) xs"
  by (rule id_take_nth_drop)

lemma set_remove_nth: "set (remove_nth i xs) \<subseteq> set xs"
  by (auto simp: remove_nth_def dest: in_set_takeD in_set_dropD)

lemma distinct_remove_nth:
  assumes "distinct (map f xs)"
  shows "distinct (map f (remove_nth i xs))"
proof (cases "i < length xs")
  case True
  from around_nth [OF True] assms have "distinct (map f (take i xs @ xs ! i # drop (Suc i) xs))" by simp
  then show ?thesis by (auto simp: remove_nth_def)
qed (use assms in \<open>simp add: remove_nth_def\<close>)

lemma other_remains:
  assumes "i < length xs" and "list_ex P xs" and "\<not> (P (xs ! i) \<and> length (filter P xs) = 1)"
  shows "list_ex P (remove_nth i xs)"
proof (rule ccontr)
  assume "\<not> list_ex P (remove_nth i xs)"
  then have none: "filter P (take i xs) = []" "filter P (drop (Suc i) xs) = []"
    by (auto simp: remove_nth_def list_ex_iff filter_empty_conv)
  have "filter P xs = filter P (take i xs @ xs ! i # drop (Suc i) xs)" using around_nth [OF assms(1)] by simp
  also have "\<dots> = (if P (xs ! i) then [xs ! i] else [])" using none by simp
  finally show False using assms(2,3) by (auto simp: list_ex_iff filter_empty_conv split: if_splits)
qed

lemma others_in_update: "i < length xs \<Longrightarrow> list_ex P (remove_nth i xs) \<Longrightarrow> list_ex P (xs[i := x])"
  by (auto simp: upd_conv_take_nth_drop remove_nth_def list_ex_iff)

text \<open>
  The manager's file is valid and keeps an enabled administrator, the selection is a key, a
  deletion that waits for its confirmation is allowed, and without unsaved edits the file on
  disk is the one shown.
\<close>

definition key_app_inv :: "(string \<Rightarrow> KeyFile option) \<Rightarrow> KeyApp \<Rightarrow> disk \<Rightarrow> bool" where
  "key_app_inv from_json app d \<longleftrightarrow>
     list_ex is_enabled_admin (kf_keys (km_file app)) \<and>
     validate_key_file (km_file app) = Inr () \<and>
     km_selected app < length (kf_keys (km_file app)) \<and>
     (km_mode app = ConfirmDelete \<longrightarrow> \<not> would_orphan_admin app \<and> length (kf_keys (km_file app)) \<noteq> 1) \<and>
     (\<exists>stored. load_keys from_json (Some (disk_main d)) = Inr stored \<and>
        list_ex is_enabled_admin (kf_keys stored) \<and> (\<not> km_dirty app \<longrightarrow> km_file app = stored))"

lemma min_last [simp]: "xs \<noteq> [] \<Longrightarrow> min i (length xs - Suc 0) < length xs"
  by (simp add: min_less_iff_disj)

lemma admin_present: "list_ex P xs \<Longrightarrow> xs \<noteq> []"
  by auto

lemma edited_inv:
  assumes "key_app_inv from_json app d" and "\<not> would_orphan_admin app"
    and "kr_name k = kr_name (kf_keys (km_file app) ! km_selected app)"
    and "kr_identifier k = kr_identifier (kf_keys (km_file app) ! km_selected app)"
    and "kr_key_sha256 k = kr_key_sha256 (kf_keys (km_file app) ! km_selected app)"
    and "km_mode app = Browse"
  shows "key_app_inv from_json (app\<lparr>km_file := set_key (km_selected app) k (km_file app), km_dirty := True,
    km_status := st\<rparr>) d"
proof -
  let ?keys = "kf_keys (km_file app)" and ?i = "km_selected app"
  have i: "?i < length ?keys" and admin: "list_ex is_enabled_admin ?keys" and
    valid: "validate_key_file (km_file app) = Inr ()" using assms(1) by (auto simp: key_app_inv_def)
  have "\<not> (is_enabled_admin (?keys ! ?i) \<and> length (filter is_enabled_admin ?keys) = 1)"
    using assms(2) i by (simp add: would_orphan_admin_def Let_def)
  from others_in_update [OF i other_remains [OF i admin this]]
  have "list_ex is_enabled_admin (?keys[?i := k])" .
  moreover have "validate_key_file (set_key ?i k (km_file app)) = Inr ()"
  proof -
    have same: "map kr_identifier (?keys[?i := k]) = map kr_identifier ?keys"
      "map (\<lambda>k. decode_digest (kr_key_sha256 k)) (?keys[?i := k]) = map (\<lambda>k. decode_digest (kr_key_sha256 k)) ?keys"
      using assms(4,5) i by (simp_all add: map_update list_update_same_conv)
    have ok: "\<forall>key \<in> set ?keys. record_ok key" using valid by (simp add: validate_key_file_iff)
    then have "record_ok (?keys ! ?i)" using i by simp
    then have "record_ok k" using assms(3-5) by (simp add: record_ok_def)
    with ok have "\<forall>key \<in> set (?keys[?i := k]). record_ok key" using set_update_subset_insert [of ?keys ?i k] by auto
    with valid show ?thesis unfolding validate_key_file_iff set_key_def by (simp add: same)
  qed
  moreover obtain stored where "load_keys from_json (Some (disk_main d)) = Inr stored"
    "list_ex is_enabled_admin (kf_keys stored)" using assms(1) unfolding key_app_inv_def by blast
  ultimately show ?thesis using assms(6) i unfolding key_app_inv_def set_key_def by simp
qed

lemma deleted_inv:
  assumes "key_app_inv from_json app d" and "km_mode app = ConfirmDelete"
  shows "key_app_inv from_json (delete_key app) d"
proof -
  let ?keys = "kf_keys (km_file app)" and ?i = "km_selected app"
  have i: "?i < length ?keys" and admin: "list_ex is_enabled_admin ?keys" and
    valid: "validate_key_file (km_file app) = Inr ()" and allowed: "\<not> would_orphan_admin app"
    using assms by (auto simp: key_app_inv_def)
  have "\<not> (is_enabled_admin (?keys ! ?i) \<and> length (filter is_enabled_admin ?keys) = 1)"
    using allowed i by (simp add: would_orphan_admin_def Let_def)
  then have rest: "list_ex is_enabled_admin (remove_nth ?i ?keys)" by (rule other_remains [OF i admin])
  then have "0 < length (remove_nth ?i ?keys)" by auto
  moreover have "validate_key_file ((km_file app)\<lparr>kf_keys := remove_nth ?i ?keys\<rparr>) = Inr ()"
    using valid set_remove_nth [of ?i ?keys] by (auto simp: validate_key_file_iff intro: distinct_remove_nth)
  ultimately show ?thesis using assms(1) i rest by (auto simp: key_app_inv_def delete_key_def Let_def)
qed

lemma loaded_inv:
  assumes "key_app_inv from_json app d" and "ke_from_json env = from_json" and "km_mode app = Browse"
  shows "key_app_inv from_json (reload_app env d app) d"
proof (cases "ke_readable env")
  case True
  obtain stored where st: "load_keys from_json (Some (disk_main d)) = Inr stored"
    "list_ex is_enabled_admin (kf_keys stored)" using assms(1) by (auto simp: key_app_inv_def)
  with load_keys_valid [OF st(1)] True assms(2,3) show ?thesis
    using admin_present [OF st(2)] by (auto simp: key_app_inv_def reload_app_def)
next
  case False
  with assms show ?thesis by (auto simp: key_app_inv_def reload_app_def load_keys_def would_orphan_admin_def)
qed

lemma saved_inv:
  assumes "key_app_inv from_json app d" and "save_app env app d = (app', d')" and "km_mode app = Browse"
    and "\<And>f json. ke_to_json env f = Some json \<Longrightarrow> from_json (json @ [CHR 0x0A]) = Some f"
  shows "key_app_inv from_json app' d'"
proof (cases "km_dirty app")
  case True
  obtain r d1 where s: "save_keys (ke_to_json env) (ke_fails env) (km_file app) d = (r, d1)" by (metis surj_pair)
  show ?thesis
  proof (cases r)
    case (Inr u)
    with save_keys_cases [OF s] assms(4) have "load_keys from_json (Some (disk_main d1)) = Inr (km_file app)"
      by (auto simp: load_keys_def)
    with True Inr s assms(1-3) show ?thesis by (auto simp: save_app_def key_app_inv_def)
  next
    case (Inl e)
    with save_keys_cases [OF s] have "disk_main d1 = disk_main d" by auto
    with True Inl s assms(1-3) show ?thesis by (auto simp: save_app_def key_app_inv_def)
  qed
next
  case False
  with assms(1-3) show ?thesis by (auto simp: save_app_def key_app_inv_def)
qed

lemma orphan_update [simp]:
  "would_orphan_admin (app\<lparr>km_quit := q\<rparr>) = would_orphan_admin app"
  "would_orphan_admin (app\<lparr>km_status := st\<rparr>) = would_orphan_admin app"
  "would_orphan_admin (app\<lparr>km_mode := m\<rparr>) = would_orphan_admin app"
  "would_orphan_admin (app\<lparr>km_table_scroll := t\<rparr>) = would_orphan_admin app"
  by (simp_all add: would_orphan_admin_def)

lemma moved_inv:
  "key_app_inv from_json app d \<Longrightarrow> km_mode app = Browse \<Longrightarrow> i < length (kf_keys (km_file app)) \<Longrightarrow>
     key_app_inv from_json (app\<lparr>km_selected := i\<rparr>) d"
  by (simp add: key_app_inv_def)

lemma told_inv:
  "key_app_inv from_json app d \<Longrightarrow> km_mode app = Browse \<Longrightarrow> key_app_inv from_json (app\<lparr>km_status := st\<rparr>) d"
  "key_app_inv from_json app d \<Longrightarrow> km_mode app = Browse \<Longrightarrow> key_app_inv from_json (app\<lparr>km_table_scroll := t\<rparr>) d"
  "key_app_inv from_json app d \<Longrightarrow> m \<noteq> ConfirmDelete \<Longrightarrow> key_app_inv from_json (app\<lparr>km_mode := m, km_status := st\<rparr>) d"
  "key_app_inv from_json app d \<Longrightarrow> m \<noteq> ConfirmDelete \<Longrightarrow> key_app_inv from_json (app\<lparr>km_mode := m\<rparr>) d"
  "key_app_inv from_json app d \<Longrightarrow> key_app_inv from_json (app\<lparr>km_quit := q\<rparr>) d"
  by (simp_all add: key_app_inv_def)

lemma toggled_inv:
  assumes "key_app_inv from_json app d" and "km_mode app = Browse"
  shows "key_app_inv from_json (toggle_admin app) d" and "key_app_inv from_json (toggle_disabled app) d"
  using assms edited_inv [OF assms(1) _ _ _ _ assms(2)] told_inv(1) [OF assms]
  by (auto simp: toggle_admin_def toggle_disabled_def Let_def)

lemma asked_inv:
  "key_app_inv from_json app d \<Longrightarrow> km_mode app = Browse \<Longrightarrow> key_app_inv from_json (ask_delete app) d"
  by (simp add: key_app_inv_def ask_delete_def)

lemma browse_inv:
  assumes inv: "key_app_inv from_json app d" and browse: "km_mode app = Browse" and "ke_from_json env = from_json"
    and codec: "\<And>f json. ke_to_json env f = Some json \<Longrightarrow> from_json (json @ [CHR 0x0A]) = Some f"
    and step: "handle_browse env code app d = (app', d')"
  shows "key_app_inv from_json app' d'"
proof (cases "code = KeyChar ''s''")
  case True
  with step have "save_app env app d = (app', d')" by (simp add: handle_browse_def)
  from saved_inv [OF inv this browse codec] show ?thesis .
next
  case False
  have i: "km_selected app < length (kf_keys (km_file app))" "kf_keys (km_file app) \<noteq> []"
    using inv by (auto simp: key_app_inv_def)
  have ends: "km_selected app - Suc 0 < length (kf_keys (km_file app))"
    "length (kf_keys (km_file app)) - Suc 0 < length (kf_keys (km_file app))" "0 < length (kf_keys (km_file app))"
    using i by simp_all
  note kept = moved_inv [OF inv browse] told_inv(1,2) [OF inv browse] told_inv(4,5) [OF inv]
    toggled_inv [OF inv browse] asked_inv [OF inv browse] loaded_inv [OF inv assms(3) browse]
  have "case handle_browse env code app d of (app', d') \<Rightarrow> key_app_inv from_json app' d'"
    using False by (simp add: handle_browse_def kept ends i inv)
  with step show ?thesis by simp
qed

lemma turn_inv:
  assumes inv: "key_app_inv from_json app d" and "ke_from_json env = from_json"
    and codec: "\<And>f json. ke_to_json env f = Some json \<Longrightarrow> from_json (json @ [CHR 0x0A]) = Some f"
    and step: "key_turn env event app d = (app', d')"
  shows "key_app_inv from_json app' d'"
proof (cases "\<exists>code. event = KeyEvent True False code \<or> (event = KeyEvent True True code \<and> code \<noteq> KeyChar ''c'')")
  case True
  then obtain code where step': "key_handle env code app d = (app', d')" using step by (auto simp: key_turn_def)
  show ?thesis
  proof (cases "km_mode app")
    case Browse
    with step' browse_inv [OF inv Browse assms(2) codec] show ?thesis by (simp add: key_handle_def)
  next
    case ConfirmDelete
    with step' deleted_inv [OF inv ConfirmDelete] told_inv(3) [OF inv] show ?thesis
      by (auto simp: key_handle_def split: if_splits)
  next
    case ConfirmDiscard
    with step' told_inv(3,5) [OF inv] show ?thesis by (auto simp: key_handle_def split: if_splits)
  qed
next
  case False
  then have "app' \<in> {app, app\<lparr>km_quit := True\<rparr>}" "d' = d"
    using step by (auto simp: key_turn_def split: term_event.splits if_splits)
  with inv told_inv(5) [OF inv] show ?thesis by auto
qed

text \<open>
  C35. The last enabled administrator survives every session of the key manager. From a key
  file with an enabled administrator, after any sequence of key presses, with any saves and
  reads failing, the edited file and the file on disk are valid and still have one, the
  selection is one of the keys, and when no edit is unsaved the file on disk is exactly what
  is shown.
\<close>

theorem admin_never_lost:
  assumes "load_keys from_json (Some (disk_main d)) = Inr file" and "list_ex is_enabled_admin (kf_keys file)"
    and "\<forall>(env, event) \<in> set events. ke_from_json env = from_json \<and>
      (\<forall>f json. ke_to_json env f = Some json \<longrightarrow> from_json (json @ [CHR 0x0A]) = Some f)"
    and "key_run events (key_app_new file path log_file usage) d = (app, d')"
  shows "list_ex is_enabled_admin (kf_keys (km_file app)) \<and> validate_key_file (km_file app) = Inr () \<and>
    km_selected app < length (kf_keys (km_file app)) \<and>
    (\<exists>stored. load_keys from_json (Some (disk_main d')) = Inr stored \<and>
       list_ex is_enabled_admin (kf_keys stored) \<and> (\<not> km_dirty app \<longrightarrow> stored = km_file app))"
proof -
  have run: "key_app_inv from_json app0 d0 \<Longrightarrow> key_run events app0 d0 = (app, d') \<Longrightarrow> key_app_inv from_json app d'" for app0 d0
    using assms(3)
  proof (induction events app0 d0 rule: key_run.induct)
    case (2 env event events app0 d0)
    obtain app1 d1 where t: "key_turn env event app0 d0 = (app1, d1)" by (metis surj_pair)
    from "2.prems"(3) have "key_app_inv from_json app1 d1" using turn_inv [OF "2.prems"(1) _ _ t] by auto
    with 2 t show ?case by (auto split: if_splits)
  qed simp
  have "key_app_inv from_json (key_app_new file path log_file usage) d"
    using assms(1,2) load_keys_valid [OF assms(1)] admin_present [OF assms(2)]
    by (auto simp: key_app_inv_def key_app_new_def)
  from run [OF this assms(4)] show ?thesis unfolding key_app_inv_def by metis
qed

definition demo_key_env :: key_env where
  "demo_key_env = \<lparr>ke_from_json = kio_from_json demo_key_io, ke_to_json = kio_to_json demo_key_io,
     ke_readable = True, ke_fails = (\<lambda>_. False), ke_usage = None, ke_show = (\<lambda>_. [])\<rparr>"

theorem admin_never_lost_witness:
  "\<exists>app d'. key_run [(demo_key_env, KeyEvent True False (KeyChar ''d''))]
      (key_app_new demo_before ''keys.json'' ''proxy.jsonl'' None) demo_key_disk = (app, d') \<and>
    list_ex is_enabled_admin (kf_keys (km_file app))"
proof -
  let ?events = "[(demo_key_env, KeyEvent True False (KeyChar ''d''))]"
  obtain app d' where run: "key_run ?events (key_app_new demo_before ''keys.json'' ''proxy.jsonl'' None) demo_key_disk =
    (app, d')" by (metis surj_pair)
  have load: "load_keys (kio_from_json demo_key_io) (Some (disk_main demo_key_disk)) = Inr demo_before"
    using demo_files_valid(1) by (simp add: demo_key_disk_def load_keys_def demo_key_io_def)
  have admin: "list_ex is_enabled_admin (kf_keys demo_before)"
    by (simp add: demo_before_def demo_record_def is_enabled_admin_def)
  have codec: "\<forall>(env, event) \<in> set ?events. ke_from_json env = kio_from_json demo_key_io \<and>
      (\<forall>f json. ke_to_json env f = Some json \<longrightarrow> kio_from_json demo_key_io (json @ [CHR 0x0A]) = Some f)"
    using demo_files_valid(3) by (auto simp: demo_key_env_def demo_key_io_def)
  from admin_never_lost [OF load admin codec run] run show ?thesis by blast
qed

end
