(* ===== verification/Backend_Client.thy ===== *)
theory Backend_Client
  imports Control Log_Report Proxy
begin

text \<open>
  The operator's client (\<open>src/src/backend_cli.rs\<close>) of the control socket: the requests it
  sends, how it reads the answers, the commands with what they print, waiting for a drain,
  and the table of backends. The exchange over the socket, the JSON codec and the texts of
  identifiers and messages of the server are arguments.
\<close>

subsection \<open>Requests\<close>

datatype Method = HttpGet | HttpPost

type_synonym control_request = "Method \<times> string"

definition list_request :: control_request where
  "list_request = (HttpGet, ''/control/backends'')"

definition status_request :: "string \<Rightarrow> control_request" where
  "status_request i = (HttpGet, ''/control/backends/'' @ i)"

definition drain_request :: "string \<Rightarrow> control_request" where
  "drain_request i = (HttpPost, ''/control/backends/'' @ i @ ''/drain'')"

definition operation_request :: "(Uuid \<Rightarrow> string) \<Rightarrow> Uuid \<Rightarrow> control_request" where
  "operation_request show_uuid i = (HttpGet, ''/control/operations/'' @ show_uuid i)"

definition activate_request :: "string \<Rightarrow> control_request" where
  "activate_request i = (HttpPost, ''/control/backends/'' @ i @ ''/activate'')"

definition disable_request :: "string \<Rightarrow> bool \<Rightarrow> control_request" where
  "disable_request i force =
     (HttpPost, ''/control/backends/'' @ i @ (if force then ''/disable?force=true'' else ''/disable''))"

definition reload_request :: control_request where
  "reload_request = (HttpPost, ''/control/runtime/reload'')"

record ClientError =
  ce_status :: "nat option"
  ce_message :: string

definition client_error :: "string \<Rightarrow> ClientError" where
  "client_error message = \<lparr>ce_status = None, ce_message = message\<rparr>"

text \<open>What happens on the socket: the failure of a step, the time limit, or an answer.\<close>

datatype exchange =
    ConnectTimedOut | ConnectRefused string | ExchangeFailed string | ExchangeTimedOut | Responded nat string

definition MAX_CONTROL_RESPONSE_BYTES :: nat where
  "MAX_CONTROL_RESPONSE_BYTES = 2 * 1024 * 1024"

definition is_success :: "nat \<Rightarrow> bool" where
  "is_success code \<longleftrightarrow> 200 \<le> code \<and> code < 300"

text \<open>\<open>error_of\<close> decodes an \<open>ErrorResponse\<close>, \<open>decode\<close> the expected answer.\<close>

definition client_request ::
  "(string \<Rightarrow> string option) \<Rightarrow> (string \<Rightarrow> string + 'a) \<Rightarrow> string \<Rightarrow> control_request \<Rightarrow> exchange \<Rightarrow> ClientError + 'a" where
  "client_request error_of decode socket request ex =
     (case ex of
        ConnectTimedOut \<Rightarrow> Inl (client_error (''timed out connecting to control socket '' @ socket))
      | ConnectRefused e \<Rightarrow> Inl (client_error (''could not connect to control socket '' @ socket @ '': '' @ e))
      | ExchangeFailed e \<Rightarrow> Inl (client_error e)
      | ExchangeTimedOut \<Rightarrow> Inl (client_error (''control request '' @ snd request @ '' timed out after 5s''))
      | Responded code bytes \<Rightarrow>
          if MAX_CONTROL_RESPONSE_BYTES < length bytes then Inl (client_error ''length limit exceeded'')
          else if \<not> is_success code
          then Inl \<lparr>ce_status = Some code,
                    ce_message = (case error_of bytes of Some e \<Rightarrow> e | None \<Rightarrow> from_utf8_lossy bytes)\<rparr>
          else (case decode bytes of Inl e \<Rightarrow> Inl (client_error e) | Inr a \<Rightarrow> Inr a))"

text \<open>\<open>show_status\<close> writes a status code with its reason.\<close>

definition show_client_error :: "(nat \<Rightarrow> string) \<Rightarrow> ClientError \<Rightarrow> string" where
  "show_client_error show_status e =
     (case ce_status e of
        Some code \<Rightarrow> ''control server returned '' @ show_status code @ '': '' @ ce_message e
      | None \<Rightarrow> ce_message e)"

subsection \<open>The routes of the server\<close>

datatype ControlRoute =
    RouteList | RouteGet string | RouteDrain string | RouteActivate string | RouteDisable string bool
  | RouteOperation Uuid | RouteReload

text \<open>
  \<open>decode\<close> undoes the percent-encoding of a path segment, \<open>parse_uuid\<close> reads an identifier and
  \<open>force_of\<close> the optional flag of a query; a segment that a route binds is not empty.
\<close>

definition route_segments ::
  "(string \<Rightarrow> string option) \<Rightarrow> (string \<Rightarrow> Uuid option) \<Rightarrow> (string \<Rightarrow> bool option option) \<Rightarrow> bool \<Rightarrow> string
    \<Rightarrow> string list \<Rightarrow> ControlRoute option" where
  "route_segments decode parse_uuid force_of get query segments =
     (let bound = (\<lambda>s. if s = [] then None else decode s) in
      case segments of
        [[], a, b] \<Rightarrow> if a = ''control'' \<and> b = ''backends'' \<and> get then Some RouteList else None
      | [[], a, b, c] \<Rightarrow>
          if a = ''control'' \<and> b = ''backends'' \<and> get then map_option RouteGet (bound c)
          else if a = ''control'' \<and> b = ''operations'' \<and> get
            then Option.bind (bound c) (\<lambda>s. map_option RouteOperation (parse_uuid s))
          else if a = ''control'' \<and> b = ''runtime'' \<and> c = ''reload'' \<and> \<not> get then Some RouteReload
          else None
      | [[], a, b, c, verb] \<Rightarrow>
          if a = ''control'' \<and> b = ''backends'' \<and> \<not> get
          then
            (if verb = ''drain'' then map_option RouteDrain (bound c)
             else if verb = ''activate'' then map_option RouteActivate (bound c)
             else if verb = ''disable''
               then Option.bind (bound c) (\<lambda>i. map_option (\<lambda>f. RouteDisable i (f = Some True)) (force_of query))
             else None)
          else None
      | _ \<Rightarrow> None)"

definition control_route ::
  "(string \<Rightarrow> string option) \<Rightarrow> (string \<Rightarrow> Uuid option) \<Rightarrow> (string \<Rightarrow> bool option option) \<Rightarrow> control_request
    \<Rightarrow> ControlRoute option" where
  "control_route decode parse_uuid force_of request =
     (let (path, query) = (case position (\<lambda>c. c = CHR ''?'') (snd request) of
            None \<Rightarrow> (snd request, [])
          | Some i \<Rightarrow> (take i (snd request), drop (Suc i) (snd request))) in
      route_segments decode parse_uuid force_of (fst request = HttpGet) query (split_on (CHR ''/'') path))"

subsection \<open>Texts\<close>

fun display_mode :: "BackendMode \<Rightarrow> string" where
  "display_mode Active = ''active''"
| "display_mode Draining = ''draining''"
| "display_mode Disabled = ''disabled''"

definition optional_count :: "u64 option \<Rightarrow> string" where
  "optional_count v = (case v of None \<Rightarrow> ''-'' | Some n \<Rightarrow> show_nat (unat n))"

definition format_elapsed :: "u64 \<Rightarrow> string" where
  "format_elapsed ms = padded 2 (unat (ms div 60000)) @ '':'' @ padded 2 (unat (ms mod 60000 div 1000))"

definition format_age :: "u64 \<Rightarrow> string" where
  "format_age ms =
     (if ms < 60000 then format_fixed 1 (f64_div (u64_as_f64 ms) (Finite 1000)) @ ''s''
      else if ms < 3600000 then show_nat (unat (ms div 1000)) @ ''s''
      else if ms < 86400000 then show_nat (unat (ms div 60000)) @ ''m''
      else if ms < 604800000 then show_nat (unat (ms div 3600000)) @ ''h''
      else show_nat (unat (ms div 86400000)) @ ''d '' @ show_nat (unat (ms mod 86400000 div 3600000)) @ ''h'')"

definition decimal :: "nat \<Rightarrow> f64 option \<Rightarrow> string" where
  "decimal p v = (case v of None \<Rightarrow> ''-'' | Some x \<Rightarrow> format_fixed p x)"

definition percent_of :: "f64 \<Rightarrow> f64" where
  "percent_of ratio = f64_mul ratio (Finite 100)"

definition run_capacity :: "BackendView \<Rightarrow> string" where
  "run_capacity v =
     (case (view_running v, view_effective_capacity v) of
        (Some running, Some cap) \<Rightarrow> show_nat (unat running) @ ''/'' @ show_nat (unat cap)
      | _ \<Rightarrow> ''-'')"

fun join :: "string \<Rightarrow> string list \<Rightarrow> string" where
  "join sep [] = []"
| "join sep [x] = x"
| "join sep (x # y # xs) = x @ sep @ join sep (y # xs)"

subsection \<open>The table of backends\<close>

definition TABLE_HEADERS :: "string list" where
  "TABLE_HEADERS = [''BACKEND'', ''MODE'', ''STATE'', ''PROXY'', ''RUN/CAP'', ''WAIT'', ''KV%'', ''TOK/S'', ''PREF T/S'',
     ''DECODE T/S'', ''PRESS'', ''AGE'']"

definition LEFT_ALIGNED_COLUMNS :: nat where
  "LEFT_ALIGNED_COLUMNS = 3"

definition table_row :: "BackendView \<Rightarrow> string list" where
  "table_row v =
     [truncate_text (view_id v) 24,
      display_mode (view_mode v),
      display_backend_state (view_state v),
      show_nat (view_proxy_active v),
      run_capacity v,
      optional_count (view_waiting v),
      (case view_kv_ratio v of None \<Rightarrow> ''-'' | Some ratio \<Rightarrow> format_fixed 0 (percent_of ratio)),
      decimal 1 (view_token_rate v),
      decimal 1 (view_prefill_token_rate v),
      decimal 1 (view_decode_token_rate v),
      decimal 2 (view_pressure v),
      (case view_metrics_age_ms v of None \<Rightarrow> ''-'' | Some ms \<Rightarrow> format_age ms)]"

definition column_width :: "string list list \<Rightarrow> nat \<Rightarrow> nat" where
  "column_width rows column =
     max (foldr max (map (\<lambda>row. chars_count (row ! column)) rows) 0) (chars_count (TABLE_HEADERS ! column))"

definition format_cell :: "string \<Rightarrow> nat \<Rightarrow> bool \<Rightarrow> string" where
  "format_cell cell width left_aligned = (if left_aligned then pad_right width cell else pad_left width cell)"

definition format_row :: "(nat \<Rightarrow> nat) \<Rightarrow> string list \<Rightarrow> string" where
  "format_row widths row =
     join '' '' (map (\<lambda>(column, cell). format_cell cell (widths column) (column < LEFT_ALIGNED_COLUMNS))
       (enumerate 0 row))"

definition render_backend_table :: "BackendView list \<Rightarrow> string list" where
  "render_backend_table views =
     (let rows = map table_row views; widths = column_width rows in
      format_row widths TABLE_HEADERS # map (format_row widths) rows)"

definition backend_detail :: "BackendView \<Rightarrow> string list" where
  "backend_detail v =
     [view_id v,
      ''  state       '' @ display_backend_state (view_state v),
      ''  mode        '' @ display_mode (view_mode v),
      ''  URL         '' @ view_url v,
      ''  readiness   '' @ display_readiness (view_readiness v),
      ''  telemetry   '' @ display_telemetry (view_telemetry v),
      ''  circuit     '' @ display_circuit (view_circuit v),
      ''  eligible    '' @ (if view_eligible v then ''true'' else ''false''),
      ''  proxy       '' @ show_nat (view_proxy_active v) @ '' active'',
      ''  engine      '' @ optional_count (view_running v) @ '' running, '' @ optional_count (view_waiting v) @
        '' waiting / '' @ optional_count (view_effective_capacity v) @ '' capacity'',
      ''  KV cache    '' @ (case view_kv_ratio v of
          None \<Rightarrow> ''unavailable'' | Some ratio \<Rightarrow> format_fixed 1 (percent_of ratio) @ ''%''),
      ''  pressure    '' @ decimal 3 (view_pressure v)] @
     (case view_readiness_error v of None \<Rightarrow> [] | Some e \<Rightarrow> [''  ready error '' @ e]) @
     (case view_metrics_error v of None \<Rightarrow> [] | Some e \<Rightarrow> [''  metric error '' @ e])"

definition changes_line :: "string \<Rightarrow> string list \<Rightarrow> string" where
  "changes_line label changed =
     ''  '' @ pad_right 8 label @ '' '' @ (if changed = [] then ''none'' else join '', '' changed)"

subsection \<open>Waiting for a drain\<close>

text \<open>The texts the server's values are written with.\<close>

record client_texts =
  tx_uuid :: "Uuid \<Rightarrow> string"
  tx_status :: "nat \<Rightarrow> string"
  tx_drain_message :: "DrainMessage \<Rightarrow> string"
  tx_action_message :: "ActionMessage \<Rightarrow> string"
  tx_pretty_list :: "BackendListResponse \<Rightarrow> string + string"
  tx_pretty_view :: "BackendView \<Rightarrow> string + string"

text \<open>
  What one turn of the waiting loop meets: the time when it looks at its deadline, whether
  the deadline passes before the answer, the answer, and whether a signal (or a failure to
  listen for one) comes before the pause of a second is over.
\<close>

datatype ctrl_c = CtrlC | CtrlCError string

record drain_turn =
  dt_now :: instant
  dt_late :: bool
  dt_operation :: "ClientError + DrainProgress"
  dt_signal :: "ctrl_c option"

datatype drain_wait_error =
    WaitTimedOut string Uuid | WaitClient ClientError | DrainEnded string | SignalFailed string

datatype drain_wait_result = SafeToStop | Detached

type_synonym drain_seen = "DrainPhase \<times> nat \<times> u64 option \<times> u64 option \<times> TelemetryState"

definition progress_seen :: "DrainProgress \<Rightarrow> drain_seen" where
  "progress_seen p = (dp_phase p, dp_proxy_active p, dp_engine_running p, dp_engine_waiting p, dp_telemetry p)"

definition progress_line :: "DrainProgress \<Rightarrow> string" where
  "progress_line p =
     pad_left 8 (format_elapsed (dp_elapsed_ms p)) @ ''  proxy='' @ show_nat (dp_proxy_active p) @
     ''  running='' @ optional_count (dp_engine_running p) @ ''  waiting='' @ optional_count (dp_engine_waiting p) @
     ''  telemetry='' @ display_telemetry (dp_telemetry p)"

definition EM_DASH :: string where
  "EM_DASH = [CHR 0xE2, CHR 0x80, CHR 0x94]"

text \<open>The end of a wait with the lines it printed; \<open>None\<close>: it still waits after the given turns.\<close>

fun drain_loop ::
  "client_texts \<Rightarrow> DrainStartedResponse \<Rightarrow> instant option \<Rightarrow> drain_seen option \<Rightarrow> drain_turn list
    \<Rightarrow> (drain_wait_error + drain_wait_result) option \<times> string list" where
  "drain_loop tx started deadline previous [] = (None, [])"
| "drain_loop tx started deadline previous (turn # turns) =
     (let timed_out = WaitTimedOut (started_backend_id started) (started_operation_id started) in
      if (case deadline of None \<Rightarrow> False | Some d \<Rightarrow> d \<le> dt_now turn) then (Some (Inl timed_out), [])
      else if deadline \<noteq> None \<and> dt_late turn then (Some (Inl timed_out), [])
      else
        (case dt_operation turn of
           Inl e \<Rightarrow> (Some (Inl (WaitClient e)), [])
         | Inr progress \<Rightarrow>
             (let current = progress_seen progress;
                  printed = (if previous \<noteq> Some current then [progress_line progress] else []);
                  go_on = (case dt_signal turn of
                      Some (CtrlCError e) \<Rightarrow> (Some (Inl (SignalFailed e)), printed)
                    | Some CtrlC \<Rightarrow>
                        (Some (Inr Detached),
                         printed @ [''detached; '' @ started_backend_id started @ '' remains draining (operation '' @
                           tx_uuid tx (started_operation_id started) @ '')''])
                    | None \<Rightarrow>
                        (let (r, more) = drain_loop tx started deadline (Some current) turns in (r, printed @ more))) in
              case dp_phase progress of
                PhaseComplete \<Rightarrow>
                  if dp_safe_to_stop progress
                  then (Some (Inr SafeToStop),
                        printed @ [dp_backend_id progress @ '': disabled '' @ EM_DASH @ '' safe to stop''])
                  else go_on
              | PhaseFailed \<Rightarrow>
                  (Some (Inl (DrainEnded (case dp_message progress of
                      None \<Rightarrow> ''drain did not complete'' | Some m \<Rightarrow> tx_drain_message tx m))), printed)
              | PhaseCancelled \<Rightarrow>
                  (Some (Inl (DrainEnded (case dp_message progress of
                      None \<Rightarrow> ''drain did not complete'' | Some m \<Rightarrow> tx_drain_message tx m))), printed)
              | PhaseDraining \<Rightarrow> go_on)))"

text \<open>The seconds of an instant are an \<open>i64\<close>: a deadline beyond it panics, the outer \<open>None\<close>.\<close>

definition MAX_INSTANT_SECONDS :: nat where
  "MAX_INSTANT_SECONDS = 2 ^ 63 - 1"

definition drain_deadline :: "instant \<Rightarrow> u64 option \<Rightarrow> instant option option" where
  "drain_deadline now timeout_seconds =
     (case timeout_seconds of
        None \<Rightarrow> Some None
      | Some seconds \<Rightarrow>
          (let deadline = now + unat seconds * 1000000000 in
           if MAX_INSTANT_SECONDS < deadline div 1000000000 then None else Some (Some deadline)))"

definition wait_for_drain ::
  "client_texts \<Rightarrow> DrainStartedResponse \<Rightarrow> u64 option \<Rightarrow> instant \<Rightarrow> drain_turn list
    \<Rightarrow> ((drain_wait_error + drain_wait_result) option \<times> string list) option" where
  "wait_for_drain tx started timeout_seconds now turns =
     map_option (\<lambda>deadline. drain_loop tx started deadline None turns) (drain_deadline now timeout_seconds)"

subsection \<open>Requests reach their handlers\<close>

lemma split_on_plain: "c \<notin> set xs \<Longrightarrow> split_on c xs = [xs]"
  by (induction xs) auto

lemma split_on_piece: "c \<notin> set xs \<Longrightarrow> split_on c (xs @ c # ys) = xs # split_on c ys"
  by (induction xs) auto

lemma position_first: "\<forall>x \<in> set xs. \<not> P x \<Longrightarrow> P y \<Longrightarrow> position P (xs @ y # ys) = Some (length xs)"
  by (induction xs) auto

lemma id_byte_plain: "is_id_byte c \<Longrightarrow> c \<noteq> CHR ''/'' \<and> c \<noteq> CHR ''?'' \<and> c \<noteq> CHR ''%''"
  by (auto simp: is_id_byte_def is_ascii_alphanumeric_def is_ascii_alphabetic_def is_ascii_digit_def byte_def)

lemma id_plain:
  assumes "validate_backend_id i = Inr ()"
  shows "i \<noteq> []" "CHR ''/'' \<notin> set i" "CHR ''?'' \<notin> set i" "CHR ''%'' \<notin> set i"
  using assms id_byte_plain by (auto simp: validate_backend_id_ok id_ok_def)

lemma route_plain:
  assumes "CHR ''?'' \<notin> set p"
  shows "control_route decode parse_uuid force_of (m, p) =
    route_segments decode parse_uuid force_of (m = HttpGet) [] (split_on (CHR ''/'') p)"
proof -
  have "position (\<lambda>c. c = CHR ''?'') p = None" using assms by (auto simp: position_None)
  then show ?thesis by (simp add: control_route_def)
qed

lemma route_query:
  assumes "CHR ''?'' \<notin> set p"
  shows "control_route decode parse_uuid force_of (m, p @ CHR ''?'' # q) =
    route_segments decode parse_uuid force_of (m = HttpGet) q (split_on (CHR ''/'') p)"
proof -
  have "position (\<lambda>c. c = CHR ''?'') (p @ CHR ''?'' # q) = Some (length p)"
    using assms by (intro position_first) auto
  then show ?thesis by (simp add: control_route_def)
qed

text \<open>The laws of the codecs the routing relies on.\<close>

definition route_codecs ::
  "(string \<Rightarrow> string option) \<Rightarrow> (Uuid \<Rightarrow> string) \<Rightarrow> (string \<Rightarrow> Uuid option) \<Rightarrow> (string \<Rightarrow> bool option option) \<Rightarrow> bool" where
  "route_codecs decode show_uuid parse_uuid force_of \<longleftrightarrow>
     (\<forall>s. CHR ''%'' \<notin> set s \<longrightarrow> decode s = Some s) \<and>
     (\<forall>u. parse_uuid (show_uuid u) = Some u \<and> show_uuid u \<noteq> [] \<and>
        CHR ''/'' \<notin> set (show_uuid u) \<and> CHR ''?'' \<notin> set (show_uuid u) \<and> CHR ''%'' \<notin> set (show_uuid u)) \<and>
     force_of [] = Some None \<and> force_of ''force=true'' = Some (Some True)"

lemma disable_routed:
  assumes "route_codecs decode show_uuid parse_uuid force_of" and "validate_backend_id i = Inr ()"
  shows "control_route decode parse_uuid force_of (disable_request i force) = Some (RouteDisable i force)"
proof -
  note plain = id_plain [OF assms(2)]
  have d: "decode i = Some i" "force_of [] = Some None" "force_of ''force=true'' = Some (Some True)"
    using assms(1) plain by (simp_all add: route_codecs_def)
  show ?thesis
  proof (cases force)
    case True
    have "CHR ''?'' \<notin> set (''/control/backends/'' @ i @ ''/disable'')" using plain by simp
    from route_query [OF this, of decode parse_uuid force_of HttpPost "''force=true''"] True plain d show ?thesis
      by (simp add: disable_request_def split_on_piece route_segments_def)
  next
    case False
    with plain d show ?thesis by (simp add: disable_request_def route_plain split_on_piece route_segments_def)
  qed
qed

lemma operation_routed:
  assumes "route_codecs decode show_uuid parse_uuid force_of"
  shows "control_route decode parse_uuid force_of (operation_request show_uuid u) = Some (RouteOperation u)"
proof -
  have "show_uuid u \<noteq> []" "CHR ''/'' \<notin> set (show_uuid u)" "CHR ''?'' \<notin> set (show_uuid u)"
    "decode (show_uuid u) = Some (show_uuid u)" "parse_uuid (show_uuid u) = Some u"
    using assms by (simp_all add: route_codecs_def)
  then show ?thesis by (simp add: operation_request_def route_plain split_on_plain route_segments_def)
qed

text \<open>
  C37. Every request of the client reaches its own handler with the operator's arguments: for
  a backend identifier the configuration accepts, the path and query the client writes are
  routed to the handler of that request, with that identifier, operation or force flag.
\<close>

theorem client_requests_routed:
  assumes "route_codecs decode show_uuid parse_uuid force_of" and "validate_backend_id i = Inr ()"
  shows "let route = control_route decode parse_uuid force_of in
    route list_request = Some RouteList \<and>
    route (status_request i) = Some (RouteGet i) \<and>
    route (drain_request i) = Some (RouteDrain i) \<and>
    route (activate_request i) = Some (RouteActivate i) \<and>
    (\<forall>force. route (disable_request i force) = Some (RouteDisable i force)) \<and>
    (\<forall>u. route (operation_request show_uuid u) = Some (RouteOperation u)) \<and>
    route reload_request = Some RouteReload"
proof -
  note plain = id_plain [OF assms(2)]
  have d: "decode i = Some i" using assms(1) plain by (simp add: route_codecs_def)
  have status: "control_route decode parse_uuid force_of (status_request i) = Some (RouteGet i)"
    using plain d by (simp add: status_request_def route_plain split_on_plain route_segments_def)
  have drain: "control_route decode parse_uuid force_of (drain_request i) = Some (RouteDrain i)"
    using plain d by (simp add: drain_request_def route_plain split_on_piece split_on_plain route_segments_def)
  have activate: "control_route decode parse_uuid force_of (activate_request i) = Some (RouteActivate i)"
    using plain d by (simp add: activate_request_def route_plain split_on_piece split_on_plain route_segments_def)
  show ?thesis unfolding Let_def
    using status drain activate disable_routed [OF assms] operation_routed [OF assms(1)]
    by (simp add: list_request_def reload_request_def route_plain route_segments_def)
qed

theorem client_requests_routed_witness:
  "let decode = (\<lambda>s. if CHR ''%'' \<in> set s then None else Some s);
       parse_uuid = (\<lambda>s. Some (of_nat (digits_value s)));
       force_of = (\<lambda>q. if q = [] then Some None else if q = ''force=true'' then Some (Some True) else None) in
   control_route decode parse_uuid force_of (drain_request ''gpu-1'') = Some (RouteDrain ''gpu-1'')"
proof -
  have "route_codecs (\<lambda>s. if CHR ''%'' \<in> set s then None else Some s) (\<lambda>u. show_nat (unat u))
     (\<lambda>s. Some (of_nat (digits_value s)))
     (\<lambda>q. if q = [] then Some None else if q = ''force=true'' then Some (Some True) else None)"
  proof -
    have "c \<notin> set (show_nat n)" if "\<not> is_ascii_digit c" for c n using show_nat_digits that by blast
    moreover have "show_nat n \<noteq> []" for n by (subst show_nat.simps) simp
    ultimately show ?thesis
      by (simp add: route_codecs_def digits_value_show is_ascii_digit_def byte_def)
  qed
  moreover have "validate_backend_id ''gpu-1'' = Inr ()" by code_simp
  ultimately show ?thesis unfolding Let_def
    using client_requests_routed [of _ "\<lambda>u. show_nat (unat u)" _ _ "''gpu-1''"] unfolding Let_def by blast
qed

subsection \<open>The table is aligned\<close>

lemma chars_count_append [simp]: "chars_count (a @ b) = chars_count a + chars_count b"
  by (simp add: chars_count_def)

lemma chars_count_spaces [simp]: "chars_count (replicate n CHR '' '') = n"
  by (simp add: chars_count_def continuation_def byte_def)

lemma format_cell_width [simp]:
  "chars_count cell \<le> width \<Longrightarrow> chars_count (format_cell cell width left_aligned) = width"
  by (simp add: format_cell_def pad_left_def pad_right_def)

lemma foldr_max_ge: "x \<in> set xs \<Longrightarrow> x \<le> foldr max xs (0 :: nat)"
  by (induction xs) auto

lemma column_width_header: "chars_count (TABLE_HEADERS ! column) \<le> column_width rows column"
  by (simp add: column_width_def)

lemma column_width_row: "row \<in> set rows \<Longrightarrow> chars_count (row ! column) \<le> column_width rows column"
  by (auto simp: column_width_def intro!: max.coboundedI1 foldr_max_ge)

lemma join_column:
  "c < length cells \<Longrightarrow> \<exists>post. join sep cells = concat (map (\<lambda>x. x @ sep) (take c cells)) @ cells ! c @ post"
proof (induction sep cells arbitrary: c rule: join.induct)
  case (3 sep x y xs)
  show ?case
  proof (cases c)
    case (Suc n)
    with 3 obtain post where "join sep (y # xs) = concat (map (\<lambda>x. x @ sep) (take n (y # xs))) @ (y # xs) ! n @ post"
      by auto
    with Suc show ?thesis by auto
  qed simp
qed auto

text \<open>Where the columns of the table begin.\<close>

definition column_offset :: "string list list \<Rightarrow> nat \<Rightarrow> nat" where
  "column_offset rows column = (\<Sum>c < column. column_width rows c + 1)"

definition shows_cells :: "string list list \<Rightarrow> string list \<Rightarrow> string \<Rightarrow> bool" where
  "shows_cells rows cells line \<longleftrightarrow>
     list_all (\<lambda>c. \<exists>left cell right. line = left @ cell @ right \<and> chars_count left = column_offset rows c \<and>
        chars_count cell = column_width rows c \<and>
        cell = (let spaces = replicate (column_width rows c - chars_count (cells ! c)) CHR '' '' in
          if c < LEFT_ALIGNED_COLUMNS then cells ! c @ spaces else spaces @ cells ! c)) [0..<length cells]"

lemma columns_before:
  assumes "list_all (\<lambda>c. chars_count (cells ! c) \<le> w c) [0..<length cells]" and "c \<le> length cells"
  shows "chars_count (concat (map (\<lambda>x. x @ '' '')
      (take c (map (\<lambda>(column, cell). format_cell cell (w column) (column < k)) (enumerate 0 cells))))) =
    (\<Sum>i < c. w i + 1)"
  using assms(2)
proof (induction c)
  case (Suc c)
  let ?xs = "map (\<lambda>(column, cell). format_cell cell (w column) (column < k)) (enumerate 0 cells)"
  have "take (Suc c) ?xs = take c ?xs @ [?xs ! c]" using Suc.prems by (intro take_Suc_conv_app_nth) simp
  moreover have "?xs ! c = format_cell (cells ! c) (w c) (c < k)" using Suc.prems by (simp add: nth_enumerate_eq)
  moreover have "chars_count (cells ! c) \<le> w c" using assms(1) Suc.prems by (simp add: list_all_iff)
  ultimately show ?case
    using Suc chars_count_spaces [of 1] by (simp del: chars_count_spaces)
qed (simp add: chars_count_def)

lemma row_shows_cells:
  assumes "list_all (\<lambda>c. chars_count (cells ! c) \<le> column_width rows c) [0..<length cells]"
  shows "shows_cells rows cells (format_row (column_width rows) cells)"
  unfolding shows_cells_def list_all_iff
proof
  fix c
  assume "c \<in> set [0..<length cells]"
  then have c: "c < length cells" by simp
  let ?xs = "map (\<lambda>(column, cell). format_cell cell (column_width rows column) (column < LEFT_ALIGNED_COLUMNS))
    (enumerate 0 cells)"
  have "c < length ?xs" using c by simp
  from join_column [OF this] obtain post where
    line: "format_row (column_width rows) cells = concat (map (\<lambda>x. x @ '' '') (take c ?xs)) @ ?xs ! c @ post"
    unfolding format_row_def by blast
  have cell: "?xs ! c = format_cell (cells ! c) (column_width rows c) (c < LEFT_ALIGNED_COLUMNS)"
    using c by (simp add: nth_enumerate_eq)
  have fits: "chars_count (cells ! c) \<le> column_width rows c" using assms c by (simp add: list_all_iff)
  have "chars_count (concat (map (\<lambda>x. x @ '' '') (take c ?xs))) = column_offset rows c"
    using columns_before [OF assms] c by (simp add: column_offset_def)
  then show "\<exists>left cell right. format_row (column_width rows) cells = left @ cell @ right \<and>
      chars_count left = column_offset rows c \<and> chars_count cell = column_width rows c \<and>
      cell = (let spaces = replicate (column_width rows c - chars_count (cells ! c)) CHR '' '' in
          if c < LEFT_ALIGNED_COLUMNS then cells ! c @ spaces else spaces @ cells ! c)"
    using line cell fits
    by (intro exI [of _ "concat (map (\<lambda>x. x @ '' '') (take c ?xs))"] exI [of _ "?xs ! c"] exI [of _ post])
      (simp add: format_cell_def pad_left_def pad_right_def Let_def)
qed

text \<open>
  The table of backends has a heading and one line per backend in their order, and no value
  pushes a row out of alignment: every column begins at the same offset on every line, is as
  wide as its widest entry, and shows each entry in full, the texts to the left and the
  numbers to the right of their column.
\<close>

theorem table_aligned:
  "let rows = map table_row views in
   list_all2 (shows_cells rows) (TABLE_HEADERS # rows) (render_backend_table views)"
  unfolding render_backend_table_def Let_def list.rel_inject
proof (intro conjI)
  let ?rows = "map table_row views"
  show "shows_cells ?rows TABLE_HEADERS (format_row (column_width ?rows) TABLE_HEADERS)"
    by (rule row_shows_cells) (simp add: list_all_iff column_width_header)
  have "list_all (\<lambda>row. shows_cells ?rows row (format_row (column_width ?rows) row)) ?rows"
    by (auto simp: list_all_iff intro!: row_shows_cells column_width_row)
  then show "list_all2 (shows_cells ?rows) ?rows (map (format_row (column_width ?rows)) ?rows)"
    by (simp add: list_all_iff list_all2_conv_all_nth)
qed

subsection \<open>The wait ends\<close>

text \<open>What a signal and what a single turn decides, without the lines it prints.\<close>

fun signal_end :: "ctrl_c \<Rightarrow> drain_wait_error + drain_wait_result" where
  "signal_end CtrlC = Inr Detached"
| "signal_end (CtrlCError e) = Inl (SignalFailed e)"

lemma signal_end_not_safe [simp]: "signal_end c \<noteq> Inr SafeToStop"
  by (cases c) simp_all

definition turn_outcome ::
  "client_texts \<Rightarrow> DrainStartedResponse \<Rightarrow> instant option \<Rightarrow> drain_turn
    \<Rightarrow> (drain_wait_error + drain_wait_result) option" where
  "turn_outcome tx started deadline turn =
     (if \<exists>d. deadline = Some d \<and> (d \<le> dt_now turn \<or> dt_late turn)
      then Some (Inl (WaitTimedOut (started_backend_id started) (started_operation_id started)))
      else
        (case dt_operation turn of
           Inl e \<Rightarrow> Some (Inl (WaitClient e))
         | Inr p \<Rightarrow>
             if dp_phase p = PhaseComplete \<and> dp_safe_to_stop p then Some (Inr SafeToStop)
             else if dp_phase p = PhaseFailed \<or> dp_phase p = PhaseCancelled
             then Some (Inl (DrainEnded (case dp_message p of
                 None \<Rightarrow> ''drain did not complete'' | Some m \<Rightarrow> tx_drain_message tx m)))
             else map_option signal_end (dt_signal turn)))"

lemma drain_loop_step:
  "fst (drain_loop tx started deadline previous (turn # turns)) =
    (case turn_outcome tx started deadline turn of
       Some r \<Rightarrow> Some r
     | None \<Rightarrow> fst (drain_loop tx started deadline
         (Some (case dt_operation turn of Inr p \<Rightarrow> progress_seen p | Inl _ \<Rightarrow> undefined)) turns))"
  by (auto simp: turn_outcome_def Let_def split: option.splits sum.splits DrainPhase.splits ctrl_c.splits prod.splits)

lemma drain_loop_first:
  "k < length turns \<Longrightarrow> turn_outcome tx started deadline (turns ! k) = Some r \<Longrightarrow>
   \<forall>j < k. turn_outcome tx started deadline (turns ! j) = None \<Longrightarrow>
   fst (drain_loop tx started deadline previous turns) = Some r"
proof (induction turns arbitrary: k previous)
  case (Cons turn turns)
  show ?case
  proof (cases k)
    case (Suc n)
    have "turn_outcome tx started deadline turn = None" using Cons.prems(3) Suc by force
    moreover have "\<forall>j < n. turn_outcome tx started deadline (turns ! j) = None"
    proof (intro allI impI)
      fix j assume "j < n"
      then show "turn_outcome tx started deadline (turns ! j) = None" using Cons.prems(3) Suc by force
    qed
    ultimately show ?thesis using Cons.IH [of n] Cons.prems Suc
      by (simp add: drain_loop_step del: drain_loop.simps)
  qed (use Cons.prems in \<open>simp add: drain_loop_step del: drain_loop.simps\<close>)
qed simp

text \<open>The pause between two looks at the deadline is a second or longer.\<close>

fun paced :: "instant \<Rightarrow> drain_turn list \<Rightarrow> bool" where
  "paced t [] = True"
| "paced t (turn # turns) \<longleftrightarrow> t \<le> dt_now turn \<and> paced (dt_now turn + 1000000000) turns"

lemma paced_nth: "paced t turns \<Longrightarrow> k < length turns \<Longrightarrow> t + k * 1000000000 \<le> dt_now (turns ! k)"
proof (induction turns arbitrary: t k)
  case (Cons turn turns)
  show ?case
  proof (cases k)
    case (Suc n)
    then have "dt_now turn + 1000000000 + n * 1000000000 \<le> dt_now (turns ! n)" using Cons by simp
    with Suc Cons.prems(1) show ?thesis by simp
  qed (use Cons.prems in simp)
qed simp

text \<open>
  C38. Waiting for a drain with a time limit of n seconds ends: within n + 1 turns some turn
  decides, and the wait returns what the first such turn decided. It reports the backend safe
  to stop only for a complete and safe answer that came before the deadline.
\<close>

theorem drain_wait_ends:
  assumes "drain_deadline now (Some seconds) \<noteq> None" and "paced now turns" and "unat seconds < length turns"
  shows "let deadline = now + unat seconds * 1000000000; outcome = turn_outcome tx started (Some deadline) in
    \<exists>k r printed. k \<le> unat seconds \<and> wait_for_drain tx started (Some seconds) now turns = Some (Some r, printed) \<and>
      outcome (turns ! k) = Some r \<and> (\<forall>j < k. outcome (turns ! j) = None) \<and>
      (r = Inr SafeToStop \<longrightarrow> dt_now (turns ! k) < deadline \<and> \<not> dt_late (turns ! k) \<and>
        (\<exists>p. dt_operation (turns ! k) = Inr p \<and> dp_phase p = PhaseComplete \<and> dp_safe_to_stop p))"
proof -
  let ?d = "now + unat seconds * 1000000000"
  let ?outcome = "turn_outcome tx started (Some ?d)"
  have late: "?outcome (turns ! unat seconds) \<noteq> None"
    using paced_nth [OF assms(2,3)] by (simp add: turn_outcome_def)
  define k where "k = (LEAST k. ?outcome (turns ! k) \<noteq> None)"
  have k: "?outcome (turns ! k) \<noteq> None" and le: "k \<le> unat seconds"
    unfolding k_def by (rule LeastI, rule late) (rule Least_le, rule late)
  have before: "\<forall>j < k. ?outcome (turns ! j) = None" unfolding k_def using not_less_Least by blast
  obtain r where r: "?outcome (turns ! k) = Some r" using k by blast
  have "fst (drain_loop tx started (Some ?d) None turns) = Some r"
    using drain_loop_first [OF _ r before] le assms(3) by simp
  moreover have "drain_deadline now (Some seconds) = Some (Some ?d)"
    using assms(1) by (auto simp: drain_deadline_def Let_def split: if_splits)
  ultimately have "wait_for_drain tx started (Some seconds) now turns =
      Some (Some r, snd (drain_loop tx started (Some ?d) None turns))"
    by (simp add: wait_for_drain_def prod_eq_iff)
  moreover have "r = Inr SafeToStop \<longrightarrow> dt_now (turns ! k) < ?d \<and> \<not> dt_late (turns ! k) \<and>
      (\<exists>p. dt_operation (turns ! k) = Inr p \<and> dp_phase p = PhaseComplete \<and> dp_safe_to_stop p)"
    using r by (auto simp: turn_outcome_def not_le split: if_splits sum.splits)
  ultimately show ?thesis unfolding Let_def using le r before
    by (intro exI [of _ k] exI [of _ r] exI [of _ "snd (drain_loop tx started (Some ?d) None turns)"]) simp
qed

definition demo_started :: DrainStartedResponse where
  "demo_started = \<lparr>started_operation_id = 7, started_backend_id = ''gpu-1'', started_mode = Draining,
     started_safe_to_stop = False\<rparr>"

definition demo_progress :: "DrainPhase \<Rightarrow> bool \<Rightarrow> DrainProgress" where
  "demo_progress phase safe = \<lparr>dp_operation_id = 7, dp_backend_id = ''gpu-1'', dp_phase = phase, dp_safe_to_stop = safe,
     dp_elapsed_ms = 61000, dp_proxy_active = 0, dp_engine_running = Some 0, dp_engine_waiting = None,
     dp_telemetry = Fresh, dp_message = None\<rparr>"

definition demo_turn :: "nat \<Rightarrow> DrainProgress \<Rightarrow> drain_turn" where
  "demo_turn s p = \<lparr>dt_now = s * 1000000000, dt_late = False, dt_operation = Inr p, dt_signal = None\<rparr>"

definition demo_texts :: client_texts where
  "demo_texts = \<lparr>tx_uuid = (\<lambda>u. show_nat (unat u)), tx_status = show_nat, tx_drain_message = (\<lambda>_. ''ended''),
     tx_action_message = (\<lambda>_. ''done''), tx_pretty_list = (\<lambda>_. Inr ''list''), tx_pretty_view = (\<lambda>_. Inr ''view'')\<rparr>"

theorem drain_wait_ends_witness:
  "let turns = [demo_turn 1 (demo_progress PhaseDraining False), demo_turn 2 (demo_progress PhaseComplete True),
       demo_turn 3 (demo_progress PhaseComplete True)] in
   \<exists>printed. wait_for_drain demo_texts demo_started (Some 2) 1000000000 turns = Some (Some (Inr SafeToStop), printed)"
proof -
  let ?turns = "[demo_turn 1 (demo_progress PhaseDraining False), demo_turn 2 (demo_progress PhaseComplete True),
    demo_turn 3 (demo_progress PhaseComplete True)]"
  let ?outcome = "turn_outcome demo_texts demo_started (Some 3000000000)"
  have outcomes: "?outcome (?turns ! 0) = None" "?outcome (?turns ! Suc 0) = Some (Inr SafeToStop)"
    by (simp_all add: turn_outcome_def demo_turn_def demo_progress_def)
  have "drain_deadline 1000000000 (Some 2) \<noteq> None" "paced 1000000000 ?turns" "unat (2 :: u64) < length ?turns"
    by (simp_all add: drain_deadline_def MAX_INSTANT_SECONDS_def demo_turn_def)
  from drain_wait_ends [OF this, of demo_texts demo_started]
  obtain k r printed where k: "wait_for_drain demo_texts demo_started (Some 2) 1000000000 ?turns = Some (Some r, printed)"
      "?outcome (?turns ! k) = Some r" "\<forall>j < k. ?outcome (?turns ! j) = None"
    by (auto simp: Let_def)
  have "k \<noteq> 0" using k(2) outcomes(1) by (metis option.distinct(1))
  moreover have "\<not> Suc 0 < k" using k(3) outcomes(2) by (metis option.distinct(1))
  ultimately have "k = Suc 0" by simp
  then have "r = Inr SafeToStop" using k(2) outcomes(2) by simp
  with k(1) show ?thesis unfolding Let_def by blast
qed

text \<open>
  A time limit beyond the range of an instant makes the wait panic after the drain has been
  started: the command line accepts every number of seconds from one on.
\<close>

theorem drain_timeout_overflows: "wait_for_drain tx started (Some (2 ^ 63)) now turns = None"
  by (simp add: wait_for_drain_def drain_deadline_def MAX_INSTANT_SECONDS_def Let_def)

end
