(* ===== verification/Backend_Manager.thy ===== *)
theory Backend_Manager
  imports Backend_Client Terminal
begin

text \<open>
  The interactive backend manager (\<open>src/src/backend_manage.rs\<close>) as a state machine over the
  keys the operator presses and the answers of the control socket, with the requests it
  sends, and the commands of the operator's client (\<open>run_async\<close> of \<open>src/src/backend_cli.rs\<close>).
  Drawing is presentation and not modelled; the texts of the status line are.
\<close>

subsection \<open>State\<close>

datatype ManagerMode = ManagerBrowse | ConfirmDrain | ConfirmDisable

record BackendApp =
  bm_response :: BackendListResponse
  bm_selected :: nat
  bm_mode :: ManagerMode
  bm_show_help :: bool
  bm_status :: string
  bm_table_scroll :: u16
  bm_last_refresh :: instant
  bm_quit :: bool

text \<open>The answers of the server to the requests of one turn.\<close>

record client_answers =
  ca_list :: "ClientError + BackendListResponse"
  ca_status :: "string \<Rightarrow> ClientError + BackendView"
  ca_drain :: "string \<Rightarrow> ClientError + DrainStartedResponse"
  ca_activate :: "string \<Rightarrow> ClientError + ActionResponse"
  ca_disable :: "string \<Rightarrow> bool \<Rightarrow> ClientError + ActionResponse"
  ca_reload :: "ClientError + ReloadResponse"

definition REFRESH_INTERVAL :: duration where
  "REFRESH_INTERVAL = 1000000000"

definition MIDDLE_DOT :: string where
  "MIDDLE_DOT = [CHR 0xC2, CHR 0xB7]"

definition backend_app_new :: "instant \<Rightarrow> BackendListResponse \<Rightarrow> BackendApp" where
  "backend_app_new now response =
     \<lparr>bm_response = response, bm_selected = 0, bm_mode = ManagerBrowse, bm_show_help = False,
      bm_status = ''Connected '' @ MIDDLE_DOT @ '' runtime revision '' @
        show_nat (unat (list_runtime_revision response)) @ '' '' @ MIDDLE_DOT @ '' '' @ list_routing_policy response,
      bm_table_scroll = 0, bm_last_refresh = now, bm_quit = False\<rparr>"

definition bm_backends :: "BackendApp \<Rightarrow> BackendView list" where
  "bm_backends app = list_backends_of (bm_response app)"

definition selected_backend :: "BackendApp \<Rightarrow> BackendView option" where
  "selected_backend app =
     (if bm_selected app < length (bm_backends app) then Some (bm_backends app ! bm_selected app) else None)"

subsection \<open>Requests of the manager\<close>

text \<open>An operation returns the application and the requests it sent.\<close>

type_synonym bm_result = "BackendApp \<times> control_request list"

definition bm_refresh :: "client_texts \<Rightarrow> client_answers \<Rightarrow> instant \<Rightarrow> bool \<Rightarrow> BackendApp \<Rightarrow> bm_result" where
  "bm_refresh tx answers now announce app =
     (let selected_id = map_option view_id (selected_backend app);
          app' = (case ca_list answers of
              Inr response \<Rightarrow>
                app\<lparr>bm_response := response,
                    bm_selected :=
                      (case Option.bind selected_id
                          (\<lambda>i. position (\<lambda>b. view_id b = i) (list_backends_of response)) of
                         Some k \<Rightarrow> k
                       | None \<Rightarrow> min (bm_selected app) (length (list_backends_of response) - 1)),
                    bm_status := (if announce then ''Refreshed live backend state.'' else bm_status app)\<rparr>
            | Inl e \<Rightarrow> app\<lparr>bm_status := ''Refresh failed: '' @ show_client_error (tx_status tx) e\<rparr>) in
      (app'\<lparr>bm_last_refresh := now\<rparr>, [list_request]))"

text \<open>Show a status and refresh, after a request that succeeded.\<close>

definition bm_done ::
  "client_texts \<Rightarrow> client_answers \<Rightarrow> instant \<Rightarrow> control_request \<Rightarrow> string \<Rightarrow> BackendApp \<Rightarrow> bm_result" where
  "bm_done tx answers now request message app =
     (let (app', requests) = bm_refresh tx answers now False (app\<lparr>bm_status := message\<rparr>) in
      (app', request # requests))"

definition bm_failed :: "client_texts \<Rightarrow> control_request \<Rightarrow> string \<Rightarrow> ClientError \<Rightarrow> BackendApp \<Rightarrow> bm_result" where
  "bm_failed tx request message e app =
     (app\<lparr>bm_status := message @ '': '' @ show_client_error (tx_status tx) e\<rparr>, [request])"

definition bm_start_drain :: "client_texts \<Rightarrow> client_answers \<Rightarrow> instant \<Rightarrow> BackendApp \<Rightarrow> bm_result" where
  "bm_start_drain tx answers now app =
     (case selected_backend app of
        None \<Rightarrow> (app, [])
      | Some v \<Rightarrow>
          (let i = view_id v in
           case ca_drain answers i of
             Inr started \<Rightarrow>
               bm_done tx answers now (drain_request i)
                 (if started_safe_to_stop started then i @ '' is disabled and safe to stop.''
                  else i @ '' is draining '' @ MIDDLE_DOT @ '' operation '' @ tx_uuid tx (started_operation_id started) @
                    '' '' @ MIDDLE_DOT @ '' the drain continues if you quit'') app
           | Inl e \<Rightarrow> bm_failed tx (drain_request i) (''Could not drain '' @ i) e app))"

definition bm_force_disable :: "client_texts \<Rightarrow> client_answers \<Rightarrow> instant \<Rightarrow> BackendApp \<Rightarrow> bm_result" where
  "bm_force_disable tx answers now app =
     (case selected_backend app of
        None \<Rightarrow> (app, [])
      | Some v \<Rightarrow>
          (let i = view_id v in
           case ca_disable answers i True of
             Inr response \<Rightarrow>
               bm_done tx answers now (disable_request i True)
                 (i @ '': '' @ tx_action_message tx (action_message response)) app
           | Inl e \<Rightarrow> bm_failed tx (disable_request i True) (''Could not disable '' @ i) e app))"

definition bm_activate :: "client_texts \<Rightarrow> client_answers \<Rightarrow> instant \<Rightarrow> BackendApp \<Rightarrow> bm_result" where
  "bm_activate tx answers now app =
     (case selected_backend app of
        None \<Rightarrow> (app, [])
      | Some v \<Rightarrow>
          (let i = view_id v in
           case ca_activate answers i of
             Inr response \<Rightarrow>
               bm_done tx answers now (activate_request i)
                 (i @ '': '' @ tx_action_message tx (action_message response)) app
           | Inl e \<Rightarrow> bm_failed tx (activate_request i) (''Could not activate '' @ i) e app))"

definition bm_reload :: "client_texts \<Rightarrow> client_answers \<Rightarrow> instant \<Rightarrow> BackendApp \<Rightarrow> bm_result" where
  "bm_reload tx answers now app =
     (case ca_reload answers of
        Inr response \<Rightarrow>
          bm_done tx answers now reload_request
            (''Applied runtime revision '' @ show_nat (unat (reload_revision response)) @ '' '' @ MIDDLE_DOT @ '' +'' @
             show_nat (length (reload_added response)) @ '' revived '' @ show_nat (length (reload_revived response)) @
             '' updated '' @ show_nat (length (reload_updated response)) @ '' retired '' @
             show_nat (length (reload_retired response))) app
      | Inl e \<Rightarrow> bm_failed tx reload_request ''Runtime reload failed'' e app)"

subsection \<open>Keys\<close>

definition ask_drain :: "BackendApp \<Rightarrow> BackendApp" where
  "ask_drain app =
     (case selected_backend app of
        None \<Rightarrow> app
      | Some v \<Rightarrow>
          if view_mode v = Active
          then app\<lparr>bm_mode := ConfirmDrain,
            bm_status := ''Drain '' @ view_id v @ ''? It will stop receiving new requests immediately. y / n''\<rparr>
          else app\<lparr>bm_status := view_id v @ '' is already '' @ display_mode (view_mode v) @ ''.''\<rparr>)"

definition ask_disable :: "BackendApp \<Rightarrow> BackendApp" where
  "ask_disable app =
     (case selected_backend app of
        None \<Rightarrow> app
      | Some v \<Rightarrow>
          if view_mode v = Disabled then app\<lparr>bm_status := view_id v @ '' is already disabled.''\<rparr>
          else app\<lparr>bm_mode := ConfirmDisable,
            bm_status := ''Force-disable '' @ view_id v @ ''? In-flight requests are not waited for. y / n''\<rparr>)"

definition bm_browse :: "client_texts \<Rightarrow> client_answers \<Rightarrow> instant \<Rightarrow> KeyCode \<Rightarrow> BackendApp \<Rightarrow> bm_result" where
  "bm_browse tx answers now code app =
     (if code = KeyUp \<or> code = KeyChar ''k'' then (app\<lparr>bm_selected := bm_selected app - 1\<rparr>, [])
      else if code = KeyDown \<or> code = KeyChar ''j''
        then (app\<lparr>bm_selected := min (bm_selected app + 1) (length (bm_backends app) - 1)\<rparr>, [])
      else if code = KeyLeft \<or> code = KeyChar ''h''
        then (app\<lparr>bm_table_scroll := saturating_sub (bm_table_scroll app) SCROLL_STEP\<rparr>, [])
      else if code = KeyRight \<or> code = KeyChar ''l''
        then (app\<lparr>bm_table_scroll := saturating_add (bm_table_scroll app) SCROLL_STEP\<rparr>, [])
      else if code = KeyHome then (app\<lparr>bm_selected := 0\<rparr>, [])
      else if code = KeyEnd then (app\<lparr>bm_selected := length (bm_backends app) - 1\<rparr>, [])
      else if code = KeyChar ''d'' then (ask_drain app, [])
      else if code = KeyChar ''D'' then (ask_disable app, [])
      else if code = KeyChar ''?'' then (app\<lparr>bm_show_help := \<not> bm_show_help app\<rparr>, [])
      else if code = KeyChar ''a'' then bm_activate tx answers now app
      else if code = KeyChar ''r'' then bm_reload tx answers now app
      else if code = KeyChar ''R'' then bm_refresh tx answers now True app
      else if code = KeyChar ''q'' \<or> code = KeyEsc then (app\<lparr>bm_quit := True\<rparr>, [])
      else (app, []))"

definition confirms :: "KeyCode \<Rightarrow> bool" where
  "confirms code \<longleftrightarrow> code = KeyChar ''y'' \<or> code = KeyChar ''Y''"

definition bm_handle :: "client_texts \<Rightarrow> client_answers \<Rightarrow> instant \<Rightarrow> KeyCode \<Rightarrow> BackendApp \<Rightarrow> bm_result" where
  "bm_handle tx answers now code app =
     (if bm_show_help app
      then (if code = KeyChar ''?'' \<or> code = KeyChar ''q'' \<or> code = KeyEsc then app\<lparr>bm_show_help := False\<rparr> else app, [])
      else
        (case bm_mode app of
           ConfirmDrain \<Rightarrow>
             if confirms code then bm_start_drain tx answers now (app\<lparr>bm_mode := ManagerBrowse\<rparr>)
             else (app\<lparr>bm_mode := ManagerBrowse, bm_status := ''Drain cancelled.''\<rparr>, [])
         | ConfirmDisable \<Rightarrow>
             if confirms code then bm_force_disable tx answers now (app\<lparr>bm_mode := ManagerBrowse\<rparr>)
             else (app\<lparr>bm_mode := ManagerBrowse, bm_status := ''Force-disable cancelled.''\<rparr>, [])
         | ManagerBrowse \<Rightarrow> bm_browse tx answers now code app))"

subsection \<open>The loop\<close>

text \<open>
  One turn: the event polled, if any, with the answers and the time of its handler, then the
  time when the age of the list is looked at and the answers and the time of that refresh.
\<close>

record bm_turn =
  mt_event :: "term_event option"
  mt_answers :: client_answers
  mt_now :: instant
  mt_tick :: instant
  mt_tick_answers :: client_answers
  mt_refreshed :: instant

definition bm_tick :: "client_texts \<Rightarrow> bm_turn \<Rightarrow> BackendApp \<Rightarrow> bm_result" where
  "bm_tick tx turn app =
     (if REFRESH_INTERVAL \<le> saturating_duration_since (mt_tick turn) (bm_last_refresh app)
      then bm_refresh tx (mt_tick_answers turn) (mt_refreshed turn) False app else (app, []))"

definition bm_step :: "client_texts \<Rightarrow> bm_turn \<Rightarrow> BackendApp \<Rightarrow> bm_result" where
  "bm_step tx turn app =
     (let ticked = (\<lambda>(app, sent). let (app', sent') = bm_tick tx turn app in (app', sent @ sent')) in
      case mt_event turn of
        Some (KeyEvent press control code) \<Rightarrow>
          if \<not> press then ticked (app, [])
          else if control \<and> code = KeyChar ''c'' then (app\<lparr>bm_quit := True\<rparr>, [])
          else ticked (bm_handle tx (mt_answers turn) (mt_now turn) code app)
      | _ \<Rightarrow> ticked (app, []))"

fun bm_run :: "client_texts \<Rightarrow> bm_turn list \<Rightarrow> BackendApp \<Rightarrow> bm_result" where
  "bm_run tx [] app = (app, [])"
| "bm_run tx (turn # turns) app =
     (if bm_quit app then (app, [])
      else
        (let (app1, sent1) = bm_step tx turn app; (app2, sent2) = bm_run tx turns app1 in
         (app2, sent1 @ sent2)))"

datatype backend_manage_error = ManageNeedsTerminal | ManageClient ClientError

definition backend_manage ::
  "client_texts \<Rightarrow> bool \<Rightarrow> client_answers \<Rightarrow> instant \<Rightarrow> bm_turn list \<Rightarrow> backend_manage_error + bm_result" where
  "backend_manage tx terminal answers now turns =
     (if \<not> terminal then Inl ManageNeedsTerminal
      else
        (case ca_list answers of
           Inl e \<Rightarrow> Inl (ManageClient e)
         | Inr response \<Rightarrow> Inr (bm_run tx turns (backend_app_new now response))))"

subsection \<open>What is drawn\<close>

definition percent :: "f64 option \<Rightarrow> string" where
  "percent v = (case v of None \<Rightarrow> ''-'' | Some x \<Rightarrow> format_fixed 0 (percent_of x) @ ''%'')"

definition age :: "u64 option \<Rightarrow> string" where
  "age v = (case v of None \<Rightarrow> ''-'' | Some ms \<Rightarrow> format_age ms)"

datatype Colour = DarkGray | Yellow | Green | Red

definition row_colour :: "BackendView \<Rightarrow> Colour" where
  "row_colour v =
     (case view_mode v of
        Disabled \<Rightarrow> DarkGray
      | Draining \<Rightarrow> Yellow
      | Active \<Rightarrow> if view_eligible v then Green else Red)"

definition manager_row :: "BackendView \<Rightarrow> string list" where
  "manager_row v =
     [view_id v, display_mode (view_mode v), display_backend_state (view_state v), show_nat (view_proxy_active v),
      run_capacity v, optional_count (view_waiting v), percent (view_kv_ratio v), decimal 1 (view_token_rate v),
      decimal 1 (view_prefill_token_rate v), decimal 1 (view_decode_token_rate v), decimal 2 (view_pressure v),
      age (view_metrics_age_ms v)]"

definition bm_title :: "BackendApp \<Rightarrow> string" where
  "bm_title app =
     '' mistralrs_proxy backends '' @ MIDDLE_DOT @ '' '' @ show_nat (length (bm_backends app)) @ '' backend'' @
     (if length (bm_backends app) = 1 then [] else ''s'') @ '' '' @ MIDDLE_DOT @ '' rev '' @
     show_nat (unat (list_runtime_revision (bm_response app))) @ '' '' @ MIDDLE_DOT @ '' '' @
     list_routing_policy (bm_response app) @ '' ''"

definition bm_details :: "BackendApp \<Rightarrow> string" where
  "bm_details app =
     (case selected_backend app of
        None \<Rightarrow> ''No configured backends.''
      | Some v \<Rightarrow>
          view_id v @ [newline] @ ''URL: '' @ view_url v @ [newline] @
          ''readiness: '' @ display_readiness (view_readiness v) @ '' ('' @ age (view_readiness_age_ms v) @
          '')   telemetry: '' @ display_telemetry (view_telemetry v) @ '' ('' @ age (view_metrics_age_ms v) @
          '')   circuit: '' @ display_circuit (view_circuit v) @ [newline] @
          ''proxy active: '' @ show_nat (view_proxy_active v) @ ''   oldest: '' @ age (view_oldest_proxy_request_ms v) @
          ''   engine: '' @ optional_count (view_running v) @ '' running / '' @ optional_count (view_waiting v) @
          '' waiting / '' @ optional_count (view_effective_capacity v) @ '' capacity'' @ [newline] @
          ''KV: '' @ percent (view_kv_ratio v) @ ''   prefill: '' @ decimal 1 (view_prefill_token_rate v) @
          ''/s   decode: '' @ decimal 1 (view_decode_token_rate v) @ ''/s   tokens/s: '' @
          decimal 1 (view_token_rate v) @ ''   pressure: '' @ decimal 3 (view_pressure v) @ [newline] @
          (case view_readiness_error v of None \<Rightarrow> [] | Some e \<Rightarrow> ''readiness error: '' @ e @ [newline]) @
          (case view_metrics_error v of None \<Rightarrow> [] | Some e \<Rightarrow> ''metrics error: '' @ e))"

definition bm_help_text :: "BackendApp \<Rightarrow> string" where
  "bm_help_text app =
     (if bm_mode app = ConfirmDrain then ''Drain selected backend? y / n''
      else if bm_mode app = ConfirmDisable then ''Force-disable selected backend? y / n''
      else if bm_show_help app then ''Press ?, q, or Esc to close help''
      else [CHR 0xE2, CHR 0x86, CHR 0x91] @ ''/'' @ [CHR 0xE2, CHR 0x86, CHR 0x93] @ '' move '' @
        [CHR 0xE2, CHR 0x86, CHR 0x90] @ ''/'' @ [CHR 0xE2, CHR 0x86, CHR 0x92] @
        '' scroll d drain D force-disable a activate r reload R refresh ? help q quit'')"

text \<open>Where the help is laid over the screen.\<close>

definition help_overlay :: "Rect \<Rightarrow> Rect" where
  "help_overlay area =
     (let width = min (saturating_sub (rc_width area) 8) 56;
          height = min (saturating_sub (rc_height area) 4) 14 in
      \<lparr>rc_x = rc_x area + saturating_sub (rc_width area) width div 2,
       rc_y = rc_y area + saturating_sub (rc_height area) height div 2,
       rc_width = width, rc_height = height\<rparr>)"

subsection \<open>The commands\<close>

datatype BackendCommand =
    CmdList bool | CmdStatus "string option" bool bool | CmdManage | CmdDrain string bool "u64 option"
  | CmdDisable string bool | CmdActivate string | CmdReload

text \<open>How a command ends: \<open>Running\<close> after the turns given, or with a panic.\<close>

datatype command_end = CommandOk | CommandFails string | CommandPanics | Running

definition print_status ::
  "client_texts \<Rightarrow> client_answers \<Rightarrow> string option \<Rightarrow> bool \<Rightarrow> string + string list" where
  "print_status tx answers backend json =
     (case backend of
        Some i \<Rightarrow>
          (case ca_status answers i of
             Inl e \<Rightarrow> Inl (show_client_error (tx_status tx) e)
           | Inr v \<Rightarrow> if json then map_sum (\<lambda>e. e) (\<lambda>t. [t]) (tx_pretty_view tx v) else Inr (backend_detail v))
      | None \<Rightarrow>
          (case ca_list answers of
             Inl e \<Rightarrow> Inl (show_client_error (tx_status tx) e)
           | Inr r \<Rightarrow> if json then map_sum (\<lambda>e. e) (\<lambda>t. [t]) (tx_pretty_list tx r)
               else Inr (render_backend_table (list_backends_of r))))"

text \<open>A turn of \<open>--watch\<close>: the answers, and whether a signal ends the pause.\<close>

fun watch_status ::
  "client_texts \<Rightarrow> string option \<Rightarrow> bool \<Rightarrow> bool \<Rightarrow> (client_answers \<times> bool) list \<Rightarrow> command_end \<times> string list" where
  "watch_status tx backend watch json [] = (Running, [])"
| "watch_status tx backend watch json ((answers, interrupted) # turns) =
     (case print_status tx answers backend json of
        Inl e \<Rightarrow> (CommandFails e, [])
      | Inr printed \<Rightarrow>
          if \<not> watch \<or> interrupted then (CommandOk, printed)
          else (let (r, more) = watch_status tx backend watch json turns in (r, printed @ more)))"

definition show_wait_error :: "client_texts \<Rightarrow> drain_wait_error \<Rightarrow> string" where
  "show_wait_error tx e =
     (case e of
        WaitTimedOut i u \<Rightarrow>
          ''timed out waiting for '' @ i @ ''; it remains draining (operation '' @ tx_uuid tx u @ '')''
      | WaitClient c \<Rightarrow> show_client_error (tx_status tx) c
      | DrainEnded m \<Rightarrow> m
      | SignalFailed m \<Rightarrow> m)"

definition run_drain ::
  "client_texts \<Rightarrow> client_answers \<Rightarrow> string \<Rightarrow> bool \<Rightarrow> u64 option \<Rightarrow> instant \<Rightarrow> drain_turn list
    \<Rightarrow> command_end \<times> string list" where
  "run_drain tx answers backend no_wait timeout_seconds now turns =
     (case ca_drain answers backend of
        Inl e \<Rightarrow> (CommandFails (show_client_error (tx_status tx) e), [])
      | Inr started \<Rightarrow>
          (let line = started_backend_id started @ '': '' @ display_mode (started_mode started) @ ''; operation '' @
                 tx_uuid tx (started_operation_id started) in
           if started_safe_to_stop started then (CommandOk, [line, started_backend_id started @ '': safe to stop''])
           else if no_wait then (CommandOk, [line])
           else
             (case wait_for_drain tx started timeout_seconds now turns of
                None \<Rightarrow> (CommandPanics, [line])
              | Some (r, printed) \<Rightarrow>
                  (case r of None \<Rightarrow> Running | Some (Inr _) \<Rightarrow> CommandOk
                     | Some (Inl e) \<Rightarrow> CommandFails (show_wait_error tx e), line # printed))))"

definition print_action :: "client_texts \<Rightarrow> ClientError + ActionResponse \<Rightarrow> command_end \<times> string list" where
  "print_action tx answer =
     (case answer of
        Inl e \<Rightarrow> (CommandFails (show_client_error (tx_status tx) e), [])
      | Inr r \<Rightarrow> (CommandOk, [action_backend_id r @ '': '' @ tx_action_message tx (action_message r)]))"

text \<open>What a command meets: answers, turns of its loops, the clock and the terminal.\<close>

record command_env =
  ce_answers :: client_answers
  ce_watch :: "(client_answers \<times> bool) list"
  ce_now :: instant
  ce_turns :: "drain_turn list"
  ce_terminal :: bool
  ce_manage :: "bm_turn list"

definition run_async :: "client_texts \<Rightarrow> command_env \<Rightarrow> BackendCommand \<Rightarrow> command_end \<times> string list" where
  "run_async tx env command =
     (case command of
        CmdList json \<Rightarrow>
          (case print_status tx (ce_answers env) None json of
             Inl e \<Rightarrow> (CommandFails e, []) | Inr printed \<Rightarrow> (CommandOk, printed))
      | CmdStatus backend watch json \<Rightarrow> watch_status tx backend watch json (ce_watch env)
      | CmdDrain backend no_wait timeout_seconds \<Rightarrow>
          run_drain tx (ce_answers env) backend no_wait timeout_seconds (ce_now env) (ce_turns env)
      | CmdDisable backend force \<Rightarrow> print_action tx (ca_disable (ce_answers env) backend force)
      | CmdActivate backend \<Rightarrow> print_action tx (ca_activate (ce_answers env) backend)
      | CmdReload \<Rightarrow>
          (case ca_reload (ce_answers env) of
             Inl e \<Rightarrow> (CommandFails (show_client_error (tx_status tx) e), [])
           | Inr r \<Rightarrow>
               (CommandOk,
                [''runtime revision '' @ show_nat (unat (reload_revision r)) @ '' applied'',
                 changes_line ''added'' (reload_added r), changes_line ''revived'' (reload_revived r),
                 changes_line ''updated'' (reload_updated r), changes_line ''retired'' (reload_retired r)]))
      | CmdManage \<Rightarrow>
          (case backend_manage tx (ce_terminal env) (ce_answers env) (ce_now env) (ce_manage env) of
             Inl ManageNeedsTerminal \<Rightarrow> (CommandFails ''`backend manage` needs an interactive terminal'', [])
           | Inl (ManageClient e) \<Rightarrow> (CommandFails (show_client_error (tx_status tx) e), [])
           | Inr (app, _) \<Rightarrow> (if bm_quit app then CommandOk else Running, [])))"

subsection \<open>The selection\<close>

definition selection_ok :: "BackendApp \<Rightarrow> bool" where
  "selection_ok app \<longleftrightarrow> bm_selected app \<le> length (bm_backends app) - 1"

lemma selected_backend_fields [simp]:
  "selected_backend (app\<lparr>bm_mode := m\<rparr>) = selected_backend app"
  "selected_backend (app\<lparr>bm_status := st\<rparr>) = selected_backend app"
  "selected_backend (app\<lparr>bm_last_refresh := t\<rparr>) = selected_backend app"
  by (simp_all add: selected_backend_def bm_backends_def)

lemma selection_ok_iff: "selection_ok app \<Longrightarrow> selected_backend app = None \<longleftrightarrow> bm_backends app = []"
  by (cases "bm_backends app") (auto simp: selected_backend_def selection_ok_def)

lemma position_less: "position P xs = Some k \<Longrightarrow> k \<le> length xs - Suc 0"
  using position_Some [of P xs k] by auto

lemma refresh_selection: "selection_ok app \<Longrightarrow> selection_ok (fst (bm_refresh tx answers now announce app))"
  by (auto simp: bm_refresh_def Let_def selection_ok_def bm_backends_def bind_eq_Some_conv position_less
      split: sum.splits option.splits)

lemma done_selection: "selection_ok app \<Longrightarrow> selection_ok (fst (bm_done tx answers now request message app))"
  using refresh_selection [of "app\<lparr>bm_status := message\<rparr>" tx answers now False]
  by (simp add: bm_done_def selection_ok_def bm_backends_def case_prod_beta Let_def)

lemma failed_selection: "selection_ok app \<Longrightarrow> selection_ok (fst (bm_failed tx request message e app))"
  by (simp add: bm_failed_def selection_ok_def bm_backends_def)

lemmas manager_selection_rules = refresh_selection done_selection failed_selection

lemma requests_selection:
  assumes "selection_ok app"
  shows "selection_ok (fst (bm_start_drain tx answers now app))"
    and "selection_ok (fst (bm_force_disable tx answers now app))"
    and "selection_ok (fst (bm_activate tx answers now app))"
    and "selection_ok (fst (bm_reload tx answers now app))"
  using assms
  by (simp_all add: bm_start_drain_def bm_force_disable_def bm_activate_def bm_reload_def Let_def
      manager_selection_rules split: option.splits sum.splits)

lemma asked_selection:
  "selection_ok (ask_drain app) = selection_ok app" "selection_ok (ask_disable app) = selection_ok app"
  by (auto simp: ask_drain_def ask_disable_def selection_ok_def bm_backends_def split: option.splits)

lemma selection_ok_fields [simp]:
  "selection_ok (app\<lparr>bm_mode := m\<rparr>) = selection_ok app" "selection_ok (app\<lparr>bm_status := st\<rparr>) = selection_ok app"
  "selection_ok (app\<lparr>bm_show_help := h\<rparr>) = selection_ok app" "selection_ok (app\<lparr>bm_quit := q\<rparr>) = selection_ok app"
  "selection_ok (app\<lparr>bm_table_scroll := c\<rparr>) = selection_ok app"
  by (simp_all add: selection_ok_def bm_backends_def)

lemma moved_selection:
  "selection_ok app \<Longrightarrow> selection_ok (app\<lparr>bm_selected := bm_selected app - 1\<rparr>)"
  "selection_ok (app\<lparr>bm_selected := min k (length (bm_backends app) - 1)\<rparr>)"
  "selection_ok (app\<lparr>bm_selected := 0\<rparr>)" "selection_ok (app\<lparr>bm_selected := length (bm_backends app) - 1\<rparr>)"
  by (auto simp: selection_ok_def bm_backends_def)

lemma browse_selection: "selection_ok app \<Longrightarrow> selection_ok (fst (bm_browse tx answers now code app))"
  unfolding bm_browse_def
  by (simp add: requests_selection asked_selection moved_selection refresh_selection del: One_nat_def)

lemma handle_selection: "selection_ok app \<Longrightarrow> selection_ok (fst (bm_handle tx answers now code app))"
  by (simp add: bm_handle_def requests_selection browse_selection split: ManagerMode.split)

lemma tick_selection: "selection_ok app \<Longrightarrow> selection_ok (fst (bm_tick tx turn app))"
  by (simp add: bm_tick_def refresh_selection)

lemma step_selection:
  assumes "selection_ok app"
  shows "selection_ok (fst (bm_step tx turn app))"
proof -
  have handled: "selection_ok (fst (bm_handle tx (mt_answers turn) (mt_now turn) code app))" for code
    using handle_selection [OF assms] .
  show ?thesis
    by (simp add: bm_step_def Let_def case_prod_beta tick_selection handled assms
        split: option.split term_event.split)
qed

lemma run_selection: "selection_ok app \<Longrightarrow> selection_ok (fst (bm_run tx turns app))"
proof (induction tx turns app rule: bm_run.induct)
  case (2 tx turn turns app)
  then show ?case using step_selection [OF 2(2), of tx turn]
    by (cases "bm_step tx turn app") (auto simp: case_prod_beta Let_def)
qed simp

text \<open>
  Whatever the operator presses and the server answers, the manager has a selected backend
  exactly when its list is not empty: moving, scrolling, acting and refreshing to a longer,
  shorter or empty list keep the selection on a row of the table.
\<close>

theorem manager_selection_valid:
  assumes "backend_manage tx terminal answers now turns = Inr (app, sent)"
  shows "selected_backend app = None \<longleftrightarrow> bm_backends app = []"
proof -
  obtain response where "bm_run tx turns (backend_app_new now response) = (app, sent)"
    using assms by (auto simp: backend_manage_def split: if_splits sum.splits)
  then have "app = fst (bm_run tx turns (backend_app_new now response))" by simp
  moreover have "selection_ok (backend_app_new now response)" by (simp add: selection_ok_def backend_app_new_def)
  ultimately show ?thesis using run_selection selection_ok_iff by metis
qed

subsection \<open>Confirmations\<close>

definition posts :: "control_request list \<Rightarrow> control_request list" where
  "posts sent = filter (\<lambda>r. fst r = HttpPost) sent"

lemma posts_append [simp]: "posts (a @ b) = posts a @ posts b"
  by (simp add: posts_def)

lemma posts_requests [simp]:
  "posts [] = []" "posts (list_request # sent) = posts sent"
  "posts (drain_request i # sent) = drain_request i # posts sent"
  "posts (disable_request i force # sent) = disable_request i force # posts sent"
  by (simp_all add: posts_def list_request_def drain_request_def disable_request_def)

text \<open>The manager waits for the confirmation of a request on the backend \<open>i\<close>.\<close>

definition asking :: "ManagerMode \<Rightarrow> string \<Rightarrow> BackendApp \<Rightarrow> bool" where
  "asking m i app \<longleftrightarrow> bm_mode app = m \<and> \<not> bm_show_help app \<and> \<not> bm_quit app \<and>
     map_option view_id (selected_backend app) = Some i"

definition still_listed :: "string \<Rightarrow> client_answers \<Rightarrow> bool" where
  "still_listed i answers = (case ca_list answers of Inl _ \<Rightarrow> True | Inr r \<Rightarrow> i \<in> view_id ` set (list_backends_of r))"

definition idle_turn :: "bm_turn \<Rightarrow> bool" where
  "idle_turn turn = (case mt_event turn of None \<Rightarrow> True | Some OtherEvent \<Rightarrow> True | Some (KeyEvent press _ _) \<Rightarrow> \<not> press)"

lemma position_finds:
  assumes "i \<in> f ` set xs"
  shows "\<exists>k. position (\<lambda>x. f x = i) xs = Some k \<and> k < length xs \<and> f (xs ! k) = i"
proof (cases "position (\<lambda>x. f x = i) xs")
  case None
  with assms show ?thesis by (auto simp: position_None)
next
  case (Some k)
  with position_Some [OF Some] show ?thesis by simp
qed

lemma refresh_asking:
  assumes "asking m i app" and "still_listed i answers"
  shows "asking m i (fst (bm_refresh tx answers now announce app))"
proof (cases "ca_list answers")
  case (Inr r)
  with assms(2) position_finds [of i view_id "list_backends_of r"] obtain k where
    "position (\<lambda>b. view_id b = i) (list_backends_of r) = Some k" "k < length (list_backends_of r)"
    "view_id (list_backends_of r ! k) = i" by (auto simp: still_listed_def)
  with Inr assms(1) show ?thesis
    by (simp add: asking_def bm_refresh_def Let_def selected_backend_def bm_backends_def split: if_splits)
qed (use assms(1) in \<open>simp add: asking_def bm_refresh_def Let_def\<close>)

lemma refresh_posts [simp]: "posts (snd (bm_refresh tx answers now announce app)) = []"
  by (simp add: bm_refresh_def Let_def)

lemma tick_asking:
  "asking m i app \<Longrightarrow> still_listed i (mt_tick_answers turn) \<Longrightarrow> asking m i (fst (bm_tick tx turn app))"
  by (simp add: bm_tick_def refresh_asking)

lemma tick_posts [simp]: "posts (snd (bm_tick tx turn app)) = []"
  by (simp add: bm_tick_def)

lemma idle_step: "idle_turn turn \<Longrightarrow> bm_step tx turn app = bm_tick tx turn app"
  by (auto simp: idle_turn_def bm_step_def Let_def case_prod_beta split: option.splits term_event.splits)

lemma key_step:
  "mt_event turn = Some (KeyEvent True control code) \<Longrightarrow> code \<noteq> KeyChar ''c'' \<Longrightarrow>
   bm_step tx turn app =
     (let (app1, sent1) = bm_handle tx (mt_answers turn) (mt_now turn) code app;
          (app2, sent2) = bm_tick tx turn app1 in (app2, sent1 @ sent2))"
  by (simp add: bm_step_def Let_def case_prod_beta)

lemma idle_run:
  "asking m i app \<Longrightarrow> list_all idle_turn idles \<Longrightarrow> list_all (\<lambda>t. still_listed i (mt_tick_answers t)) idles \<Longrightarrow>
   \<exists>app' sent. asking m i app' \<and> posts sent = [] \<and> (\<forall>turns. bm_run tx (idles @ turns) app =
     (let (app'', sent') = bm_run tx turns app' in (app'', sent @ sent')))"
proof (induction idles arbitrary: app)
  case Nil
  then show ?case by (intro exI [of _ app] exI [of _ "[]"]) simp
next
  case (Cons turn idles)
  let ?next = "fst (bm_tick tx turn app)"
  have "asking m i ?next" using tick_asking Cons.prems by simp
  from Cons.IH [OF this] Cons.prems obtain app' sent where ih: "asking m i app'" "posts sent = []"
    "\<forall>turns. bm_run tx (idles @ turns) ?next = (let (app'', sent') = bm_run tx turns app' in (app'', sent @ sent'))"
    by auto
  have "\<not> bm_quit app" using Cons.prems(1) by (simp add: asking_def)
  with ih Cons.prems show ?case
    by (intro exI [of _ app'] exI [of _ "snd (bm_tick tx turn app) @ sent"])
      (simp add: idle_step case_prod_beta Let_def)
qed

lemma confirmed_request:
  assumes "asking m i app" and "confirms code" and "m \<noteq> ManagerBrowse"
  shows "posts (snd (bm_handle tx answers now code app)) =
    [if m = ConfirmDrain then drain_request i else disable_request i True]"
proof -
  have sel: "map_option view_id (selected_backend (app\<lparr>bm_mode := ManagerBrowse\<rparr>)) = Some i"
    using assms(1) by (simp add: asking_def)
  then obtain v where v: "selected_backend (app\<lparr>bm_mode := ManagerBrowse\<rparr>) = Some v" "view_id v = i" by auto
  with assms show ?thesis
    by (cases m) (auto simp: asking_def bm_handle_def bm_start_drain_def bm_force_disable_def Let_def bm_done_def
        bm_failed_def case_prod_beta split: sum.splits)
qed

text \<open>The key that asks, with what it asks for.\<close>

definition asks :: "KeyCode \<Rightarrow> BackendView \<Rightarrow> ManagerMode option" where
  "asks code v =
     (if code = KeyChar ''d'' \<and> view_mode v = Active then Some ConfirmDrain
      else if code = KeyChar ''D'' \<and> view_mode v \<noteq> Disabled then Some ConfirmDisable
      else None)"

lemma asked:
  assumes "selected_backend app = Some v" and "bm_mode app = ManagerBrowse" and "\<not> bm_show_help app"
    and "\<not> bm_quit app" and "asks code v = Some m"
  shows "asking m (view_id v) (fst (bm_handle tx answers now code app)) \<and>
    snd (bm_handle tx answers now code app) = [] \<and> m \<noteq> ManagerBrowse \<and> code \<noteq> KeyChar ''c''"
  using assms
  by (auto simp: asks_def bm_handle_def bm_browse_def ask_drain_def ask_disable_def asking_def split: if_splits)

text \<open>
  C39. A confirmed request goes to the backend the operator was asked about: when the selected
  backend is asked to be drained or disabled, the operator confirms after any number of idle
  turns, and every list that arrives in between still has that backend, wherever it moved
  in the list, then the only request that changes anything is the one asked for, on that
  backend.
\<close>

theorem confirmation_reaches_asked:
  assumes "selected_backend app = Some v" and "bm_mode app = ManagerBrowse" and "\<not> bm_show_help app"
    and "\<not> bm_quit app" and "mt_event ask = Some (KeyEvent True control code)" and "asks code v = Some m"
    and "list_all idle_turn idles"
    and "list_all (\<lambda>t. still_listed (view_id v) (mt_tick_answers t)) (ask # idles)"
    and "mt_event yes = Some (KeyEvent True control' answer)" and "confirms answer"
  shows "posts (snd (bm_run tx (ask # idles @ [yes]) app)) =
    [if m = ConfirmDrain then drain_request (view_id v) else disable_request (view_id v) True]"
proof -
  let ?asked = "fst (bm_handle tx (mt_answers ask) (mt_now ask) code app)"
  note a = asked [OF assms(1-4,6), of tx "mt_answers ask" "mt_now ask"]
  have step: "bm_step tx ask app = bm_tick tx ask ?asked"
    using key_step [OF assms(5)] a by (simp add: case_prod_beta Let_def)
  have listed: "list_all (\<lambda>t. still_listed (view_id v) (mt_tick_answers t)) idles" using assms(8) by simp
  have "asking m (view_id v) (fst (bm_tick tx ask ?asked))"
    using tick_asking a assms(8) by simp
  from idle_run [OF this assms(7) listed, of tx] obtain app' sent where run: "asking m (view_id v) app'" "posts sent = []"
    "\<forall>turns. bm_run tx (idles @ turns) (fst (bm_tick tx ask ?asked)) =
       (let (app'', sent') = bm_run tx turns app' in (app'', sent @ sent'))" by blast
  have "answer \<noteq> KeyChar ''c''" using assms(10) by (auto simp: confirms_def)
  from key_step [OF assms(9) this] have "posts (snd (bm_step tx yes app')) =
      [if m = ConfirmDrain then drain_request (view_id v) else disable_request (view_id v) True]"
    using confirmed_request [OF run(1) assms(10)] a by (simp add: case_prod_beta Let_def)
  moreover have "\<not> bm_quit app'" using run(1) by (simp add: asking_def)
  ultimately show ?thesis using assms(4) step run(2,3) by (simp add: case_prod_beta Let_def)
qed

subsection \<open>Concrete sessions\<close>

definition demo_view :: "string \<Rightarrow> BackendView" where
  "demo_view i = \<lparr>view_id = i, view_url = ''http://10.0.0.1:1234'', view_mode = Active, view_state = ShownReady,
     view_readiness = Ready, view_telemetry = Fresh, view_circuit = CircuitClosed, view_eligible = True,
     view_proxy_active = 0, view_oldest_proxy_request_ms = None, view_running = Some 0, view_waiting = Some 0,
     view_reported_capacity = None, view_configured_capacity = None, view_effective_capacity = Some 8,
     view_capacity_mismatch = False, view_kv_ratio = None, view_token_rate = None, view_prefill_token_rate = None,
     view_decode_token_rate = None, view_pressure = None, view_metrics_age_ms = None, view_readiness_age_ms = None,
     view_metrics_error = None, view_readiness_error = None\<rparr>"

definition demo_list :: "string list \<Rightarrow> BackendListResponse" where
  "demo_list ids = \<lparr>list_runtime_revision = 3, list_routing_policy = ''least_pressure_v1'',
     list_backends_of = map demo_view ids\<rparr>"

definition demo_answers :: "string list \<Rightarrow> client_answers" where
  "demo_answers ids =
     (let refused = client_error ''refused'' in
      \<lparr>ca_list = Inr (demo_list ids), ca_status = (\<lambda>_. Inl refused), ca_drain = (\<lambda>_. Inr demo_started),
       ca_activate = (\<lambda>_. Inl refused), ca_disable = (\<lambda>_ _. Inl refused), ca_reload = Inl refused\<rparr>)"

definition demo_press :: "nat \<Rightarrow> string option \<Rightarrow> string list \<Rightarrow> bm_turn" where
  "demo_press second key ids =
     \<lparr>mt_event = map_option (\<lambda>c. KeyEvent True False (KeyChar c)) key, mt_answers = demo_answers ids,
      mt_now = second * 1000000000, mt_tick = second * 1000000000, mt_tick_answers = demo_answers ids,
      mt_refreshed = second * 1000000000\<rparr>"

lemmas demo_session = demo_press_def demo_answers_def demo_list_def demo_view_def demo_started_def Let_def

definition demo_manager :: BackendApp where
  "demo_manager = backend_app_new 0 (demo_list [''gpu-1'', ''gpu-2''])"

lemma demo_manager_selected: "selected_backend demo_manager = Some (demo_view ''gpu-1'')"
  by (simp add: demo_manager_def backend_app_new_def selected_backend_def bm_backends_def demo_list_def)

theorem manager_selection_valid_witness:
  "\<exists>app sent. backend_manage demo_texts True (demo_answers [''gpu-1'', ''gpu-2'']) 0
       [demo_press 1 (Some ''j'') [''gpu-2'']] = Inr (app, sent) \<and> selected_backend app \<noteq> None"
proof -
  obtain app sent where run: "backend_manage demo_texts True (demo_answers [''gpu-1'', ''gpu-2'']) 0
       [demo_press 1 (Some ''j'') [''gpu-2'']] = Inr (app, sent)" and backends: "bm_backends app \<noteq> []"
    by (simp add: backend_manage_def demo_session bm_step_def bm_handle_def bm_browse_def bm_tick_def
        backend_app_new_def bm_refresh_def bm_backends_def REFRESH_INTERVAL_def saturating_duration_since_def)
  from manager_selection_valid [OF run] backends have "selected_backend app \<noteq> None" by simp
  with run show ?thesis by blast
qed

theorem confirmation_reaches_asked_witness:
  "posts (snd (bm_run demo_texts [demo_press 1 (Some ''d'') [''gpu-2'', ''gpu-1''],
      demo_press 2 None [''gpu-1''], demo_press 3 (Some ''y'') [''gpu-1'']] demo_manager)) = [drain_request ''gpu-1'']"
proof -
  have "bm_mode demo_manager = ManagerBrowse" "\<not> bm_show_help demo_manager" "\<not> bm_quit demo_manager"
    by (simp_all add: demo_manager_def backend_app_new_def)
  moreover have "mt_event (demo_press 1 (Some ''d'') [''gpu-2'', ''gpu-1'']) = Some (KeyEvent True False (KeyChar ''d''))"
    "mt_event (demo_press 3 (Some ''y'') [''gpu-1'']) = Some (KeyEvent True False (KeyChar ''y''))"
    by (simp_all add: demo_press_def)
  moreover have "asks (KeyChar ''d'') (demo_view ''gpu-1'') = Some ConfirmDrain" "confirms (KeyChar ''y'')"
    by (simp_all add: asks_def demo_view_def confirms_def)
  moreover have "list_all idle_turn [demo_press 2 None [''gpu-1'']]" by (simp add: idle_turn_def demo_press_def)
  moreover have "list_all (\<lambda>t. still_listed (view_id (demo_view ''gpu-1'')) (mt_tick_answers t))
      [demo_press 1 (Some ''d'') [''gpu-2'', ''gpu-1''], demo_press 2 None [''gpu-1'']]"
    by (simp add: still_listed_def demo_session)
  ultimately have "posts (snd (bm_run demo_texts (demo_press 1 (Some ''d'') [''gpu-2'', ''gpu-1''] #
      [demo_press 2 None [''gpu-1'']] @ [demo_press 3 (Some ''y'') [''gpu-1'']]) demo_manager)) =
      [if ConfirmDrain = ConfirmDrain then drain_request (view_id (demo_view ''gpu-1''))
       else disable_request (view_id (demo_view ''gpu-1'')) True]"
    by (intro confirmation_reaches_asked [OF demo_manager_selected])
  then show ?thesis by (simp add: demo_view_def)
qed

text \<open>
  A confirmation may reach a backend the operator was never asked about: when the periodic
  refresh between the question and the answer drops the backend from the list, the selection
  moves to another row, the question stays open, and the answer drains that other backend.
\<close>

theorem confirmation_after_removal:
  "\<exists>turns app. app = fst (bm_run demo_texts (take 1 turns) demo_manager) \<and>
     bm_status app = ''Drain gpu-1? It will stop receiving new requests immediately. y / n'' \<and>
     posts (snd (bm_run demo_texts turns demo_manager)) = [drain_request ''gpu-2'']"
proof -
  let ?turns = "[demo_press 1 (Some ''d'') [''gpu-2''], demo_press 1 (Some ''y'') [''gpu-2'']]"
  note defs = demo_manager_def demo_session bm_step_def bm_handle_def bm_browse_def bm_tick_def ask_drain_def
    backend_app_new_def bm_refresh_def bm_backends_def selected_backend_def REFRESH_INTERVAL_def
    saturating_duration_since_def bm_start_drain_def bm_done_def confirms_def
  have "bm_status (fst (bm_run demo_texts (take 1 ?turns) demo_manager)) =
      ''Drain gpu-1? It will stop receiving new requests immediately. y / n''" by (simp add: defs)
  moreover have "posts (snd (bm_run demo_texts ?turns demo_manager)) = [drain_request ''gpu-2'']"
    by (simp add: defs)
  ultimately show ?thesis
    by (intro exI [of _ ?turns] exI [of _ "fst (bm_run demo_texts (take 1 ?turns) demo_manager)"]) simp
qed

end
