(* ===== verification/Log_Explorer.thy ===== *)
theory Log_Explorer
  imports Log_Report Terminal
begin

text \<open>
  The interactive log explorer (\<open>src/src/logs/tui.rs\<close>): a state machine over the keys the
  operator presses and the polls of the log it follows, and the texts of its views. The
  layout of the screen, colours of fixed parts and the drawing of widgets are presentation.
  \<open>show_io\<close> writes a file error.
\<close>

subsection \<open>State\<close>

datatype View = Users | SummaryView | Backends | Requests

definition all_views :: "View list" where
  "all_views = [Users, SummaryView, Backends, Requests]"

fun view_title :: "View \<Rightarrow> string" where
  "view_title Users = ''Users''"
| "view_title SummaryView = ''Summary''"
| "view_title Backends = ''Backends''"
| "view_title Requests = ''Requests''"

fun next_view :: "View \<Rightarrow> View" where
  "next_view Users = SummaryView"
| "next_view SummaryView = Backends"
| "next_view Backends = Requests"
| "next_view Requests = Users"

record Explorer =
  ex_path :: string
  ex_tail :: Tail
  ex_records :: "LogRecord list"
  ex_summary :: Summary
  ex_view :: View
  ex_selected :: nat
  ex_selected_id :: "string option"
  ex_needle :: string
  ex_editing_filter :: bool
  ex_errors_only :: bool
  ex_user_selected :: nat
  ex_principal :: "string option"
  ex_table_scroll :: u16
  ex_status :: string
  ex_quit :: bool

definition explorer_new :: "string \<Rightarrow> Tail \<Rightarrow> LogRecord list \<Rightarrow> Explorer" where
  "explorer_new path tail records =
     \<lparr>ex_path = path, ex_tail = tail, ex_records = records, ex_summary = summarize records, ex_view = Users,
      ex_selected = 0, ex_selected_id = None, ex_needle = [], ex_editing_filter = False, ex_errors_only = False,
      ex_user_selected = 0, ex_principal = None, ex_table_scroll = 0,
      ex_status = ''Loaded '' @ count_text (length records) @ '' records'', ex_quit = False\<rparr>"

text \<open>The filtered records, newest first.\<close>

definition visible :: "Explorer \<Rightarrow> LogRecord list" where
  "visible app =
     (let found = filter_records (ex_records app) (ex_needle app) (ex_errors_only app) in
      rev (case ex_principal app of
          None \<Rightarrow> found
        | Some chosen \<Rightarrow> filter (\<lambda>r. principal_bucket (sm_openwebui_keys (ex_summary app)) r = chosen) found))"

definition last_index :: "'a list \<Rightarrow> nat" where
  "last_index xs = length xs - 1"

definition select_row :: "nat \<Rightarrow> Explorer \<Rightarrow> Explorer" where
  "select_row index app =
     (let rows = visible app; selected = min index (last_index rows) in
      app\<lparr>ex_selected := selected,
          ex_selected_id := (if selected < length rows then Some (lr_request_id (rows ! selected)) else None)\<rparr>)"

definition resolve_selection :: "Explorer \<Rightarrow> Explorer" where
  "resolve_selection app =
     (case ex_selected_id app of
        None \<Rightarrow> app\<lparr>ex_selected := 0\<rparr>
      | Some i \<Rightarrow>
          app\<lparr>ex_selected := (case position (\<lambda>r. lr_request_id r = i) (visible app) of Some k \<Rightarrow> k | None \<Rightarrow> 0)\<rparr>)"

definition explorer_refresh ::
  "(string \<Rightarrow> LogRecord option) \<Rightarrow> (log_io_error \<Rightarrow> string) \<Rightarrow> tail_io \<Rightarrow> Explorer \<Rightarrow> Explorer" where
  "explorer_refresh from_slice show_io io app0 =
     (let (result, tail) = poll from_slice io (ex_tail app0); app = app0\<lparr>ex_tail := tail\<rparr> in
      case result of
        Inl e \<Rightarrow> app\<lparr>ex_status := ''Could not read the log: '' @ show_io e\<rparr>
      | Inr appended \<Rightarrow>
          (let app1 = (if ap_restarted appended
                 then app\<lparr>ex_records := [], ex_status := ''Log file shrank; reread from the start.''\<rparr> else app) in
           if ap_restarted appended \<or> ap_records appended \<noteq> []
           then
             (let records = ex_records app1 @ ap_records appended; summary = summarize records in
              resolve_selection
                (app1\<lparr>ex_records := records, ex_summary := summary,
                      ex_user_selected := min (ex_user_selected app1) (last_index (sm_by_principal summary))\<rparr>))
           else app1))"

subsection \<open>Keys\<close>

text \<open>\<open>String::pop\<close>: the last character is its last byte that continues none, with what follows.\<close>

definition pop_char :: "string \<Rightarrow> string" where
  "pop_char s = rev (drop 1 (dropWhile (\<lambda>c. continuation (byte c)) (rev s)))"

text \<open>
  \<open>{:?}\<close> of a string: quotes, the escapes of ASCII control characters, of a quote and of a
  backslash; the characters beyond ASCII that the operator types are printable and stay.
\<close>

definition debug_hex :: "nat \<Rightarrow> char" where
  "debug_hex n = char_of (if n < 10 then 48 + n else 87 + n)"

definition debug_char :: "char \<Rightarrow> string" where
  "debug_char c =
     (let n = byte c in
      if n = 0 then [CHR 0x5C, CHR ''0'']
      else if n = 9 then [CHR 0x5C, CHR ''t'']
      else if n = 10 then [CHR 0x5C, CHR ''n'']
      else if n = 13 then [CHR 0x5C, CHR ''r'']
      else if n = 34 \<or> n = 92 then [CHR 0x5C, c]
      else if n < 16 then [CHR 0x5C] @ ''u{'' @ [debug_hex n] @ ''}''
      else if n < 32 \<or> n = 127 then [CHR 0x5C] @ ''u{'' @ [debug_hex (n div 16), debug_hex (n mod 16)] @ ''}''
      else [c])"

definition debug_string :: "string \<Rightarrow> string" where
  "debug_string s = [CHR 0x22] @ concat (map debug_char s) @ [CHR 0x22]"

definition edit_filter :: "KeyCode \<Rightarrow> Explorer \<Rightarrow> Explorer" where
  "edit_filter code app =
     (case code of
        KeyChar c \<Rightarrow> select_row 0 (app\<lparr>ex_needle := ex_needle app @ c\<rparr>)
      | KeyBackspace \<Rightarrow> select_row 0 (app\<lparr>ex_needle := pop_char (ex_needle app)\<rparr>)
      | KeyEnter \<Rightarrow>
          select_row 0 (app\<lparr>ex_editing_filter := False,
            ex_status := (if ex_needle app = [] then ''Filter cleared.''
              else ''Filtering on '' @ debug_string (ex_needle app) @ ''.'')\<rparr>)
      | KeyEsc \<Rightarrow>
          select_row 0 (app\<lparr>ex_editing_filter := False, ex_needle := [], ex_status := ''Filter cleared.''\<rparr>)
      | _ \<Rightarrow> app)"

text \<open>The row a key moves to in a list whose last row is \<open>l\<close>.\<close>

definition moved_row :: "KeyCode \<Rightarrow> nat \<Rightarrow> nat \<Rightarrow> nat option" where
  "moved_row code row l =
     (if code = KeyUp \<or> code = KeyChar ''k'' then Some (row - 1)
      else if code = KeyDown \<or> code = KeyChar ''j'' then Some (min (row + 1) l)
      else if code = KeyPageUp then Some (row - 10)
      else if code = KeyPageDown then Some (min (row + 10) l)
      else if code = KeyHome \<or> code = KeyChar ''g'' then Some 0
      else if code = KeyEnd \<or> code = KeyChar ''G'' then Some l
      else None)"

text \<open>The keys of the Users view; \<open>None\<close>: the key goes on to the common ones.\<close>

definition users_key :: "KeyCode \<Rightarrow> Explorer \<Rightarrow> Explorer option" where
  "users_key code app =
     (let users = sm_by_principal (ex_summary app) in
      case moved_row code (ex_user_selected app) (last_index users) of
        Some index \<Rightarrow> Some (app\<lparr>ex_user_selected := index\<rparr>)
      | None \<Rightarrow>
          if code = KeyEnter
          then Some (if ex_user_selected app < length users
            then (let chosen = fst (users ! ex_user_selected app) in
              select_row 0 (app\<lparr>ex_status := ''Requests for '' @ chosen @ ''; Esc shows everyone.'',
                ex_principal := Some chosen, ex_view := Requests\<rparr>))
            else app)
          else None)"

definition common_key ::
  "(string \<Rightarrow> LogRecord option) \<Rightarrow> (log_io_error \<Rightarrow> string) \<Rightarrow> tail_io \<Rightarrow> KeyCode \<Rightarrow> Explorer \<Rightarrow> Explorer" where
  "common_key from_slice show_io io code app =
     (if code = KeyTab then app\<lparr>ex_view := next_view (ex_view app)\<rparr>
      else if code = KeyLeft \<or> code = KeyChar ''h''
        then app\<lparr>ex_table_scroll := saturating_sub (ex_table_scroll app) SCROLL_STEP\<rparr>
      else if code = KeyRight \<or> code = KeyChar ''l''
        then app\<lparr>ex_table_scroll := saturating_add (ex_table_scroll app) SCROLL_STEP\<rparr>
      else if code = KeyChar ''1'' then app\<lparr>ex_view := Users\<rparr>
      else if code = KeyChar ''2'' then app\<lparr>ex_view := SummaryView\<rparr>
      else if code = KeyChar ''3'' then app\<lparr>ex_view := Backends\<rparr>
      else if code = KeyChar ''4'' then app\<lparr>ex_view := Requests\<rparr>
      else
        (case moved_row code (ex_selected app) (last_index (visible app)) of
           Some index \<Rightarrow> select_row index app
         | None \<Rightarrow>
             if code = KeyChar ''/''
             then app\<lparr>ex_editing_filter := True, ex_view := Requests,
                      ex_status := ''Type to filter; Enter to keep, Esc to clear.''\<rparr>
             else if code = KeyChar ''e''
             then select_row 0 (app\<lparr>ex_errors_only := \<not> ex_errors_only app, ex_view := Requests,
                      ex_status := (if \<not> ex_errors_only app then ''Showing errors and incomplete requests only.''
                        else ''Showing all requests.'')\<rparr>)
             else if code = KeyChar ''r''
             then (let app' = explorer_refresh from_slice show_io io app in
                   app'\<lparr>ex_status := count_text (length (ex_records app')) @ '' records''\<rparr>)
             else if code = KeyEsc \<and> ex_view app = Requests \<and> ex_principal app \<noteq> None
             then select_row 0 (app\<lparr>ex_principal := None, ex_status := ''Showing requests from everyone.''\<rparr>)
             else if code = KeyChar ''q'' \<or> code = KeyEsc then app\<lparr>ex_quit := True\<rparr>
             else app))"

definition explorer_handle ::
  "(string \<Rightarrow> LogRecord option) \<Rightarrow> (log_io_error \<Rightarrow> string) \<Rightarrow> tail_io \<Rightarrow> KeyCode \<Rightarrow> Explorer \<Rightarrow> Explorer" where
  "explorer_handle from_slice show_io io code app =
     (if ex_editing_filter app then edit_filter code app
      else
        (case (if ex_view app = Users then users_key code app else None) of
           Some app' \<Rightarrow> app'
         | None \<Rightarrow> common_key from_slice show_io io code app))"

text \<open>One turn of the loop: an event, or none within the refresh interval.\<close>

definition explorer_turn ::
  "(string \<Rightarrow> LogRecord option) \<Rightarrow> (log_io_error \<Rightarrow> string) \<Rightarrow> tail_io \<Rightarrow> term_event option \<Rightarrow> Explorer \<Rightarrow> Explorer" where
  "explorer_turn from_slice show_io io event app =
     (case event of
        None \<Rightarrow> explorer_refresh from_slice show_io io app
      | Some OtherEvent \<Rightarrow> app
      | Some (KeyEvent press control code) \<Rightarrow>
          if \<not> press then app
          else if control \<and> code = KeyChar ''c'' then app\<lparr>ex_quit := True\<rparr>
          else explorer_handle from_slice show_io io code app)"

fun explorer_loop ::
  "(string \<Rightarrow> LogRecord option) \<Rightarrow> (log_io_error \<Rightarrow> string) \<Rightarrow> (tail_io \<times> term_event option) list \<Rightarrow> Explorer \<Rightarrow> Explorer" where
  "explorer_loop from_slice show_io [] app = app"
| "explorer_loop from_slice show_io ((io, event) # turns) app =
     (if ex_quit app then app
      else explorer_loop from_slice show_io turns (explorer_turn from_slice show_io io event app))"

datatype explore_error = ExploreNeedsTerminal

definition explore ::
  "(string \<Rightarrow> LogRecord option) \<Rightarrow> (log_io_error \<Rightarrow> string) \<Rightarrow> bool \<Rightarrow> string \<Rightarrow> Tail \<Rightarrow> LogRecord list
    \<Rightarrow> (tail_io \<times> term_event option) list \<Rightarrow> explore_error + Explorer" where
  "explore from_slice show_io terminal path tail records turns =
     (if \<not> terminal then Inl ExploreNeedsTerminal
      else Inr (explorer_loop from_slice show_io turns (explorer_new path tail records)))"

subsection \<open>What is drawn\<close>

definition DOT :: string where
  "DOT = [CHR 0xC2, CHR 0xB7]"

definition plural :: "nat \<Rightarrow> string" where
  "plural n = (if n = 1 then [] else ''s'')"

definition explorer_title :: "Explorer \<Rightarrow> string" where
  "explorer_title app =
     '' mistralrs_proxy logs '' @ DOT @ '' '' @ count_text (length (ex_records app)) @ '' request'' @
     plural (length (ex_records app)) @
     (if tl_malformed (ex_tail app) > 0
      then '' '' @ DOT @ '' '' @ show_nat (unat (tl_malformed (ex_tail app))) @ '' unreadable'' else []) @
     '' '' @ DOT @ '' '' @ ex_path app @ '' ''"

definition filter_scope :: "Explorer \<Rightarrow> string" where
  "filter_scope app =
     (case (ex_needle app = [], ex_errors_only app) of
        (True, False) \<Rightarrow> []
      | (True, True) \<Rightarrow> ''  [errors only]''
      | (False, False) \<Rightarrow> ''  [/'' @ ex_needle app @ '']''
      | (False, True) \<Rightarrow> ''  [/'' @ ex_needle app @ '' + errors]'') @
     (case ex_principal app of None \<Rightarrow> [] | Some chosen \<Rightarrow> ''  ['' @ chosen @ '']'')"

definition explorer_help :: "Explorer \<Rightarrow> string" where
  "explorer_help app =
     (if ex_editing_filter app then ''filter: '' @ ex_needle app @ ''_''
      else ''tab views   '' @ [CHR 0xE2, CHR 0x86, CHR 0x91] @ ''/'' @ [CHR 0xE2, CHR 0x86, CHR 0x93] @ '' move   '' @
        [CHR 0xE2, CHR 0x86, CHR 0x90] @ ''/'' @ [CHR 0xE2, CHR 0x86, CHR 0x92] @ '' scroll'' @
        (if ex_view app = Users then ''   enter requests'' else []) @
        ''   / filter   e errors   r refresh   q quit'' @ filter_scope app)"

definition summary_view_lines :: "Summary \<Rightarrow> string list" where
  "summary_view_lines s =
     [''window   '' @ (case (sm_first_at s, sm_last_at s) of
          (Some first_at, Some last_at) \<Rightarrow> first_at @ ''  to  '' @ last_at | _ \<Rightarrow> ''no requests recorded yet''),
      ''requests '' @ count_text (sm_requests s) @ ''   authorized '' @ show_nat (sm_authorized s) @
        ''   rejected '' @ show_nat (sm_rejected s) @ ''   incomplete '' @ show_nat (sm_incomplete s),
      ''statuses 2xx '' @ show_nat (sm_successful s) @ ''   3xx '' @ show_nat (sm_redirected s) @
        ''   4xx '' @ show_nat (sm_client_errors s) @ ''   5xx '' @ show_nat (sm_server_errors s) @
        ''   none '' @ show_nat (sm_no_status s),
      ''tokens   '' @ thousands (sm_input_tokens s) @ '' in   '' @ thousands (sm_output_tokens s) @ '' out   '' @
        thousands (sm_input_tokens s + sm_output_tokens s) @ '' total'',
      ''cache    '' @ thousands (sm_cached_tokens s) @ '' cached   '' @
        (case cache_hit_pct s of None \<Rightarrow> ''-'' | Some pct \<Rightarrow> format_fixed 1 pct @ ''%'') @ '' of input   '' @
        thousands (sm_prefilled_tokens s) @ '' prefilled'',
      ''shape    '' @ count_text (sm_streaming s) @ '' streaming   '' @ count_text (sm_non_streaming s) @
        '' non-streaming'']"

definition path_cells :: "string \<times> PathTotals \<Rightarrow> string list" where
  "path_cells = (\<lambda>(name, t). [truncate_text name 22, count_text (pt_requests t), thousands (pt_input_tokens t),
     thousands (pt_cached_tokens t), thousands (pt_prefilled_tokens t), thousands (pt_output_tokens t),
     show_nat (pt_errors t)])"

definition user_cells :: "string \<times> KeyTotals \<Rightarrow> string list" where
  "user_cells = (\<lambda>(name, t). [truncate_text name 22, count_text (kt_requests t), thousands (kt_input_tokens t),
     thousands (kt_cached_tokens t), thousands (kt_prefilled_tokens t), thousands (kt_output_tokens t),
     show_nat (kt_errors t)])"

definition routed_requests :: "Summary \<Rightarrow> nat" where
  "routed_requests s = sum_list (map (\<lambda>(_, t). bt_requests t) (sm_by_backend s))"

definition routed_line :: "Summary \<Rightarrow> string" where
  "routed_line s =
     ''routed   '' @ count_text (routed_requests s) @ '' request'' @ plural (routed_requests s) @ '' across '' @
     show_nat (length (sm_by_backend s)) @ '' backend'' @ plural (length (sm_by_backend s))"

definition backend_cells :: "nat \<Rightarrow> string \<times> BackendTotals \<Rightarrow> string list" where
  "backend_cells n = (\<lambda>(name, t). [truncate_text name 23, count_text (bt_requests t),
     format_fixed 1 (request_share n (bt_requests t)) @ ''%'', thousands (bt_input_tokens t),
     thousands (bt_cached_tokens t), thousands (bt_prefilled_tokens t), thousands (bt_output_tokens t),
     show_nat (bt_errors t), distribution_p95 (bt_queue_ms t), distribution_p95 (bt_first_byte_ms t),
     distribution_p95 (bt_latency_ms t)])"

text \<open>The time of day of a timestamp: what follows the first \<open>T\<close>, without the zones at its end.\<close>

definition clock :: "string \<Rightarrow> string" where
  "clock stamp =
     (case position (\<lambda>c. c = CHR ''T'') stamp of
        Some i \<Rightarrow> rev (dropWhile (\<lambda>c. c = CHR ''Z'') (rev (drop (Suc i) stamp)))
      | None \<Rightarrow> stamp)"

definition tokens :: "u64 option \<Rightarrow> string" where
  "tokens v = (case v of None \<Rightarrow> ''-'' | Some n \<Rightarrow> thousands n)"

datatype StatusStyle = Plain | Cyan | YellowText | RedText | Magenta

definition status_style :: "LogRecord \<Rightarrow> StatusStyle" where
  "status_style r =
     (if \<not> lr_complete r then Magenta
      else
        (case lr_status r of
           None \<Rightarrow> Magenta
         | Some code \<Rightarrow>
             if code div 100 = 2 then Plain
             else if code div 100 = 3 then Cyan
             else if code div 100 = 4 then YellowText
             else RedText))"

definition or_dash :: "string option \<Rightarrow> string" where
  "or_dash s = (case s of None \<Rightarrow> ''-'' | Some t \<Rightarrow> t)"

definition request_cells :: "Summary \<Rightarrow> LogRecord \<Rightarrow> string list" where
  "request_cells s r =
     [clock (lr_started_at r), lr_method r, truncate_text (record_path r) 27,
      truncate_text (principal_bucket (sm_openwebui_keys s) r) 21, truncate_text (or_dash (lr_backend_id r)) 15,
      (case lr_status r of None \<Rightarrow> ''---'' | Some code \<Rightarrow> show_nat code),
      show_duration (lr_duration_ms r), tokens (lr_input_tokens r), tokens (lr_cached_tokens r),
      tokens (lr_output_tokens r)]"

text \<open>The lines of the selected record; \<open>None\<close>: a digest is cut inside a character.\<close>

definition detail_lines :: "LogRecord \<Rightarrow> string list option" where
  "detail_lines r =
     do {
       who \<leftarrow> record_principal r;
       digest \<leftarrow> (case lr_key_sha256 r of
           None \<Rightarrow> Some ''-''
         | Some digest \<Rightarrow>
             (let n = min 16 (length digest) in if is_char_boundary digest n then Some (take n digest) else None));
       Some
         [''id      '' @ lr_request_id r @ ''   started '' @ lr_started_at r,
          ''request '' @ lr_method r @ '' '' @ lr_uri r @ ''  '' @ lr_http_version r @ ''  from '' @ lr_client_ip r @
            '':'' @ show_nat (unat (lr_client_port r)),
          ''key     '' @ who @ (case lr_openwebui_chat_id r of None \<Rightarrow> [] | Some chat \<Rightarrow> ''  chat '' @ chat) @
            ''  digest '' @ digest @ ''  admin '' @
            (case lr_key_admin r of None \<Rightarrow> ''-'' | Some b \<Rightarrow> if b then ''true'' else ''false''),
          ''outcome '' @ (case lr_status r of None \<Rightarrow> ''no status'' | Some code \<Rightarrow> show_nat code) @ ''  '' @
            lr_termination r @ ''  '' @ or_dash (lr_auth_error r),
          ''tokens  '' @ tokens (lr_input_tokens r) @ '' in   '' @ tokens (lr_output_tokens r) @ '' out   '' @
            tokens (lr_total_tokens r) @ '' total   '' @
            (case (lr_cached_tokens r, lr_input_tokens r) of
               (Some cached, Some input) \<Rightarrow>
                 if input > 0
                 then show_nat (unat cached) @ '' cached ('' @ show_nat (unat (100 * cached div input)) @ ''% of input)''
                 else show_nat (unat cached) @ '' cached''
             | (Some cached, None) \<Rightarrow> show_nat (unat cached) @ '' cached''
             | (None, _) \<Rightarrow> ''no cache data''),
          ''timing  '' @ show_duration (lr_duration_ms r) @ '' total   first byte '' @
            (case lr_time_to_first_byte_ms r of None \<Rightarrow> ''-'' | Some ms \<Rightarrow> show_duration ms) @ ''   '' @
            (if lr_streaming r then ''streaming'' else ''non-streaming'') @ ''   '' @
            thousands (lr_response_bytes r) @ '' bytes out   '' @ tokens (lr_request_content_length r) @ '' bytes in'',
          ''routing '' @ or_dash (lr_backend_id r) @ '' via '' @ or_dash (lr_routing_policy r) @ '' ('' @
            or_dash (lr_routing_reason r) @ '')   eligible '' @
            (case lr_eligible_backend_count r of None \<Rightarrow> ''-'' | Some n \<Rightarrow> show_nat n) @ ''   pressure '' @
            (case lr_backend_pressure r of None \<Rightarrow> ''-'' | Some p \<Rightarrow> format_fixed 3 p) @ ''   queue '' @
            (case lr_proxy_queue_ms r of None \<Rightarrow> ''-'' | Some ms \<Rightarrow> show_duration ms),
          ''client  '' @ truncate_text (or_dash (lr_user_agent r)) 96]
     }"

text \<open>What the Requests view shows below its table; \<open>None\<close> as above.\<close>

definition request_detail :: "Explorer \<Rightarrow> string list option" where
  "request_detail app =
     (let rows = visible app; k = min (ex_selected app) (last_index rows) in
      if k < length rows then detail_lines (rows ! k) else Some [''no records match''])"

subsection \<open>The selection\<close>

text \<open>
  The selected rows exist, and while the record the operator chose is among the visible ones
  it is the selected one; the summary is the one of the records held.
\<close>

definition explorer_ok :: "Explorer \<Rightarrow> bool" where
  "explorer_ok app \<longleftrightarrow>
     ex_summary app = summarize (ex_records app) \<and>
     ex_selected app \<le> last_index (visible app) \<and>
     ex_user_selected app \<le> last_index (sm_by_principal (summarize (ex_records app))) \<and>
     (\<forall>i. ex_selected_id app = Some i \<and> i \<in> lr_request_id ` set (visible app) \<longrightarrow>
        lr_request_id (visible app ! ex_selected app) = i)"

lemma visible_cong:
  "ex_records a = ex_records b \<Longrightarrow> ex_needle a = ex_needle b \<Longrightarrow> ex_errors_only a = ex_errors_only b \<Longrightarrow>
   ex_principal a = ex_principal b \<Longrightarrow> ex_summary a = ex_summary b \<Longrightarrow> visible a = visible b"
  by (simp add: visible_def Let_def split: option.split)

lemma visible_fields [simp]:
  "visible (app\<lparr>ex_selected := k\<rparr>) = visible app" "visible (app\<lparr>ex_selected_id := i\<rparr>) = visible app"
  "visible (app\<lparr>ex_status := st\<rparr>) = visible app" "visible (app\<lparr>ex_view := v\<rparr>) = visible app"
  "visible (app\<lparr>ex_quit := q\<rparr>) = visible app" "visible (app\<lparr>ex_table_scroll := c\<rparr>) = visible app"
  "visible (app\<lparr>ex_user_selected := u\<rparr>) = visible app" "visible (app\<lparr>ex_editing_filter := e\<rparr>) = visible app"
  "visible (app\<lparr>ex_tail := t\<rparr>) = visible app"
  by (rule visible_cong; simp)+

lemma explorer_ok_fields [simp]:
  "explorer_ok (app\<lparr>ex_status := st\<rparr>) = explorer_ok app" "explorer_ok (app\<lparr>ex_view := v\<rparr>) = explorer_ok app"
  "explorer_ok (app\<lparr>ex_quit := q\<rparr>) = explorer_ok app" "explorer_ok (app\<lparr>ex_table_scroll := c\<rparr>) = explorer_ok app"
  "explorer_ok (app\<lparr>ex_editing_filter := e\<rparr>) = explorer_ok app" "explorer_ok (app\<lparr>ex_tail := t\<rparr>) = explorer_ok app"
  by (simp_all add: explorer_ok_def)

text \<open>What a selection needs of the state it starts from.\<close>

definition summary_ok :: "Explorer \<Rightarrow> bool" where
  "summary_ok app \<longleftrightarrow> ex_summary app = summarize (ex_records app) \<and>
     ex_user_selected app \<le> last_index (sm_by_principal (summarize (ex_records app)))"

lemma explorer_ok_summary: "explorer_ok app \<Longrightarrow> summary_ok app"
  by (simp add: explorer_ok_def summary_ok_def)

lemma summary_ok_fields [simp]:
  "summary_ok (app\<lparr>ex_status := st\<rparr>) = summary_ok app" "summary_ok (app\<lparr>ex_view := v\<rparr>) = summary_ok app"
  "summary_ok (app\<lparr>ex_needle := n\<rparr>) = summary_ok app" "summary_ok (app\<lparr>ex_errors_only := e\<rparr>) = summary_ok app"
  "summary_ok (app\<lparr>ex_principal := p\<rparr>) = summary_ok app"
  "summary_ok (app\<lparr>ex_editing_filter := f\<rparr>) = summary_ok app"
  by (simp_all add: summary_ok_def)

lemma select_row_ok: "summary_ok app \<Longrightarrow> explorer_ok (select_row k app)"
  by (auto simp: select_row_def Let_def explorer_ok_def summary_ok_def)

lemma position_last: "position P xs = Some k \<Longrightarrow> k \<le> last_index xs"
  using position_Some [of P xs k] by (auto simp: last_index_def)

lemma resolve_selection_ok:
  assumes "summary_ok app"
  shows "explorer_ok (resolve_selection app)"
proof (cases "ex_selected_id app")
  case (Some i)
  show ?thesis
  proof (cases "position (\<lambda>r. lr_request_id r = i) (visible app)")
    case None
    moreover from None have "i \<notin> lr_request_id ` set (visible app)" by (auto simp: position_None)
    ultimately show ?thesis using assms Some
      by (simp add: resolve_selection_def explorer_ok_def summary_ok_def)
  next
    case (Some k)
    with assms \<open>ex_selected_id app = Some i\<close> position_last [OF Some] position_Some [OF Some] show ?thesis
      by (simp add: resolve_selection_def explorer_ok_def summary_ok_def)
  qed
qed (use assms in \<open>simp add: resolve_selection_def explorer_ok_def summary_ok_def\<close>)

lemma refresh_ok:
  assumes "explorer_ok app"
  shows "explorer_ok (explorer_refresh P show_io io app)"
proof (cases "poll P io (ex_tail app)")
  case (Pair result t)
  show ?thesis
  proof (cases result)
    case (Inl e)
    with Pair assms show ?thesis by (simp add: explorer_refresh_def)
  next
    case (Inr ap)
    have "summary_ok (app\<lparr>ex_tail := t, ex_records := rs, ex_status := st, ex_summary := summarize rs,
        ex_user_selected := min u (last_index (sm_by_principal (summarize rs)))\<rparr>)" for rs st u
      by (simp add: summary_ok_def)
    moreover have "summary_ok (app\<lparr>ex_tail := t, ex_records := rs, ex_summary := summarize rs,
        ex_user_selected := min u (last_index (sm_by_principal (summarize rs)))\<rparr>)" for rs u
      by (simp add: summary_ok_def)
    ultimately show ?thesis using Pair Inr assms
      by (auto simp: explorer_refresh_def Let_def intro!: resolve_selection_ok)
        (simp_all add: summary_ok_def)
  qed
qed

lemma moved_row_last: "moved_row code row l = Some k \<Longrightarrow> row \<le> l \<Longrightarrow> k \<le> l"
  by (auto simp: moved_row_def split: if_splits)

lemma edit_filter_ok: "explorer_ok app \<Longrightarrow> explorer_ok (edit_filter code app)"
  by (simp add: edit_filter_def select_row_ok explorer_ok_summary split: KeyCode.split)

lemma users_key_ok:
  assumes "explorer_ok app" and "users_key code app = Some app'"
  shows "explorer_ok app'"
proof (cases "moved_row code (ex_user_selected app) (last_index (sm_by_principal (ex_summary app)))")
  case None
  with assms show ?thesis
    by (auto simp: users_key_def Let_def intro!: select_row_ok dest: explorer_ok_summary split: if_splits)
next
  case (Some k)
  with assms moved_row_last [OF Some] show ?thesis
    by (auto simp: users_key_def Let_def explorer_ok_def)
qed

lemma common_key_ok:
  assumes "explorer_ok app"
  shows "explorer_ok (common_key P show_io io code app)"
  unfolding common_key_def Let_def
  by (simp add: assms explorer_ok_summary refresh_ok select_row_ok split: option.split)

lemma turn_ok: "explorer_ok app \<Longrightarrow> explorer_ok (explorer_turn P show_io io event app)"
  by (auto simp: explorer_turn_def explorer_handle_def refresh_ok edit_filter_ok common_key_ok users_key_ok
      split: option.split term_event.split if_splits)

lemma explorer_new_ok: "explorer_ok (explorer_new path t rs)"
  by (simp add: explorer_new_def explorer_ok_def)

lemma loop_ok: "explorer_ok app \<Longrightarrow> explorer_ok (explorer_loop P show_io turns app)"
  by (induction P show_io turns app rule: explorer_loop.induct) (simp_all add: turn_ok)


subsection \<open>The explorer and the log\<close>

text \<open>A poll that does not disturb the reader, or fails before it reads.\<close>

definition calm_poll :: "(string \<Rightarrow> LogRecord option) \<Rightarrow> tail_io \<Rightarrow> Explorer \<Rightarrow> bool" where
  "calm_poll P io app \<longleftrightarrow>
     (\<forall>c. tracks P (ex_tail app) (ex_records app) c \<longrightarrow>
        (case fst (poll P io (ex_tail app)) of
           Inr _ \<Rightarrow> undisturbed io (ex_tail app) c
         | Inl _ \<Rightarrow> ti_fail io StatLength = None \<and> ti_fail io ReadFile = None))"

inductive explorer_run :: "(string \<Rightarrow> LogRecord option) \<Rightarrow> (log_io_error \<Rightarrow> string) \<Rightarrow> Explorer \<Rightarrow> bool" for P show_io where
  opened: "logs_run P io exists out path False = Inr (LogsExplore t rs) \<Longrightarrow> undisturbed io tail_new [] \<Longrightarrow>
    explorer_run P show_io (explorer_new path t rs)"
| turn: "explorer_run P show_io app \<Longrightarrow> \<not> ex_quit app \<Longrightarrow> calm_poll P io app \<Longrightarrow>
    explorer_run P show_io (explorer_turn P show_io io event app)"

text \<open>The log the explorer holds: its tail with its records.\<close>

definition holds_log :: "(string \<Rightarrow> LogRecord option) \<Rightarrow> Explorer \<Rightarrow> bool" where
  "holds_log P app \<longleftrightarrow> (\<exists>c. tracks P (ex_tail app) (ex_records app) c)"

lemma holds_log_quit [simp]: "holds_log P (app\<lparr>ex_quit := q\<rparr>) = holds_log P app"
  by (simp add: holds_log_def)

lemma resolve_keeps [simp]:
  "ex_tail (resolve_selection app) = ex_tail app" "ex_records (resolve_selection app) = ex_records app"
  by (simp_all add: resolve_selection_def split: option.split)

lemma select_keeps [simp]:
  "ex_tail (select_row k app) = ex_tail app" "ex_records (select_row k app) = ex_records app"
  by (simp_all add: select_row_def Let_def)

lemma refresh_tail: "ex_tail (explorer_refresh P show_io io app) = snd (poll P io (ex_tail app))"
  by (simp add: explorer_refresh_def Let_def case_prod_beta split: sum.split)

lemma refresh_records:
  "ex_records (explorer_refresh P show_io io app) =
    (case fst (poll P io (ex_tail app)) of Inl _ \<Rightarrow> ex_records app | Inr ap \<Rightarrow> with_appended (ex_records app) ap)"
  by (simp add: explorer_refresh_def Let_def case_prod_beta with_appended_def split: sum.split)

lemma refresh_holds:
  assumes "holds_log P app" and "calm_poll P io app"
  shows "holds_log P (explorer_refresh P show_io io app)"
proof -
  obtain c where c: "tracks P (ex_tail app) (ex_records app) c" using assms(1) by (auto simp: holds_log_def)
  obtain result t where p: "poll P io (ex_tail app) = (result, t)" by fastforce
  show ?thesis
  proof (cases result)
    case (Inl e)
    with c p assms(2) have "ti_fail io StatLength = None" "ti_fail io ReadFile = None" by (auto simp: calm_poll_def)
    from failed_poll_keeps [OF p [unfolded Inl] this c] show ?thesis
      using p Inl by (auto simp: holds_log_def refresh_tail refresh_records)
  next
    case (Inr ap)
    with c p assms(2) have "undisturbed io (ex_tail app) c" by (auto simp: calm_poll_def)
    from poll_tracks [OF c this p [unfolded Inr]] show ?thesis
      using p Inr by (auto simp: holds_log_def refresh_tail refresh_records)
  qed
qed

lemma keys_hold:
  "holds_log P app \<Longrightarrow> holds_log P (edit_filter code app)"
  "holds_log P app \<Longrightarrow> users_key code app = Some app' \<Longrightarrow> holds_log P app'"
  by (auto simp: edit_filter_def users_key_def Let_def holds_log_def split: KeyCode.split option.splits if_splits)

lemma common_key_holds:
  assumes "holds_log P app" and "calm_poll P io app"
  shows "holds_log P (common_key P show_io io code app)"
proof -
  have refreshed: "holds_log P (explorer_refresh P show_io io app)" using refresh_holds [OF assms] .
  show ?thesis unfolding common_key_def Let_def
    using assms(1) refreshed by (simp add: holds_log_def split: option.split)
qed

lemma turn_holds:
  assumes "holds_log P app" and "calm_poll P io app"
  shows "holds_log P (explorer_turn P show_io io event app)"
  using assms(1)
  by (auto simp: explorer_turn_def explorer_handle_def refresh_holds [OF assms] keys_hold common_key_holds [OF assms]
      split: option.split term_event.split if_splits)

lemma opened_holds:
  assumes "logs_run P io exists out path False = Inr (LogsExplore t rs)" and "undisturbed io tail_new []"
  shows "holds_log P (explorer_new path t rs)"
proof -
  obtain ap where p: "poll P io tail_new = (Inr ap, t)" and rs: "rs = ap_records ap"
    using assms(1) by (auto simp: logs_run_def split: if_splits sum.splits prod.splits)
  from tail_run_tracks [OF tail_run.polled [OF tail_run.start assms(2) p]]
  have "tracks P t (ap_records ap) (seen io t)" by (simp add: with_appended_def split: if_splits)
  then show ?thesis unfolding rs by (auto simp: holds_log_def explorer_new_def)
qed

lemma run_holds: "explorer_run P show_io app \<Longrightarrow> holds_log P app \<and> explorer_ok app"
proof (induction rule: explorer_run.induct)
  case opened
  then show ?case using opened_holds explorer_new_ok by blast
next
  case turn
  then show ?case using turn_holds turn_ok by blast
qed

lemma visible_subseq: "subseq (rev (visible app)) (ex_records app)"
  unfolding visible_def Let_def rev_rev_ident filter_records_def
  by (auto intro: subseq_order.trans [OF subseq_filter_left] split: option.split)


definition demo_log_record :: "string \<Rightarrow> LogRecord" where
  "demo_log_record i =
     \<lparr>lr_request_id = i, lr_started_at = ''2026-01-01T00:00:00.000Z'', lr_started_at_unix_ms = 1000,
      lr_finished_at_unix_ms = 1010, lr_duration_ms = 10, lr_time_to_first_byte_ms = Some 2, lr_client_ip = ''127.0.0.1'',
      lr_client_port = 4711, lr_host = None, lr_user_agent = None, lr_method = ''POST'', lr_uri = ''/v1/chat/completions'',
      lr_http_version = ''HTTP/1.1'', lr_request_content_length = Some 12, lr_authorized = True, lr_auth_error = None,
      lr_key_name = Some ''ada'', lr_key_identifier = Some ''k1'', lr_key_sha256 = None, lr_key_admin = Some False,
      lr_openwebui_user_name = None, lr_openwebui_user_id = None, lr_openwebui_chat_id = None,
      lr_backend_id = Some ''gpu-1'', lr_routing_policy = None, lr_routing_reason = None,
      lr_eligible_backend_count = Some 1, lr_backend_pressure = None, lr_backend_running = None,
      lr_backend_waiting = None, lr_backend_capacity = None, lr_backend_kv_pressure = None,
      lr_backend_metrics_age_ms = None, lr_backend_proxy_active = None, lr_proxy_queue_ms = Some 0,
      lr_status = Some 200, lr_streaming = False, lr_response_bytes = 40, lr_input_tokens = Some 5,
      lr_output_tokens = Some 7, lr_total_tokens = Some 12, lr_cached_tokens = None, lr_complete = True,
      lr_termination = ''complete'', lr_error = None\<rparr>"

definition demo_decode :: "string \<Rightarrow> LogRecord option" where
  "demo_decode line = Some (demo_log_record line)"

definition demo_press_key :: "string \<Rightarrow> term_event option" where
  "demo_press_key c = Some (KeyEvent True False (KeyChar c))"



end
