(* ===== verification/Serve.thy ===== *)
theory Serve
  imports Control Auth Terminal
begin

text \<open>
  The process (\<open>src/src/main.rs\<close> and the command line of \<open>src/src/config.rs\<close>): dispatch of
  the commands, the two accept loops with their connections, the drain of the connections
  at shutdown, the order in which the tasks are stopped, and the guard of the control
  socket. What happens on a connection, and which branch of a \<open>select!\<close> is taken when several are ready, are
  events; the texts of errors of the runtime are arguments.
\<close>

subsection \<open>The command line\<close>

record KeysFile =
  keys_file :: string

record ControlSocket =
  control_socket :: string

record LogsArgs =
  logs_log_file :: string
  logs_summary :: bool

record ServeArgs =
  sa_keys :: KeysFile
  sa_listen_addr :: string
  sa_runtime_file :: string
  sa_control :: ControlSocket
  sa_backend_state_file :: string
  sa_connect_timeout_ms :: u64
  sa_log_file :: string
  sa_quiet :: bool

datatype KeyCommand = KeyCreate string bool KeysFile | KeyManage string KeysFile

datatype 'b Command = CommandServe ServeArgs | CommandKey KeyCommand | CommandBackend 'b | CommandLogs LogsArgs

definition default_keys :: KeysFile where
  "default_keys = \<lparr>keys_file = ''keys.json''\<rparr>"

definition default_socket :: ControlSocket where
  "default_socket = \<lparr>control_socket = ''control.sock''\<rparr>"

definition default_logs :: LogsArgs where
  "default_logs = \<lparr>logs_log_file = ''proxy.jsonl'', logs_summary = False\<rparr>"

definition default_serve :: ServeArgs where
  "default_serve =
     \<lparr>sa_keys = default_keys, sa_listen_addr = ''127.0.0.1:3000'', sa_runtime_file = ''runtime.toml'',
      sa_control = default_socket, sa_backend_state_file = ''backend-state.json'', sa_connect_timeout_ms = 5000,
      sa_log_file = ''proxy.jsonl'', sa_quiet = False\<rparr>"

text \<open>The ranges the parser of the command line enforces.\<close>

definition serve_args_ok :: "ServeArgs \<Rightarrow> bool" where
  "serve_args_ok args \<longleftrightarrow> 1 \<le> sa_connect_timeout_ms args"

definition operational_quiet :: "ServeArgs \<Rightarrow> bool" where
  "operational_quiet args \<longleftrightarrow> sa_quiet args \<or> sa_log_file args = ''-''"

datatype ExitCode = ExitSuccess | ExitFailure

definition main_exit :: "string + unit \<Rightarrow> ExitCode \<times> string list" where
  "main_exit result =
     (case result of
        Inr _ \<Rightarrow> (ExitSuccess, [])
      | Inl e \<Rightarrow> (ExitFailure, [''mistralrs_proxy: '' @ e]))"

definition main_dispatch ::
  "(ServeArgs \<Rightarrow> string + unit) \<Rightarrow> (string \<Rightarrow> string \<Rightarrow> bool \<Rightarrow> string + unit) \<Rightarrow> (string \<Rightarrow> string \<Rightarrow> string + unit)
    \<Rightarrow> ('b \<Rightarrow> string + unit) \<Rightarrow> (string \<Rightarrow> bool \<Rightarrow> string + unit) \<Rightarrow> 'b Command \<Rightarrow> ExitCode \<times> string list" where
  "main_dispatch serve create manage backend logs command =
     main_exit
       (case command of
          CommandServe args \<Rightarrow> serve args
        | CommandKey (KeyCreate name admin keys) \<Rightarrow> create (keys_file keys) name admin
        | CommandKey (KeyManage log_file keys) \<Rightarrow> manage (keys_file keys) log_file
        | CommandBackend c \<Rightarrow> backend c
        | CommandLogs args \<Rightarrow> logs (logs_log_file args) (logs_summary args))"

definition serve_load_keys ::
  "(string \<Rightarrow> KeyFile option) \<Rightarrow> (KeyFileError + IndexError \<Rightarrow> string) \<Rightarrow> bool \<Rightarrow> string \<Rightarrow> string option option
    \<Rightarrow> string + KeyStore" where
  "serve_load_keys from_json show_error exists path read =
     (if \<not> exists
      then Inl (''no key file at '' @ path @ ''. Run `mistralrs_proxy key create <name>` to create one.'')
      else map_sum show_error (\<lambda>store. store) (store_from_file from_json path read))"

subsection \<open>Connections\<close>

text \<open>
  The connection tasks of a server: running, ended by themselves and aborted, by number.
  \<open>abort_all\<close> followed by joining every task leaves none running.
\<close>

record server =
  sv_running :: "nat list"
  sv_ended :: "nat list"
  sv_aborted :: "nat list"

definition server_new :: server where
  "server_new = \<lparr>sv_running = [], sv_ended = [], sv_aborted = []\<rparr>"

definition abort_connections :: "server \<Rightarrow> server" where
  "abort_connections s = s\<lparr>sv_running := [], sv_aborted := sv_aborted s @ sv_running s\<rparr>"

definition connection_ended :: "nat \<Rightarrow> server \<Rightarrow> server" where
  "connection_ended i s = s\<lparr>sv_running := remove1 i (sv_running s), sv_ended := sv_ended s @ [i]\<rparr>"

text \<open>What the loops wait for; a task that is joined has ended or panicked.\<close>

datatype server_event =
    ShutdownSeen | Accepted nat | AcceptFailed string | Joined nat "string option" | GraceOver

text \<open>\<open>None\<close>: the drain still waits after the events.\<close>

fun drain_connections ::
  "string \<Rightarrow> bool \<Rightarrow> string \<Rightarrow> server_event list \<Rightarrow> server \<Rightarrow> ((string + unit) \<times> server \<times> string list) option" where
  "drain_connections name quiet grace events s =
     (if sv_running s = [] then Some (Inr (), s, [])
      else
        (case events of
           [] \<Rightarrow> None
         | Joined i failure # rest \<Rightarrow>
             if i \<notin> set (sv_running s) then drain_connections name quiet grace rest s
             else
               (case failure of
                  None \<Rightarrow> drain_connections name quiet grace rest (connection_ended i s)
                | Some e \<Rightarrow>
                    Some (Inl (name @ '' connection task failed during shutdown: '' @ e),
                      abort_connections (connection_ended i s), []))
         | GraceOver # rest \<Rightarrow>
             (let remaining = length (sv_running s) in
              Some (Inr (), abort_connections s,
                if quiet then []
                else [''WARN '' @ name @ '' server exceeded the '' @ grace @ ''s shutdown grace; aborting '' @
                  show_nat remaining @ '' remaining connection'' @ (if remaining = 1 then [] else ''s'')]))
         | _ # rest \<Rightarrow> drain_connections name quiet grace rest s))"

declare drain_connections.simps [simp del]

text \<open>The accept loop of both servers; a connection is numbered as it is accepted.\<close>

fun serve_loop ::
  "string \<Rightarrow> bool \<Rightarrow> string \<Rightarrow> server_event list \<Rightarrow> server \<Rightarrow> ((string + unit) \<times> server \<times> string list) option" where
  "serve_loop name quiet grace [] s = None"
| "serve_loop name quiet grace (event # events) s =
     (case event of
        ShutdownSeen \<Rightarrow> drain_connections name quiet grace events s
      | Accepted i \<Rightarrow> serve_loop name quiet grace events (s\<lparr>sv_running := sv_running s @ [i]\<rparr>)
      | AcceptFailed e \<Rightarrow> Some (Inl e, abort_connections s, [])
      | Joined i failure \<Rightarrow>
          if i \<notin> set (sv_running s) then serve_loop name quiet grace events s
          else
            (case failure of
               None \<Rightarrow> serve_loop name quiet grace events (connection_ended i s)
             | Some e \<Rightarrow>
                 Some (Inl (name @ '' connection task failed: '' @ e), abort_connections (connection_ended i s), []))
      | GraceOver \<Rightarrow> serve_loop name quiet grace events s)"

definition SERVER_SHUTDOWN_GRACE :: string where
  "SERVER_SHUTDOWN_GRACE = ''30''"

definition serve_public :: "bool \<Rightarrow> server_event list \<Rightarrow> ((string + unit) \<times> server \<times> string list) option" where
  "serve_public quiet events = serve_loop ''public'' quiet SERVER_SHUTDOWN_GRACE events server_new"

definition serve_control :: "bool \<Rightarrow> server_event list \<Rightarrow> ((string + unit) \<times> server \<times> string list) option" where
  "serve_control quiet events = serve_loop ''control'' quiet SERVER_SHUTDOWN_GRACE events server_new"

text \<open>The watch channel of the shutdown: its values in order, then the sender is gone.\<close>

fun wait_for_shutdown :: "bool list \<Rightarrow> nat" where
  "wait_for_shutdown [] = 0"
| "wait_for_shutdown (stop # later) = (if stop then 0 else Suc (wait_for_shutdown later))"

text \<open>
  The wait for a signal ends with the first that comes, with the lines it prints: when the
  handler of SIGTERM cannot be installed only Ctrl-C counts, and a failure to listen for
  Ctrl-C ends the wait as well.
\<close>

datatype process_signal = CtrlCResult "string + unit" | TerminateSignal

fun shutdown_signal :: "string + unit \<Rightarrow> process_signal list \<Rightarrow> string list option" where
  "shutdown_signal install [] = None"
| "shutdown_signal (Inr u) (TerminateSignal # signals) = Some []"
| "shutdown_signal (Inr u) (CtrlCResult (Inr v) # signals) = Some []"
| "shutdown_signal (Inr u) (CtrlCResult (Inl e) # signals) = Some [''could not install Ctrl-C handler: '' @ e]"
| "shutdown_signal (Inl e) (TerminateSignal # signals) = shutdown_signal (Inl e) signals"
| "shutdown_signal (Inl e) (CtrlCResult r # signals) = Some [''could not install SIGTERM handler: '' @ e]"

subsection \<open>Stopping\<close>

text \<open>How a task ended: it panicked or was cancelled, or it returned.\<close>

datatype task_result = JoinFailed string | Returned "string + unit"

datatype Stopped =
    StoppedSignal | StoppedPublic task_result | StoppedControl task_result
  | StoppedTelemetry task_result | StoppedReadiness task_result | StoppedLogger

definition flatten_server_result :: "task_result \<Rightarrow> string + unit" where
  "flatten_server_result r =
     (case r of
        Returned result \<Rightarrow> result
      | JoinFailed e \<Rightarrow> Inl (''server task stopped unexpectedly: '' @ e))"

definition unexpected_worker_stop :: "string \<Rightarrow> task_result \<Rightarrow> string + unit" where
  "unexpected_worker_stop name r =
     (case r of
        Returned (Inr _) \<Rightarrow> Inl (name @ '' worker stopped unexpectedly'')
      | Returned (Inl e) \<Rightarrow> Inl (name @ '' worker failed: '' @ e)
      | JoinFailed e \<Rightarrow> Inl (name @ '' worker failed: '' @ e))"

definition and_then :: "string + unit \<Rightarrow> string + unit \<Rightarrow> string + unit" where
  "and_then a b = (case a of Inl e \<Rightarrow> Inl e | Inr _ \<Rightarrow> b)"

text \<open>What is done to the tasks, in order.\<close>

datatype stop_action =
    SendShutdown | AwaitPublic | AwaitControl | AbortTelemetry | AbortReadiness | JoinLog

definition serve_result ::
  "Stopped \<Rightarrow> task_result \<Rightarrow> task_result \<Rightarrow> (string + unit) \<times> stop_action list" where
  "serve_result stopped public_end control_end =
     (let public = flatten_server_result public_end; control = flatten_server_result control_end in
      case stopped of
        StoppedSignal \<Rightarrow> (and_then public control, [AwaitPublic, AwaitControl])
      | StoppedPublic r \<Rightarrow> (and_then (flatten_server_result r) control, [AwaitControl])
      | StoppedControl r \<Rightarrow> (and_then (flatten_server_result r) public, [AwaitPublic])
      | StoppedTelemetry r \<Rightarrow>
          (and_then (and_then (unexpected_worker_stop ''telemetry'' r) public) control, [AwaitPublic, AwaitControl])
      | StoppedReadiness r \<Rightarrow>
          (and_then (and_then (unexpected_worker_stop ''readiness'' r) public) control, [AwaitPublic, AwaitControl])
      | StoppedLogger \<Rightarrow>
          (and_then (and_then (Inl ''audit log writer stopped; refusing to continue serving'') public) control,
           [AwaitPublic, AwaitControl]))"

text \<open>
  From the \<open>select!\<close> to the end of \<open>run\<close>; \<open>log_end\<close> is the result of joining the audit writer.
  The result comes with the actions and the lines printed.
\<close>

definition stop_serving ::
  "bool \<Rightarrow> Stopped \<Rightarrow> task_result \<Rightarrow> task_result \<Rightarrow> string + unit
    \<Rightarrow> (string + unit) \<times> stop_action list \<times> string list" where
  "stop_serving quiet stopped public_end control_end log_end =
     (let (served, awaited) = serve_result stopped public_end control_end;
          actions = [SendShutdown] @ awaited @
            (case stopped of StoppedTelemetry _ \<Rightarrow> [] | _ \<Rightarrow> [AbortTelemetry]) @
            (case stopped of StoppedReadiness _ \<Rightarrow> [] | _ \<Rightarrow> [AbortReadiness]) @ [JoinLog];
          warned = (case log_end of Inl e \<Rightarrow> [''WARN audit log did not shut down cleanly: '' @ e] | Inr _ \<Rightarrow> []);
          result = and_then served log_end in
      (result, actions,
       warned @ (if result = Inr () \<and> \<not> quiet then [''INFO proxy stopped''] else [])))"

subsection \<open>The guard of the control socket\<close>

text \<open>What \<open>symlink_metadata\<close> says of a path: whether it is a socket, device and inode.\<close>

type_synonym file_identity = "bool \<times> u64 \<times> u64"

record OwnedControlSocket =
  oc_path :: string
  oc_device :: u64
  oc_inode :: u64

definition owned_new :: "(string \<Rightarrow> file_identity option) \<Rightarrow> string \<Rightarrow> OwnedControlSocket option" where
  "owned_new fs path = map_option (\<lambda>(_, device, inode). \<lparr>oc_path = path, oc_device = device, oc_inode = inode\<rparr>) (fs path)"

definition owned_drop ::
  "OwnedControlSocket \<Rightarrow> (string \<Rightarrow> file_identity option) \<Rightarrow> (string \<Rightarrow> file_identity option)" where
  "owned_drop guard fs =
     (case fs (oc_path guard) of
        Some (is_socket, device, inode) \<Rightarrow>
          if is_socket \<and> device = oc_device guard \<and> inode = oc_inode guard then fs(oc_path guard := None) else fs
      | None \<Rightarrow> fs)"

subsection \<open>No connection is left\<close>

definition connections_of :: "server \<Rightarrow> nat multiset" where
  "connections_of s = mset (sv_running s) + mset (sv_ended s) + mset (sv_aborted s)"

lemma abort_connections_facts [simp]:
  "sv_running (abort_connections s) = []" "connections_of (abort_connections s) = connections_of s"
  "sv_aborted (abort_connections s) = sv_aborted s @ sv_running s"
  by (simp_all add: abort_connections_def connections_of_def)

lemma connection_ended_facts [simp]:
  "i \<in> set (sv_running s) \<Longrightarrow> connections_of (connection_ended i s) = connections_of s"
  "sv_aborted (connection_ended i s) = sv_aborted s"
  by (simp_all add: connection_ended_def connections_of_def)

definition accepted_ids :: "server_event list \<Rightarrow> nat list" where
  "accepted_ids events = List.map_filter (\<lambda>e. case e of Accepted i \<Rightarrow> Some i | _ \<Rightarrow> None) events"

lemma accepted_ids_simps [simp]:
  "accepted_ids [] = []" "accepted_ids (Accepted i # es) = i # accepted_ids es" "accepted_ids (ShutdownSeen # es) = accepted_ids es"
  "accepted_ids (AcceptFailed e # es) = accepted_ids es" "accepted_ids (Joined i f # es) = accepted_ids es"
  "accepted_ids (GraceOver # es) = accepted_ids es"
  by (simp_all add: accepted_ids_def map_filter_simps)

fun failure :: "server_event \<Rightarrow> bool" where
  "failure (AcceptFailed e) = True"
| "failure (Joined i (Some e)) = True"
| "failure _ = False"

lemma drain_idle [simp]: "sv_running s = [] \<Longrightarrow> drain_connections name quiet grace events s = Some (Inr (), s, [])"
  by (simp add: drain_connections.simps)

lemma drain_steps:
  assumes "sv_running s \<noteq> []"
  shows "drain_connections name quiet grace [] s = None"
    and "drain_connections name quiet grace (Joined i f # rest) s =
      (if i \<notin> set (sv_running s) then drain_connections name quiet grace rest s
       else (case f of
           None \<Rightarrow> drain_connections name quiet grace rest (connection_ended i s)
         | Some e \<Rightarrow> Some (Inl (name @ '' connection task failed during shutdown: '' @ e),
             abort_connections (connection_ended i s), [])))"
    and "\<exists>printed. drain_connections name quiet grace (GraceOver # rest) s = Some (Inr (), abort_connections s, printed)"
    and "drain_connections name quiet grace (ShutdownSeen # rest) s = drain_connections name quiet grace rest s"
    and "drain_connections name quiet grace (Accepted i # rest) s = drain_connections name quiet grace rest s"
    and "drain_connections name quiet grace (AcceptFailed e # rest) s = drain_connections name quiet grace rest s"
  using assms by (simp_all add: drain_connections.simps [of name quiet grace _ s] Let_def)

lemma drain_connections_facts:
  "drain_connections name quiet grace events s = Some (r, s', printed) \<Longrightarrow>
   sv_running s' = [] \<and> connections_of s' = connections_of s \<and>
   (r = Inr () \<longrightarrow> sv_aborted s' = sv_aborted s \<or> GraceOver \<in> set events) \<and>
   (r \<noteq> Inr () \<longrightarrow> list_ex failure events)"
proof (induction events arbitrary: s)
  case Nil
  then show ?case by (cases "sv_running s = []") (auto simp: drain_steps)
next
  case (Cons event rest)
  show ?case
  proof (cases "sv_running s = []")
    case False
    note steps = drain_steps [OF False]
    show ?thesis
    proof (cases event)
      case (Joined i f)
      then show ?thesis using Cons.prems Cons.IH [of s] Cons.IH [of "connection_ended i s"]
        by (cases f) (auto simp: steps split: if_splits)
    next
      case GraceOver
      then show ?thesis using Cons.prems steps(3) [of name quiet grace rest] by auto
    qed (use Cons.prems Cons.IH [of s] in \<open>auto simp: steps\<close>)
  qed (use Cons.prems in auto)
qed

lemma drain_connections_ends: "GraceOver \<in> set events \<Longrightarrow> drain_connections name quiet grace events s \<noteq> None"
proof (induction events arbitrary: s)
  case (Cons event rest)
  show ?case
  proof (cases "sv_running s = []")
    case False
    note steps = drain_steps [OF False]
    show ?thesis
    proof (cases event)
      case (Joined i f)
      with Cons show ?thesis by (cases f) (auto simp: steps(2))
    next
      case GraceOver
      then show ?thesis using steps(3) [of name quiet grace rest] by auto
    qed (use Cons in \<open>simp_all add: steps\<close>)
  qed simp
qed simp

lemma serve_loop_facts:
  "serve_loop name quiet grace events s = Some (r, s', printed) \<Longrightarrow>
   sv_running s' = [] \<and>
   (\<exists>k \<le> length events. connections_of s' = connections_of s + mset (accepted_ids (take k events))) \<and>
   (r = Inr () \<longrightarrow> sv_aborted s' = sv_aborted s \<or> GraceOver \<in> set (tl (dropWhile (\<lambda>e. e \<noteq> ShutdownSeen) events))) \<and>
   (r = Inr () \<longrightarrow> connections_of s' = connections_of s + mset (accepted_ids (takeWhile (\<lambda>e. e \<noteq> ShutdownSeen) events))) \<and>
   (r \<noteq> Inr () \<longrightarrow> list_ex failure events)"
proof (induction events arbitrary: s)
  case (Cons event events)
  have later: "\<exists>k \<le> length (event # events). connections_of t = connections_of s + mset (accepted_ids (take k (event # events)))"
    if "\<exists>k \<le> length events. connections_of t = connections_of s + mset (accepted_ids [event]) + mset (accepted_ids (take k events))" for t
  proof -
    from that obtain k where k: "k \<le> length events"
      "connections_of t = connections_of s + mset (accepted_ids [event]) + mset (accepted_ids (take k events))" by blast
    then show ?thesis by (intro exI [of _ "Suc k"]) (cases event; simp)
  qed
  have now: "\<exists>k \<le> length (event # events). connections_of s = connections_of s + mset (accepted_ids (take k (event # events)))"
    by (intro exI [of _ 0]) simp
  show ?case
  proof (cases event)
    case ShutdownSeen
    with Cons.prems drain_connections_facts [of name quiet grace events s r s' printed] now show ?thesis
      by auto
  next
    case (Accepted i)
    have "connections_of (s\<lparr>sv_running := sv_running s @ [i]\<rparr>) = connections_of s + mset (accepted_ids [event])"
      using Accepted by (simp add: connections_of_def)
    then show ?thesis using Cons.prems Accepted Cons.IH [of "s\<lparr>sv_running := sv_running s @ [i]\<rparr>"] later [of s']
      by auto
  next
    case (AcceptFailed e)
    then show ?thesis using Cons.prems now by auto
  next
    case (Joined i f)
    then show ?thesis using Cons.prems Cons.IH [of s] Cons.IH [of "connection_ended i s"] later [of s'] now
      by (cases f) (auto split: if_splits)
  next
    case GraceOver
    then show ?thesis using Cons.prems Cons.IH [of s] later [of s'] by auto
  qed
qed simp

lemma serve_loop_ends:
  "serve_loop name quiet grace (before @ ShutdownSeen # during @ GraceOver # later) s \<noteq> None"
proof (induction before arbitrary: s)
  case Nil
  show ?case using drain_connections_ends [of "during @ GraceOver # later"] by simp
next
  case (Cons event before)
  then show ?case
    by (cases event) (auto simp: drain_connections_ends split: option.split)
qed

text \<open>
  C40. A server that is told to stop does stop, and leaves no connection behind: once its grace
  period is over the accept loop and the drain have returned, whatever the connections do in
  any order; every connection it accepted has either ended by itself or was aborted, exactly
  once; unless an accept failed or a connection task panicked it returns normally.
\<close>

theorem server_stops:
  assumes "events = before @ ShutdownSeen # during @ GraceOver # later" and "ShutdownSeen \<notin> set before"
  shows "\<exists>r s printed. serve_loop name quiet grace events server_new = Some (r, s, printed) \<and>
    sv_running s = [] \<and>
    (\<exists>k \<le> length events. mset (sv_ended s @ sv_aborted s) = mset (accepted_ids (take k events))) \<and>
    (r = Inr () \<longrightarrow> mset (sv_ended s @ sv_aborted s) = mset (accepted_ids before)) \<and>
    (list_ex failure events \<or> r = Inr ())"
proof -
  have "takeWhile (\<lambda>e. e \<noteq> ShutdownSeen) (before @ ShutdownSeen # rest) = before" for rest
    using assms(2) by (induction before) auto
  then have before: "takeWhile (\<lambda>e. e \<noteq> ShutdownSeen) events = before" using assms(1) by simp
  obtain r s printed where run: "serve_loop name quiet grace events server_new = Some (r, s, printed)"
    using serve_loop_ends [of name quiet grace before during later server_new] assms(1) by auto
  from serve_loop_facts [OF run] before run show ?thesis
    by (intro exI [of _ r] exI [of _ s] exI [of _ printed]) (auto simp: connections_of_def server_new_def)
qed

theorem server_stops_witness:
  "\<exists>s printed. serve_loop ''public'' True ''30'' [Accepted 1, Accepted 2, ShutdownSeen, Joined 1 None, GraceOver]
      server_new = Some (Inr (), s, printed) \<and> sv_running s = [] \<and> mset (sv_ended s @ sv_aborted s) = {#1, 2#}"
proof -
  let ?events = "[Accepted 1, Accepted 2] @ ShutdownSeen # [Joined 1 None] @ GraceOver # []"
  obtain r s printed where "serve_loop ''public'' True ''30'' ?events server_new = Some (r, s, printed)"
    "sv_running s = []" "r = Inr () \<longrightarrow> mset (sv_ended s @ sv_aborted s) = mset (accepted_ids [Accepted 1, Accepted 2])"
    "list_ex failure ?events \<or> r = Inr ()"
    using server_stops [of ?events "[Accepted 1, Accepted 2]" "[Joined 1 None]" "[]" "''public''" True "''30''"]
    by auto
  then show ?thesis by simp
qed

text \<open>
  A failing accept stops the server: whatever the error, also one that concerns only the
  connection about to be accepted, it ends the accept loop and aborts every connection.
\<close>

theorem accept_failure_stops:
  "serve_loop name quiet grace (map Accepted ids @ [AcceptFailed e]) s =
    Some (Inl e, abort_connections (s\<lparr>sv_running := sv_running s @ ids\<rparr>), [])"
  by (induction ids arbitrary: s) simp_all

text \<open>
  Whatever stops the proxy, everything is stopped before it returns: the shutdown is sent
  first, each server task and each worker that did not end by itself is awaited or aborted
  once, the audit writer is joined last, also after failures, and the proxy reports
  success exactly when it was stopped by a signal or a server that returned normally and no
  task and not the audit writer failed.
\<close>

theorem everything_stopped:
  "let (r, actions, printed) = stop_serving quiet stopped public_end control_end log_end;
       ok = (\<lambda>t. flatten_server_result t = Inr ()) in
   hd actions = SendShutdown \<and> last actions = JoinLog \<and> distinct actions \<and>
   set actions = {SendShutdown, JoinLog} \<union>
     (case stopped of
        StoppedPublic _ \<Rightarrow> {AwaitControl, AbortTelemetry, AbortReadiness}
      | StoppedControl _ \<Rightarrow> {AwaitPublic, AbortTelemetry, AbortReadiness}
      | StoppedTelemetry _ \<Rightarrow> {AwaitPublic, AwaitControl, AbortReadiness}
      | StoppedReadiness _ \<Rightarrow> {AwaitPublic, AwaitControl, AbortTelemetry}
      | _ \<Rightarrow> {AwaitPublic, AwaitControl, AbortTelemetry, AbortReadiness}) \<and>
   (r = Inr () \<longleftrightarrow> log_end = Inr () \<and>
     (case stopped of
        StoppedSignal \<Rightarrow> ok public_end \<and> ok control_end
      | StoppedPublic t \<Rightarrow> ok t \<and> ok control_end
      | StoppedControl t \<Rightarrow> ok t \<and> ok public_end
      | _ \<Rightarrow> False))"
proof -
  have worker: "unexpected_worker_stop name t \<noteq> Inr ()" for name t
    by (auto simp: unexpected_worker_stop_def split: task_result.split sum.split)
  have ok: "and_then a b = Inr () \<longleftrightarrow> a = Inr () \<and> b = Inr ()" for a b
    by (auto simp: and_then_def split: sum.split)
  show ?thesis
    by (cases stopped) (auto simp: stop_serving_def serve_result_def Let_def ok worker)
qed

text \<open>
  The guard of the control socket removes the socket it was made for, and nothing else: a
  path that now names another file, or a file that is no socket, is left as it is.
\<close>

theorem guard_removes_own_socket:
  assumes "owned_new fs path = Some guard"
  shows "\<exists>own. fs path = Some own \<and>
    (\<forall>fs'. owned_drop guard fs' =
       (if \<exists>id. fs' path = Some (True, id) \<and> id = snd own then fs'(path := None) else fs'))"
proof -
  obtain socket device inode where own: "fs path = Some (socket, device, inode)"
    and guard: "guard = \<lparr>oc_path = path, oc_device = device, oc_inode = inode\<rparr>"
    using assms by (auto simp: owned_new_def)
  have "owned_drop guard fs' = (if \<exists>id. fs' path = Some (True, id) \<and> id = snd (socket, device, inode)
      then fs'(path := None) else fs')" for fs'
    unfolding guard by (auto simp: owned_drop_def split: option.split prod.split)
  then show ?thesis using own by blast
qed

end
