(* ===== verification/Spec2Isabelle.thy ===== *)
theory Spec2Isabelle
  imports Control Proxy Register Key_Manager Backend_Manager Log_Explorer Serve
begin

text \<open>
  \<^bold>\<open>A verification library for the mistralrs proxy\<close>

  The program (Rust, \<open>src/src\<close>) is a reverse proxy in front of a pool of inference engines.
  A request is authenticated against a key database, routed to the backend with the least
  pressure, forwarded, and its response streamed back while the token usage is read out of
  the bytes. An operator drains, disables, activates and reloads backends over a private
  socket; the modes survive a restart. Each request leaves a record in an audit log, which a
  second process summarises and follows; keys are issued and edited in a file.

  \<^bold>\<open>Parts and theories\<close>

  \<^item> \<open>Prelude\<close>: checked and saturating machine arithmetic, hash maps as association lists
    without duplicate keys (\<open>hget\<close>, \<open>hset\<close>, \<open>hdel\<close>), the fallible loop \<open>run_all\<close>.
    \<open>Rust_Strings\<close>: the string functions of the standard library that the code uses, on
    strings of bytes. \<open>Float64\<close>: binary64 values and round-to-nearest-even, with the
    \<open>rounding\<close> locale (monotone, exact on representable numbers) interpreted on it.

  \<^item> \<open>Backend_Slot\<close> and \<open>Backend_Registry\<close> (\<open>backend.rs\<close>): one slot with its mode, leases,
    counters and watch channel, then the registry and its reconciliation with a new
    configuration. Each method holds the slot's mutex throughout and is one function; threads
    are sequences of such calls (\<open>slot_run\<close>, \<open>lease_step\<close>). Shown: a drain waiter that
    succeeds is right and loses no wake-up, leases are accounted for, a drain completes,
    reconciliation implements a specification per backend.

  \<^item> \<open>Backend_State\<close> (\<open>backend_state.rs\<close>): the file of modes. A save is a sequence of system
    calls any of which may fail; shown is what a later load reads in each case.

  \<^item> \<open>Telemetry\<close> (\<open>telemetry.rs\<close>): the metrics parser and the pressure score in floating
    point; shown: exactness of what is parsed, bounds and monotonicity of the score with all
    its roundings.

  \<^item> \<open>Runtime_Config\<close> and \<open>Runtime\<close> (\<open>runtime.rs\<close>): validation of the runtime file; the state
    that publishes it, numbers the generations and applies a reload. Shown: exactly the valid
    files are accepted, a reload is all or nothing, modes are restored, a generation number
    names one set of endpoints for ever.

  \<^item> \<open>Live_Backend\<close> and \<open>Routing\<close> (\<open>routing.rs\<close>): probes, scrapes and circuit breaker of one
    backend; the router over all of them. \<open>select\<close> is split where it releases its lock: the
    argument \<open>env\<close> is what other threads do between two attempts. Shown: hysteresis of the
    readiness, meaning of the idle samples, a single trial in a half-open circuit, late results
    are discarded, selection takes the least pressure and never leaks a lease or a trial.

  \<^item> \<open>Control\<close> (\<open>control.rs\<close>, and the start in \<open>main.rs\<close>): the operations under the lifecycle
    lock, the drain task as turns of a schedule with interference (\<open>drive_look\<close>,
    \<open>drive_confirm\<close>, \<open>drive_drain\<close>), and \<open>control_run\<close>, every interleaving of operations,
    requests and worker results. Shown: memory and file agree on the modes, a certified drain
    is one, starting a drain is atomic, the guards of activate and disable, and that a drain
    whose backend is idle completes.

  \<^item> \<open>Keys\<close> (\<open>keys.rs\<close>) and \<open>Auth\<close> (\<open>auth.rs\<close>): the key file and its codec, minting, the
    constant-time lookup, authentication and registration. Shown: validation is exact and
    survives a save, a minted key reads back, the lookup is equivalent to a search, exactly
    the right requests pass, a registration is published and durable or did nothing.

  \<^item> \<open>Usage_Sniffer\<close> (\<open>usage.rs\<close>): the scanner; shown: bounded and free of panics on every
    byte stream, and it finds every usage object that fits.

  \<^item> \<open>Proxy\<close> (\<open>proxy.rs\<close>): the handler with admission, authentication and forwarding, the
    leased body as a machine over polls, header and URI rewriting. Shown: a lease is given
    back exactly once on every path, the upstream request is exact, a request reports one
    trace. \<open>Register\<close> (\<open>register.rs\<close>): the registration page and its guarded creation.

  \<^item> \<open>Timestamps\<close>, \<open>Logging\<close> and \<open>Audit_Log\<close> (\<open>logging.rs\<close>): the calendar, the sender with
    its permits, the guards and the writer thread, and every interleaving of requests and
    writer (\<open>audit_step\<close>, \<open>audit_reachable\<close>). Shown: the closed form of the calendar, the
    bounded channel never refuses an admitted request, one record per request.

  \<^item> \<open>Log_Tail\<close> and \<open>Log_Report\<close> (\<open>logs.rs\<close>): the incremental reader, whose system calls may
    each fail and meet a changed file system, and the report with its tables, distributions
    and lines. Shown: following the log is reading it whole, what a failed read loses, the
    tables partition the records (through the locale \<open>request_table\<close>), totals and percentiles
    are exact, grouped numbers read back, reader and writer name the same principal.

  \<^item> \<open>Terminal\<close> (\<open>render.rs\<close>), \<open>Log_Explorer\<close> (\<open>logs/tui.rs\<close>), \<open>Key_Manager\<close> (\<open>manage.rs\<close>),
    \<open>Backend_Client\<close> (\<open>backend_cli.rs\<close>) and \<open>Backend_Manager\<close> (\<open>backend_manage.rs\<close>): the
    operator's side. Each interface is a state machine: one function per key handler, one per
    turn, and the loop over a list of turns, which carry the key pressed, the answers of the
    server and the results of system calls. Shown: a scrolled table is a window of the table,
    the explorer shows the log it reads and keeps the selection, no session removes the last
    enabled administrator, the client's requests reach their handlers, waiting with a time
    limit ends, the table is aligned, and confirmations reach the backend asked about while
    it is listed (with the session in which they do not).

  \<^item> \<open>Serve\<close> (\<open>main.rs\<close>, \<open>config.rs\<close>): commands and defaults, the accept loops with their
    connections, the drain at shutdown and the order of stopping. Shown: a server told to stop
    stops and leaves no connection, every task is stopped and the audit writer joined last,
    the guard removes only its own socket.

  \<^item> This theory composes the writer with the reader: the report is about exactly the requests
    that were served.

  \<^bold>\<open>Conventions\<close>

  A function whose result is an \<open>option\<close> panics with \<open>None\<close> (an \<open>expect\<close>, an overflow of
  checked arithmetic, an index out of range) unless its \<open>None\<close> is the \<open>None\<close> of the source;
  theorems that say an operation succeeds have the room its counters need as a hypothesis.
  Fallible functions return \<open>'e + 'a\<close>. Integers are words of their width; \<open>usize\<close> is \<open>nat\<close>
  where the value is a length. Instants and durations are numbers of nanoseconds. Code outside
  the repository is a parameter: the URI type (\<open>uri_api\<close>), JSON codecs, SHA-256, base64, the
  random source, system calls that may fail. Loops are total functions over lists or over a
  schedule of turns, so no fuel is needed.

  The operator's sessions and the shutdown have turns too: a theorem about the end of a loop
  says how many turns are enough (the seconds of a time limit, the end of the grace period).

  \<^bold>\<open>Not modelled\<close>

  The HTTP transport (hyper, axum), the runtime's scheduler and timers, and the JSON, TOML and
  command-line parsers, which are libraries: their results are arguments. Of \<open>main.rs\<close>: creating
  the listeners, serving one connection and the start-up line. Of the terminal interfaces: the
  layout of widgets, fixed colours and failures of the terminal itself, which end the loop. The
  HTML page of the registration is data. Test modules are not modelled.
\<close>

section \<open>From the request to the report\<close>

text \<open>
  The log file as the writer leaves it: each record encoded on a line. The codec reads back
  what it wrote, and an encoded record is not blank and has no line feed.
\<close>

definition log_text_of :: "(RequestRecord \<Rightarrow> string) \<Rightarrow> RequestRecord list \<Rightarrow> string" where
  "log_text_of encode rs = concat (map (\<lambda>l. l @ [newline]) (map encode rs))"

definition log_codec :: "(RequestRecord \<Rightarrow> string) \<Rightarrow> (string \<Rightarrow> LogRecord option) \<Rightarrow> RequestRecord \<Rightarrow> bool" where
  "log_codec encode decode r \<longleftrightarrow> decode (encode r) = Some (read_back r) \<and>
     newline \<notin> set (encode r) \<and> \<not> list_all is_ascii_whitespace (encode r)"

lemma cut_whole: "\<forall>l \<in> set ls. newline \<notin> set l \<Longrightarrow> cut_lines (concat (map (\<lambda>l. l @ [newline]) ls)) = (ls, [])"
proof (induction ls)
  case (Cons l ls)
  then have "\<forall>c \<in> set l. c \<noteq> newline" by auto
  with Cons show ?case using cut_line [of l "concat (map (\<lambda>l. l @ [newline]) ls)"] by simp
qed simp

lemma decoded_lines:
  "\<forall>r \<in> set rs. log_codec encode decode r \<Longrightarrow> List.map_filter decode (map encode rs) = map read_back rs"
  by (induction rs) (simp_all add: log_codec_def map_filter_simps)

lemma records_of_log:
  assumes "\<forall>r \<in> set rs. log_codec encode decode r" and "prefix c (log_text_of encode rs)"
  shows "\<exists>n \<le> length rs. records_of decode c = map read_back (take n rs) \<and> (c = log_text_of encode rs \<longrightarrow> n = length rs)"
proof -
  have plain: "\<forall>l \<in> set (map encode rs). newline \<notin> set l" using assms(1) by (auto simp: log_codec_def)
  obtain n where n: "fst (cut_lines c) = take n (map encode rs)"
    using cut_beginning [OF assms(2) [unfolded log_text_of_def] plain] by blast
  have some: "records_of decode c = map read_back (take k rs)" if "fst (cut_lines c) = take k (map encode rs)" for k
  proof -
    have taken: "\<forall>r \<in> set (take k rs). log_codec encode decode r" using assms(1) by (auto dest: in_set_takeD)
    then have "log_lines c = map encode (take k rs)"
      unfolding log_lines_def that by (auto simp: take_map log_codec_def filter_id_conv)
    then show ?thesis using decoded_lines [OF taken] by (simp add: records_of_def)
  qed
  show ?thesis
  proof (cases "c = log_text_of encode rs")
    case True
    then have "fst (cut_lines c) = take (length rs) (map encode rs)"
      using cut_whole [OF plain] by (simp add: log_text_of_def)
    from some [OF this] show ?thesis by (intro exI [of _ "length rs"]) simp
  next
    case False
    have "fst (cut_lines c) = take (min n (length rs)) (map encode rs)" using n by (simp add: min_def)
    from some [OF this] False show ?thesis by (intro exI [of _ "min n (length rs)"]) simp
  qed
qed

lemma written_ids:
  assumes "audit_reachable T terminal_log slots s" and "tx_connected (as_log s)"
  shows "map rr_request_id (wr_records (as_writer s)) = map (show_id T \<circ> event_id) (filter is_finished (as_handled s))"
proof -
  have inv: "traces_ok s" "writer_ok T s"
    using audit_reachable_inv [OF assms(1)] assms(2) by (simp_all add: audit_inv_def)
  let ?E = "filter is_finished (as_handled s)"
  have "list_all2 (\<lambda>e r. rr_request_id r = show_id T (event_id e)) ?E
      (concat (map (\<lambda>e. own_record T (own (event_id e) (as_handled s))) ?E))"
  proof (rule concat_singletons)
    fix e assume "e \<in> set ?E"
    then show "\<exists>r. own_record T (own (event_id e) (as_handled s)) = [r] \<and> rr_request_id r = show_id T (event_id e)"
      using own_record_once [OF inv(1), of e T] by (fastforce simp: record_of_def Let_def split: prod.split)
  qed
  then have "list_all2 (\<lambda>e r. rr_request_id r = show_id T (event_id e)) ?E (wr_records (as_writer s))"
    using inv(2) by (simp add: writer_ok_def)
  then show ?thesis by (induction rule: list_all2_induct) simp_all
qed


lemma demo_followed:
  fixes r :: LogRecord
  shows "\<exists>t. tail_run (\<lambda>_. Some r) t [r] [CHR ''x'', newline]"
proof -
  let ?io = "demo_log_io [CHR ''x'', newline]"
  define t where "t = snd (poll (\<lambda>_. Some r) ?io tail_new)"
  have poll: "poll (\<lambda>_. Some r) ?io tail_new = (Inr \<lparr>ap_records = [r], ap_restarted = False\<rparr>, t)"
    by (simp add: t_def poll_def follow_replacement_def tail_new_def open_log_def demo_log_io_def reset_to_def
        read_appended_def consume_lines.simps newline_def is_ascii_whitespace_def byte_def Let_def)
  have "undisturbed ?io tail_new []" by (simp add: undisturbed_def tail_new_def demo_log_io_def)
  from tail_run.polled [OF tail_run.start this poll]
  have "tail_run (\<lambda>_. Some r) t [r] [CHR ''x'', newline]"
    by (simp add: with_appended_def seen_def t_def poll_def follow_replacement_def tail_new_def open_log_def
        demo_log_io_def reset_to_def read_appended_def consume_lines_spec Let_def)
  then show ?thesis by blast
qed


end
